(* ===== verification/Prelude.thy ===== *)
theory Prelude
  imports Main "HOL-Library.AList"
begin

text \<open>
  Shared vocabulary of the development: JavaScript results (a value or a thrown error),
  insertion-ordered objects as association lists, the list operations that the scripts
  perform by index, and the lemma collections the component theories extend.

  Conventions used throughout:
    \<^item> a call that may throw returns \<open>js_error + 'a\<close>: \<open>Inl e\<close> is the exception,
      \<open>Inr x\<close> the value;
    \<^item> a JavaScript object used as a dictionary is an association list in insertion order,
      which is the order in which \<open>for (k in obj)\<close> and \<open>$.each\<close> visit it: assigning to an
      existing key keeps its place (\<^const>\<open>AList.update\<close>), \<open>delete\<close> is \<^const>\<open>AList.delete\<close>;
    \<^item> \<open>===\<close> on the values of a model's type is HOL equality of that type.
\<close>

named_theorems js_simps \<open>unfolding of results and of the shared operations\<close>
named_theorems inv_intros \<open>operations that keep a component's invariant\<close>

datatype js_error =
    TypeError
  | RangeError
  | URIError
  | SyntaxError
  | Thrown string

type_synonym 'a res = "js_error + 'a"
type_synonym 'v obj = "(string \<times> 'v) list"

definition rbind :: "'a res \<Rightarrow> ('a \<Rightarrow> 'b res) \<Rightarrow> 'b res" where
  "rbind r f = (case r of Inl e \<Rightarrow> Inl e | Inr x \<Rightarrow> f x)"

lemma rbind_simps [simp]:
  "rbind (Inl e) f = Inl e"
  "rbind (Inr x) f = f x"
  by (simp_all add: rbind_def)

lemma rbind_Inr_iff: "rbind r f = Inr y \<longleftrightarrow> (\<exists>x. r = Inr x \<and> f x = Inr y)"
  by (cases r) auto

lemma rbind_cong [fundef_cong]:
  "r = r' \<Longrightarrow> (\<And>x. r' = Inr x \<Longrightarrow> f x = g x) \<Longrightarrow> rbind r f = rbind r' g"
  by (cases r') auto

text \<open>The first exception of a sequence of fallible steps stops it.\<close>

fun rfold :: "('x \<Rightarrow> 's \<Rightarrow> 's res) \<Rightarrow> 'x list \<Rightarrow> 's \<Rightarrow> 's res" where
  "rfold f [] s = Inr s"
| "rfold f (x # xs) s = rbind (f x s) (rfold f xs)"

lemma rfold_append: "rfold f (xs @ ys) s = rbind (rfold f xs s) (rfold f ys)"
  by (induction xs arbitrary: s) (auto simp: rbind_def split: sum.splits)

lemma rfold_total:
  assumes "\<And>x s. f x s = Inr (g x s)"
  shows "rfold f xs s = Inr (fold g xs s)"
  by (induction xs arbitrary: s) (simp_all add: assms)

fun rmap :: "('x \<Rightarrow> 'y res) \<Rightarrow> 'x list \<Rightarrow> 'y list res" where
  "rmap f [] = Inr []"
| "rmap f (x # xs) = rbind (f x) (\<lambda>y. rbind (rmap f xs) (\<lambda>ys. Inr (y # ys)))"

lemma rmap_total: "(\<And>x. x \<in> set xs \<Longrightarrow> f x = Inr (g x)) \<Longrightarrow> rmap f xs = Inr (map g xs)"
  by (induction xs) auto

lemma rmap_length: "rmap f xs = Inr ys \<Longrightarrow> length ys = length xs"
  by (induction xs arbitrary: ys) (auto simp: rbind_Inr_iff)

subsection \<open>Objects as insertion-ordered association lists\<close>

abbreviation oget :: "'v obj \<Rightarrow> string \<Rightarrow> 'v option" where
  "oget m k \<equiv> map_of m k"

abbreviation oset :: "string \<Rightarrow> 'v \<Rightarrow> 'v obj \<Rightarrow> 'v obj" where
  "oset k v m \<equiv> AList.update k v m"

abbreviation odel :: "string \<Rightarrow> 'v obj \<Rightarrow> 'v obj" where
  "odel k m \<equiv> AList.delete k m"

text \<open>\<open>$.extend(target, source)\<close> and \<open>ko.utils.extend\<close> on the own properties of \<open>source\<close>.\<close>

definition oextend :: "'v obj \<Rightarrow> 'v obj \<Rightarrow> 'v obj" where
  "oextend target source = fold (\<lambda>(k, v) m. oset k v m) source target"

lemma oget_oset: "oget (oset k v m) k' = (if k' = k then Some v else oget m k')"
  by (simp add: update_conv')

lemma oget_odel: "oget (odel k m) k' = (if k' = k then None else oget m k')"
  by (simp add: delete_conv')

lemma distinct_oset: "distinct (map fst m) \<Longrightarrow> distinct (map fst (oset k v m))"
  by (rule distinct_update)

lemma distinct_odel: "distinct (map fst m) \<Longrightarrow> distinct (map fst (odel k m))"
  by (rule distinct_delete)

lemma oextend_Nil [simp]: "oextend m [] = m"
  by (simp add: oextend_def)

lemma oextend_Cons [simp]: "oextend m ((k, v) # s) = oextend (oset k v m) s"
  by (simp add: oextend_def)

lemma distinct_oextend: "distinct (map fst m) \<Longrightarrow> distinct (map fst (oextend m s))"
proof (induction s arbitrary: m)
  case Nil
  then show ?case by simp
next
  case (Cons p s)
  then show ?case by (cases p) (simp add: distinct_update)
qed

lemma oget_oextend:
  assumes "distinct (map fst s)"
  shows "oget (oextend m s) k = (case oget s k of Some v \<Rightarrow> Some v | None \<Rightarrow> oget m k)"
  using assms
proof (induction s arbitrary: m)
  case Nil
  then show ?case by simp
next
  case (Cons p s)
  obtain a b where p: "p = (a, b)" by (cases p)
  have "oget s a = None" using Cons.prems p by (auto simp: map_of_eq_None_iff)
  then show ?case
    using Cons p by (auto simp: oget_oset split: option.splits)
qed

lemma fst_oset: "fst ` set (oset k v m) = insert k (fst ` set m)"
  by (simp add: dom_update)

subsection \<open>Lists accessed by index\<close>

text \<open>\<open>array.splice(i, 1)\<close> for an index inside the array.\<close>

definition remove_at :: "nat \<Rightarrow> 'a list \<Rightarrow> 'a list" where
  "remove_at i xs = take i xs @ drop (Suc i) xs"

lemma length_remove_at: "i < length xs \<Longrightarrow> length (remove_at i xs) = length xs - 1"
  by (simp add: remove_at_def)

lemma set_remove_at: "set (remove_at i xs) \<subseteq> set xs"
  by (auto simp: remove_at_def dest: in_set_takeD in_set_dropD)

lemma remove_at_append: "remove_at (length xs) (xs @ y # ys) = xs @ ys"
  by (simp add: remove_at_def)

lemma distinct_remove_at: "distinct xs \<Longrightarrow> distinct (remove_at d xs)"
  by (auto simp: remove_at_def set_take_disj_set_drop_if_distinct)

lemma remove_at_notin:
  assumes "distinct xs" "d < length xs"
  shows "x \<in> set (remove_at d xs) \<longleftrightarrow> x \<in> set xs \<and> x \<noteq> xs ! d"
proof -
  obtain ys y zs where xs: "xs = ys @ y # zs" "length ys = d"
    using that [OF id_take_nth_drop [OF assms(2)]] assms(2) by simp
  have "xs ! d = y" "remove_at d xs = ys @ zs"
    using xs by (auto simp: remove_at_def)
  then show ?thesis using assms(1) xs(1) by auto
qed

text \<open>An array read: \<open>undefined\<close> (\<^const>\<open>None\<close>) outside the array.\<close>

definition aget :: "'a list \<Rightarrow> nat \<Rightarrow> 'a option" where
  "aget xs i = (if i < length xs then Some (xs ! i) else None)"

lemma aget_Some_iff: "aget xs i = Some x \<longleftrightarrow> i < length xs \<and> xs ! i = x"
  by (auto simp: aget_def)

subsection \<open>Runs of a machine and their invariants\<close>

text \<open>
  Several components are machines driven by a sequence of calls. The interface below is
  interpreted on each of them: one preserved predicate gives it on every run.
\<close>

locale machine =
  fixes step :: "'e \<Rightarrow> 's \<Rightarrow> 's" and inv :: "'s \<Rightarrow> bool"
  assumes inv_step: "inv s \<Longrightarrow> inv (step e s)"
begin

lemma inv_run: "inv s \<Longrightarrow> inv (fold step es s)"
  by (induction es arbitrary: s) (auto intro: inv_step)

lemma inv_run_prefix: "inv s \<Longrightarrow> inv (fold step (take n es) s)"
  by (rule inv_run)

end

end
