(* ===== verification/JsString.thy ===== *)
theory JsString
  imports Prelude
begin

text \<open>
  The string operations of the JavaScript standard library that the scripts call. A string
  is the list of its code units, each below 256; text outside that range is outside the
  model, and the one library function that can produce it from text inside the range
  (\<open>decodeURIComponent\<close>) reports it as the exception \<^term>\<open>Thrown ''outside Latin-1''\<close>.
\<close>

subsection \<open>Character classes\<close>

definition digit_chars :: string where
  "digit_chars = ''0123456789''"

definition lower_chars :: string where
  "lower_chars = ''abcdefghijklmnopqrstuvwxyz''"

definition upper_chars :: string where
  "upper_chars = ''ABCDEFGHIJKLMNOPQRSTUVWXYZ''"

definition is_digit :: "char \<Rightarrow> bool" where
  "is_digit c \<longleftrightarrow> c \<in> set digit_chars"

text \<open>\<open>\w\<close>: letters, digits and the underscore.\<close>

definition is_word :: "char \<Rightarrow> bool" where
  "is_word c \<longleftrightarrow> c \<in> set digit_chars \<or> c \<in> set lower_chars \<or> c \<in> set upper_chars \<or> c = CHR ''_''"

text \<open>\<open>\s\<close> on code units below 256: tab, line feed, vertical tab, form feed, carriage
  return, space and no-break space.\<close>

definition space_chars :: string where
  "space_chars = [CHR 0x09, CHR 0x0A, CHR 0x0B, CHR 0x0C, CHR 0x0D, CHR 0x20, CHR 0xA0]"

definition is_space :: "char \<Rightarrow> bool" where
  "is_space c \<longleftrightarrow> c \<in> set space_chars"

text \<open>\<open>toLowerCase\<close> on Latin-1: the 26 letters, and the accented capitals from 0xC0 to 0xDE
  except the multiplication sign 0xD7.\<close>

definition to_lower_char :: "char \<Rightarrow> char" where
  "to_lower_char c =
     (let n = (of_char c :: nat)
      in if (65 \<le> n \<and> n \<le> 90) \<or> (192 \<le> n \<and> n \<le> 222 \<and> n \<noteq> 215) then char_of (n + 32) else c)"

definition to_lower :: "string \<Rightarrow> string" where
  "to_lower s = map to_lower_char s"

lemma length_to_lower [simp]: "length (to_lower s) = length s"
  by (simp add: to_lower_def)

lemma to_lower_append [simp]: "to_lower (s @ t) = to_lower s @ to_lower t"
  by (simp add: to_lower_def)

subsection \<open>Trimming, prefixes and suffixes\<close>

definition trim_with :: "(char \<Rightarrow> bool) \<Rightarrow> string \<Rightarrow> string" where
  "trim_with p s = rev (dropWhile p (rev (dropWhile p s)))"

definition js_trim :: "string \<Rightarrow> string" where
  "js_trim s = trim_with is_space s"

lemma trim_with_edges:
  assumes "trim_with p s \<noteq> []"
  shows "\<not> p (hd (trim_with p s))" and "\<not> p (last (trim_with p s))"
proof -
  let ?t = "dropWhile p s"
  have ne: "dropWhile p (rev ?t) \<noteq> []" using assms by (simp add: trim_with_def)
  have "last (trim_with p s) = hd (dropWhile p (rev ?t))"
    using ne by (simp add: trim_with_def last_rev)
  then show "\<not> p (last (trim_with p s))" using hd_dropWhile ne by metis
  obtain ys where ys: "rev ?t = ys @ dropWhile p (rev ?t)"
    by (metis takeWhile_dropWhile_id)
  then have t: "?t = rev (dropWhile p (rev ?t)) @ rev ys"
    by (metis rev_append rev_rev_ident)
  then have "hd ?t = hd (trim_with p s)"
    using ne by (metis hd_append2 rev_is_Nil_conv trim_with_def)
  moreover have "?t \<noteq> []" using ne by (cases "?t") simp_all
  then have "\<not> p (hd ?t)" by (rule hd_dropWhile)
  ultimately show "\<not> p (hd (trim_with p s))" by simp
qed

lemma trim_with_id: "s = [] \<or> (\<not> p (hd s) \<and> \<not> p (last s)) \<Longrightarrow> trim_with p s = s"
proof (cases s)
  case Nil
  then show ?thesis by (simp add: trim_with_def)
next
  case (Cons a t)
  assume a: "s = [] \<or> (\<not> p (hd s) \<and> \<not> p (last s))"
  have "dropWhile p s = s" using a Cons by simp
  moreover have "dropWhile p (rev s) = rev s"
    using a Cons by (simp add: dropWhile_eq_self_iff hd_rev del: rev.simps)
  ultimately show ?thesis by (simp add: trim_with_def)
qed

lemma trim_with_idem: "trim_with p (trim_with p s) = trim_with p s"
  using trim_with_edges trim_with_id by blast

definition starts_with :: "string \<Rightarrow> string \<Rightarrow> bool" where
  "starts_with p s \<longleftrightarrow> take (length p) s = p"

definition ends_with :: "string \<Rightarrow> string \<Rightarrow> bool" where
  "ends_with p s \<longleftrightarrow> length p \<le> length s \<and> drop (length s - length p) s = p"

lemma starts_with_append [simp]: "starts_with p (p @ s)"
  by (simp add: starts_with_def)

lemma starts_with_iff: "starts_with p s \<longleftrightarrow> (\<exists>t. s = p @ t)"
  by (auto simp: starts_with_def) (metis append_take_drop_id)

text \<open>\<open>s.indexOf(pat)\<close>: the first position where \<open>pat\<close> occurs, \<^const>\<open>None\<close> for -1.\<close>

fun str_index_from :: "nat \<Rightarrow> string \<Rightarrow> string \<Rightarrow> nat option" where
  "str_index_from i pat [] = (if pat = [] then Some i else None)"
| "str_index_from i pat (c # cs) =
     (if starts_with pat (c # cs) then Some i else str_index_from (Suc i) pat cs)"

definition str_index :: "string \<Rightarrow> string \<Rightarrow> nat option" where
  "str_index s pat = str_index_from 0 pat s"

text \<open>\<open>s.lastIndexOf(c)\<close> for one character.\<close>

fun last_index_from :: "nat \<Rightarrow> char \<Rightarrow> string \<Rightarrow> nat option" where
  "last_index_from i c [] = None"
| "last_index_from i c (d # ds) =
     (case last_index_from (Suc i) c ds of
        Some k \<Rightarrow> Some k
      | None \<Rightarrow> (if d = c then Some i else None))"

definition last_index :: "string \<Rightarrow> char \<Rightarrow> nat option" where
  "last_index s c = last_index_from 0 c s"

subsection \<open>Splitting and joining\<close>

text \<open>\<open>s.split(sep)\<close> where the separator is one character of a class: the empty string
  gives one empty piece, adjacent separators give empty pieces.\<close>

fun split_by :: "(char \<Rightarrow> bool) \<Rightarrow> string \<Rightarrow> string list" where
  "split_by p [] = [[]]"
| "split_by p (c # cs) =
     (if p c then [] # split_by p cs
      else (case split_by p cs of [] \<Rightarrow> [[c]] | w # ws \<Rightarrow> (c # w) # ws))"

abbreviation split_on :: "char \<Rightarrow> string \<Rightarrow> string list" where
  "split_on d s \<equiv> split_by (\<lambda>c. c = d) s"

text \<open>\<open>pieces.join(sep)\<close>.\<close>

fun js_join :: "string \<Rightarrow> string list \<Rightarrow> string" where
  "js_join sep [] = []"
| "js_join sep [w] = w"
| "js_join sep (w # ws) = w @ sep @ js_join sep ws"

lemma split_by_nonempty [simp]: "split_by p s \<noteq> []"
  by (induction s) (auto split: list.splits)

lemma js_join_Cons: "ws \<noteq> [] \<Longrightarrow> js_join sep (w # ws) = w @ sep @ js_join sep ws"
  by (cases ws) auto

lemma split_by_no_sep: "\<forall>c \<in> set w. \<not> p c \<Longrightarrow> split_by p w = [w]"
  by (induction w) auto

lemma split_by_append_sep:
  "\<forall>c \<in> set w. \<not> p c \<Longrightarrow> p d \<Longrightarrow> split_by p (w @ d # s) = w # split_by p s"
  by (induction w) auto

lemma split_join:
  "ws \<noteq> [] \<Longrightarrow> \<forall>w \<in> set ws. \<forall>c \<in> set w. \<not> p c \<Longrightarrow> p d \<Longrightarrow>
     split_by p (js_join [d] ws) = ws"
proof (induction ws rule: list_nonempty_induct)
  case (single w)
  then show ?case by (simp add: split_by_no_sep)
next
  case (cons w ws)
  then show ?case by (simp add: js_join_Cons split_by_append_sep)
qed

lemma join_split: "js_join [d] (split_on d s) = s"
proof (induction s)
  case Nil
  then show ?case by simp
next
  case (Cons c cs)
  obtain w ws where w: "split_on d cs = w # ws"
    by (meson list.exhaust split_by_nonempty)
  show ?case using Cons w by (cases ws) (auto simp: js_join_Cons)
qed

lemma split_by_pieces: "w \<in> set (split_by p s) \<Longrightarrow> c \<in> set w \<Longrightarrow> \<not> p c"
proof (induction s arbitrary: w)
  case Nil
  then show ?case by simp
next
  case (Cons a s)
  then show ?case
    by (cases "split_by p s") (auto split: if_splits, blast+)
qed

text \<open>The maximal runs of characters of a class, left to right: \<open>s.match(/[..]+/g)\<close>
  (an empty list where the library returns \<open>null\<close>).\<close>

definition runs :: "(char \<Rightarrow> bool) \<Rightarrow> string \<Rightarrow> string list" where
  "runs p s = filter (\<lambda>w. w \<noteq> []) (split_by (\<lambda>c. \<not> p c) s)"

lemma runs_pieces: "w \<in> set (runs p s) \<Longrightarrow> w \<noteq> [] \<and> (\<forall>c \<in> set w. p c)"
  by (auto simp: runs_def dest: split_by_pieces)

lemma runs_join:
  assumes "\<forall>w \<in> set ws. w \<noteq> [] \<and> (\<forall>c \<in> set w. p c)" and "\<not> p d"
  shows "runs p (js_join [d] ws) = ws"
proof (cases "ws = []")
  case True
  then show ?thesis by (simp add: runs_def)
next
  case False
  have "split_by (\<lambda>c. \<not> p c) (js_join [d] ws) = ws"
    using False assms by (intro split_join) auto
  then show ?thesis using assms by (simp add: runs_def filter_id_conv)
qed

subsection \<open>Numbers as text\<close>

definition digit_char :: "nat \<Rightarrow> char" where
  "digit_char d = digit_chars ! (d mod 10)"

fun nat_str :: "nat \<Rightarrow> string" where
  "nat_str n = (if n < 10 then [digit_char n] else nat_str (n div 10) @ [digit_char (n mod 10)])"

declare nat_str.simps [simp del]

definition digit_val :: "char \<Rightarrow> nat" where
  "digit_val c = (case map_of (zip digit_chars [0..<10]) c of Some d \<Rightarrow> d | None \<Rightarrow> 0)"

fun digits_val :: "nat \<Rightarrow> string \<Rightarrow> nat" where
  "digits_val acc [] = acc"
| "digits_val acc (c # cs) = digits_val (10 * acc + digit_val c) cs"

lemma digits_val_append: "digits_val a (s @ t) = digits_val (digits_val a s) t"
  by (induction s arbitrary: a) auto

lemma digit_cases:
  "n < 10 \<Longrightarrow> n = 0 \<or> n = 1 \<or> n = 2 \<or> n = 3 \<or> n = 4 \<or> n = 5 \<or> n = 6 \<or> n = 7 \<or> n = 8 \<or> n = (9::nat)"
  by arith

lemma digit_val_digit_char: "n < 10 \<Longrightarrow> digit_val (digit_char n) = n"
  by (drule digit_cases)
    (auto simp: digit_val_def digit_char_def digit_chars_def upt_rec)

lemma is_digit_digit_char: "is_digit (digit_char n)"
proof -
  have "n mod 10 < length digit_chars" by (simp add: digit_chars_def)
  then show ?thesis unfolding is_digit_def digit_char_def by (rule nth_mem)
qed

lemma digits_val_nat_str: "digits_val 0 (nat_str n) = n"
proof (induction n rule: nat_str.induct)
  case (1 n)
  show ?case
  proof (cases "n < 10")
    case True
    then show ?thesis by (subst nat_str.simps) (simp add: digit_val_digit_char)
  next
    case False
    then show ?thesis using 1
      by (subst nat_str.simps) (simp add: digits_val_append digit_val_digit_char)
  qed
qed

lemma nat_str_digits: "\<forall>c \<in> set (nat_str n). is_digit c"
proof (induction n rule: nat_str.induct)
  case (1 n)
  then show ?case by (subst nat_str.simps) (auto simp: is_digit_digit_char)
qed

lemma nat_str_inject: "nat_str m = nat_str n \<longleftrightarrow> m = n"
  by (metis digits_val_nat_str)

lemma nat_str_nonempty: "nat_str n \<noteq> []"
  by (subst nat_str.simps) simp

subsection \<open>Names every object has\<close>

text \<open>The names that \<open>{}\<close> inherits from \<open>Object.prototype\<close> in ECMAScript 5: \<open>k in {}\<close> is true for them, and
  reading them gives a function. The names that browsers add (\<open>__proto__\<close>, \<open>__defineGetter__\<close> and the like) are
  not among them; where \<open>__proto__\<close> matters the component says so.\<close>

definition prototype_names :: "string list" where
  "prototype_names = [''constructor'', ''toString'', ''toLocaleString'', ''valueOf'', ''hasOwnProperty'',
     ''isPrototypeOf'', ''propertyIsEnumerable'']"

subsection \<open>Comparing texts\<close>

text \<open>\<open>s <= t\<close> on two texts: by code units from the left.\<close>

fun text_le :: "string \<Rightarrow> string \<Rightarrow> bool" where
  "text_le [] t = True"
| "text_le (c # cs) [] = False"
| "text_le (c # cs) (d # ds) =
     (if c = d then text_le cs ds else (of_char c :: nat) < of_char d)"

end
