(* ===== verification/KoUtils.thy ===== *)
theory KoUtils
  imports JsString
begin

text \<open>
  The array, string, CSS-class, form and DOM-data helpers of \<open>ko.utils\<close>
  (knockout-2.2.0.debug.js), on which the rest of knockout is written.

  \<open>arrayForEach\<close> is \<^const>\<open>fold\<close> of its action over the array. An array that is mutated in
  place (\<open>splice\<close>, \<open>push\<close>) is returned.
\<close>

subsection \<open>Arrays\<close>

definition arrayForEach :: "'a list \<Rightarrow> ('a \<Rightarrow> 's \<Rightarrow> 's) \<Rightarrow> 's \<Rightarrow> 's" where
  "arrayForEach array action s = fold action array s"

fun arrayIndexOf_from :: "nat \<Rightarrow> 'a list \<Rightarrow> 'a \<Rightarrow> int" where
  "arrayIndexOf_from i [] item = -1"
| "arrayIndexOf_from i (x # xs) item = (if x = item then int i else arrayIndexOf_from (Suc i) xs item)"

definition arrayIndexOf :: "'a list \<Rightarrow> 'a \<Rightarrow> int" where
  "arrayIndexOf array item = arrayIndexOf_from 0 array item"

fun arrayFirst :: "'a list \<Rightarrow> ('a \<Rightarrow> bool) \<Rightarrow> 'a option" where
  "arrayFirst [] predicate = None"
| "arrayFirst (x # xs) predicate = (if predicate x then Some x else arrayFirst xs predicate)"

definition arrayRemoveItem :: "'a list \<Rightarrow> 'a \<Rightarrow> 'a list" where
  "arrayRemoveItem array itemToRemove =
     (let index = arrayIndexOf array itemToRemove
      in if index \<ge> 0 then remove_at (nat index) array else array)"

definition arrayGetDistinctValues :: "'a list \<Rightarrow> 'a list" where
  "arrayGetDistinctValues array =
     fold (\<lambda>x result. if arrayIndexOf result x < 0 then result @ [x] else result) array []"

definition arrayMap :: "'a list \<Rightarrow> ('a \<Rightarrow> 'b) \<Rightarrow> 'b list" where
  "arrayMap array mapping = fold (\<lambda>x result. result @ [mapping x]) array []"

definition arrayFilter :: "'a list \<Rightarrow> ('a \<Rightarrow> bool) \<Rightarrow> 'a list" where
  "arrayFilter array predicate =
     fold (\<lambda>x result. if predicate x then result @ [x] else result) array []"

definition arrayPushAll :: "'a list \<Rightarrow> 'a list \<Rightarrow> 'a list" where
  "arrayPushAll array valuesToPush = fold (\<lambda>x a. a @ [x]) valuesToPush array"

text \<open>\<open>range\<close> on integers; \<open>min\<close> and \<open>max\<close> already unwrapped.\<close>

function range_loop :: "int \<Rightarrow> int \<Rightarrow> int list \<Rightarrow> int list" where
  "range_loop i mx result = (if i \<le> mx then range_loop (i + 1) mx (result @ [i]) else result)"
  by pat_completeness auto
termination
  by (relation "measure (\<lambda>(i, mx, _). nat (mx + 1 - i))") auto

declare range_loop.simps [simp del]

definition ko_range :: "int \<Rightarrow> int \<Rightarrow> int list" where
  "ko_range mn mx = range_loop mn mx []"

lemma arrayIndexOf_from_ge:
  "arrayIndexOf_from i xs x = -1 \<or> arrayIndexOf_from i xs x \<ge> int i"
proof (induction xs arbitrary: i)
  case (Cons y ys)
  then show ?case using Cons [of "Suc i"] by auto
qed simp

lemma arrayIndexOf_from_neg: "arrayIndexOf_from i xs x < 0 \<longleftrightarrow> x \<notin> set xs"
  by (induction xs arbitrary: i) auto

lemma arrayIndexOf_from_nth:
  "arrayIndexOf_from i xs x = int (i + k) \<longleftrightarrow> k < length xs \<and> xs ! k = x \<and> x \<notin> set (take k xs)"
proof (induction xs arbitrary: i k)
  case Nil
  then show ?case by simp
next
  case (Cons y ys)
  show ?case
  proof (cases k)
    case 0
    then show ?thesis using arrayIndexOf_from_ge [of "Suc i" ys x] by auto
  next
    case (Suc j)
    then show ?thesis using Cons [of "Suc i" j] by auto
  qed
qed

lemma arrayIndexOf_neg [simp]: "arrayIndexOf xs x < 0 \<longleftrightarrow> x \<notin> set xs"
  by (simp add: arrayIndexOf_def arrayIndexOf_from_neg)

lemma arrayIndexOf_nonneg [simp]: "arrayIndexOf xs x \<ge> 0 \<longleftrightarrow> x \<in> set xs"
  using arrayIndexOf_neg [of xs x] by linarith

lemma arrayIndexOf_nth:
  "arrayIndexOf xs x = int k \<longleftrightarrow> k < length xs \<and> xs ! k = x \<and> x \<notin> set (take k xs)"
  using arrayIndexOf_from_nth [of 0 xs x k] by (simp add: arrayIndexOf_def)

lemma remove1_at:
  "k < length xs \<Longrightarrow> xs ! k = x \<Longrightarrow> x \<notin> set (take k xs) \<Longrightarrow> remove_at k xs = remove1 x xs"
proof (induction xs arbitrary: k)
  case Nil
  then show ?case by simp
next
  case (Cons y ys)
  then show ?case by (cases k) (auto simp: remove_at_def)
qed

lemma arrayRemoveItem_remove1: "arrayRemoveItem xs x = remove1 x xs"
proof (cases "x \<in> set xs")
  case True
  let ?k = "nat (arrayIndexOf xs x)"
  have "arrayIndexOf xs x = int ?k" using True by simp
  then have "remove_at ?k xs = remove1 x xs" using arrayIndexOf_nth remove1_at by metis
  then show ?thesis using True by (simp add: arrayRemoveItem_def Let_def)
next
  case False
  then show ?thesis by (simp add: arrayRemoveItem_def remove1_idem Let_def not_le)
qed

lemma arrayMap_map: "arrayMap xs f = map f xs"
proof -
  have "fold (\<lambda>x result. result @ [f x]) xs acc = acc @ map f xs" for acc
    by (induction xs arbitrary: acc) auto
  then show ?thesis by (simp add: arrayMap_def)
qed

lemma arrayFilter_filter: "arrayFilter xs p = filter p xs"
proof -
  have "fold (\<lambda>x result. if p x then result @ [x] else result) xs acc = acc @ filter p xs" for acc
    by (induction xs arbitrary: acc) auto
  then show ?thesis by (simp add: arrayFilter_def)
qed

lemma arrayPushAll_append: "arrayPushAll xs ys = xs @ ys"
  unfolding arrayPushAll_def by (induction ys arbitrary: xs) auto

lemma arrayFirst_find: "arrayFirst xs p = find p xs"
  by (induction xs) auto

lemma distinct_values_acc:
  "fold (\<lambda>x result. if arrayIndexOf result x < 0 then result @ [x] else result) xs acc =
     acc @ rev (remdups (rev (filter (\<lambda>x. x \<notin> set acc) xs)))"
proof (induction xs arbitrary: acc)
  case Nil
  then show ?case by simp
next
  case (Cons y ys)
  have "filter (\<lambda>x. x \<notin> set (acc @ [y])) ys = filter (\<lambda>x. x \<noteq> y) (filter (\<lambda>x. x \<notin> set acc) ys)"
    by (auto intro: filter_cong)
  moreover have "remdups (rev zs @ [y]) = remdups (rev (filter (\<lambda>x. x \<noteq> y) zs)) @ [y]" for zs
    by (induction zs rule: rev_induct) auto
  ultimately show ?case using Cons [of "acc @ [y]"] Cons [of acc] by auto
qed

lemma distinct_values_remdups: "arrayGetDistinctValues xs = rev (remdups (rev xs))"
  using distinct_values_acc [of xs "[]"] by (simp only: arrayGetDistinctValues_def) simp

lemma range_loop_upto: "range_loop i m acc = acc @ [i..m]"
proof (induction i m acc rule: range_loop.induct)
  case (1 i m acc)
  then show ?case by (subst range_loop.simps) (auto simp: upto_rec1)
qed

subsection \<open>Strings and CSS classes\<close>

text \<open>\<^const>\<open>None\<close> is a \<open>null\<close> or \<open>undefined\<close> string: \<open>string || ""\<close>.\<close>

definition str_or_empty :: "string option \<Rightarrow> string" where
  "str_or_empty s = (case s of None \<Rightarrow> '''' | Some t \<Rightarrow> t)"

definition stringTrim :: "string \<Rightarrow> string" where
  "stringTrim s = js_trim s"

definition stringTokenize :: "string option \<Rightarrow> char \<Rightarrow> string list" where
  "stringTokenize s delimiter =
     fold (\<lambda>token result. let trimmed = stringTrim token
            in if trimmed \<noteq> '''' then result @ [trimmed] else result)
       (split_on delimiter (str_or_empty s)) []"

definition stringStartsWith :: "string option \<Rightarrow> string \<Rightarrow> bool" where
  "stringStartsWith s startsWith =
     (let t = str_or_empty s
      in if length startsWith > length t then False else take (length startsWith) t = startsWith)"

text \<open>
  \<open>toggleDomNodeCssClass\<close> on the \<open>className\<close> of a node; the class of its regular expression
  is \<open>[\w-]\<close>. \<open>classNames.match\<close> returns \<open>null\<close> when no class name occurs in a non-empty
  \<open>classNames\<close>, and \<open>arrayForEach\<close> then reads \<open>null.length\<close>.
\<close>

definition css_char :: "char \<Rightarrow> bool" where
  "css_char c \<longleftrightarrow> is_word c \<or> c = CHR ''-''"

definition toggle_one :: "bool \<Rightarrow> string \<Rightarrow> string list \<Rightarrow> string list" where
  "toggle_one shouldHaveClass className current =
     (let indexOfClass = arrayIndexOf current className
      in if indexOfClass \<ge> 0
         then if \<not> shouldHaveClass then remove_at (nat indexOfClass) current else current
         else if shouldHaveClass then current @ [className] else current)"

definition toggleDomNodeCssClass :: "string \<Rightarrow> string \<Rightarrow> bool \<Rightarrow> string res" where
  "toggleDomNodeCssClass className classNames shouldHaveClass =
     (if classNames = '''' then Inr className
      else if runs css_char classNames = [] then Inl TypeError
      else Inr (js_join '' ''
             (arrayForEach (runs css_char classNames) (toggle_one shouldHaveClass)
               (runs css_char className))))"

definition css_classes :: "string \<Rightarrow> string list" where
  "css_classes className = runs css_char className"

lemma toggle_one_on: "toggle_one True c cs = (if c \<in> set cs then cs else cs @ [c])"
  by (simp add: toggle_one_def Let_def)

lemma toggle_one_off: "toggle_one False c cs = remove1 c cs"
  using arrayRemoveItem_remove1 [of cs c]
  by (auto simp: toggle_one_def arrayRemoveItem_def Let_def remove1_idem split: if_splits)

lemma css_class_names: "c \<in> set (runs css_char s) \<Longrightarrow> c \<noteq> [] \<and> (\<forall>x \<in> set c. css_char x)"
  by (rule runs_pieces)

lemma toggle_classes_on:
  "set (fold (toggle_one True) ns cs) = set ns \<union> set cs"
  by (induction ns arbitrary: cs) (auto simp: toggle_one_on)

lemma count_list_remove1: "count_list (remove1 n cs) c = count_list cs c - (if n = c then 1 else 0)"
  by (induction cs) auto

lemma toggle_classes_off:
  "count_list (fold (toggle_one False) ns cs) c = count_list cs c - count_list ns c"
  by (induction ns arbitrary: cs) (simp_all add: toggle_one_off count_list_remove1)

lemma toggle_keeps_names:
  "\<forall>w \<in> set ns \<union> set cs. P w \<Longrightarrow> \<forall>w \<in> set (fold (toggle_one b) ns cs). P w"
proof (induction ns arbitrary: cs)
  case Nil
  then show ?case by simp
next
  case (Cons n ns)
  have "\<forall>w \<in> set ns \<union> set (toggle_one b n cs). P w"
    using Cons.prems set_remove1_subset [of n cs]
    by (cases b) (auto simp: toggle_one_on toggle_one_off)
  then show ?case using Cons.IH by simp
qed

lemma space_not_css: "\<not> css_char CHR '' ''"
  by code_simp

lemma toggled_classes:
  "toggleDomNodeCssClass cn ns b = Inr cn' \<Longrightarrow> ns \<noteq> '''' \<Longrightarrow>
     css_classes cn' = fold (toggle_one b) (css_classes ns) (css_classes cn)"
proof -
  let ?r = "fold (toggle_one b) (css_classes ns) (css_classes cn)"
  assume "toggleDomNodeCssClass cn ns b = Inr cn'" and "ns \<noteq> ''''"
  then have cn': "cn' = js_join '' '' ?r"
    by (simp add: toggleDomNodeCssClass_def css_classes_def arrayForEach_def split: if_splits)
  have "\<forall>w \<in> set ?r. w \<noteq> [] \<and> (\<forall>c \<in> set w. css_char c)"
    by (rule toggle_keeps_names) (auto simp: css_classes_def dest: css_class_names)
  then have "runs css_char (js_join '' '' ?r) = ?r"
    by (rule runs_join) (rule space_not_css)
  then show ?thesis by (simp add: cn' css_classes_def)
qed

lemma tokenize_filter:
  "stringTokenize s d = filter (\<lambda>t. t \<noteq> '''') (map stringTrim (split_on d (str_or_empty s)))"
proof -
  have "fold (\<lambda>token result. let trimmed = stringTrim token
            in if trimmed \<noteq> '''' then result @ [trimmed] else result) ts acc
      = acc @ filter (\<lambda>t. t \<noteq> '''') (map stringTrim ts)" for ts acc
    by (induction ts arbitrary: acc) (auto simp: Let_def)
  then show ?thesis by (simp add: stringTokenize_def)
qed

subsection \<open>Form fields\<close>

text \<open>A field of a form is its name and value. A requested field is named by a string or by
  a predicate (a regular expression) on the name.\<close>

datatype field_name = ByName string | ByTest "string \<Rightarrow> bool"

fun isMatchingField :: "field_name \<Rightarrow> string \<times> string \<Rightarrow> bool" where
  "isMatchingField (ByName n) field \<longleftrightarrow> fst field = n"
| "isMatchingField (ByTest p) field \<longleftrightarrow> p (fst field)"

definition getFormFields ::
  "(string \<times> string) list \<Rightarrow> (string \<times> string) list \<Rightarrow> field_name \<Rightarrow> (string \<times> string) list" where
  "getFormFields inputs textareas fieldName =
     fold (\<lambda>field matches. if isMatchingField fieldName field then matches @ [field] else matches)
       (rev (inputs @ textareas)) []"

text \<open>\<open>__RequestVerificationToken(_.*)?\<close> anchored at both ends: \<open>.\<close> is any character but a
  line terminator.\<close>

definition request_token_name :: "string \<Rightarrow> bool" where
  "request_token_name n \<longleftrightarrow>
     (let t = ''__RequestVerificationToken'';
          rest = drop (length t) n
      in starts_with t n \<and> (rest = '''' \<or>
           (hd rest = CHR ''_'' \<and> (\<forall>c \<in> set (tl rest). c \<noteq> CHR 0x0A \<and> c \<noteq> CHR 0x0D))))"

definition fieldsIncludedWithJsonPost :: "field_name list" where
  "fieldsIncludedWithJsonPost = [ByName ''authenticity_token'', ByTest request_token_name]"

text \<open>
  \<open>postJson\<close>: the url and the inputs of the form it builds and submits. The form given in
  place of a url is its action, inputs and textareas; \<open>stringifyJson\<close> has been applied to
  the values of \<open>data\<close>.
\<close>

datatype url_or_form = Url string | Form string "(string \<times> string) list" "(string \<times> string) list"

record post_form =
  pf_action :: string
  pf_inputs :: "(string \<times> string) list"

definition posted_params ::
  "url_or_form \<Rightarrow> string obj \<Rightarrow> field_name list \<Rightarrow> string obj" where
  "posted_params urlOrForm params includeFields =
     (case urlOrForm of
        Url _ \<Rightarrow> params
      | Form _ inputs textareas \<Rightarrow>
          fold (\<lambda>name ps. fold (\<lambda>(n, v) m. oset n v m) (rev (getFormFields inputs textareas name)) ps)
            (rev includeFields) params)"

definition postJson ::
  "url_or_form \<Rightarrow> string obj \<Rightarrow> string obj \<Rightarrow> field_name list option \<Rightarrow> post_form" where
  "postJson urlOrForm jsonData params includeFields =
     (let included = (case includeFields of None \<Rightarrow> fieldsIncludedWithJsonPost | Some fs \<Rightarrow> fs);
          params' = posted_params urlOrForm params included;
          url = (case urlOrForm of Url u \<Rightarrow> u | Form action _ _ \<Rightarrow> action)
      in \<lparr>pf_action = url, pf_inputs = jsonData @ params'\<rparr>)"

lemma getFormFields_filter:
  "getFormFields inputs textareas n = rev (filter (isMatchingField n) (inputs @ textareas))"
proof -
  have "fold (\<lambda>field matches. if isMatchingField n field then matches @ [field] else matches) fs acc
      = acc @ filter (isMatchingField n) fs" for fs acc
    by (induction fs arbitrary: acc) auto
  then show ?thesis by (simp add: getFormFields_def rev_filter)
qed

subsection \<open>Data attached to DOM nodes\<close>

text \<open>
  \<open>ko.utils.domData\<close>. A node carries the key \<open>"ko" + n\<close> of its store in an expando property,
  \<^const>\<open>None\<close> when that is \<open>undefined\<close> or \<open>null\<close>; a store maps a data key to its value, and a
  key written with \<open>undefined\<close> reads as one never written.
\<close>

record 'v dom_data =
  dd_uniqueId :: nat
  dd_expando :: "nat \<Rightarrow> nat option"
  dd_store :: "nat \<Rightarrow> (string \<Rightarrow> 'v option) option"

definition dom_data_empty :: "'v dom_data" where
  "dom_data_empty = \<lparr>dd_uniqueId = 0, dd_expando = (\<lambda>_. None), dd_store = (\<lambda>_. None)\<rparr>"

definition domData_find :: "'v dom_data \<Rightarrow> nat \<Rightarrow> (nat \<times> (string \<Rightarrow> 'v option)) option" where
  "domData_find s node =
     (case dd_expando s node of
        None \<Rightarrow> None
      | Some k \<Rightarrow> (case dd_store s k of None \<Rightarrow> None | Some d \<Rightarrow> Some (k, d)))"

text \<open>\<open>getAll(node, true)\<close>: the store key of the node, made if there is none.\<close>

definition domData_create :: "'v dom_data \<Rightarrow> nat \<Rightarrow> 'v dom_data \<times> nat \<times> (string \<Rightarrow> 'v option)" where
  "domData_create s node =
     (case domData_find s node of
        Some (k, d) \<Rightarrow> (s, k, d)
      | None \<Rightarrow>
          (let k = dd_uniqueId s
           in (s\<lparr>dd_uniqueId := Suc k, dd_expando := (dd_expando s)(node := Some k),
                 dd_store := (dd_store s)(k := Some (\<lambda>_. None))\<rparr>, k, \<lambda>_. None)))"

definition domData_get :: "'v dom_data \<Rightarrow> nat \<Rightarrow> string \<Rightarrow> 'v option" where
  "domData_get s node key = (case domData_find s node of None \<Rightarrow> None | Some (_, d) \<Rightarrow> d key)"

definition domData_set :: "nat \<Rightarrow> string \<Rightarrow> 'v option \<Rightarrow> 'v dom_data \<Rightarrow> 'v dom_data" where
  "domData_set node key v s =
     (if v = None \<and> domData_find s node = None then s
      else (case domData_create s node of
          (s', k, d) \<Rightarrow> s'\<lparr>dd_store := (dd_store s')(k := Some (d(key := v)))\<rparr>))"

definition domData_clear :: "nat \<Rightarrow> 'v dom_data \<Rightarrow> 'v dom_data \<times> bool" where
  "domData_clear node s =
     (case dd_expando s node of
        None \<Rightarrow> (s, False)
      | Some k \<Rightarrow> (s\<lparr>dd_store := (dd_store s)(k := None), dd_expando := (dd_expando s)(node := None)\<rparr>, True))"

text \<open>No two nodes share a store, and the next key is unused.\<close>

definition dom_data_ok :: "'v dom_data \<Rightarrow> bool" where
  "dom_data_ok s \<longleftrightarrow>
     (\<forall>n k. dd_expando s n = Some k \<longrightarrow> k < dd_uniqueId s) \<and>
     (\<forall>n m k. dd_expando s n = Some k \<longrightarrow> dd_expando s m = Some k \<longrightarrow> n = m) \<and>
     (\<forall>k. dd_store s k \<noteq> None \<longrightarrow> k < dd_uniqueId s)"

datatype 'v dom_data_call = SetData nat string "'v option" | ClearData nat

fun dom_data_step :: "'v dom_data_call \<Rightarrow> 'v dom_data \<Rightarrow> 'v dom_data" where
  "dom_data_step (SetData n k v) s = domData_set n k v s"
| "dom_data_step (ClearData n) s = fst (domData_clear n s)"

lemma dom_data_ok_empty: "dom_data_ok dom_data_empty"
  by (simp add: dom_data_ok_def dom_data_empty_def)

lemma dom_data_ok_set: "dom_data_ok s \<Longrightarrow> dom_data_ok (domData_set n k v s)"
  by (auto simp: dom_data_ok_def domData_set_def domData_create_def domData_find_def Let_def
      split: option.splits if_splits) (metis less_irrefl less_SucI option.distinct(1))+

lemma dom_data_ok_clear: "dom_data_ok s \<Longrightarrow> dom_data_ok (fst (domData_clear n s))"
  by (auto simp: dom_data_ok_def domData_clear_def split: option.splits if_splits)

interpretation dom_data_machine: machine dom_data_step dom_data_ok
proof
  fix s :: "'a dom_data" and e
  assume "dom_data_ok s"
  then show "dom_data_ok (dom_data_step e s)"
    by (cases e) (auto intro: dom_data_ok_set dom_data_ok_clear)
qed

lemma domData_get_set:
  "dom_data_ok s \<Longrightarrow> domData_get (domData_set n k v s) m j = (if m = n \<and> j = k then v else domData_get s m j)"
  by (auto simp: dom_data_ok_def domData_get_def domData_set_def domData_create_def domData_find_def Let_def
      split: option.splits if_splits)

lemma domData_get_clear:
  "dom_data_ok s \<Longrightarrow> domData_get (fst (domData_clear n s)) m j = (if m = n then None else domData_get s m j)"
  by (auto simp: dom_data_ok_def domData_get_def domData_clear_def domData_find_def split: option.splits if_splits)

text \<open>The abstract reading of a sequence of calls: one value per node and key.\<close>

fun dom_data_abs :: "'v dom_data_call \<Rightarrow> (nat \<Rightarrow> string \<Rightarrow> 'v option) \<Rightarrow> nat \<Rightarrow> string \<Rightarrow> 'v option" where
  "dom_data_abs (SetData n k v) a = a(n := (a n)(k := v))"
| "dom_data_abs (ClearData n) a = a(n := (\<lambda>_. None))"

lemma dom_data_step_abs:
  "dom_data_ok s \<Longrightarrow> domData_get (dom_data_step e s) = dom_data_abs e (domData_get s)"
  by (cases e) (auto simp: fun_eq_iff domData_get_set domData_get_clear)

lemma dom_data_run_abs:
  "dom_data_ok s \<Longrightarrow> domData_get (fold dom_data_step es s) = fold dom_data_abs es (domData_get s)"
proof (induction es arbitrary: s)
  case Nil
  then show ?case by simp
next
  case (Cons e es)
  then show ?case by (simp add: dom_data_machine.inv_step dom_data_step_abs)
qed

end
