(* ===== verification/KoArray.thy ===== *)
theory KoArray
  imports KoUtils
begin

text \<open>
  \<open>ko.observableArray\<close> of knockout-2.2.0.debug.js, made with an array: the mutators of the underlying
  array with the notifications around each. The state holds the array, the objects marked \<open>_destroy\<close>,
  and the notifications sent so far, each with a copy of the array at that moment; the callbacks they
  run are outside this model (KoObservable has them): they neither throw nor call the array again.
  \<open>remove\<close> and \<open>destroy\<close> take the predicate that the source builds from a value or is given; one of
  the application, and its comparison of \<open>sort\<close>, may throw. A call gives its result or its exception,
  and the state it leaves in both cases.
\<close>

text \<open>What an array holds, as far as the functions tell it apart: setting a property of \<open>undefined\<close> or
  \<open>null\<close> throws, of another value that is no object has no effect.\<close>

datatype 'a item = Undefined | Null | Primitive 'a | Object 'a

datatype 'a array_event = BeforeChange "'a item list" | Change "'a item list"

record 'a obs_array =
  oa_items :: "'a item list"
  oa_destroyed :: "'a item list"
  oa_events :: "'a array_event list"

type_synonym ('a, 'r) array_result = "'r res \<times> 'a obs_array"

definition array_of :: "'a item list \<Rightarrow> 'a obs_array" where
  "array_of xs = \<lparr>oa_items = xs, oa_destroyed = [], oa_events = []\<rparr>"

definition will_mutate :: "'a obs_array \<Rightarrow> 'a obs_array" where
  "will_mutate a = a\<lparr>oa_events := oa_events a @ [BeforeChange (oa_items a)]\<rparr>"

definition has_mutated :: "'a obs_array \<Rightarrow> 'a obs_array" where
  "has_mutated a = a\<lparr>oa_events := oa_events a @ [Change (oa_items a)]\<rparr>"

subsection \<open>Removing\<close>

text \<open>The loop of \<open>remove\<close>: index \<open>i\<close> stays where it is when an item is spliced out.\<close>

function remove_loop ::
  "('a item \<Rightarrow> bool res) \<Rightarrow> nat \<Rightarrow> 'a item list \<Rightarrow> 'a obs_array \<Rightarrow> ('a, 'a item list) array_result" where
  "remove_loop p i removed a =
     (if \<not> i < length (oa_items a) then (Inr removed, a)
      else let value = oa_items a ! i
           in case p value of
                Inl e \<Rightarrow> (Inl e, a)
              | Inr matches \<Rightarrow>
                  if matches
                  then let a' = (if removed = [] then will_mutate a else a)
                       in remove_loop p i (removed @ [value]) (a'\<lparr>oa_items := remove_at i (oa_items a')\<rparr>)
                  else remove_loop p (i + 1) removed a)"
  by pat_completeness auto
termination
  by (relation "measure (\<lambda>(_, i, _, a). length (oa_items a) - i)")
    (auto simp: will_mutate_def length_remove_at Let_def)

declare remove_loop.simps [simp del]

definition oa_remove :: "('a item \<Rightarrow> bool res) \<Rightarrow> 'a obs_array \<Rightarrow> ('a, 'a item list) array_result" where
  "oa_remove p a =
     (case remove_loop p 0 [] a of
        (Inl e, a') \<Rightarrow> (Inl e, a')
      | (Inr removed, a') \<Rightarrow> (Inr removed, if removed \<noteq> [] then has_mutated a' else a'))"

definition oa_removeValue :: "'a item \<Rightarrow> 'a obs_array \<Rightarrow> ('a, 'a item list) array_result" where
  "oa_removeValue v a = oa_remove (\<lambda>x. Inr (x = v)) a"

text \<open>\<open>removeAll()\<close>, \<open>removeAll(null)\<close> and \<open>removeAll(values)\<close>.\<close>

datatype 'a values_arg = NoArg | NullArg | Values "'a item list"

definition oa_removeAll :: "'a values_arg \<Rightarrow> 'a obs_array \<Rightarrow> ('a, 'a item list) array_result" where
  "oa_removeAll arg a =
     (case arg of
        NoArg \<Rightarrow> (Inr (oa_items a), has_mutated ((will_mutate a)\<lparr>oa_items := []\<rparr>))
      | NullArg \<Rightarrow> (Inr [], a)
      | Values vs \<Rightarrow> oa_remove (\<lambda>x. Inr (arrayIndexOf vs x \<ge> 0)) a)"

subsection \<open>Destroying\<close>

text \<open>\<open>underlyingArray[i]["_destroy"] = true\<close>.\<close>

fun mark_destroyed :: "'a item \<Rightarrow> 'a obs_array \<Rightarrow> ('a, unit) array_result" where
  "mark_destroyed (Object x) a = (Inr (), a\<lparr>oa_destroyed := List.insert (Object x) (oa_destroyed a)\<rparr>)"
| "mark_destroyed (Primitive x) a = (Inr (), a)"
| "mark_destroyed _ a = (Inl TypeError, a)"

text \<open>\<open>for (i = length - 1; i >= 0; i--)\<close>: the items stay in the array.\<close>

fun destroy_loop :: "('a item \<Rightarrow> bool res) \<Rightarrow> nat \<Rightarrow> 'a obs_array \<Rightarrow> ('a, unit) array_result" where
  "destroy_loop p 0 a = (Inr (), a)"
| "destroy_loop p (Suc i) a =
     (case p (oa_items a ! i) of
        Inl e \<Rightarrow> (Inl e, a)
      | Inr matches \<Rightarrow>
          (case (if matches then mark_destroyed (oa_items a ! i) a else (Inr (), a)) of
             (Inl e, a') \<Rightarrow> (Inl e, a')
           | (Inr _, a') \<Rightarrow> destroy_loop p i a'))"

definition oa_destroy :: "('a item \<Rightarrow> bool res) \<Rightarrow> 'a obs_array \<Rightarrow> ('a, unit) array_result" where
  "oa_destroy p a =
     (case destroy_loop p (length (oa_items a)) (will_mutate a) of
        (Inl e, a') \<Rightarrow> (Inl e, a')
      | (Inr _, a') \<Rightarrow> (Inr (), has_mutated a'))"

definition oa_destroyAll :: "'a values_arg \<Rightarrow> 'a obs_array \<Rightarrow> ('a, unit) array_result" where
  "oa_destroyAll arg a =
     (case arg of
        NoArg \<Rightarrow> oa_destroy (\<lambda>_. Inr True) a
      | NullArg \<Rightarrow> (Inr (), a)
      | Values vs \<Rightarrow> oa_destroy (\<lambda>x. Inr (arrayIndexOf vs x \<ge> 0)) a)"

subsection \<open>The other functions\<close>

definition oa_indexOf :: "'a item \<Rightarrow> 'a obs_array \<Rightarrow> int" where
  "oa_indexOf item a = arrayIndexOf (oa_items a) item"

definition oa_replace :: "'a item \<Rightarrow> 'a item \<Rightarrow> 'a obs_array \<Rightarrow> 'a obs_array" where
  "oa_replace oldItem newItem a =
     (let index = oa_indexOf oldItem a
      in if index \<ge> 0
         then has_mutated ((will_mutate a)\<lparr>oa_items := (oa_items a)[nat index := newItem]\<rparr>)
         else a)"

text \<open>The functions copied from the native arrays: the result, and the array left. \<open>sort\<close> takes
  the sorting function of the application's comparison: the array it leaves, and the exception when a
  comparison throws. \<open>splice\<close> has a start that is not negative.\<close>

datatype 'a native_call =
    Pop
  | Push "'a item list"
  | Reverse
  | Shift
  | Sort "'a item list \<Rightarrow> 'a item list \<times> js_error option"
  | Splice nat nat "'a item list"
  | Unshift "'a item list"

datatype 'a native_result = Item "'a item option" | Items "'a item list" | NewLength nat | TheArray

fun native :: "'a native_call \<Rightarrow> 'a item list \<Rightarrow> 'a native_result res \<times> 'a item list" where
  "native Pop xs = (Inr (Item (if xs = [] then None else Some (last xs))), butlast xs)"
| "native (Push vs) xs = (Inr (NewLength (length xs + length vs)), xs @ vs)"
| "native Reverse xs = (Inr TheArray, rev xs)"
| "native Shift xs = (Inr (Item (if xs = [] then None else Some (hd xs))), tl xs)"
| "native (Sort f) xs = (case f xs of (ys, None) \<Rightarrow> (Inr TheArray, ys) | (ys, Some e) \<Rightarrow> (Inl e, ys))"
| "native (Splice start count vs) xs =
     (Inr (Items (take count (drop start xs))), take start xs @ vs @ drop (start + count) xs)"
| "native (Unshift vs) xs = (Inr (NewLength (length xs + length vs)), vs @ xs)"

definition oa_native :: "'a native_call \<Rightarrow> 'a obs_array \<Rightarrow> ('a, 'a native_result) array_result" where
  "oa_native f a =
     (case native f (oa_items a) of
        (Inl e, xs) \<Rightarrow> (Inl e, (will_mutate a)\<lparr>oa_items := xs\<rparr>)
      | (Inr r, xs) \<Rightarrow> (Inr r, has_mutated ((will_mutate a)\<lparr>oa_items := xs\<rparr>)))"

definition oa_slice :: "nat \<Rightarrow> nat \<Rightarrow> 'a obs_array \<Rightarrow> 'a item list" where
  "oa_slice start end' a = take (end' - start) (drop start (oa_items a))"

subsection \<open>What subscribers see\<close>

datatype 'a array_call =
    Remove "'a item \<Rightarrow> bool res"
  | RemoveAll "'a values_arg"
  | Destroy "'a item \<Rightarrow> bool res"
  | DestroyAll "'a values_arg"
  | Replace "'a item" "'a item"
  | Native "'a native_call"

text \<open>One call: whether it throws, and the state it leaves.\<close>

fun outcome :: "('a, 'r) array_result \<Rightarrow> js_error option \<times> 'a obs_array" where
  "outcome (Inl e, a) = (Some e, a)"
| "outcome (Inr r, a) = (None, a)"

fun array_step :: "'a array_call \<Rightarrow> 'a obs_array \<Rightarrow> js_error option \<times> 'a obs_array" where
  "array_step (Remove p) a = outcome (oa_remove p a)"
| "array_step (RemoveAll v) a = outcome (oa_removeAll v a)"
| "array_step (Destroy p) a = outcome (oa_destroy p a)"
| "array_step (DestroyAll v) a = outcome (oa_destroyAll v a)"
| "array_step (Replace x y) a = (None, oa_replace x y a)"
| "array_step (Native f) a = outcome (oa_native f a)"

fun array_run :: "'a array_call list \<Rightarrow> 'a obs_array \<Rightarrow> (js_error option) list \<times> 'a obs_array" where
  "array_run [] a = ([], a)"
| "array_run (c # cs) a =
     (case array_step c a of (e, a') \<Rightarrow> (case array_run cs a' of (es, a'') \<Rightarrow> (e # es, a'')))"

text \<open>A call that leaves the items as they are when it throws; \<open>remove\<close> has taken some out by then, and
  \<open>sort\<close> has moved some.\<close>

fun keeps_items :: "'a array_call \<Rightarrow> bool" where
  "keeps_items (Destroy p) = True"
| "keeps_items (DestroyAll v) = True"
| "keeps_items _ = False"

text \<open>The notifications come in pairs, each pair starts from the array the one before ended
  with, and the last one ends with the array of now. With \<open>gaps\<close>, there are also notifications before a
  change that did not happen; they show the array of that moment too.\<close>

fun events_from :: "bool \<Rightarrow> 'a item list \<Rightarrow> 'a array_event list \<Rightarrow> 'a item list \<Rightarrow> bool" where
  "events_from gaps xs [] ys \<longleftrightarrow> ys = xs"
| "events_from gaps xs (BeforeChange b # Change c # es) ys \<longleftrightarrow> b = xs \<and> events_from gaps c es ys"
| "events_from gaps xs (BeforeChange b # es) ys \<longleftrightarrow> gaps \<and> b = xs \<and> events_from gaps xs es ys"
| "events_from gaps xs (Change c # es) ys \<longleftrightarrow> False"

lemma events_from_snoc:
  "events_from gaps xs es ys \<Longrightarrow> events_from gaps xs (es @ [BeforeChange ys, Change zs]) zs"
  by (induction gaps xs es ys rule: events_from.induct) auto

lemma events_from_gap: "events_from gaps xs es ys \<Longrightarrow> events_from True xs (es @ [BeforeChange ys]) ys"
  by (induction gaps xs es ys rule: events_from.induct) auto

lemma events_from_weaken: "events_from gaps xs es ys \<Longrightarrow> events_from True xs es ys"
  by (induction gaps xs es ys rule: events_from.induct) auto

definition events_ok :: "bool \<Rightarrow> 'a item list \<Rightarrow> 'a obs_array \<Rightarrow> bool" where
  "events_ok gaps xs a \<longleftrightarrow> events_from gaps xs (oa_events a) (oa_items a)"

lemma mutation_ok:
  "events_ok gaps xs a \<Longrightarrow> oa_events a' = oa_events a @ [BeforeChange (oa_items a), Change (oa_items a')] \<Longrightarrow>
     events_ok gaps xs a'"
  using events_from_snoc by (simp add: events_ok_def)

text \<open>What \<open>remove\<close> does when the predicate gives an answer for every item of the array.\<close>

lemma remove_loop_result:
  assumes "i \<le> length (oa_items a)" "\<forall>x \<in> set (drop i (oa_items a)). p x = Inr (q x)"
  shows "remove_loop p i removed a =
    (Inr (removed @ filter q (drop i (oa_items a))),
     a\<lparr>oa_items := take i (oa_items a) @ filter (\<lambda>x. \<not> q x) (drop i (oa_items a)),
       oa_events := (if removed = [] \<and> filter q (drop i (oa_items a)) \<noteq> []
                     then oa_events a @ [BeforeChange (oa_items a)] else oa_events a)\<rparr>)"
  using assms
proof (induction p i removed a rule: remove_loop.induct)
  case (1 p i removed a)
  show ?case
  proof (cases "i < length (oa_items a)")
    case False
    then show ?thesis using "1.prems" by (subst remove_loop.simps) simp
  next
    case True
    let ?v = "oa_items a ! i" and ?xs = "oa_items a"
    have d: "drop i ?xs = ?v # drop (Suc i) ?xs" using True by (simp add: Cons_nth_drop_Suc)
    have pv: "p ?v = Inr (q ?v)" and rest: "\<forall>x \<in> set (drop (Suc i) ?xs). p x = Inr (q x)"
      using "1.prems"(2) by (simp_all add: d)
    have rm: "take i (remove_at i ?xs) = take i ?xs" "drop i (remove_at i ?xs) = drop (Suc i) ?xs"
      using True by (simp_all add: remove_at_def)
    have tk: "take (Suc i) ?xs = take i ?xs @ [?v]" using True by (simp add: take_Suc_conv_app_nth)
    show ?thesis
    proof (cases "q ?v")
      case qv: True
      let ?a = "if removed = [] then will_mutate a else a"
      let ?b = "?a\<lparr>oa_items := remove_at i (oa_items ?a)\<rparr>"
      have items: "oa_items ?a = ?xs" by (simp add: will_mutate_def)
      have le: "i \<le> length (oa_items ?b)" using True by (simp add: items length_remove_at)
      have ans: "\<forall>x \<in> set (drop i (oa_items ?b)). p x = Inr (q x)" using rest by (simp add: items rm)
      have "remove_loop p i removed a = remove_loop p i (removed @ [?v]) ?b"
        using True pv qv by (subst remove_loop.simps) (simp add: Let_def)
      also have "\<dots> = (Inr (removed @ [?v] @ filter q (drop i (oa_items ?b))),
          ?b\<lparr>oa_items := take i (oa_items ?b) @ filter (\<lambda>x. \<not> q x) (drop i (oa_items ?b))\<rparr>)"
        using "1.IH"(1) [OF _ refl pv qv refl le ans] True by simp
      finally show ?thesis using qv d rm by (simp add: items) (simp add: will_mutate_def)
    next
      case False
      then have "remove_loop p i removed a = remove_loop p (i + 1) removed a"
        using True pv by (subst remove_loop.simps) (simp add: Let_def)
      then show ?thesis using "1.IH"(2) [OF _ refl pv False] True False d tk rest by simp
    qed
  qed
qed

lemma oa_remove_result:
  assumes "\<forall>x \<in> set (oa_items a). p x = Inr (q x)"
  shows "oa_remove p a = (Inr (filter q (oa_items a)),
     a\<lparr>oa_items := filter (\<lambda>x. \<not> q x) (oa_items a),
       oa_events := (if filter q (oa_items a) = [] then oa_events a
         else oa_events a @ [BeforeChange (oa_items a), Change (filter (\<lambda>x. \<not> q x) (oa_items a))])\<rparr>)"
  using remove_loop_result [of 0 a p q "[]"] assms
  by (simp add: oa_remove_def has_mutated_def)

lemma filter_none: "filter p xs = [] \<Longrightarrow> filter (\<lambda>x. \<not> p x) xs = xs"
  by (simp add: filter_empty_conv)

text \<open>A predicate that throws for an item ends \<open>remove\<close> there.\<close>

lemma remove_loop_answers:
  "remove_loop p i removed a = (Inr rs, a') \<Longrightarrow> \<forall>x \<in> set (drop i (oa_items a)). \<exists>b. p x = Inr b"
proof (induction p i removed a rule: remove_loop.induct)
  case (1 p i removed a)
  show ?case
  proof (cases "i < length (oa_items a)")
    case False
    then show ?thesis by simp
  next
    case True
    let ?v = "oa_items a ! i" and ?xs = "oa_items a"
    have d: "drop i ?xs = ?v # drop (Suc i) ?xs" using True by (simp add: Cons_nth_drop_Suc)
    have rm: "drop i (remove_at i ?xs) = drop (Suc i) ?xs" using True by (simp add: remove_at_def)
    obtain b where b: "p ?v = Inr b"
      using "1.prems" True by (subst (asm) remove_loop.simps) (auto simp: Let_def split: sum.splits)
    show ?thesis
    proof (cases b)
      case bt: True
      let ?a = "if removed = [] then will_mutate a else a"
      have items: "oa_items ?a = ?xs" by (simp add: will_mutate_def)
      have "remove_loop p i (removed @ [?v]) (?a\<lparr>oa_items := remove_at i (oa_items ?a)\<rparr>) = (Inr rs, a')"
        using "1.prems" True b bt by (subst (asm) remove_loop.simps) (simp add: Let_def)
      from "1.IH"(1) [OF _ refl b bt refl this] True show ?thesis by (simp add: d b items rm)
    next
      case False
      then have "remove_loop p (i + 1) removed a = (Inr rs, a')"
        using "1.prems" True b by (subst (asm) remove_loop.simps) (simp add: Let_def)
      from "1.IH"(2) [OF _ refl b False this] True show ?thesis by (simp add: d b)
    qed
  qed
qed

lemma oa_remove_events:
  assumes ok: "events_ok gaps xs a" and run: "oa_remove p a = (Inr rs, a')"
  shows "events_ok gaps xs a'"
proof -
  obtain rs' a1 where "remove_loop p 0 [] a = (Inr rs', a1)"
    using run by (auto simp: oa_remove_def split: prod.splits sum.splits)
  then have "\<forall>x \<in> set (oa_items a). \<exists>b. p x = Inr b" using remove_loop_answers by fastforce
  then have "\<forall>x \<in> set (oa_items a). p x = Inr (projr (p x))" by auto
  from oa_remove_result [OF this] run have "a' = a\<lparr>oa_items := filter (\<lambda>x. \<not> projr (p x)) (oa_items a),
       oa_events := (if filter (\<lambda>x. projr (p x)) (oa_items a) = [] then oa_events a
         else oa_events a @ [BeforeChange (oa_items a), Change (filter (\<lambda>x. \<not> projr (p x)) (oa_items a))])\<rparr>"
    by simp
  then show ?thesis
    using mutation_ok [OF ok, of a'] ok
    by (cases "filter (\<lambda>x. projr (p x)) (oa_items a) = []") (simp_all add: events_ok_def filter_none)
qed

lemma mark_destroyed_items:
  "mark_destroyed x a = (r, a') \<Longrightarrow> oa_items a' = oa_items a \<and> oa_events a' = oa_events a"
  by (cases x) auto

lemma destroy_loop_items:
  "destroy_loop p n a = (r, a') \<Longrightarrow> oa_items a' = oa_items a \<and> oa_events a' = oa_events a"
proof (induction n arbitrary: a)
  case 0
  then show ?case by simp
next
  case (Suc n)
  then show ?case
    by (auto split: sum.splits prod.splits if_splits dest!: mark_destroyed_items)
qed

lemma oa_destroy_events:
  assumes ok: "events_ok gaps xs a" and run: "outcome (oa_destroy p a) = (e, a')"
  shows "events_ok (gaps \<or> e \<noteq> None) xs a'"
proof -
  obtain r1 a1 where l: "destroy_loop p (length (oa_items a)) (will_mutate a) = (r1, a1)" by fastforce
  then have a1: "oa_items a1 = oa_items a" "oa_events a1 = oa_events a @ [BeforeChange (oa_items a)]"
    using destroy_loop_items [OF l] by (simp_all add: will_mutate_def)
  show ?thesis
  proof (cases r1)
    case (Inl x)
    then have "e = Some x" "a' = a1" using run l by (simp_all add: oa_destroy_def)
    then show ?thesis using ok a1 events_from_gap by (simp add: events_ok_def)
  next
    case (Inr u)
    then have "e = None" "a' = has_mutated a1" using run l by (simp_all add: oa_destroy_def)
    then show ?thesis using mutation_ok [OF ok, of a'] a1 by (simp add: has_mutated_def)
  qed
qed

lemma outcome_cases:
  assumes "outcome r = (e, a')"
  obtains (throws) x where "r = (Inl x, a')" "e = Some x" | (returns) y where "r = (Inr y, a')" "e = None"
  using assms by (cases r rule: outcome.cases) auto

lemma array_step_ok:
  assumes ok: "events_ok gaps xs a" and step: "array_step c a = (e, a')" and keeps: "e = None \<or> keeps_items c"
  shows "events_ok (gaps \<or> e \<noteq> None) xs a'"
proof (cases c)
  case (Remove p)
  then have "e = None" "outcome (oa_remove p a) = (e, a')" using step keeps by simp_all
  then show ?thesis using oa_remove_events [OF ok] by (auto elim: outcome_cases)
next
  case (RemoveAll v)
  then have e: "e = None" "outcome (oa_removeAll v a) = (e, a')" using step keeps by simp_all
  then show ?thesis
    using ok oa_remove_events [OF ok]
    by (cases v) (auto simp: oa_removeAll_def has_mutated_def will_mutate_def intro: mutation_ok elim: outcome_cases)
next
  case (Destroy p)
  then show ?thesis using step oa_destroy_events [OF ok] by simp
next
  case (DestroyAll v)
  then show ?thesis using step ok oa_destroy_events [OF ok]
    by (cases v) (auto simp: oa_destroyAll_def)
next
  case (Replace x y)
  have "events_ok gaps xs (has_mutated ((will_mutate a)\<lparr>oa_items := zs\<rparr>))" for zs
    by (rule mutation_ok [OF ok]) (simp add: has_mutated_def will_mutate_def)
  then show ?thesis using Replace ok step by (auto simp: oa_replace_def Let_def)
next
  case (Native f)
  then have "e = None" "outcome (oa_native f a) = (e, a')" using step keeps by simp_all
  then show ?thesis
    by (auto simp: oa_native_def has_mutated_def will_mutate_def split: prod.splits sum.splits
        intro: mutation_ok [OF ok] elim!: outcome_cases)
qed

lemma array_run_ok:
  assumes "events_ok gaps xs a" "array_run cs a = (es, a')"
    "\<And>c e. (c, e) \<in> set (zip cs es) \<Longrightarrow> e = None \<or> keeps_items c"
  shows "events_ok (gaps \<or> (\<exists>e \<in> set es. e \<noteq> None)) xs a'"
  using assms
proof (induction cs arbitrary: gaps a es)
  case Nil
  then show ?case by simp
next
  case (Cons c cs)
  obtain e a1 es' where s: "array_step c a = (e, a1)" "array_run cs a1 = (es', a')" "es = e # es'"
    using Cons.prems(2) by (auto split: prod.splits)
  have "events_ok (gaps \<or> e \<noteq> None) xs a1"
    by (rule array_step_ok [OF Cons.prems(1) s(1)]) (rule Cons.prems(3), simp add: s(3))
  from Cons.IH [OF this s(2)] Cons.prems(3) show ?case by (auto simp: s(3))
qed

text \<open>\<open>remove\<close> removes and returns exactly the matching items, in order, and notifies once
  before and once after when there is one, and not at all otherwise.\<close>

theorem oa_remove_spec:
  "oa_remove (\<lambda>x. Inr (p x)) a = (Inr (filter p (oa_items a)),
     a\<lparr>oa_items := filter (\<lambda>x. \<not> p x) (oa_items a),
       oa_events := oa_events a @ (if \<exists>x \<in> set (oa_items a). p x
         then [BeforeChange (oa_items a), Change (filter (\<lambda>x. \<not> p x) (oa_items a))] else [])\<rparr>)"
  using oa_remove_result [of a "\<lambda>x. Inr (p x)" p] by (auto simp: filter_empty_conv)

text \<open>A predicate that throws after an item was removed: the item is gone, and no subscriber is told.\<close>

lemma removal_not_announced:
  "array_run [Remove (\<lambda>x. if x = Null then Inl TypeError else Inr True)] (array_of [Object (1 :: nat), Null]) =
     ([Some TypeError], \<lparr>oa_items = [Null], oa_destroyed = [], oa_events = [BeforeChange [Object 1, Null]]\<rparr>)"
  by (simp add: array_of_def oa_remove_def remove_loop.simps will_mutate_def remove_at_def)

text \<open>C11: a subscriber that listens to both events can follow the array: over any sequence of
  calls, in which destroying may throw and everything else returns, each notification before a change
  shows the array the last change left, and the last change shows the array of now. When no call
  throws the notifications come in pairs; a call of \<open>destroy\<close> that throws, on \<open>null\<close> or \<open>undefined\<close>,
  leaves one before a change that does not come.\<close>

theorem array_events_follow:
  assumes "array_run calls (array_of xs) = (errors, a)"
    and "\<And>c e. (c, e) \<in> set (zip calls errors) \<Longrightarrow> e = None \<or> keeps_items c"
  shows "events_from (\<exists>e \<in> set errors. e \<noteq> None) xs (oa_events a) (oa_items a)"
  using array_run_ok [of False xs "array_of xs", OF _ assms] by (simp add: events_ok_def array_of_def)

theorem array_events_follow_witness:
  "\<exists>a. array_run [DestroyAll NoArg, Native (Push [Object 1])] (array_of [Null, Object (0 :: nat)]) = ([Some TypeError, None], a) \<and>
     oa_events a = [BeforeChange [Null, Object 0], BeforeChange [Null, Object 0], Change [Null, Object 0, Object 1]] \<and>
     events_from True [Null, Object 0] (oa_events a) (oa_items a)"
proof -
  let ?calls = "[DestroyAll NoArg, Native (Push [Object 1])]" and ?xs = "[Null, Object (0 :: nat)]"
  let ?a = "\<lparr>oa_items = [Null, Object 0, Object 1], oa_destroyed = [Object 0],
     oa_events = [BeforeChange [Null, Object 0], BeforeChange [Null, Object 0], Change [Null, Object 0, Object (1 :: nat)]]\<rparr>"
  have run: "array_run ?calls (array_of ?xs) = ([Some TypeError, None], ?a)"
    by (simp add: array_of_def oa_destroyAll_def oa_destroy_def will_mutate_def has_mutated_def oa_native_def)
  have "events_from (\<exists>e \<in> set [Some TypeError, None]. e \<noteq> None) ?xs (oa_events ?a) (oa_items ?a)"
    by (rule array_events_follow [OF run]) auto
  then show ?thesis using run by auto
qed

end
