(* ===== verification/KoCompare.thy ===== *)
theory KoCompare
  imports Prelude
begin

text \<open>
  \<open>ko.utils.compareArrays\<close> of knockout-2.2.0.debug.js: the edit script between two arrays,
  from a banded edit-distance matrix, a walk back through it, and a pass that pairs added
  with deleted entries of the same value as moves. \<open>knockout.mapping\<close> and the \<open>foreach\<close>
  binding both run on its result.

  A matrix row is a sparse array: \<^const>\<open>None\<close> is JavaScript's \<open>undefined\<close> at an index
  that was never written. The JavaScript entry objects are shared between the script and
  the lists \<open>notInSml\<close> and \<open>notInBig\<close>; here those lists hold the positions of the entries
  in the script, so a write through one name is seen through the other.
\<close>

subsection \<open>Entries\<close>

datatype edit_status = EAdded | EDeleted | ERetained

record 'a edit_entry =
  ee_status :: edit_status
  ee_value :: 'a
  ee_index :: "nat option"
  ee_moved :: "nat option"

subsection \<open>The edit-distance matrix\<close>

text \<open>One cell: \<open>lastRow[bigIndex] || maxDistance\<close> is \<open>maxDistance\<close> for an \<open>undefined\<close> entry
  (and for a 0, which no cell holds).\<close>

definition or_max :: "nat \<Rightarrow> nat option \<Rightarrow> nat" where
  "or_max maxDistance e = (case e of None \<Rightarrow> maxDistance | Some n \<Rightarrow> if n = 0 then maxDistance else n)"

definition edit_cell ::
  "'a list \<Rightarrow> 'a list \<Rightarrow> nat \<Rightarrow> (nat \<Rightarrow> nat option) \<Rightarrow> nat \<Rightarrow> (nat \<Rightarrow> nat option) \<Rightarrow> nat \<Rightarrow> nat option" where
  "edit_cell sml big maxDistance lastRow si thisRow bi =
     (if bi = 0 then Some (si + 1)
      else if si = 0 then Some (bi + 1)
      else if sml ! (si - 1) = big ! (bi - 1) then lastRow (bi - 1)
      else Some (min (or_max maxDistance (lastRow bi)) (or_max maxDistance (thisRow (bi - 1))) + 1))"

definition compareRange :: "'a list \<Rightarrow> 'a list \<Rightarrow> nat" where
  "compareRange sml big = (if length big - length sml = 0 then 1 else length big - length sml)"

definition band :: "'a list \<Rightarrow> 'a list \<Rightarrow> nat \<Rightarrow> nat list" where
  "band sml big si =
     [max 0 (si - 1)..<Suc (min (length big) (si + compareRange sml big))]"

definition edit_row ::
  "'a list \<Rightarrow> 'a list \<Rightarrow> (nat \<Rightarrow> nat option) \<Rightarrow> nat \<Rightarrow> (nat \<Rightarrow> nat option)" where
  "edit_row sml big lastRow si =
     fold (\<lambda>bi row. row(bi := edit_cell sml big (length sml + length big + 1) lastRow si row bi))
       (band sml big si) (\<lambda>_. None)"

fun edit_rows ::
  "'a list \<Rightarrow> 'a list \<Rightarrow> nat list \<Rightarrow> (nat \<Rightarrow> nat option) \<Rightarrow> (nat \<Rightarrow> nat option) list" where
  "edit_rows sml big [] lastRow = []"
| "edit_rows sml big (si # sis) lastRow =
     (let thisRow = edit_row sml big lastRow si in thisRow # edit_rows sml big sis thisRow)"

definition editDistanceMatrix :: "'a list \<Rightarrow> 'a list \<Rightarrow> (nat \<Rightarrow> nat option) list" where
  "editDistanceMatrix sml big = edit_rows sml big [0..<Suc (length sml)] (\<lambda>_. None)"

subsection \<open>The walk back\<close>

text \<open>
  The loop \<open>for (smlIndex = smlIndexMax, bigIndex = bigIndexMax; smlIndex || bigIndex;)\<close>.
  Its state is the script so far, in push order, and the positions pushed to \<open>notInSml\<close>
  and \<open>notInBig\<close>. The last branch decrements both indices; at index 0 the code would read
  the array at -1 and go on from there, which the model reports as \<^const>\<open>None\<close>.
  \<open>edit_walk_correct\<close> below shows that this never happens.
\<close>

record 'a edit_walk =
  ew_script :: "'a edit_entry list"
  ew_notInSml :: "nat list"
  ew_notInBig :: "nat list"

definition cell_minus_one_is :: "nat option \<Rightarrow> nat option \<Rightarrow> bool" where
  "cell_minus_one_is me e = (case (me, e) of (Some m, Some n) \<Rightarrow> m = Suc n | _ \<Rightarrow> False)"

function edit_walk_loop ::
  "edit_status \<Rightarrow> edit_status \<Rightarrow> 'a list \<Rightarrow> 'a list \<Rightarrow> (nat \<Rightarrow> nat option) list \<Rightarrow>
    nat \<Rightarrow> nat \<Rightarrow> 'a edit_walk \<Rightarrow> 'a edit_walk option" where
  "edit_walk_loop statusNotInSml statusNotInBig sml big M si bi w =
     (if si = 0 \<and> bi = 0 then Some w
      else if bi \<noteq> 0 \<and> cell_minus_one_is ((M ! si) bi) ((M ! si) (bi - 1)) then
        edit_walk_loop statusNotInSml statusNotInBig sml big M si (bi - 1)
          (w\<lparr>ew_notInSml := ew_notInSml w @ [length (ew_script w)],
             ew_script := ew_script w @
               [\<lparr>ee_status = statusNotInSml, ee_value = big ! (bi - 1),
                 ee_index = Some (bi - 1), ee_moved = None\<rparr>]\<rparr>)
      else if si \<noteq> 0 \<and> cell_minus_one_is ((M ! si) bi) ((M ! (si - 1)) bi) then
        edit_walk_loop statusNotInSml statusNotInBig sml big M (si - 1) bi
          (w\<lparr>ew_notInBig := ew_notInBig w @ [length (ew_script w)],
             ew_script := ew_script w @
               [\<lparr>ee_status = statusNotInBig, ee_value = sml ! (si - 1),
                 ee_index = Some (si - 1), ee_moved = None\<rparr>]\<rparr>)
      else if si = 0 \<or> bi = 0 then None
      else
        edit_walk_loop statusNotInSml statusNotInBig sml big M (si - 1) (bi - 1)
          (w\<lparr>ew_script := ew_script w @
               [\<lparr>ee_status = ERetained, ee_value = big ! (bi - 1),
                 ee_index = None, ee_moved = None\<rparr>]\<rparr>))"
  by pat_completeness auto
termination
  by (relation "measure (\<lambda>(_, _, _, _, _, si, bi, _). si + bi)") auto

declare edit_walk_loop.simps [simp del]

subsection \<open>Pairing moves\<close>

text \<open>
  \<open>inner_match\<close> is the loop over \<open>notInBig\<close>: the first \<open>d\<close> whose entry has the value sought.
  \<open>find_moves\<close> is the loop over \<open>notInSml\<close>; \<open>failed\<close> is \<open>failedCompares\<close>, reset by a match
  and increased by the number of entries compared without one.
\<close>

fun inner_match :: "'a edit_entry list \<Rightarrow> 'a \<Rightarrow> nat list \<Rightarrow> nat option" where
  "inner_match script v [] = None"
| "inner_match script v (p # ps) =
     (if v = ee_value (script ! p) then Some 0 else map_option Suc (inner_match script v ps))"

definition set_moved :: "nat \<Rightarrow> nat option \<Rightarrow> 'a edit_entry list \<Rightarrow> 'a edit_entry list" where
  "set_moved p m script = script[p := (script ! p)\<lparr>ee_moved := m\<rparr>]"

fun find_moves ::
  "bool \<Rightarrow> nat \<Rightarrow> nat \<Rightarrow> nat list \<Rightarrow> nat list \<Rightarrow> 'a edit_entry list \<Rightarrow> 'a edit_entry list" where
  "find_moves dontLimitMoves limit failed [] notInBig script = script"
| "find_moves dontLimitMoves limit failed (a # as) notInBig script =
     (if \<not> (dontLimitMoves \<or> failed < limit) then script
      else (case inner_match script (ee_value (script ! a)) notInBig of
          Some d \<Rightarrow>
            (let b = notInBig ! d;
                 script' = set_moved a (ee_index (script ! b)) script;
                 script'' = set_moved b (ee_index (script' ! a)) script'
             in find_moves dontLimitMoves limit 0 as (remove_at d notInBig) script'')
        | None \<Rightarrow>
            find_moves dontLimitMoves limit (failed + length notInBig) as notInBig script))"

subsection \<open>compareArrays\<close>

definition compareSmallArrayToBigArray ::
  "'a list \<Rightarrow> 'a list \<Rightarrow> edit_status \<Rightarrow> edit_status \<Rightarrow> bool \<Rightarrow> 'a edit_entry list option" where
  "compareSmallArrayToBigArray sml big statusNotInSml statusNotInBig dontLimitMoves =
     (case edit_walk_loop statusNotInSml statusNotInBig sml big (editDistanceMatrix sml big)
             (length sml) (length big) \<lparr>ew_script = [], ew_notInSml = [], ew_notInBig = []\<rparr> of
        None \<Rightarrow> None
      | Some w \<Rightarrow>
          Some (rev (if ew_notInSml w \<noteq> [] \<and> ew_notInBig w \<noteq> []
            then find_moves dontLimitMoves (length sml * 10) 0 (ew_notInSml w) (ew_notInBig w) (ew_script w)
            else ew_script w)))"

definition compareArrays :: "'a list \<Rightarrow> 'a list \<Rightarrow> bool \<Rightarrow> 'a edit_entry list option" where
  "compareArrays oldArray newArray dontLimitMoves =
     (if length oldArray \<le> length newArray
      then compareSmallArrayToBigArray oldArray newArray EAdded EDeleted dontLimitMoves
      else compareSmallArrayToBigArray newArray oldArray EDeleted EAdded dontLimitMoves)"

lemma compareRange_pos: "0 < compareRange sml big"
  by (simp add: compareRange_def)

lemma in_band:
  "bi \<in> set (band sml big si) \<longleftrightarrow>
     si - 1 \<le> bi \<and> bi \<le> length big \<and> bi \<le> si + compareRange sml big"
  by (auto simp: band_def)

text \<open>A row filled left to right, each cell reading only its left neighbour.\<close>

lemma fill_upto:
  assumes "\<And>row row' bi. bi \<noteq> 0 \<longrightarrow> row (bi - 1) = row' (bi - 1) \<Longrightarrow> g row bi = g row' bi"
  shows "fold (\<lambda>bi row. row(bi := g row bi)) [lo..<hi] (\<lambda>_. None) bi =
    (if lo \<le> bi \<and> bi < hi
     then g (fold (\<lambda>bi row. row(bi := g row bi)) [lo..<hi] (\<lambda>_. None)) bi else None)"
proof -
  define F where "F n = fold (\<lambda>bi row. row(bi := g row bi)) [lo..<n] (\<lambda>_. None)" for n
  have step: "F (Suc h) = (if lo \<le> h then (F h)(h := g (F h) h) else (\<lambda>_. None))" for h
    unfolding F_def by (cases "lo \<le> h") (simp_all del: fun_upd_apply)
  have "F hi bi = (if lo \<le> bi \<and> bi < hi then g (F hi) bi else None)"
  proof (induction hi arbitrary: bi)
    case 0
    then show ?case by (simp add: F_def)
  next
    case (Suc h)
    show ?case
    proof (cases "lo \<le> h")
      case False
      then show ?thesis using step by auto
    next
      case lo: True
      have *: "g (F (Suc h)) i = g (F h) i" if "i \<le> h" for i
        using that by (intro assms) (auto simp: step lo)
      show ?thesis
      proof (cases "bi = h")
        case True
        then show ?thesis using lo * [of h] step [of h] by (metis fun_upd_same lessI order_refl)
      next
        case False
        have "F (Suc h) bi = F h bi" using False lo step [of h] by simp
        also have "\<dots> = (if lo \<le> bi \<and> bi < h then g (F h) bi else None)" by (rule Suc)
        also have "\<dots> = (if lo \<le> bi \<and> bi < Suc h then g (F (Suc h)) bi else None)"
          using * False by auto
        finally show ?thesis .
      qed
    qed
  qed
  then show ?thesis by (simp only: F_def)
qed

lemma edit_row_eq:
  "edit_row sml big lastRow si bi =
     (if bi \<in> set (band sml big si)
      then edit_cell sml big (length sml + length big + 1) lastRow si (edit_row sml big lastRow si) bi
      else None)"
proof -
  have g: "edit_cell sml big m lastRow si row i = edit_cell sml big m lastRow si row' i"
    if "i \<noteq> 0 \<longrightarrow> row (i - 1) = row' (i - 1)" for m row row' i
    using that by (simp add: edit_cell_def)
  show ?thesis
    unfolding edit_row_def band_def
    by (subst fill_upto [OF g]) auto
qed

lemma length_edit_rows [simp]: "length (edit_rows sml big sis r) = length sis"
  by (induction sis arbitrary: r) (auto simp: Let_def)

lemma edit_rows_nth:
  "i < n - k \<Longrightarrow> edit_rows sml big [k..<n] r ! i =
     edit_row sml big (if i = 0 then r else edit_rows sml big [k..<n] r ! (i - 1)) (k + i)"
proof (induction "n - k" arbitrary: k i r)
  case 0
  then show ?case by simp
next
  case (Suc d)
  then have kn: "[k..<n] = k # [Suc k..<n]" by (simp add: upt_conv_Cons)
  show ?case
  proof (cases i)
    case 0
    then show ?thesis by (simp add: kn Let_def)
  next
    case (Suc j)
    have "j < n - Suc k" using Suc.prems Suc by simp
    then have "edit_rows sml big [Suc k..<n] (edit_row sml big r k) ! j =
      edit_row sml big (if j = 0 then edit_row sml big r k
        else edit_rows sml big [Suc k..<n] (edit_row sml big r k) ! (j - 1)) (Suc k + j)"
      using Suc.hyps by (intro Suc.hyps(1)) auto
    then show ?thesis using Suc by (auto simp: kn Let_def nth_Cons')
  qed
qed

lemma matrix_cell:
  assumes "si \<le> length sml"
  shows "(editDistanceMatrix sml big ! si) bi =
    (if bi \<in> set (band sml big si)
     then edit_cell sml big (length sml + length big + 1)
            (if si = 0 then (\<lambda>_. None) else editDistanceMatrix sml big ! (si - 1)) si
            (editDistanceMatrix sml big ! si) bi
     else None)"
proof -
  have "editDistanceMatrix sml big ! si = edit_row sml big
      (if si = 0 then (\<lambda>_. None) else editDistanceMatrix sml big ! (si - 1)) si"
    using assms edit_rows_nth [of si "Suc (length sml)" 0 sml big "\<lambda>_. None"]
    by (simp add: editDistanceMatrix_def)
  then show ?thesis using edit_row_eq by metis
qed

lemma edit_cell_edges:
  "edit_cell sml big m lastRow si thisRow 0 = Some (si + 1)"
  "edit_cell sml big m lastRow 0 thisRow bi = Some (bi + 1)"
  by (simp_all add: edit_cell_def)

lemma band_left_or_up:
  assumes "bi \<in> set (band sml big si)" "si \<noteq> 0" "bi \<noteq> 0"
  shows "bi - 1 \<in> set (band sml big si) \<or> bi \<in> set (band sml big (si - 1))"
    and "bi - 1 \<in> set (band sml big (si - 1))"
  using assms compareRange_pos [of sml big] by (auto simp: in_band)

text \<open>Every cell of the band is written, with a value between 1 and \<open>maxDistance\<close>.\<close>

lemma matrix_bounds:
  assumes "si \<le> length sml" "bi \<in> set (band sml big si)"
  shows "\<exists>v. (editDistanceMatrix sml big ! si) bi = Some v \<and> 0 < v \<and> v \<le> si + bi + 1"
  using assms
proof (induction "si + bi" arbitrary: si bi rule: less_induct)
  case less
  let ?M = "editDistanceMatrix sml big" and ?m = "length sml + length big + 1"
  have bl: "bi \<le> length big" using less.prems by (simp add: in_band)
  note cell = matrix_cell [OF less.prems(1), of big bi]
  consider "bi = 0" | "si = 0" "bi \<noteq> 0" | "si \<noteq> 0" "bi \<noteq> 0" by blast
  then show ?case
  proof cases
    case 3
    note nb = band_left_or_up [OF less.prems(2) 3]
    have up: "\<exists>v. (?M ! (si - 1)) bi = Some v \<and> 0 < v \<and> v \<le> si + bi" if "bi \<in> set (band sml big (si - 1))"
      using less.hyps [of "si - 1" bi] that 3 less.prems(1) by auto
    have left: "\<exists>v. (?M ! si) (bi - 1) = Some v \<and> 0 < v \<and> v \<le> si + bi" if "bi - 1 \<in> set (band sml big si)"
      using less.hyps [of si "bi - 1"] that 3 less.prems(1) by auto
    have diag: "\<exists>v. (?M ! (si - 1)) (bi - 1) = Some v \<and> 0 < v \<and> v \<le> si + bi"
      using less.hyps [of "si - 1" "bi - 1"] nb(2) 3 less.prems(1) by fastforce
    show ?thesis
    proof (cases "sml ! (si - 1) = big ! (bi - 1)")
      case True
      then show ?thesis using diag cell less.prems(2) 3 by (auto simp: edit_cell_def)
    next
      case False
      have "min (or_max ?m ((?M ! (si - 1)) bi)) (or_max ?m ((?M ! si) (bi - 1))) \<le> si + bi"
        using nb(1)
      proof
        assume "bi - 1 \<in> set (band sml big si)"
        from left [OF this] show ?thesis by (auto simp: or_max_def)
      next
        assume "bi \<in> set (band sml big (si - 1))"
        from up [OF this] show ?thesis by (auto simp: or_max_def)
      qed
      then show ?thesis using cell less.prems(2) 3 False by (simp add: edit_cell_def)
    qed
  qed (use cell less.prems in \<open>simp_all add: edit_cell_def\<close>)
qed

lemma matrix_Some_iff:
  assumes "si \<le> length sml"
  shows "(editDistanceMatrix sml big ! si) bi \<noteq> None \<longleftrightarrow> bi \<in> set (band sml big si)"
proof (cases "bi \<in> set (band sml big si)")
  case True
  then show ?thesis using matrix_bounds [OF assms True] by auto
next
  case False
  then show ?thesis by (simp add: matrix_cell [OF assms])
qed

text \<open>At a cell of the band other than the origin, the first two tests of the walk both fail
  only where the two elements agree.\<close>

lemma walk_branches:
  assumes si: "si \<le> length sml" and bi: "bi \<in> set (band sml big si)" and "si \<noteq> 0 \<or> bi \<noteq> 0"
  defines "M \<equiv> editDistanceMatrix sml big"
  assumes n1: "\<not> (bi \<noteq> 0 \<and> cell_minus_one_is ((M ! si) bi) ((M ! si) (bi - 1)))"
    and n2: "\<not> (si \<noteq> 0 \<and> cell_minus_one_is ((M ! si) bi) ((M ! (si - 1)) bi))"
  shows "si \<noteq> 0" and "bi \<noteq> 0" and "sml ! (si - 1) = big ! (bi - 1)"
proof -
  let ?m = "length sml + length big + 1"
  note cell = matrix_cell [OF si, of big bi, folded M_def]
  have si1: "si - 1 \<le> length sml" using si by simp
  note cellU = matrix_cell [OF si1, of big bi, folded M_def]
  note cellL = matrix_cell [OF si, of big "bi - 1", folded M_def]
  have bl: "bi \<le> length big" using bi by (simp add: in_band)
  show bi0: "bi \<noteq> 0"
  proof
    assume 0: "bi = 0"
    then have "si = 1" using bi assms(3) by (auto simp: in_band)
    moreover have "0 \<in> set (band sml big 0)" by (simp add: in_band)
    ultimately show False using n2 0 bi cell cellU by (simp add: edit_cell_edges cell_minus_one_is_def)
  qed
  show si0: "si \<noteq> 0"
  proof
    assume 0: "si = 0"
    then have "bi - 1 \<in> set (band sml big si)" using bi by (auto simp: in_band)
    then show False using n1 0 bi0 bi cell cellL
      by (simp add: edit_cell_edges cell_minus_one_is_def)
  qed
  show "sml ! (si - 1) = big ! (bi - 1)"
  proof (rule ccontr)
    assume ne: "sml ! (si - 1) \<noteq> big ! (bi - 1)"
    let ?u = "(M ! (si - 1)) bi" and ?l = "(M ! si) (bi - 1)"
    have c: "(M ! si) bi = Some (min (or_max ?m ?u) (or_max ?m ?l) + 1)"
      using cell bi bi0 si0 ne by (simp add: edit_cell_def)
    have u: "?u \<noteq> None \<Longrightarrow> \<exists>v. ?u = Some v \<and> 0 < v \<and> v \<le> si + bi"
      using matrix_bounds [OF si1, of bi big] matrix_Some_iff [OF si1, of big bi] si0 by (fastforce simp: M_def)
    have l: "?l \<noteq> None \<Longrightarrow> \<exists>v. ?l = Some v \<and> 0 < v \<and> v \<le> si + bi"
      using matrix_bounds [OF si, of "bi - 1" big] matrix_Some_iff [OF si, of big "bi - 1"] bi0
      by (fastforce simp: M_def)
    have "?u \<noteq> None \<or> ?l \<noteq> None"
      using band_left_or_up(1) [OF bi si0 bi0] matrix_Some_iff [OF si1] matrix_Some_iff [OF si]
      by (auto simp: M_def)
    then show False
      using n1 n2 c u l si0 bi0 si bl
      by (cases ?u; cases ?l) (auto simp: or_max_def cell_minus_one_is_def min_def split: if_splits)
  qed
qed

subsection \<open>What an edit script means\<close>

text \<open>Running a script against the old array: an added entry contributes its value, a
  retained one copies the next old element and a deleted one drops it, provided it is the
  value the entry names.\<close>

fun apply_edit :: "'a edit_entry list \<Rightarrow> 'a list \<Rightarrow> 'a list option" where
  "apply_edit [] xs = (if xs = [] then Some [] else None)"
| "apply_edit (e # es) xs =
     (case ee_status e of
        EAdded \<Rightarrow> map_option (Cons (ee_value e)) (apply_edit es xs)
      | EDeleted \<Rightarrow> (case xs of x # xs' \<Rightarrow> if x = ee_value e then apply_edit es xs' else None | [] \<Rightarrow> None)
      | ERetained \<Rightarrow> (case xs of
            x # xs' \<Rightarrow> if x = ee_value e then map_option (Cons x) (apply_edit es xs') else None
          | [] \<Rightarrow> None))"

definition values_not :: "edit_status \<Rightarrow> 'a edit_entry list \<Rightarrow> 'a list" where
  "values_not st es = map ee_value (filter (\<lambda>e. ee_status e \<noteq> st) es)"

lemma values_not_simps [simp]:
  "values_not st [] = []"
  "values_not st (e # es) = (if ee_status e \<noteq> st then ee_value e # values_not st es else values_not st es)"
  "values_not st (rev es) = rev (values_not st es)"
  by (simp_all add: values_not_def rev_map rev_filter)

lemma apply_edit_values: "apply_edit es (values_not EAdded es) = Some (values_not EDeleted es)"
  by (induction es) (auto split: edit_status.splits)

text \<open>The positions an entry records, and the fresh state of its move link. The script is in
  push order here, so what follows an entry precedes it in the arrays.\<close>

fun script_ok :: "edit_status \<Rightarrow> edit_status \<Rightarrow> 'a edit_entry list \<Rightarrow> bool" where
  "script_ok A D [] \<longleftrightarrow> True"
| "script_ok A D (e # es) \<longleftrightarrow>
     (case ee_index e of
        None \<Rightarrow> ee_status e = ERetained
      | Some i \<Rightarrow> (ee_status e = A \<and> i = length (values_not D es)) \<or>
                  (ee_status e = D \<and> i = length (values_not A es))) \<and>
     script_ok A D es"

definition positions :: "edit_status \<Rightarrow> nat \<Rightarrow> 'a edit_entry list \<Rightarrow> nat list" where
  "positions st n es = map fst (filter (\<lambda>(_, e). ee_status e = st) (enumerate n es))"

lemma positions_simps [simp]:
  "positions st n [] = []"
  "positions st n (e # es) = (if ee_status e = st then n # positions st (Suc n) es else positions st (Suc n) es)"
  by (simp_all add: positions_def)

lemma set_positions: "p \<in> set (positions st n es) \<longleftrightarrow> n \<le> p \<and> p < n + length es \<and> ee_status (es ! (p - n)) = st"
  by (auto simp: positions_def in_set_enumerate_eq image_iff)

lemma distinct_positions: "distinct (positions st n es)"
proof -
  have "distinct (map fst (enumerate n es))" by simp
  then show ?thesis unfolding positions_def by (rule distinct_map_filter)
qed

definition walk_result ::
  "edit_status \<Rightarrow> edit_status \<Rightarrow> 'a list \<Rightarrow> 'a list \<Rightarrow> nat \<Rightarrow> nat \<Rightarrow> 'a edit_walk \<Rightarrow> 'a edit_entry list \<Rightarrow> 'a edit_walk" where
  "walk_result A D sml big si bi w ext =
     \<lparr>ew_script = ew_script w @ ext,
      ew_notInSml = ew_notInSml w @ positions A (length (ew_script w)) ext,
      ew_notInBig = ew_notInBig w @ positions D (length (ew_script w)) ext\<rparr>"

lemma rev_take_Suc: "n \<noteq> 0 \<Longrightarrow> n \<le> length xs \<Longrightarrow> rev (take n xs) = xs ! (n - 1) # rev (take (n - 1) xs)"
  by (cases n) (simp_all add: take_Suc_conv_app_nth)

lemma edit_walk_correct:
  assumes "si \<le> length sml" "bi \<in> set (band sml big si)"
    and AD: "A \<noteq> D" "A \<noteq> ERetained" "D \<noteq> ERetained"
  shows "\<exists>ext. edit_walk_loop A D sml big (editDistanceMatrix sml big) si bi w =
      Some (walk_result A D sml big si bi w ext) \<and>
    values_not A ext = rev (take si sml) \<and> values_not D ext = rev (take bi big) \<and>
    script_ok A D ext \<and> (\<forall>e \<in> set ext. ee_moved e = None)"
  using assms
proof (induction A D sml big "editDistanceMatrix sml big" si bi w rule: edit_walk_loop.induct)
  case (1 A D sml big si bi w)
  let ?M = "editDistanceMatrix sml big"
  let ?c1 = "bi \<noteq> 0 \<and> cell_minus_one_is ((?M ! si) bi) ((?M ! si) (bi - 1))"
  let ?c2 = "si \<noteq> 0 \<and> cell_minus_one_is ((?M ! si) bi) ((?M ! (si - 1)) bi)"
  note si = "1.prems"(1) and bi = "1.prems"(2) and AD = "1.prems"(3-5)
  have bl: "bi \<le> length big" using bi by (simp add: in_band)
  have next_band: "i \<le> length sml \<Longrightarrow> cell_minus_one_is x ((?M ! i) j) \<Longrightarrow> j \<in> set (band sml big i)" for x i j
    using matrix_Some_iff [of i sml big j] by (auto simp: cell_minus_one_is_def split: option.splits)
  consider (stop) "si = 0 \<and> bi = 0" | (left) "\<not> (si = 0 \<and> bi = 0)" "?c1"
    | (up) "\<not> (si = 0 \<and> bi = 0)" "\<not> ?c1" "?c2"
    | (diag) "\<not> (si = 0 \<and> bi = 0)" "\<not> ?c1" "\<not> ?c2" by blast
  then show ?case
  proof cases
    case stop
    then show ?thesis
      by (intro exI [of _ "[]"]) (simp add: edit_walk_loop.simps walk_result_def)
  next
    case left
    let ?e = "\<lparr>ee_status = A, ee_value = big ! (bi - 1), ee_index = Some (bi - 1), ee_moved = None\<rparr>"
    have "bi - 1 \<in> set (band sml big si)" using left si next_band by blast
    from "1.hyps"(1) [OF left si this AD] obtain ext where
      "edit_walk_loop A D sml big ?M si (bi - 1) (w\<lparr>ew_notInSml := ew_notInSml w @ [length (ew_script w)],
         ew_script := ew_script w @ [?e]\<rparr>) = Some (walk_result A D sml big si (bi - 1)
         (w\<lparr>ew_notInSml := ew_notInSml w @ [length (ew_script w)], ew_script := ew_script w @ [?e]\<rparr>) ext)"
      "values_not A ext = rev (take si sml)" "values_not D ext = rev (take (bi - 1) big)"
      "script_ok A D ext" "\<forall>e \<in> set ext. ee_moved e = None" by blast
    then show ?thesis using left bl AD
      by (intro exI [of _ "?e # ext"])
        (subst edit_walk_loop.simps, simp only: if_not_P [OF left(1)] if_P [OF left(2)], simp add: walk_result_def rev_take_Suc)
  next
    case up
    let ?e = "\<lparr>ee_status = D, ee_value = sml ! (si - 1), ee_index = Some (si - 1), ee_moved = None\<rparr>"
    have s1: "si - 1 \<le> length sml" using si by simp
    have "bi \<in> set (band sml big (si - 1))" using up s1 next_band by blast
    from "1.hyps"(2) [OF up s1 this AD] obtain ext where
      "edit_walk_loop A D sml big ?M (si - 1) bi (w\<lparr>ew_notInBig := ew_notInBig w @ [length (ew_script w)],
         ew_script := ew_script w @ [?e]\<rparr>) = Some (walk_result A D sml big (si - 1) bi
         (w\<lparr>ew_notInBig := ew_notInBig w @ [length (ew_script w)], ew_script := ew_script w @ [?e]\<rparr>) ext)"
      "values_not A ext = rev (take (si - 1) sml)" "values_not D ext = rev (take bi big)"
      "script_ok A D ext" "\<forall>e \<in> set ext. ee_moved e = None" by blast
    then show ?thesis using up si AD
      by (intro exI [of _ "?e # ext"])
        (subst edit_walk_loop.simps, simp only: if_not_P [OF up(1)] if_not_P [OF up(2)] if_P [OF up(3)], simp add: walk_result_def rev_take_Suc)
  next
    case diag
    let ?e = "\<lparr>ee_status = ERetained, ee_value = big ! (bi - 1), ee_index = None, ee_moved = None\<rparr>"
    have nz: "si \<noteq> 0 \<or> bi \<noteq> 0" using diag by auto
    note br = walk_branches [OF si bi nz diag(2,3)]
    have nz': "\<not> (si = 0 \<or> bi = 0)" using br by simp
    have s1: "si - 1 \<le> length sml" using si by simp
    have "bi - 1 \<in> set (band sml big (si - 1))" using band_left_or_up(2) [OF bi br(1,2)] .
    from "1.hyps"(3) [OF diag nz' s1 this AD] obtain ext where
      "edit_walk_loop A D sml big ?M (si - 1) (bi - 1) (w\<lparr>ew_script := ew_script w @ [?e]\<rparr>) =
         Some (walk_result A D sml big (si - 1) (bi - 1) (w\<lparr>ew_script := ew_script w @ [?e]\<rparr>) ext)"
      "values_not A ext = rev (take (si - 1) sml)" "values_not D ext = rev (take (bi - 1) big)"
      "script_ok A D ext" "\<forall>e \<in> set ext. ee_moved e = None" by blast
    then show ?thesis using diag br si bl AD
      by (intro exI [of _ "?e # ext"])
        (subst edit_walk_loop.simps, simp only: if_not_P [OF diag(1)] if_not_P [OF diag(2)] if_not_P [OF diag(3)] if_not_P [OF nz'], simp add: walk_result_def rev_take_Suc)
  qed
qed

subsection \<open>Moves\<close>

text \<open>\<open>links\<close>: the entry at \<open>p\<close> is linked to the one at \<open>q\<close>.\<close>

definition links :: "'a edit_entry list \<Rightarrow> nat \<Rightarrow> nat \<Rightarrow> bool" where
  "links es p q \<longleftrightarrow> q < length es \<and> ee_status (es ! p) \<noteq> ee_status (es ! q) \<and>
     ee_value (es ! p) = ee_value (es ! q) \<and>
     ee_index (es ! p) \<noteq> None \<and> ee_index (es ! q) \<noteq> None \<and>
     ee_moved (es ! p) = ee_index (es ! q) \<and> ee_moved (es ! q) = ee_index (es ! p)"

definition moves_paired :: "'a edit_entry list \<Rightarrow> bool" where
  "moves_paired es \<longleftrightarrow> (\<forall>p < length es. ee_moved (es ! p) \<noteq> None \<longrightarrow> (\<exists>q. links es p q))"

text \<open>What stays as it was when the move links are written.\<close>

definition unmoved :: "'a edit_entry \<Rightarrow> 'a edit_entry" where
  "unmoved e = e\<lparr>ee_moved := None\<rparr>"

lemma unmoved_sel [simp]:
  "ee_status (unmoved e) = ee_status e" "ee_value (unmoved e) = ee_value e"
  "ee_index (unmoved e) = ee_index e" "unmoved (e\<lparr>ee_moved := m\<rparr>) = unmoved e"
  by (simp_all add: unmoved_def)

lemma set_moved_skeleton [simp]: "map unmoved (set_moved p m es) = map unmoved es"
  by (cases "p < length es") (simp_all add: set_moved_def map_update list_update_beyond, metis list_update_id map_update nth_map)

lemma length_set_moved [simp]: "length (set_moved p m es) = length es"
  by (simp add: set_moved_def)

lemma nth_set_moved: "p < length es \<Longrightarrow>
  set_moved p m es ! q = (if q = p then (es ! p)\<lparr>ee_moved := m\<rparr> else es ! q)"
  by (simp add: set_moved_def nth_list_update)

lemma inner_match_Some:
  "inner_match es v ps = Some d \<Longrightarrow> d < length ps \<and> ee_value (es ! (ps ! d)) = v"
  by (induction ps arbitrary: d) (auto split: if_splits)

lemma inner_match_None: "inner_match es v ps = None \<Longrightarrow> p \<in> set ps \<Longrightarrow> ee_value (es ! p) \<noteq> v"
  by (induction ps) (auto split: if_splits)

lemma find_moves_skeleton: "map unmoved (find_moves lim l f as nb es) = map unmoved es"
  by (induction lim l f as nb es rule: find_moves.induct) (auto simp: Let_def split: option.split)

lemma length_find_moves [simp]: "length (find_moves lim l f as nb es) = length es"
  using find_moves_skeleton [of lim l f as nb es] by (metis length_map)

text \<open>The state of the loop: the candidates left are distinct, unmoved, and carry an index.\<close>

definition moves_ready :: "edit_status \<Rightarrow> edit_status \<Rightarrow> nat list \<Rightarrow> nat list \<Rightarrow> 'a edit_entry list \<Rightarrow> bool" where
  "moves_ready A D as nb es \<longleftrightarrow> A \<noteq> D \<and> distinct as \<and> distinct nb \<and>
     (\<forall>a \<in> set as. a < length es \<and> ee_status (es ! a) = A \<and> ee_moved (es ! a) = None \<and> ee_index (es ! a) \<noteq> None) \<and>
     (\<forall>b \<in> set nb. b < length es \<and> ee_status (es ! b) = D \<and> ee_moved (es ! b) = None \<and> ee_index (es ! b) \<noteq> None)"

lemma moves_ready_pair:
  assumes "moves_ready A D (a # as) nb es" "d < length nb"
    and "es' = set_moved (nb ! d) (ee_index (es ! a)) (set_moved a (ee_index (es ! (nb ! d))) es)"
  shows "moves_ready A D as (remove_at d nb) es'"
    and "a \<noteq> nb ! d" "a < length es" "nb ! d < length es"
proof -
  have b: "nb ! d \<in> set nb" using assms(2) by simp
  show *: "a < length es" "nb ! d < length es" "a \<noteq> nb ! d"
    using assms(1) b by (auto simp: moves_ready_def)
  have same: "es' ! q = es ! q" if "q \<noteq> a" "q \<noteq> nb ! d" for q
    using that * by (simp add: assms(3) nth_set_moved)
  have len: "length es' = length es" by (simp add: assms(3))
  have x: "x \<noteq> a \<and> x \<noteq> nb ! d" if "x \<in> set as" for x
    using that assms(1) b by (auto simp: moves_ready_def)
  have y: "y \<in> set nb \<and> y \<noteq> nb ! d \<and> y \<noteq> a" if "y \<in> set (remove_at d nb)" for y
    using that assms(1,2) by (auto simp: remove_at_notin moves_ready_def)
  show "moves_ready A D as (remove_at d nb) es'"
    using assms(1) x y by (simp add: moves_ready_def same len distinct_remove_at)
qed

lemma moves_paired_link:
  assumes "moves_paired es" "a < length es" "b < length es" "a \<noteq> b"
    and "ee_moved (es ! a) = None" "ee_moved (es ! b) = None"
    and "ee_index (es ! a) \<noteq> None" "ee_index (es ! b) \<noteq> None"
    and "ee_status (es ! a) \<noteq> ee_status (es ! b)" "ee_value (es ! a) = ee_value (es ! b)"
  shows "moves_paired (set_moved b (ee_index (es ! a)) (set_moved a (ee_index (es ! b)) es))"
    (is "moves_paired ?es'")
  unfolding moves_paired_def
proof (intro allI impI)
  fix p assume p: "p < length ?es'" "ee_moved (?es' ! p) \<noteq> None"
  have nth: "?es' ! q = (if q = b then (es ! b)\<lparr>ee_moved := ee_index (es ! a)\<rparr>
      else if q = a then (es ! a)\<lparr>ee_moved := ee_index (es ! b)\<rparr> else es ! q)" for q
    using assms(2-4) by (simp add: nth_set_moved)
  show "\<exists>q. links ?es' p q"
  proof (cases "p = a \<or> p = b")
    case True
    then show ?thesis
    proof
      assume "p = a"
      then have "links ?es' p b" using assms by (simp add: links_def nth)
      then show ?thesis ..
    next
      assume "p = b"
      then have "links ?es' p a" using assms by (simp add: links_def nth)
      then show ?thesis ..
    qed
  next
    case False
    then obtain q where q: "links es p q"
      using p assms(1) by (auto simp: moves_paired_def nth)
    then have "q \<noteq> a" "q \<noteq> b" using assms(5,6) by (auto simp: links_def)
    then have "links ?es' p q" using q False by (auto simp: links_def nth)
    then show ?thesis ..
  qed
qed

lemma find_moves_Cons_match:
  assumes "lim \<or> f < l" "inner_match es (ee_value (es ! a)) nb = Some d"
    and "moves_ready A D (a # as) nb es"
  shows "find_moves lim l f (a # as) nb es = find_moves lim l 0 as (remove_at d nb)
    (set_moved (nb ! d) (ee_index (es ! a)) (set_moved a (ee_index (es ! (nb ! d))) es))"
proof -
  have "a < length es" using assms(3) by (simp add: moves_ready_def)
  then show ?thesis using assms(1,2) by (simp add: Let_def nth_set_moved)
qed

lemma moves_ready_skip: "moves_ready A D (a # as) nb es \<Longrightarrow> moves_ready A D as nb es"
  by (auto simp: moves_ready_def)

lemma find_moves_paired:
  "moves_ready A D as nb es \<Longrightarrow> moves_paired es \<Longrightarrow> moves_paired (find_moves lim l f as nb es)"
proof (induction as arbitrary: f nb es)
  case Nil
  then show ?case by simp
next
  case (Cons a as)
  show ?case
  proof (cases "lim \<or> f < l")
    case False
    then show ?thesis using Cons.prems by simp
  next
    case True
    show ?thesis
    proof (cases "inner_match es (ee_value (es ! a)) nb")
      case None
      then show ?thesis
        using True Cons.IH [OF moves_ready_skip [OF Cons.prems(1)]] Cons.prems(2-) by simp
    next
      case (Some d)
      note m = inner_match_Some [OF Some]
      let ?es' = "set_moved (nb ! d) (ee_index (es ! a)) (set_moved a (ee_index (es ! (nb ! d))) es)"
      have b: "nb ! d \<in> set nb" using m by simp
      have "moves_paired ?es'"
        using Cons.prems b m moves_ready_pair [OF Cons.prems(1) conjunct1 [OF m] refl]
        by (intro moves_paired_link) (auto simp: moves_ready_def)
      with Cons.IH moves_ready_pair(1) [OF Cons.prems(1) conjunct1 [OF m] refl]
      show ?thesis by (simp only: find_moves_Cons_match [OF True Some Cons.prems(1)])
    qed
  qed
qed

lemma find_moves_keeps:
  "moves_ready A D as nb es \<Longrightarrow> p < length es \<Longrightarrow> ee_moved (es ! p) \<noteq> None \<Longrightarrow>
     ee_moved (find_moves lim l f as nb es ! p) \<noteq> None"
proof (induction as arbitrary: f nb es)
  case Nil
  then show ?case by simp
next
  case (Cons a as)
  show ?case
  proof (cases "lim \<or> f < l")
    case False
    then show ?thesis using Cons.prems by simp
  next
    case True
    show ?thesis
    proof (cases "inner_match es (ee_value (es ! a)) nb")
      case None
      then show ?thesis
        using True Cons.IH [OF moves_ready_skip [OF Cons.prems(1)]] Cons.prems(2-) by simp
    next
      case (Some d)
      note m = inner_match_Some [OF Some]
      note r = moves_ready_pair [OF Cons.prems(1) conjunct1 [OF m] refl]
      let ?es' = "set_moved (nb ! d) (ee_index (es ! a)) (set_moved a (ee_index (es ! (nb ! d))) es)"
      have b: "nb ! d \<in> set nb" using m by simp
      have "ee_moved (?es' ! p) \<noteq> None"
        using Cons.prems b r(2-4) by (auto simp: nth_set_moved moves_ready_def)
      then show ?thesis
        using Cons.IH [OF r(1)] Cons.prems by (simp add: find_moves_Cons_match [OF True Some Cons.prems(1)] del: find_moves.simps)
    qed
  qed
qed

text \<open>Without the limit on failed comparisons, no added entry and no deleted entry of the same
  value are both left unmoved.\<close>

lemma find_moves_complete:
  "moves_ready A D as nb es \<Longrightarrow> a \<in> set as \<Longrightarrow> b \<in> set nb \<Longrightarrow>
     ee_value (es ! a) = ee_value (es ! b) \<Longrightarrow>
     ee_moved (find_moves True l f as nb es ! a) \<noteq> None \<or>
     ee_moved (find_moves True l f as nb es ! b) \<noteq> None"
proof (induction as arbitrary: f nb es)
  case Nil
  then show ?case by simp
next
  case (Cons x as)
  show ?case
  proof (cases "inner_match es (ee_value (es ! x)) nb")
    case None
    then have "a \<noteq> x" using inner_match_None Cons.prems(3,4) by metis
    then show ?thesis
      using None Cons.IH [OF moves_ready_skip [OF Cons.prems(1)]] Cons.prems(2-) by simp
  next
    case (Some d)
    note m = inner_match_Some [OF Some]
    note r = moves_ready_pair [OF Cons.prems(1) conjunct1 [OF m] refl]
    let ?es' = "set_moved (nb ! d) (ee_index (es ! x)) (set_moved x (ee_index (es ! (nb ! d))) es)"
    have nb: "nb ! d \<in> set nb" using m by simp
    have eq: "find_moves True l f (x # as) nb es = find_moves True l 0 as (remove_at d nb) ?es'"
      using Some Cons.prems(1) by (intro find_moves_Cons_match) auto
    have nth: "?es' ! q = (if q = nb ! d then (es ! (nb ! d))\<lparr>ee_moved := ee_index (es ! x)\<rparr>
        else if q = x then (es ! x)\<lparr>ee_moved := ee_index (es ! (nb ! d))\<rparr> else es ! q)" for q
      using r(2-4) by (simp add: nth_set_moved)
    consider "a = x" | "b = nb ! d" | "a \<noteq> x" "b \<noteq> nb ! d" by blast
    then show ?thesis
    proof cases
      case 1
      have "ee_moved (?es' ! x) \<noteq> None" using Cons.prems(1) nb r(2) by (auto simp: nth moves_ready_def)
      then show ?thesis using find_moves_keeps [OF r(1), of x] r(3) 1 by (simp add: eq del: find_moves.simps)
    next
      case 2
      have "ee_moved (?es' ! b) \<noteq> None" using Cons.prems(1) 2 by (auto simp: nth moves_ready_def)
      then show ?thesis using find_moves_keeps [OF r(1), of b] r(4) 2 by (simp add: eq del: find_moves.simps)
    next
      case 3
      have "b \<in> set (remove_at d nb)" using 3 Cons.prems m by (simp add: remove_at_notin moves_ready_def)
      moreover have "ee_value (?es' ! a) = ee_value (?es' ! b)" using Cons.prems(4) by (auto simp: nth)
      ultimately show ?thesis using Cons.IH [OF r(1)] Cons.prems(2) 3 by (simp add: eq del: find_moves.simps)
    qed
  qed
qed

subsection \<open>The script of compareArrays\<close>

lemma values_not_skeleton: "map unmoved es = map unmoved es' \<Longrightarrow> values_not st es = values_not st es'"
proof -
  have "values_not st es = values_not st (map unmoved es)" for es :: "'a edit_entry list"
    by (induction es) auto
  then show "map unmoved es = map unmoved es' \<Longrightarrow> ?thesis" by metis
qed

lemma script_ok_skeleton:
  "map unmoved es = map unmoved es' \<Longrightarrow> script_ok A D es = script_ok A D es'"
proof -
  have vals: "values_not st (map unmoved es) = values_not st es" for st and es :: "'a edit_entry list"
    by (rule values_not_skeleton) (simp add: unmoved_def)
  have "script_ok A D (map unmoved es) = script_ok A D es" for es :: "'a edit_entry list"
    by (induction es) (simp_all add: vals split: option.split)
  then show "map unmoved es = map unmoved es' \<Longrightarrow> ?thesis" by metis
qed

lemma script_ok_nth:
  "script_ok A D es \<Longrightarrow> k < length es \<Longrightarrow>
     (case ee_index (es ! k) of
        None \<Rightarrow> ee_status (es ! k) = ERetained
      | Some i \<Rightarrow> (ee_status (es ! k) = A \<and> i = length (values_not D (drop (Suc k) es))) \<or>
                  (ee_status (es ! k) = D \<and> i = length (values_not A (drop (Suc k) es))))"
proof (induction es arbitrary: k)
  case (Cons e es)
  show ?case
  proof (cases k)
    case 0
    then show ?thesis using Cons.prems by (simp split: option.splits)
  next
    case (Suc j)
    show ?thesis using Cons.IH [of j] Cons.prems unfolding Suc nth_Cons_Suc drop_Suc_Cons by simp
  qed
qed simp

lemma script_ok_index:
  "script_ok A D es \<Longrightarrow> k < length es \<Longrightarrow> ee_status (es ! k) \<noteq> ERetained \<Longrightarrow> ee_index (es ! k) \<noteq> None"
  using script_ok_nth [of A D es k] by (auto split: option.splits)

lemma moves_paired_rev:
  assumes "moves_paired es"
  shows "moves_paired (rev es)"
  unfolding moves_paired_def
proof (intro allI impI)
  fix p assume p: "p < length (rev es)" "ee_moved (rev es ! p) \<noteq> None"
  then have "length es - Suc p < length es" "ee_moved (es ! (length es - Suc p)) \<noteq> None"
    by (simp_all add: rev_nth)
  then obtain q where q: "links es (length es - Suc p) q"
    using assms unfolding moves_paired_def by blast
  then have "links (rev es) p (length es - Suc q)"
    using p by (auto simp: links_def rev_nth)
  then show "\<exists>q. links (rev es) p q" ..
qed

definition moves_exhausted :: "'a edit_entry list \<Rightarrow> bool" where
  "moves_exhausted es \<longleftrightarrow> (\<forall>e \<in> set es. \<forall>e' \<in> set es.
     ee_status e = EAdded \<longrightarrow> ee_status e' = EDeleted \<longrightarrow> ee_value e = ee_value e' \<longrightarrow>
     ee_moved e \<noteq> None \<or> ee_moved e' \<noteq> None)"

lemma compareSmall_spec:
  fixes sml big :: "'a list"
  assumes "length sml \<le> length big" and AD: "A \<noteq> D" "A \<noteq> ERetained" "D \<noteq> ERetained"
  shows "\<exists>es. compareSmallArrayToBigArray sml big A D lim = Some (rev es) \<and>
    values_not A (rev es) = sml \<and> values_not D (rev es) = big \<and> script_ok A D es \<and>
    moves_paired es \<and> (lim \<longrightarrow> moves_exhausted (rev es))"
proof -
  let ?w = "\<lparr>ew_script = [], ew_notInSml = [], ew_notInBig = []\<rparr> :: 'a edit_walk"
  have band: "length big \<in> set (band sml big (length sml))"
    using assms(1) by (auto simp: in_band compareRange_def)
  obtain ext where ext:
    "edit_walk_loop A D sml big (editDistanceMatrix sml big) (length sml) (length big) ?w =
       Some (walk_result A D sml big (length sml) (length big) ?w ext)"
    "values_not A ext = rev sml" "values_not D ext = rev big" "script_ok A D ext"
    "\<forall>e \<in> set ext. ee_moved e = None"
    using edit_walk_correct [OF order_refl band AD, of ?w] by auto
  let ?as = "positions A 0 ext" and ?nb = "positions D 0 ext"
  have ready: "moves_ready A D ?as ?nb ext"
    using ext(4,5) AD script_ok_index [OF ext(4)]
    by (auto simp: moves_ready_def distinct_positions set_positions)
  let ?es = "if ?as \<noteq> [] \<and> ?nb \<noteq> [] then find_moves lim (length sml * 10) 0 ?as ?nb ext else ext"
  have none: "moves_paired ext" using ext(5) by (auto simp: moves_paired_def)
  have sk: "map unmoved ?es = map unmoved ext" using find_moves_skeleton by auto
  then have "map unmoved (rev ?es) = map unmoved (rev ext)" by (simp add: rev_map [symmetric])
  then have vals: "values_not st (rev ?es) = values_not st (rev ext)" for st
    by (rule values_not_skeleton)
  have len: "length ?es = length ext" by simp
  have nth: "unmoved (?es ! p) = unmoved (ext ! p)" if "p < length ext" for p
    using arg_cong [OF sk, of "\<lambda>l. l ! p"] that len by (auto simp: nth_map)
  have st: "ee_status (?es ! p) = ee_status (ext ! p)" "ee_value (?es ! p) = ee_value (ext ! p)"
    if "p < length ext" for p
    using arg_cong [OF nth [OF that], of ee_status] arg_cong [OF nth [OF that], of ee_value]
    by (simp_all only: unmoved_sel)
  have full: "ee_moved (?es ! p) \<noteq> None \<or> ee_moved (?es ! q) \<noteq> None"
    if lim: lim and pq: "p < length ext" "q < length ext" "ee_status (ext ! p) = A" "ee_status (ext ! q) = D"
      "ee_value (ext ! p) = ee_value (ext ! q)" for p q
  proof -
    have m: "p \<in> set ?as" "q \<in> set ?nb" using pq by (simp_all add: set_positions)
    then have c: "?as \<noteq> [] \<and> ?nb \<noteq> []" by auto
    show ?thesis
      using find_moves_complete [OF ready m pq(5)] lim by (simp only: if_P [OF c])
  qed
  have "lim \<longrightarrow> moves_exhausted (rev ?es)"
  proof
    assume lim
    show "moves_exhausted (rev ?es)"
      unfolding moves_exhausted_def
    proof (intro ballI impI)
      fix e e' assume e: "e \<in> set (rev ?es)" "e' \<in> set (rev ?es)"
        "ee_status e = EAdded" "ee_status e' = EDeleted" "ee_value e = ee_value e'"
      then obtain p q where pq: "p < length ext" "e = ?es ! p" "q < length ext" "e' = ?es ! q"
        using len by (metis in_set_conv_nth set_rev)
      have ad: "{A, D} = {EAdded, EDeleted}" using AD by (cases A; cases D) auto
      have s: "ee_status (ext ! p) = EAdded" "ee_status (ext ! q) = EDeleted"
        "ee_value (ext ! p) = ee_value (ext ! q)"
        using e pq st by metis+
      show "ee_moved e \<noteq> None \<or> ee_moved e' \<noteq> None"
        using full [OF \<open>lim\<close>, of p q] full [OF \<open>lim\<close>, of q p] s pq ad AD(1)
        by (cases "A = EAdded") (auto simp: doubleton_eq_iff)
    qed
  qed
  moreover have "compareSmallArrayToBigArray sml big A D lim = Some (rev ?es)"
    using ext(1) by (simp add: compareSmallArrayToBigArray_def walk_result_def)
  moreover have "script_ok A D ?es" using script_ok_skeleton [OF sk] ext(4) by simp
  moreover have "moves_paired ?es" using find_moves_paired [OF ready none] none by simp
  ultimately show ?thesis using vals ext(2,3) by (intro exI [of _ ?es]) simp
qed

text \<open>The two ways \<open>compareArrays\<close> calls it, as one statement about the arrays.\<close>

lemma compareArrays_spec:
  "\<exists>es A D. compareArrays old new lim = Some (rev es) \<and>
     values_not EAdded (rev es) = old \<and> values_not EDeleted (rev es) = new \<and>
     script_ok A D es \<and> {A, D} = {EAdded, EDeleted} \<and>
     moves_paired (rev es) \<and> (lim \<longrightarrow> moves_exhausted (rev es))"
proof (cases "length old \<le> length new")
  case True
  then show ?thesis
    using compareSmall_spec [of old new EAdded EDeleted lim] moves_paired_rev
    unfolding compareArrays_def by auto
next
  case False
  then show ?thesis
    using compareSmall_spec [of new old EDeleted EAdded lim] moves_paired_rev
    unfolding compareArrays_def by auto
qed

text \<open>C3: compareArrays returns for every pair of arrays, and its script turns the old array into the new one.\<close>

theorem compareArrays_transforms:
  "\<exists>es. compareArrays old new lim = Some es \<and> apply_edit es old = Some new"
  using compareArrays_spec [of old new lim] apply_edit_values by metis

lemma take_rev_drop: "k < length es \<Longrightarrow> take k (rev es) = rev (drop (length es - k) es)"
  by (simp add: take_rev)

text \<open>The index of an entry is its position in the array it belongs to; a link leads to an entry that links back.\<close>

definition well_indexed :: "'a edit_entry list \<Rightarrow> bool" where
  "well_indexed es \<longleftrightarrow> (\<forall>k < length es. case ee_status (es ! k) of
      EAdded \<Rightarrow> ee_index (es ! k) = Some (length (values_not EDeleted (take k es)))
    | EDeleted \<Rightarrow> ee_index (es ! k) = Some (length (values_not EAdded (take k es)))
    | ERetained \<Rightarrow> ee_index (es ! k) = None \<and> ee_moved (es ! k) = None)"

lemma script_indexed:
  assumes "script_ok A D es'" "{A, D} = {EAdded, EDeleted}" "moves_paired (rev es')"
  shows "well_indexed (rev es')"
  unfolding well_indexed_def
proof (intro allI impI)
  fix k assume "k < length (rev es')"
  let ?es = "rev es'" and ?j = "length es' - Suc k"
  have k: "k < length es'" using \<open>k < length (rev es')\<close> by simp
  have j: "?j < length es'" "?es ! k = es' ! ?j" "drop (Suc ?j) es' = drop (length es' - k) es'"
    using k by (simp_all add: rev_nth Suc_diff_Suc)
  have len: "length (values_not st (take k ?es)) = length (values_not st (drop (Suc ?j) es'))" for st
    using k j(3) by (simp add: take_rev_drop)
  have "ee_moved (?es ! k) \<noteq> None \<longrightarrow> ee_index (?es ! k) \<noteq> None"
    using assms(3) k by (auto simp: moves_paired_def links_def)
  moreover have "A \<noteq> ERetained" "D \<noteq> ERetained" using assms(2) by (auto simp: doubleton_eq_iff)
  ultimately show "case ee_status (?es ! k) of
      EAdded \<Rightarrow> ee_index (?es ! k) = Some (length (values_not EDeleted (take k ?es)))
    | EDeleted \<Rightarrow> ee_index (?es ! k) = Some (length (values_not EAdded (take k ?es)))
    | ERetained \<Rightarrow> ee_index (?es ! k) = None \<and> ee_moved (?es ! k) = None"
    using script_ok_nth [OF assms(1) j(1)] assms(2)
    by (auto simp: j(2) [symmetric] len doubleton_eq_iff split: option.splits edit_status.splits)
qed

lemma compareArrays_script:
  obtains es where "compareArrays old new lim = Some es" "values_not EAdded es = old" "values_not EDeleted es = new"
    "well_indexed es" "moves_paired es"
  using compareArrays_spec [of old new lim] script_indexed by metis

text \<open>C10: every added (deleted) entry of the script carries its position in the new (old) array, a
  retained one carries none, and a move link always leads to an entry of the opposite
  status and the same value that links back.\<close>

theorem compareArrays_entries:
  assumes "compareArrays old new lim = Some es" and "k < length es"
  shows "(case ee_status (es ! k) of
      EAdded \<Rightarrow> ee_index (es ! k) = Some (length (values_not EDeleted (take k es)))
    | EDeleted \<Rightarrow> ee_index (es ! k) = Some (length (values_not EAdded (take k es)))
    | ERetained \<Rightarrow> ee_index (es ! k) = None \<and> ee_moved (es ! k) = None) \<and>
    (ee_moved (es ! k) \<noteq> None \<longrightarrow> (\<exists>q. links es k q))"
proof -
  have "well_indexed es" "moves_paired es"
    using compareArrays_script [of old new lim] assms(1) by auto
  then show ?thesis using assms(2) by (simp add: well_indexed_def moves_paired_def)
qed

theorem compareArrays_entries_witness:
  "ee_index (the (compareArrays [5, 7::nat] [7, 9] False) ! 0) = Some 0"
proof -
  have c: "compareArrays [5, 7::nat] [7, 9] False = Some
     [\<lparr>ee_status = EDeleted, ee_value = 5, ee_index = Some 0, ee_moved = None\<rparr>,
      \<lparr>ee_status = ERetained, ee_value = 7, ee_index = None, ee_moved = None\<rparr>,
      \<lparr>ee_status = EAdded, ee_value = 9, ee_index = Some 1, ee_moved = None\<rparr>]"
    by code_simp
  show ?thesis using compareArrays_entries [OF c, of 0] by (simp add: c)
qed

text \<open>Without the limit on failed comparisons, no value is left both added and deleted without one
  of the two entries being a move.\<close>

theorem compareArrays_moves_exhausted:
  "\<exists>es. compareArrays old new True = Some es \<and> moves_exhausted es"
  using compareArrays_spec [of old new True] by auto

end
