(* ===== verification/KoExpr.thy ===== *)
theory KoExpr
  imports KoUtils
begin

text \<open>
  \<open>ko.expressionRewriting\<close> of knockout-2.2.0.debug.js: the splitting of a \<open>data-bind\<close>
  attribute into key/value pairs and its rewriting with property writers.

  \<open>parseObjectLiteral\<close> replaces string literals, regular expressions and bracketed blocks by
  tokens \<open>@ko_token_n@\<close>, splits on commas, and restores the tokens. The restoring loop runs
  until the string does not change; it can run for ever, so it and what calls it return
  an option, \<^const>\<open>None\<close> when the code does not return.
\<close>

subsection \<open>Restoring tokens\<close>

definition tok_prefix :: string where
  "tok_prefix = ''@ko_token_''"

definition tok_text :: "nat \<Rightarrow> string" where
  "tok_text n = tok_prefix @ nat_str n @ ''@''"

text \<open>\<open>tokens[tokenIndex]\<close>, where the index is the captured string: \<open>"undefined"\<close> for one that
  is not the decimal form of an index of the array.\<close>

definition token_at :: "string list \<Rightarrow> string \<Rightarrow> string" where
  "token_at tokens ds =
     (let k = digits_val 0 ds in if ds = nat_str k \<and> k < length tokens then tokens ! k else ''undefined'')"

text \<open>One \<open>string.replace(/\@ko_token_(\d+)\@/g, ...)\<close>.\<close>

function restore_once :: "string list \<Rightarrow> string \<Rightarrow> string" where
  "restore_once tokens s =
     (if s = '''' then ''''
      else let rest = drop (length tok_prefix) s;
               ds = takeWhile is_digit rest;
               after = drop (length ds) rest
           in if starts_with tok_prefix s \<and> ds \<noteq> '''' \<and> after \<noteq> '''' \<and> hd after = CHR ''@''
              then token_at tokens ds @ restore_once tokens (tl after)
              else hd s # restore_once tokens (tl s))"
  by pat_completeness auto
termination
  by (relation "measure (\<lambda>(_, s). length s)") (auto simp: tok_prefix_def)

declare restore_once.simps [simp del]

partial_function (option) restoreTokens :: "string \<Rightarrow> string list \<Rightarrow> string option" where
  "restoreTokens s tokens =
     (let s' = restore_once tokens s in if s' = s then Some s else restoreTokens s' tokens)"

subsection \<open>Parsing an object literal\<close>

datatype kv_entry = KeyValue string string | Unknown string

text \<open>
  The first scan, over string and regular-expression literals. Its state is the string, the
  position, \<open>tokenStart\<close> (\<^const>\<open>None\<close> for null), \<open>tokenEndChar\<close> and the tokens. \<open>cut_token\<close>
  replaces the characters from \<open>tokenStart\<close> to \<open>position\<close> by the token's name; \<open>position\<close> is
  moved back by the characters that went away. (The test \<open>start < position\<close> always holds in
  a run: \<open>position\<close> only moves to the right of \<open>tokenStart\<close>; it is what the termination
  proof reads. The same goes for \<open>block_from b' \<le> position\<close> in the second scan.)
\<close>

definition cut_token :: "string \<Rightarrow> nat \<Rightarrow> nat \<Rightarrow> string list \<Rightarrow> string \<times> nat \<times> string list" where
  "cut_token str tokenStart position tokens =
     (let token = take (position + 1 - tokenStart) (drop tokenStart str);
          replacement = tok_text (length tokens)
      in (take tokenStart str @ replacement @ drop (position + 1) str,
          position + length replacement - length token, tokens @ [token]))"

lemma cut_token_remaining:
  "cut_token str ts p tokens = (str', p', tokens') \<Longrightarrow> ts \<le> p \<Longrightarrow> p < length str \<Longrightarrow>
     length str' - p' = length str - p \<and> p' < length str'"
  by (auto simp: cut_token_def Let_def tok_text_def)

lemma cut_token_measure:
  "(str', p', tokens') = cut_token str ts p tokens \<Longrightarrow> ts \<le> p \<Longrightarrow> p < length str \<Longrightarrow>
     length str' - Suc p' < length str - p"
  using cut_token_remaining [of str ts p tokens str' p' tokens'] by auto

function pull_literals ::
  "string \<Rightarrow> nat \<Rightarrow> nat option \<Rightarrow> char option \<Rightarrow> string list \<Rightarrow> string \<times> string list" where
  "pull_literals str position tokenStart tokenEndChar tokens =
     (if \<not> position < length str then (str, tokens)
      else let c = str ! position
      in case tokenStart of
           None \<Rightarrow>
             if c \<in> {CHR 0x22, CHR 0x27, CHR ''/''}
             then pull_literals str (position + 1) (Some position) (Some c) tokens
             else pull_literals str (position + 1) None tokenEndChar tokens
         | Some start \<Rightarrow>
             if start < position \<and> Some c = tokenEndChar \<and> str ! (position - 1) \<noteq> CHR 0x5C
             then (case cut_token str start position tokens of
                     (str', position', tokens') \<Rightarrow>
                       pull_literals str' (position' + 1) None tokenEndChar tokens')
             else pull_literals str (position + 1) (Some start) tokenEndChar tokens)"
  by pat_completeness auto
termination
  by (relation "measure (\<lambda>(str, p, _). length str - p)") (auto dest!: cut_token_measure)

declare pull_literals.simps [simp del]

text \<open>
  The second scan, over balanced blocks. The comparisons \<open>c === tokenStartChar\<close> and
  \<open>c === tokenEndChar\<close> are made whether or not a block is open, with the characters of the
  last one; \<open>str.substring(null, ...)\<close> starts at 0.
\<close>

definition closing_bracket :: "char \<Rightarrow> char option" where
  "closing_bracket c =
     (if c = CHR ''{'' then Some CHR ''}'' else if c = CHR ''('' then Some CHR '')''
      else if c = CHR ''['' then Some CHR '']'' else None)"

record block_scan =
  bs_start :: "nat option"
  bs_startChar :: "char option"
  bs_endChar :: "char option"
  bs_depth :: int

definition open_block :: "char \<Rightarrow> nat \<Rightarrow> block_scan \<Rightarrow> block_scan" where
  "open_block c position b =
     (case (bs_start b, closing_bracket c) of
        (None, Some e) \<Rightarrow> b\<lparr>bs_start := Some position, bs_startChar := Some c, bs_endChar := Some e\<rparr>
      | _ \<Rightarrow> b)"

definition block_from :: "block_scan \<Rightarrow> nat" where
  "block_from b = (case bs_start b of Some start \<Rightarrow> start | None \<Rightarrow> 0)"

function pull_blocks ::
  "string \<Rightarrow> nat \<Rightarrow> block_scan \<Rightarrow> string list \<Rightarrow> string \<times> string list" where
  "pull_blocks str position b tokens =
     (if \<not> position < length str then (str, tokens)
      else let c = str ! position; b' = open_block c position b
      in if Some c = bs_startChar b' then
           pull_blocks str (position + 1) (b'\<lparr>bs_depth := bs_depth b' + 1\<rparr>) tokens
         else if Some c = bs_endChar b' then
           (if bs_depth b' - 1 = 0 \<and> block_from b' \<le> position
            then (case cut_token str (block_from b') position tokens of
                    (str', position', tokens') \<Rightarrow>
                      pull_blocks str' (position' + 1) (b'\<lparr>bs_depth := 0, bs_start := None\<rparr>) tokens')
            else pull_blocks str (position + 1) (b'\<lparr>bs_depth := bs_depth b' - 1\<rparr>) tokens)
         else pull_blocks str (position + 1) b' tokens)"
  by pat_completeness auto
termination
  by (relation "measure (\<lambda>(str, p, _). length str - p)") (auto dest!: cut_token_measure)

declare pull_blocks.simps [simp del]

text \<open>The pairs: a comma-separated piece is a pair when it has a colon that is neither its first
  nor its last character.\<close>

definition bind_option :: "'a option \<Rightarrow> ('a \<Rightarrow> 'b option) \<Rightarrow> 'b option" where
  "bind_option x f = (case x of None \<Rightarrow> None | Some y \<Rightarrow> f y)"

definition parse_pair :: "string list \<Rightarrow> string \<Rightarrow> kv_entry option" where
  "parse_pair tokens pair =
     (case str_index pair '':'' of
        Some colonPos \<Rightarrow>
          if 0 < colonPos \<and> colonPos < length pair - 1
          then bind_option (restoreTokens (take colonPos pair) tokens) (\<lambda>k.
               bind_option (restoreTokens (drop (colonPos + 1) pair) tokens) (\<lambda>v. Some (KeyValue k v)))
          else map_option Unknown (restoreTokens pair tokens)
      | None \<Rightarrow> map_option Unknown (restoreTokens pair tokens))"

fun parse_pairs :: "string list \<Rightarrow> string list \<Rightarrow> kv_entry list option" where
  "parse_pairs tokens [] = Some []"
| "parse_pairs tokens (p # ps) =
     bind_option (parse_pair tokens p) (\<lambda>e. map_option (\<lambda>es. e # es) (parse_pairs tokens ps))"

text \<open>The text of the literal without the braces around it.\<close>

definition literal_body :: "string \<Rightarrow> string" where
  "literal_body s =
     (let str = stringTrim s in if hd str = CHR ''{'' then take (length str - 2) (tl str) else str)"

definition no_block :: block_scan where
  "no_block = \<lparr>bs_start = None, bs_startChar = None, bs_endChar = None, bs_depth = 0\<rparr>"

definition parseObjectLiteral :: "string \<Rightarrow> kv_entry list option" where
  "parseObjectLiteral s =
     (if length (stringTrim s) < 3 then Some []
      else case pull_literals (literal_body s) 0 None None [] of
        (str, tokens) \<Rightarrow>
          (case pull_blocks str 0 no_block tokens of
             (str', tokens') \<Rightarrow> parse_pairs tokens' (split_on CHR '','' str')))"

subsection \<open>Strings with tokens\<close>

text \<open>
  The strings of the scans read as sequences of characters and token names: \<open>flat\<close> is the
  text, \<open>full\<close> the text with every token restored, and \<open>token_text_of\<close> relates a string and a
  token array to the original text.
\<close>

datatype sym = Ch char | Tok nat

fun flat :: "sym list \<Rightarrow> string" where
  "flat [] = []"
| "flat (Ch c # xs) = c # flat xs"
| "flat (Tok k # xs) = tok_text k @ flat xs"

fun wf_sym :: "nat \<Rightarrow> sym \<Rightarrow> bool" where
  "wf_sym n (Ch c) \<longleftrightarrow> c \<noteq> CHR ''@''"
| "wf_sym n (Tok k) \<longleftrightarrow> k < n"

definition wf_syms :: "nat \<Rightarrow> sym list \<Rightarrow> bool" where
  "wf_syms n xs \<longleftrightarrow> (\<forall>x \<in> set xs. wf_sym n x)"

definition wf_toks :: "sym list list \<Rightarrow> bool" where
  "wf_toks T \<longleftrightarrow> (\<forall>k < length T. wf_syms k (T ! k))"

fun expand_sym :: "sym list list \<Rightarrow> sym \<Rightarrow> sym list" where
  "expand_sym T (Ch c) = [Ch c]"
| "expand_sym T (Tok k) = T ! k"

definition expand :: "sym list list \<Rightarrow> sym list \<Rightarrow> sym list" where
  "expand T xs = concat (map (expand_sym T) xs)"

fun full :: "sym list list \<Rightarrow> nat \<Rightarrow> sym list \<Rightarrow> string" where
  "full T 0 xs = flat xs"
| "full T (Suc n) xs = full T n (expand T xs)"

lemma flat_append [simp]: "flat (xs @ ys) = flat xs @ flat ys"
proof (induction xs)
  case (Cons x xs)
  then show ?case by (cases x) auto
qed simp

lemma flat_chars: "flat (map Ch s) = s"
  by (induction s) auto

lemma expand_append [simp]: "expand T (xs @ ys) = expand T xs @ expand T ys"
  by (simp add: expand_def)

lemma full_append: "full T n (xs @ ys) = full T n xs @ full T n ys"
  by (induction n arbitrary: xs ys) auto

lemma wf_syms_append [simp]: "wf_syms n (xs @ ys) \<longleftrightarrow> wf_syms n xs \<and> wf_syms n ys"
  by (auto simp: wf_syms_def)

lemma wf_syms_Cons [simp]: "wf_syms n (x # xs) \<longleftrightarrow> wf_sym n x \<and> wf_syms n xs"
  by (auto simp: wf_syms_def)

lemma wf_syms_Nil [simp]: "wf_syms n []"
  by (simp add: wf_syms_def)

lemma wf_sym_mono: "wf_sym m x \<Longrightarrow> m \<le> n \<Longrightarrow> wf_sym n x"
  by (cases x) auto

lemma wf_syms_mono: "wf_syms m xs \<Longrightarrow> m \<le> n \<Longrightarrow> wf_syms n xs"
  by (auto simp: wf_syms_def intro: wf_sym_mono)

lemma expand_wf:
  assumes "wf_toks T" "wf_syms (Suc n) xs" "n < length T"
  shows "wf_syms n (expand T xs)"
  using assms(2)
proof (induction xs)
  case Nil
  then show ?case by (simp add: expand_def)
next
  case (Cons x xs)
  have "wf_syms n (expand_sym T x)"
  proof (cases x)
    case (Tok k)
    then have "wf_syms k (T ! k)" "k \<le> n" using Cons.prems assms by (auto simp: wf_toks_def)
    then show ?thesis using Tok wf_syms_mono by simp
  qed (use Cons.prems in simp)
  then show ?case using Cons by (simp add: expand_def)
qed

lemma expand_no_toks: "wf_syms 0 xs \<Longrightarrow> expand T xs = xs"
proof (induction xs)
  case (Cons x xs)
  then show ?case by (cases x) (auto simp: expand_def)
qed (simp add: expand_def)

lemma full_Suc:
  "wf_toks T \<Longrightarrow> wf_syms n xs \<Longrightarrow> n \<le> length T \<Longrightarrow> full T (Suc n) xs = full T n xs"
proof (induction n arbitrary: xs)
  case 0
  then show ?case by (simp add: expand_no_toks)
next
  case (Suc n)
  then have "full T (Suc n) (expand T xs) = full T n (expand T xs)" using expand_wf by simp
  then show ?case by simp
qed

lemma expand_extend: "wf_syms (length T) xs \<Longrightarrow> expand (T @ [m]) xs = expand T xs"
proof (induction xs)
  case (Cons x xs)
  then show ?case by (cases x) (auto simp: expand_def nth_append)
qed (simp add: expand_def)

lemma full_extend:
  "wf_toks T \<Longrightarrow> wf_syms n xs \<Longrightarrow> n \<le> length T \<Longrightarrow> full (T @ [m]) n xs = full T n xs"
proof (induction n arbitrary: xs)
  case (Suc n)
  then have "expand (T @ [m]) xs = expand T xs" by (intro expand_extend) (auto intro: wf_syms_mono)
  then show ?case using Suc expand_wf [of T n xs] by simp
qed simp

lemma wf_toks_extend: "wf_toks T \<Longrightarrow> wf_syms (length T) m \<Longrightarrow> wf_toks (T @ [m])"
  by (auto simp: wf_toks_def nth_append less_Suc_eq)

lemma full_token:
  assumes "wf_toks T" "wf_syms (length T) (a @ m @ b)"
  shows "full (T @ [m]) (Suc (length T)) (a @ Tok (length T) # b) = full T (length T) (a @ m @ b)"
proof -
  let ?T = "T @ [m]" and ?n = "length T"
  have wfT: "wf_toks ?T" using assms by (intro wf_toks_extend) auto
  have same: "full ?T ?n (expand ?T x) = full T ?n x" if "wf_syms ?n x" for x
    using full_Suc [OF wfT, of ?n x] full_extend [OF assms(1), of ?n x m] that by simp
  have "expand ?T (a @ Tok ?n # b) = expand ?T a @ m @ expand ?T b"
    by (simp add: expand_def)
  then show ?thesis
    using assms(2) same [of a] same [of b] full_extend [OF assms(1), of ?n m m]
    by (simp add: full_append)
qed

subsection \<open>The restoring loop\<close>

lemma at_not_digit: "\<not> is_digit CHR ''@''"
  by code_simp

lemma digits_run: "takeWhile is_digit (nat_str k @ CHR ''@'' # r) = nat_str k"
  using nat_str_digits [of k] at_not_digit by (simp add: takeWhile_append2)

lemma restore_once_tok:
  "restore_once tokens (tok_text k @ r) =
     (if k < length tokens then tokens ! k else ''undefined'') @ restore_once tokens r"
proof -
  have "starts_with tok_prefix (tok_text k @ r)"
    by (simp add: tok_text_def)
  moreover have "drop (length tok_prefix) (tok_text k @ r) = nat_str k @ CHR ''@'' # r"
    by (simp add: tok_text_def)
  moreover have "tok_text k @ r \<noteq> []" by (simp add: tok_text_def)
  moreover have "drop (length (nat_str k)) (nat_str k @ CHR ''@'' # r) = CHR ''@'' # r" by simp
  ultimately show ?thesis
    by (subst restore_once.simps)
      (simp add: digits_run nat_str_nonempty token_at_def digits_val_nat_str Let_def del: drop_append append_is_Nil_conv)
qed

lemma restore_once_char: "c \<noteq> CHR ''@'' \<Longrightarrow> restore_once tokens (c # r) = c # restore_once tokens r"
  by (subst restore_once.simps) (simp add: Let_def starts_with_def tok_prefix_def)

lemma restore_once_flat:
  "wf_syms (length T) xs \<Longrightarrow> restore_once (map flat T) (flat xs) = flat (expand T xs)"
proof (induction xs)
  case Nil
  then show ?case by (simp add: expand_def restore_once.simps)
next
  case (Cons x xs)
  then show ?case
    by (cases x) (simp_all add: expand_def restore_once_tok restore_once_char)
qed

lemma restoreTokens_step: "restoreTokens s tokens = restoreTokens (restore_once tokens s) tokens"
proof (cases "restore_once tokens s = s")
  case False
  then show ?thesis by (subst restoreTokens.simps) (simp add: Let_def)
qed simp

lemma restoreTokens_flat:
  "wf_toks T \<Longrightarrow> wf_syms n xs \<Longrightarrow> n \<le> length T \<Longrightarrow>
     restoreTokens (flat xs) (map flat T) = Some (full T n xs)"
proof (induction n arbitrary: xs)
  case 0
  then have "restore_once (map flat T) (flat xs) = flat xs"
    using restore_once_flat [of T xs] wf_syms_mono [of 0 xs "length T"] by (simp add: expand_no_toks)
  then show ?case by (subst restoreTokens.simps) simp
next
  case (Suc n)
  then have "restoreTokens (flat (expand T xs)) (map flat T) = Some (full T n (expand T xs))"
    using expand_wf by simp
  then show ?case
    using Suc.prems restore_once_flat [OF wf_syms_mono [OF Suc.prems(2,3)]] restoreTokens_step [of "flat xs"] by simp
qed

subsection \<open>The scans keep the text\<close>

definition token_text_of :: "string \<Rightarrow> string \<times> string list \<Rightarrow> bool" where
  "token_text_of orig p \<longleftrightarrow> (\<exists>T xs. p = (flat xs, map flat T) \<and> wf_toks T \<and>
     wf_syms (length T) xs \<and> full T (length T) xs = orig)"

text \<open>Characters that no token name contains.\<close>

definition not_in_token :: "char \<Rightarrow> bool" where
  "not_in_token c \<longleftrightarrow> c \<noteq> CHR ''@'' \<and> \<not> is_word c"

lemma tok_text_chars: "c \<in> set (tok_text k) \<Longrightarrow> c = CHR ''@'' \<or> is_word c"
proof -
  assume "c \<in> set (tok_text k)"
  then have "c \<in> set tok_prefix \<or> is_digit c \<or> c = CHR ''@''"
    using nat_str_digits by (auto simp: tok_text_def)
  moreover have "\<forall>c \<in> set tok_prefix. c = CHR ''@'' \<or> is_word c" by code_simp
  ultimately show ?thesis by (auto simp: is_digit_def is_word_def)
qed

lemma flat_at:
  "p < length (flat xs) \<Longrightarrow> not_in_token (flat xs ! p) \<Longrightarrow>
     \<exists>a b. xs = a @ Ch (flat xs ! p) # b \<and> length (flat a) = p"
proof (induction xs arbitrary: p)
  case Nil
  then show ?case by simp
next
  case (Cons x xs)
  show ?case
  proof (cases "p < length (flat [x])")
    case True
    show ?thesis
    proof (cases x)
      case (Ch c)
      then show ?thesis using True by (intro exI [of _ "[]"] exI [of _ xs]) simp
    next
      case (Tok k)
      then have "flat (x # xs) ! p \<in> set (tok_text k)" using True by (simp add: nth_append)
      then show ?thesis using Cons.prems tok_text_chars by (auto simp: not_in_token_def)
    qed
  next
    case False
    let ?q = "p - length (flat [x])"
    have eq: "flat (x # xs) = flat [x] @ flat xs" using flat_append [of "[x]" xs] by simp
    have q: "?q < length (flat xs)" "flat xs ! ?q = flat (x # xs) ! p"
      using Cons.prems False unfolding eq by (simp_all add: nth_append)
    then obtain a b where "xs = a @ Ch (flat xs ! ?q) # b" "length (flat a) = ?q"
      using Cons.IH [of ?q] Cons.prems by auto
    moreover have "length (flat (x # a)) = length (flat [x]) + length (flat a)"
      using flat_append [of "[x]" a] by simp
    ultimately show ?thesis using q False
      by (intro exI [of _ "x # a"] exI [of _ b]) simp
  qed
qed

lemma cut_token_text:
  assumes repr: "token_text_of orig (str, tokens)" and le: "ts \<le> p" and p: "p < length str"
    and c: "not_in_token (str ! ts)" "not_in_token (str ! p)"
    and cut: "cut_token str ts p tokens = (str', p', tokens')"
  shows "token_text_of orig (str', tokens')"
proof -
  obtain T xs where T: "str = flat xs" "tokens = map flat T" "wf_toks T"
    "wf_syms (length T) xs" "full T (length T) xs = orig"
    using repr by (auto simp: token_text_of_def)
  obtain a b where a: "xs = a @ Ch (str ! ts) # b" "length (flat a) = ts"
    using flat_at [of ts xs] le p c(1) T(1) by auto
  obtain m b2 where m: "xs = a @ m @ b2" "length (flat m) = p + 1 - ts"
  proof (cases "ts = p")
    case True
    then show thesis using that [of "[Ch (str ! ts)]" b] a by simp
  next
    case False
    let ?q = "p - ts - 1"
    have s: "str = flat a @ str ! ts # flat b"
      using T(1) arg_cong [OF a(1), of flat] by simp
    have "(flat a @ d # flat b) ! p = flat b ! ?q" for d
      using a(2) le False by (simp add: nth_append)
    then have "flat b ! ?q = str ! p" using s by metis
    moreover have "?q < length (flat b)"
      using arg_cong [OF s, of length] a(2) le p False by simp
    ultimately have "flat b ! ?q = str ! p" "?q < length (flat b)" by simp_all
    then obtain u v where "b = u @ Ch (str ! p) # v" "length (flat u) = ?q"
      using flat_at [of ?q b] c(2) by auto
    then show thesis using that [of "Ch (str ! ts) # u @ [Ch (str ! p)]" v] a le False by simp
  qed
  have "token_text_of orig (flat (a @ Tok (length T) # b2), map flat (T @ [m]))"
    unfolding token_text_of_def
    using T m full_token [of T a m b2] wf_toks_extend [of T m]
    by (intro exI [of _ "T @ [m]"] exI [of _ "a @ Tok (length T) # b2"]) (auto intro: wf_syms_mono)
  moreover have "str' = flat (a @ Tok (length T) # b2)" "tokens' = map flat (T @ [m])"
  proof -
    have "str = flat a @ flat m @ flat b2" using T m by simp
    moreover have "p + 1 = length (flat a) + length (flat m)" using a m le by simp
    ultimately show "str' = flat (a @ Tok (length T) # b2)" "tokens' = map flat (T @ [m])"
      using cut a(2) m(2) T(2) by (auto simp: cut_token_def Let_def)
  qed
  ultimately show ?thesis by simp
qed

lemma literal_delims: "c \<in> {CHR 0x22, CHR 0x27, CHR ''/''} \<Longrightarrow> not_in_token c"
proof -
  have "\<forall>c \<in> {CHR 0x22, CHR 0x27, CHR ''/''}. not_in_token c" by code_simp
  then show "c \<in> {CHR 0x22, CHR 0x27, CHR ''/''} \<Longrightarrow> not_in_token c" by blast
qed

lemma pull_literals_text:
  assumes "token_text_of orig (str, tokens)"
    and "\<forall>start. ts = Some start \<longrightarrow> start < p \<and> start < length str \<and> not_in_token (str ! start) \<and>
           (\<exists>e. ec = Some e \<and> not_in_token e)"
  shows "token_text_of orig (pull_literals str p ts ec tokens)"
  using assms
proof (induction str p ts ec tokens rule: pull_literals.induct)
  case (1 str p ts ec tokens)
  show ?case
  proof (cases "p < length str")
    case False
    then show ?thesis using "1.prems" by (subst pull_literals.simps) simp
  next
    case len: True
    show ?thesis
    proof (cases ts)
      case None
      show ?thesis
      proof (cases "str ! p \<in> {CHR 0x22, CHR 0x27, CHR ''/''}")
        case True
        have "token_text_of orig (pull_literals str (p + 1) (Some p) (Some (str ! p)) tokens)"
          using None len True "1.prems" literal_delims [OF True] by (intro "1.IH"(1)) auto
        then show ?thesis using None len True by (subst pull_literals.simps) (simp only: if_True not_True_eq_False if_False Let_def option.case)
      next
        case False
        have "token_text_of orig (pull_literals str (p + 1) None ec tokens)"
          using None len False "1.prems" by (intro "1.IH"(2)) auto
        then show ?thesis using None len False by (subst pull_literals.simps) (simp only: if_True not_True_eq_False if_False Let_def option.case)
      qed
    next
      case (Some start)
      show ?thesis
      proof (cases "start < p \<and> Some (str ! p) = ec \<and> str ! (p - 1) \<noteq> CHR 0x5C")
        case True
        obtain s' p' t' where cut: "cut_token str start p tokens = (s', p', t')" by (metis surj_pair)
        have "token_text_of orig (s', t')"
          using "1.prems" Some True len cut_token_text [OF _ _ _ _ _ cut] by auto
        then have "token_text_of orig (pull_literals s' (p' + 1) None ec t')"
          using Some len True cut by (intro "1.IH"(3)) auto
        then show ?thesis using Some len True cut by (subst pull_literals.simps) (simp only: simp_thms if_True if_False Let_def option.case prod.case)
      next
        case False
        have "token_text_of orig (pull_literals str (p + 1) (Some start) ec tokens)"
          using Some len False "1.prems" by (intro "1.IH"(4)) auto
        then show ?thesis using Some len False by (subst pull_literals.simps) (simp only: if_True not_True_eq_False if_False Let_def option.case)
      qed
    qed
  qed
qed

definition block_scan_ok :: "string \<Rightarrow> nat \<Rightarrow> block_scan \<Rightarrow> bool" where
  "block_scan_ok str p b \<longleftrightarrow>
     (\<forall>start. bs_start b = Some start \<longrightarrow> start \<le> p \<and> start < length str \<and> not_in_token (str ! start)) \<and>
     (bs_start b = None \<longrightarrow> bs_depth b \<le> 0) \<and>
     (\<forall>e. bs_endChar b = Some e \<longrightarrow> not_in_token e) \<and>
     (\<forall>c. bs_startChar b = Some c \<longrightarrow> not_in_token c)"

lemma brackets_not_in_token: "closing_bracket c = Some e \<Longrightarrow> not_in_token c \<and> not_in_token e"
proof -
  have "\<forall>c \<in> {CHR ''{'', CHR ''('', CHR ''[''}. not_in_token c"
    "\<forall>c \<in> {CHR ''}'', CHR '')'', CHR '']''}. not_in_token c" by code_simp+
  then show "closing_bracket c = Some e \<Longrightarrow> not_in_token c \<and> not_in_token e"
    by (auto simp: closing_bracket_def split: if_splits)
qed

text \<open>After \<open>open_block\<close> either no block is open or the invariant of an open one holds; a block
  that has just been opened is at depth 0 or below until its own bracket is counted.\<close>

lemma open_block_ok:
  assumes "block_scan_ok str p b" "p < length str"
  shows "block_scan_ok str p (open_block (str ! p) p b)"
    and "bs_start (open_block (str ! p) p b) = None \<Longrightarrow> open_block (str ! p) p b = b"
  using assms brackets_not_in_token
  by (auto simp: block_scan_ok_def open_block_def split: option.splits)

lemma opened_start_char:
  assumes "Some (str ! p) = bs_startChar (open_block (str ! p) p b)"
    and "\<forall>c. bs_startChar b = Some c \<longrightarrow> closing_bracket c \<noteq> None"
  shows "bs_start (open_block (str ! p) p b) \<noteq> None"
  using assms by (auto simp: open_block_def split: option.splits dest!: sym [of "Some _"])

lemma open_block_startChar:
  assumes "\<forall>c. bs_startChar b = Some c \<longrightarrow> closing_bracket c \<noteq> None"
  shows "\<forall>c'. bs_startChar (open_block c p b) = Some c' \<longrightarrow> closing_bracket c' \<noteq> None"
  using assms by (auto simp: open_block_def split: option.splits)

lemma pull_blocks_text:
  "token_text_of orig (str, tokens) \<Longrightarrow> block_scan_ok str p b \<Longrightarrow>
    \<forall>c. bs_startChar b = Some c \<longrightarrow> closing_bracket c \<noteq> None \<Longrightarrow>
    token_text_of orig (pull_blocks str p b tokens)"
proof (induction str p b tokens rule: pull_blocks.induct)
  case (1 str p b tokens)
  show ?case
  proof (cases "p < length str")
    case False
    then show ?thesis using "1.prems" by (subst pull_blocks.simps) simp
  next
    case len: True
    let ?c = "str ! p" and ?b = "open_block (str ! p) p b"
    have p: "\<not> \<not> p < length str" using len by simp
    note ok = open_block_ok [OF "1.prems"(2) len]
    note sc = open_block_startChar [OF "1.prems"(3), of ?c p]
    have later: "block_scan_ok str (p + 1) b''" if "block_scan_ok str p b''" for b''
      using that by (auto simp: block_scan_ok_def)
    consider (opens) "Some ?c = bs_startChar ?b"
      | (closes) "Some ?c \<noteq> bs_startChar ?b" "Some ?c = bs_endChar ?b"
          "bs_depth ?b - 1 = 0 \<and> block_from ?b \<le> p"
      | (inner) "Some ?c \<noteq> bs_startChar ?b" "Some ?c = bs_endChar ?b"
          "\<not> (bs_depth ?b - 1 = 0 \<and> block_from ?b \<le> p)"
      | (other) "Some ?c \<noteq> bs_startChar ?b" "Some ?c \<noteq> bs_endChar ?b"
      by blast
    then show ?thesis
    proof cases
      case opens
      have "block_scan_ok str (p + 1) (?b\<lparr>bs_depth := bs_depth ?b + 1\<rparr>)"
        using later [OF ok(1)] opened_start_char [OF opens "1.prems"(3)] by (auto simp: block_scan_ok_def)
      then have "token_text_of orig (pull_blocks str (p + 1) (?b\<lparr>bs_depth := bs_depth ?b + 1\<rparr>) tokens)"
        using "1.IH"(1) [OF p refl refl opens "1.prems"(1)] sc by simp
      then show ?thesis using len opens
        by (subst pull_blocks.simps) (simp only: simp_thms if_True if_False Let_def)
    next
      case closes
      obtain s' p' t' where cut: "cut_token str (block_from ?b) p tokens = (s', p', t')" by (metis surj_pair)
      obtain start where st: "bs_start ?b = Some start"
        using ok(1) closes(3) by (auto simp: block_scan_ok_def)
      have "token_text_of orig (s', t')"
        using "1.prems"(1) st closes len ok(1) cut_token_text [OF _ _ _ _ _ cut]
        by (auto simp: block_scan_ok_def block_from_def)
      moreover have "block_scan_ok s' (p' + 1) (?b\<lparr>bs_depth := 0, bs_start := None\<rparr>)"
        using ok(1) by (simp add: block_scan_ok_def)
      ultimately have "token_text_of orig (pull_blocks s' (p' + 1) (?b\<lparr>bs_depth := 0, bs_start := None\<rparr>) t')"
        using "1.IH"(2) [OF p refl refl closes cut [symmetric] refl] sc by simp
      then show ?thesis using len closes cut
        by (subst pull_blocks.simps) (simp only: simp_thms if_True if_False Let_def prod.case)
    next
      case inner
      have "block_scan_ok str (p + 1) (?b\<lparr>bs_depth := bs_depth ?b - 1\<rparr>)"
        using later [OF ok(1)] by (auto simp: block_scan_ok_def)
      then have "token_text_of orig (pull_blocks str (p + 1) (?b\<lparr>bs_depth := bs_depth ?b - 1\<rparr>) tokens)"
        using "1.IH"(3) [OF p refl refl inner "1.prems"(1)] sc by simp
      then show ?thesis using len inner
        by (subst pull_blocks.simps) (simp only: simp_thms if_True if_False Let_def)
    next
      case other
      then have "token_text_of orig (pull_blocks str (p + 1) ?b tokens)"
        using "1.IH"(4) [OF p refl refl other "1.prems"(1) later [OF ok(1)]] sc by simp
      then show ?thesis using len other
        by (subst pull_blocks.simps) (simp only: simp_thms if_True if_False Let_def)
    qed
  qed
qed

subsection \<open>The pieces\<close>

fun entry_text :: "kv_entry \<Rightarrow> string" where
  "entry_text (KeyValue k v) = k @ '':'' @ v"
| "entry_text (Unknown u) = u"

fun sym_join :: "char \<Rightarrow> sym list list \<Rightarrow> sym list" where
  "sym_join d [] = []"
| "sym_join d [p] = p"
| "sym_join d (p # ps) = p @ Ch d # sym_join d ps"

lemma sym_join_Cons: "ps \<noteq> [] \<Longrightarrow> sym_join d (p # ps) = p @ Ch d # sym_join d ps"
  by (cases ps) auto

lemma split_by_prepend:
  "\<forall>c \<in> set w. \<not> P c \<Longrightarrow> split_by P s = q # qs \<Longrightarrow> split_by P (w @ s) = (w @ q) # qs"
  by (induction w) auto

lemma split_flat:
  assumes d: "not_in_token d"
  shows "\<exists>p ps. split_on d (flat xs) = map flat (p # ps) \<and> sym_join d (p # ps) = xs"
proof (induction xs)
  case Nil
  show ?case by (intro exI [of _ "[]"]) simp
next
  case (Cons x xs)
  then obtain p ps where p: "split_on d (flat xs) = map flat (p # ps)" "sym_join d (p # ps) = xs" by blast
  have join: "sym_join d ((x # p) # ps) = x # xs" using p(2) by (cases ps) auto
  show ?case
  proof (cases x)
    case (Ch c)
    show ?thesis
    proof (cases "c = d")
      case True
      then show ?thesis using Ch p
        by (intro exI [of _ "[]"] exI [of _ "p # ps"]) (simp add: sym_join_Cons)
    next
      case False
      then show ?thesis using Ch p(1) join by (intro exI [of _ "x # p"] exI [of _ ps]) simp
    qed
  next
    case (Tok k)
    have "\<forall>c \<in> set (tok_text k). \<not> c = d" using tok_text_chars d by (auto simp: not_in_token_def)
    then have "split_on d (tok_text k @ flat xs) = (tok_text k @ flat p) # map flat ps"
      using p(1) by (intro split_by_prepend) auto
    then show ?thesis using Tok join by (intro exI [of _ "x # p"] exI [of _ ps]) simp
  qed
qed

lemma full_char: "full T n [Ch c] = [c]"
  by (induction n) (simp_all add: expand_def)

lemma full_join: "full T n (sym_join d (p # ps)) = js_join [d] (map (full T n) (p # ps))"
proof (induction ps arbitrary: p)
  case (Cons q ps)
  have "full T n (p @ [Ch d] @ sym_join d (q # ps)) = full T n p @ [d] @ full T n (sym_join d (q # ps))"
    by (simp only: full_append full_char)
  then show ?case using Cons [of q] by simp
qed simp

lemma wf_sym_join: "wf_syms n (sym_join d ps) \<Longrightarrow> p \<in> set ps \<Longrightarrow> wf_syms n p"
proof (induction ps)
  case (Cons q ps)
  then show ?case by (cases ps) (auto simp: sym_join_Cons)
qed simp

lemma str_index_char: "str_index_from i [c] s = Some k \<Longrightarrow> k < i + length s \<and> i \<le> k \<and> s ! (k - i) = c"
proof (induction s arbitrary: i)
  case (Cons d s)
  show ?case
  proof (cases "starts_with [c] (d # s)")
    case False
    then have "str_index_from (Suc i) [c] s = Some k" using Cons.prems by simp
    then have ih: "k < Suc i + length s" "Suc i \<le> k" "s ! (k - Suc i) = c" using Cons.IH by blast+
    then have "k - i = Suc (k - Suc i)" by simp
    then show ?thesis using ih by simp
  qed (use Cons.prems in \<open>auto simp: starts_with_def\<close>)
qed simp

lemma colon_not_in_token: "not_in_token CHR '':''" "not_in_token CHR '',''"
  by code_simp+

lemma parse_pair_text:
  assumes T: "wf_toks T" "wf_syms (length T) xs"
  shows "\<exists>e. parse_pair (map flat T) (flat xs) = Some e \<and> entry_text e = full T (length T) xs"
proof -
  have whole: "restoreTokens (flat xs) (map flat T) = Some (full T (length T) xs)"
    using restoreTokens_flat [OF T] by simp
  show ?thesis
  proof (cases "str_index (flat xs) '':''")
    case None
    then show ?thesis using whole by (simp add: parse_pair_def)
  next
    case (Some k)
    then have k: "k < length (flat xs)" "flat xs ! k = CHR '':''"
      using str_index_char [of 0 "CHR '':''" "flat xs" k] by (simp_all add: str_index_def)
    then obtain a b where ab: "xs = a @ Ch CHR '':'' # b" "length (flat a) = k"
      using flat_at [of k xs] colon_not_in_token by auto
    have cut: "take k (flat xs) = flat a" "drop (k + 1) (flat xs) = flat b"
      using ab by simp_all
    have "restoreTokens (flat a) (map flat T) = Some (full T (length T) a)"
      "restoreTokens (flat b) (map flat T) = Some (full T (length T) b)"
      using restoreTokens_flat [OF T(1), of "length T"] T(2) ab by simp_all
    moreover have "full T (length T) xs = full T (length T) a @ '':'' @ full T (length T) b"
      using full_append [of T "length T" a "[Ch CHR '':''] @ b"]
        full_append [of T "length T" "[Ch CHR '':'']" b] ab(1) by (simp add: full_char)
    ultimately show ?thesis
      using Some whole cut by (simp add: parse_pair_def bind_option_def del: flat_append)
  qed
qed

lemma parse_pairs_text:
  "wf_toks T \<Longrightarrow> \<forall>p \<in> set ps. wf_syms (length T) p \<Longrightarrow>
     \<exists>es. parse_pairs (map flat T) (map flat ps) = Some es \<and> map entry_text es = map (full T (length T)) ps"
proof (induction ps)
  case (Cons p ps)
  then obtain es e where "parse_pairs (map flat T) (map flat ps) = Some es"
    "map entry_text es = map (full T (length T)) ps"
    "parse_pair (map flat T) (flat p) = Some e" "entry_text e = full T (length T) p"
    using parse_pair_text [of T p] by auto
  then show ?case by (intro exI [of _ "e # es"]) (simp add: bind_option_def)
qed simp

text \<open>C8: for a literal of at least three characters without \<open>@\<close>, parsing returns, and joining the
  entries with commas and colons gives back the text between the braces: quoting, brackets
  and the tokens that replace them lose nothing.\<close>

theorem parseObjectLiteral_lossless:
  assumes "CHR ''@'' \<notin> set s" and "length (stringTrim s) \<ge> 3"
  shows "\<exists>es. parseObjectLiteral s = Some es \<and> js_join '','' (map entry_text es) = literal_body s"
proof -
  let ?body = "literal_body s"
  have sub: "set (stringTrim s) \<subseteq> set s"
    by (auto simp: stringTrim_def js_trim_def trim_with_def dest!: set_dropWhileD [of _ _ "rev _"] dest: set_dropWhileD)
  have "set ?body \<subseteq> set (stringTrim s)"
    by (cases "stringTrim s") (auto simp: literal_body_def Let_def dest: in_set_takeD)
  then have at: "CHR ''@'' \<notin> set ?body" using sub assms(1) by blast
  then have "wf_syms 0 (map Ch ?body)" by (auto simp: wf_syms_def)
  then have "token_text_of ?body (?body, [])"
    unfolding token_text_of_def
    by (intro exI [of _ "[]"] exI [of _ "map Ch ?body"]) (simp add: flat_chars wf_toks_def)
  then have one: "token_text_of ?body (pull_literals ?body 0 None None [])"
    by (rule pull_literals_text) simp
  obtain str tokens where lit: "pull_literals ?body 0 None None [] = (str, tokens)" by fastforce
  have "token_text_of ?body (pull_blocks str 0 no_block tokens)"
    using one lit by (intro pull_blocks_text) (auto simp: block_scan_ok_def no_block_def)
  then obtain T xs where T: "pull_blocks str 0 no_block tokens = (flat xs, map flat T)" "wf_toks T"
    "wf_syms (length T) xs" "full T (length T) xs = ?body"
    unfolding token_text_of_def by blast
  obtain p ps where p: "split_on CHR '','' (flat xs) = map flat (p # ps)" "sym_join CHR '','' (p # ps) = xs"
    using split_flat [OF colon_not_in_token(2)] by blast
  have "\<forall>q \<in> set (p # ps). wf_syms (length T) q" using wf_sym_join T(3) p(2) by blast
  from parse_pairs_text [OF T(2) this] obtain es where es:
    "parse_pairs (map flat T) (map flat (p # ps)) = Some es"
    "map entry_text es = map (full T (length T)) (p # ps)" by blast
  have "parseObjectLiteral s = Some es"
    using assms(2) lit T(1) p(1) es(1) by (simp add: parseObjectLiteral_def)
  moreover have "js_join '','' (map entry_text es) = ?body"
    using es(2) full_join [of T "length T" "CHR '',''" p ps] T(4) p(2) by simp
  ultimately show ?thesis by blast
qed

theorem parseObjectLiteral_lossless_witness:
  "\<exists>es. parseObjectLiteral ''{a: f(b, c), d: e}'' = Some es \<and> js_join '','' (map entry_text es) = ''a: f(b, c), d: e''"
proof -
  have b: "literal_body ''{a: f(b, c), d: e}'' = ''a: f(b, c), d: e''"
    and l: "length (stringTrim ''{a: f(b, c), d: e}'') \<ge> 3"
    by code_simp+
  show ?thesis using parseObjectLiteral_lossless [OF _ l] b by simp
qed

subsection \<open>Token names in the text\<close>

text \<open>What the scans do with a binding whose value is one literal: the literal, from quote to quote, becomes
  the first token, and there is no block.\<close>

definition delimiters :: string where
  "delimiters = [CHR 0x22, CHR 0x27, CHR ''/'']"

definition plain_name :: "string \<Rightarrow> bool" where
  "plain_name k \<longleftrightarrow> k \<noteq> [] \<and> (\<forall>c \<in> set k. is_word c)"

lemma word_plain:
  "is_word c \<Longrightarrow> c \<notin> set delimiters \<and> closing_bracket c = None \<and> c \<noteq> CHR '','' \<and> c \<noteq> CHR '':'' \<and> c \<noteq> CHR ''@'' \<and>
     c \<noteq> CHR ''{'' \<and> \<not> is_space c"
  by (auto simp: is_word_def digit_chars_def lower_chars_def upper_chars_def delimiters_def closing_bracket_def
      is_space_def space_chars_def)

lemma pull_literals_plain:
  "\<forall>c \<in> set u. c \<notin> set delimiters \<Longrightarrow>
     pull_literals (w @ u @ v) (length w) None e tokens = pull_literals (w @ u @ v) (length (w @ u)) None e tokens"
proof (induction u arbitrary: w)
  case Nil
  then show ?case by simp
next
  case (Cons c u)
  then have "pull_literals (w @ (c # u) @ v) (length w) None e tokens =
      pull_literals ((w @ [c]) @ u @ v) (length (w @ [c])) None e tokens"
    by (subst pull_literals.simps) (simp add: nth_append delimiters_def)
  then show ?case using Cons.IH [of "w @ [c]"] Cons.prems by simp
qed

lemma pull_literals_inside:
  "q \<notin> set u \<Longrightarrow> start \<le> length w \<Longrightarrow>
     pull_literals (w @ u @ v) (length w) (Some start) (Some q) tokens =
     pull_literals (w @ u @ v) (length (w @ u)) (Some start) (Some q) tokens"
proof (induction u arbitrary: w)
  case Nil
  then show ?case by simp
next
  case (Cons c u)
  then have "pull_literals (w @ (c # u) @ v) (length w) (Some start) (Some q) tokens =
      pull_literals ((w @ [c]) @ u @ v) (length (w @ [c])) (Some start) (Some q) tokens"
    by (subst pull_literals.simps) (auto simp: nth_append)
  then show ?case using Cons.IH [of "w @ [c]"] Cons.prems by simp
qed

lemma pull_one_literal:
  assumes w: "\<forall>c \<in> set w. c \<notin> set delimiters" and q: "q \<in> set delimiters" and u: "q \<notin> set u" "u \<noteq> []" "last u \<noteq> CHR 0x5C"
  shows "pull_literals (w @ q # u @ [q]) 0 None None [] = (w @ tok_text 0, [q # u @ [q]])"
proof -
  let ?s = "w @ q # u @ [q]"
  have "pull_literals ?s 0 None None [] = pull_literals ?s (length w) None None []"
    using pull_literals_plain [of w "[]" "q # u @ [q]" None "[]"] w by simp
  also have "\<dots> = pull_literals ((w @ [q]) @ u @ [q]) (length (w @ [q])) (Some (length w)) (Some q) []"
    using q by (subst pull_literals.simps) (auto simp: delimiters_def nth_append)
  also have "\<dots> = pull_literals ((w @ [q]) @ u @ [q]) (length ((w @ [q]) @ u)) (Some (length w)) (Some q) []"
    using u(1) by (intro pull_literals_inside) simp_all
  finally have s: "pull_literals ?s 0 None None [] = pull_literals ?s (length (w @ q # u)) (Some (length w)) (Some q) []"
    by simp
  have end': "?s ! length (w @ q # u) = q" "length (w @ q # u) < length ?s" by (simp_all add: nth_append)
  have "?s ! (length (w @ q # u) - 1) = last u"
    using u(2) by (simp add: nth_append last_conv_nth nth_Cons')
  then have prev: "?s ! (length (w @ q # u) - 1) \<noteq> CHR 0x5C" using u(3) by simp
  have cut: "cut_token ?s (length w) (length (w @ q # u)) [] = (w @ tok_text 0, length (w @ tok_text 0) - 1, [q # u @ [q]])"
    by (simp add: cut_token_def Let_def tok_text_def)
  have stop: "pull_literals (w @ tok_text 0) (length (w @ tok_text 0) - 1 + 1) None (Some q) [q # u @ [q]] =
      (w @ tok_text 0, [q # u @ [q]])"
    by (subst pull_literals.simps) (simp add: tok_text_def)
  show ?thesis
    unfolding s by (subst pull_literals.simps) (simp only: end' prev cut stop not_True_eq_False if_False Let_def option.case
        prod.case, simp)
qed

lemma pull_blocks_plain:
  "\<forall>c \<in> set u. closing_bracket c = None \<Longrightarrow>
     pull_blocks (w @ u) (length w) no_block tokens = (w @ u, tokens)"
proof (induction u arbitrary: w)
  case Nil
  then show ?case by (simp add: pull_blocks.simps)
next
  case (Cons c u)
  then have "open_block c p no_block = no_block" for p by (simp add: open_block_def no_block_def)
  then have "pull_blocks (w @ c # u) (length w) no_block tokens = pull_blocks ((w @ [c]) @ u) (length (w @ [c])) no_block tokens"
    by (subst pull_blocks.simps) (simp add: nth_append no_block_def)
  then show ?case using Cons.IH [of "w @ [c]"] Cons.prems by simp
qed

lemma str_index_first: "c \<notin> set u \<Longrightarrow> str_index (u @ [c] @ v) [c] = Some (length u)"
proof -
  have "c \<notin> set u \<Longrightarrow> str_index_from i [c] (u @ [c] @ v) = Some (i + length u)" for i
    by (induction u arbitrary: i) (auto simp: starts_with_def)
  then show "c \<notin> set u \<Longrightarrow> ?thesis" by (simp add: str_index_def)
qed

lemma restore_once_prefix: "CHR ''@'' \<notin> set u \<Longrightarrow> restore_once tokens (u @ v) = u @ restore_once tokens v"
proof (induction u)
  case (Cons c u)
  then show ?case using restore_once_char [of c tokens "u @ v"] by auto
qed simp

lemma restoreTokens_no_name: "CHR ''@'' \<notin> set s \<Longrightarrow> restoreTokens s tokens = Some s"
  using restore_once_prefix [of s tokens "[]"]
  by (subst restoreTokens.simps) (simp add: restore_once.simps)

text \<open>A token that contains its own name is restored for ever: each pass puts the text around the name
  once more.\<close>

lemma flat_expand_longer:
  assumes "Tok 0 \<in> set xs" "wf_syms (Suc 0) xs" "length (flat m) > length (tok_text 0)"
  shows "length (flat (expand [m] xs)) > length (flat xs)"
proof -
  have le: "wf_syms (Suc 0) ys \<Longrightarrow> length (flat ys) \<le> length (flat (expand [m] ys))" for ys
    using assms(3) by (induction ys rule: flat.induct) (auto simp: expand_def)
  obtain ys zs where "xs = ys @ Tok 0 # zs" using assms(1) by (auto simp: in_set_conv_decomp)
  then show ?thesis
    using le [of ys] le [of zs] assms(2,3) by (simp add: expand_def)
qed

lemma restoreTokens_never:
  assumes "restoreTokens s tokens = Some y" and m: "Tok 0 \<in> set m" "wf_syms (Suc 0) m" "length (flat m) > length (tok_text 0)"
  shows "tokens = [flat m] \<longrightarrow> \<not> (\<exists>xs. s = flat xs \<and> Tok 0 \<in> set xs \<and> wf_syms (Suc 0) xs)"
proof (rule restoreTokens.raw_induct [where P = "\<lambda>s tokens y. tokens = [flat m] \<longrightarrow>
    \<not> (\<exists>xs. s = flat xs \<and> Tok 0 \<in> set xs \<and> wf_syms (Suc 0) xs)", OF _ assms(1)])
  fix rec :: "string \<Rightarrow> string list \<Rightarrow> string option" and s tokens y
  assume ih: "\<And>s tokens y. rec s tokens = Some y \<Longrightarrow> tokens = [flat m] \<longrightarrow>
      \<not> (\<exists>xs. s = flat xs \<and> Tok 0 \<in> set xs \<and> wf_syms (Suc 0) xs)"
    and step: "(let s' = restore_once tokens s in if s' = s then Some s else rec s' tokens) = Some y"
  show "tokens = [flat m] \<longrightarrow> \<not> (\<exists>xs. s = flat xs \<and> Tok 0 \<in> set xs \<and> wf_syms (Suc 0) xs)"
  proof (intro impI notI)
    assume t: "tokens = [flat m]" and "\<exists>xs. s = flat xs \<and> Tok 0 \<in> set xs \<and> wf_syms (Suc 0) xs"
    then obtain xs where xs: "s = flat xs" "Tok 0 \<in> set xs" "wf_syms (Suc 0) xs" by blast
    have once: "restore_once tokens s = flat (expand [m] xs)"
      using restore_once_flat [of "[m]" xs] xs t by simp
    have more: "restore_once tokens s \<noteq> s" using flat_expand_longer [OF xs(2,3) m(3)] once xs(1) by auto
    have "Tok 0 \<in> set (expand [m] xs)" using xs(2) m(1) by (force simp: expand_def)
    moreover have "wf_syms (Suc 0) (expand_sym [m] x)" if "x \<in> set xs" for x
    proof -
      have "wf_sym (Suc 0) x" using that xs(3) by (simp add: wf_syms_def)
      then show ?thesis using m(2) by (cases x) simp_all
    qed
    then have "wf_syms (Suc 0) (expand [m] xs)" by (auto simp: expand_def wf_syms_def)
    ultimately show False using ih [of "restore_once tokens s" tokens y] step more once t by (auto simp: Let_def)
  qed
qed

lemma restore_named:
  assumes at: "CHR ''@'' \<notin> set a" "CHR ''@'' \<notin> set b" and ends: "a \<noteq> []"
  shows "restoreTokens (tok_text 0) [a @ tok_text j @ b] = (if j = 0 then None else Some (a @ ''undefined'' @ b))"
proof (cases "j = 0")
  case True
  let ?m = "map Ch a @ Tok 0 # map Ch b"
  have m: "Tok 0 \<in> set ?m" "wf_syms (Suc 0) ?m" "length (flat ?m) > length (tok_text 0)"
    using at ends by (auto simp: wf_syms_def flat_chars)
  show ?thesis
  proof (cases "restoreTokens (tok_text 0) [a @ tok_text j @ b]")
    case (Some y)
    then have "restoreTokens (flat [Tok 0]) [flat ?m] = Some y" using True by (simp add: flat_chars)
    then show ?thesis using restoreTokens_never [OF _ m] by fastforce
  qed (simp add: True)
next
  case False
  let ?t = "[a @ tok_text j @ b]"
  have end': "restore_once ?t [] = []" by (simp add: restore_once.simps)
  have "restore_once ?t (tok_text 0) = a @ tok_text j @ b"
    using restore_once_tok [of ?t 0 "[]"] by (simp add: end')
  then have "restoreTokens (tok_text 0) ?t = restoreTokens (a @ tok_text j @ b) ?t"
    using restoreTokens_step [of "tok_text 0" ?t] by simp
  also have "\<dots> = restoreTokens (restore_once ?t (a @ tok_text j @ b)) ?t" by (rule restoreTokens_step)
  also have "restore_once ?t (a @ tok_text j @ b) = a @ ''undefined'' @ b"
    using restore_once_prefix [of a ?t] restore_once_prefix [of b ?t "[]"] at False restore_once_tok [of ?t j b] by (simp add: end')
  also have "restoreTokens (a @ ''undefined'' @ b) ?t = Some (a @ ''undefined'' @ b)"
    using at by (intro restoreTokens_no_name) auto
  finally show ?thesis using False by simp
qed

lemma ball_around: "\<forall>c \<in> set u. P c \<Longrightarrow> P d \<Longrightarrow> \<forall>c \<in> set w. P c \<Longrightarrow> \<forall>c \<in> set ((u @ [d]) @ w). P c"
  by auto

text \<open>C13: what happens to a binding whose value is a literal, in quotes or slashes, that contains the name of a
  token: when it is the name of the token that stands for this literal, the parser runs for ever; any other
  name is replaced by \<open>undefined\<close>.\<close>

theorem parseObjectLiteral_token_name:
  assumes k: "plain_name k" and q: "q \<in> {CHR 0x22, CHR 0x27, CHR ''/''}"
    and ab: "q \<notin> set (a @ b)" "CHR ''@'' \<notin> set (a @ b)" "b = [] \<or> last b \<noteq> CHR 0x5C"
  shows "parseObjectLiteral (k @ '':'' @ [q] @ a @ tok_text j @ b @ [q]) =
    (if j = 0 then None else Some [KeyValue k ([q] @ a @ ''undefined'' @ b @ [q])])"
proof -
  let ?lit = "q # (a @ tok_text j @ b) @ [q]"
  let ?s = "(k @ '':'') @ ?lit"
  have kc: "c \<in> set k \<Longrightarrow> is_word c" for c using k by (simp add: plain_name_def)
  have k0: "k \<noteq> []" using k by (simp add: plain_name_def)
  have qq: "q \<in> set delimiters" "\<not> is_space q" "q \<noteq> CHR ''@''"
    using q by (auto simp: delimiters_def is_space_def space_chars_def)
  have "\<not> is_space (hd k)" "hd k \<noteq> CHR ''{''" using word_plain [OF kc [of "hd k"]] k0 by auto
  then have trim: "stringTrim ?s = ?s" and first: "hd ?s \<noteq> CHR ''{''"
    using qq(2) k0 by (auto simp: stringTrim_def js_trim_def intro!: trim_with_id)
  have body: "literal_body ?s = ?s" using trim first by (simp add: literal_body_def Let_def)
  have len: "\<not> length (stringTrim ?s) < 3" using k0 unfolding trim by (cases k) auto
  have digs: "is_digit c \<Longrightarrow> c \<noteq> q" for c
    using q by (auto simp: is_digit_def digit_chars_def)
  have tok: "q \<notin> set (tok_text j)" "last (tok_text j) = CHR ''@''" "tok_text j \<noteq> []"
    using q nat_str_digits [of j] digs by (auto simp: tok_text_def tok_prefix_def)
  have "\<forall>c \<in> set (k @ '':''). c \<notin> set delimiters" using word_plain [OF kc] by (auto simp: delimiters_def)
  moreover have "last (a @ tok_text j @ b) \<noteq> CHR 0x5C" using ab(3) tok by (auto simp: last_append)
  ultimately have lit: "pull_literals ?s 0 None None [] = ((k @ '':'') @ tok_text 0, [?lit])"
    using ab(1) tok(1,3) by (intro pull_one_literal qq(1)) auto
  have plain_tok: "\<forall>c \<in> set (tok_text 0). closing_bracket c = None \<and> c \<noteq> CHR '',''" by code_simp
  have plain_k: "\<forall>c \<in> set k. closing_bracket c = None \<and> c \<noteq> CHR '',''" using word_plain [OF kc] by blast
  have plain_colon: "closing_bracket CHR '':'' = None \<and> CHR '':'' \<noteq> CHR '',''" by code_simp
  have plain: "\<forall>c \<in> set ((k @ '':'') @ tok_text 0). closing_bracket c = None \<and> c \<noteq> CHR '',''"
    by (rule ball_around [OF plain_k plain_colon plain_tok])
  then have comma: "\<forall>c \<in> set ((k @ '':'') @ tok_text 0). \<not> c = CHR '',''" by blast
  from plain have blk: "pull_blocks ((k @ '':'') @ tok_text 0) 0 no_block [?lit] = ((k @ '':'') @ tok_text 0, [?lit])"
    using pull_blocks_plain [of "(k @ '':'') @ tok_text 0" "[]"] by (simp only: append_Nil list.size) blast
  have split: "split_on CHR '','' ((k @ '':'') @ tok_text 0) = [(k @ '':'') @ tok_text 0]"
    by (rule split_by_no_sep [OF comma])
  have at: "CHR ''@'' \<notin> set k" using word_plain [OF kc] by blast
  have pair: "parse_pair [?lit] ((k @ '':'') @ tok_text 0) =
      bind_option (restoreTokens (tok_text 0) [?lit]) (\<lambda>v. Some (KeyValue k v))"
  proof -
    have "CHR '':'' \<notin> set k" using word_plain [OF kc] by blast
    then have "str_index (k @ '':'' @ tok_text 0) '':'' = Some (length k)" by (rule str_index_first)
    then show ?thesis
      using k0 by (simp add: parse_pair_def restoreTokens_no_name [OF at] tok_text_def bind_option_def [of "Some _"])
  qed
  have "parseObjectLiteral ?s = parse_pairs [?lit] [(k @ '':'') @ tok_text 0]"
    by (simp only: parseObjectLiteral_def len if_False body lit blk prod.case split)
  moreover have "restoreTokens (tok_text 0) [?lit] = (if j = 0 then None else Some (q # a @ ''undefined'' @ b @ [q]))"
    using restore_named [of "q # a" "b @ [q]" j] ab(2) qq(3) by simp
  ultimately have "parseObjectLiteral ?s = (if j = 0 then None else Some [KeyValue k (q # a @ ''undefined'' @ b @ [q])])"
    by (simp only: parse_pairs.simps pair) (simp add: bind_option_def)
  then show ?thesis by simp
qed

theorem parseObjectLiteral_token_name_witness:
  "parseObjectLiteral (''a:'' @ [CHR 0x22] @ tok_text 0 @ [CHR 0x22]) = None \<and>
   parseObjectLiteral (''a:'' @ [CHR 0x22] @ tok_text 7 @ [CHR 0x22]) = Some [KeyValue ''a'' ([CHR 0x22] @ ''undefined'' @ [CHR 0x22])]"
proof -
  have "plain_name ''a''" by code_simp
  from parseObjectLiteral_token_name [OF this, of "CHR 0x22" "[]" "[]" 0]
    parseObjectLiteral_token_name [OF this, of "CHR 0x22" "[]" "[]" 7]
  show ?thesis by simp
qed

subsection \<open>Rewriting bindings\<close>

text \<open>
  \<open>javaScriptAssignmentTarget\<close>: an identifier, or an expression that ends with a property
  access or an index. The capture groups of the second form are the longest prefix without
  line terminators, by backtracking from the right, and the accessor after it.
\<close>

definition ident_start :: "char \<Rightarrow> bool" where
  "ident_start c \<longleftrightarrow> c = CHR ''$'' \<or> c = CHR ''_'' \<or> (is_word c \<and> \<not> is_digit c)"

definition is_identifier :: "string \<Rightarrow> bool" where
  "is_identifier s \<longleftrightarrow> s \<noteq> '''' \<and> ident_start (hd s) \<and> (\<forall>c \<in> set (tl s). is_word c \<or> c = CHR ''$'')"

definition regex_dot :: "char \<Rightarrow> bool" where
  "regex_dot c \<longleftrightarrow> c \<noteq> CHR 0x0A \<and> c \<noteq> CHR 0x0D"

definition is_accessor :: "string \<Rightarrow> bool" where
  "is_accessor s \<longleftrightarrow>
     (s \<noteq> '''' \<and> hd s = CHR ''.'' \<and> is_identifier (dropWhile is_space (tl s))) \<or>
     (length s \<ge> 3 \<and> hd s = CHR ''['' \<and> last s = CHR '']'' \<and> list_all regex_dot (butlast (tl s)))"

fun accessor_split :: "nat \<Rightarrow> string \<Rightarrow> (string \<times> string) option" where
  "accessor_split 0 s = None"
| "accessor_split (Suc n) s =
     (if list_all regex_dot (take (Suc n) s) \<and> is_accessor (drop (Suc n) s)
      then Some (take (Suc n) s, drop (Suc n) s) else accessor_split n s)"

text \<open>\<^const>\<open>None\<close> is \<open>false\<close>.\<close>

definition getWriteableValue :: "string \<Rightarrow> string option" where
  "getWriteableValue expression =
     (if to_lower (stringTrim expression) \<in> set [''true'', ''false''] then None
      else if is_identifier expression then Some expression
      else (case accessor_split (length expression) expression of
              None \<Rightarrow> None
            | Some (m1, m2) \<Rightarrow> Some (''Object('' @ m1 @ '')'' @ m2)))"

definition ensureQuoted :: "string \<Rightarrow> string" where
  "ensureQuoted key =
     (let trimmedKey = stringTrim key
      in if trimmedKey \<noteq> '''' \<and> (hd trimmedKey = CHR 0x27 \<or> hd trimmedKey = CHR 0x22) then key
         else CHR 0x27 # trimmedKey @ [CHR 0x27])"

text \<open>The arrays \<open>resultStrings\<close> and \<open>propertyAccessorResultStrings\<close> of the loop.\<close>

definition property_writer :: "string \<Rightarrow> string \<Rightarrow> string" where
  "property_writer quotedKey target =
     quotedKey @ '' : function(__ko_value) { '' @ target @ '' = __ko_value; }''"

definition preProcess_step :: "kv_entry \<Rightarrow> string list \<times> string list \<Rightarrow> string list \<times> string list" where
  "preProcess_step entry acc =
     (case acc of (results, accessors) \<Rightarrow>
       let results' = (if results \<noteq> [] then results @ ['',''] else results)
       in case entry of
            KeyValue key val \<Rightarrow>
              if key = '''' then (results', accessors)
              else let quotedKey = ensureQuoted key
                   in (results' @ [quotedKey, '':'', val],
                       case getWriteableValue (stringTrim val) of
                         None \<Rightarrow> accessors
                       | Some target \<Rightarrow>
                           (if accessors \<noteq> [] then accessors @ ['', ''] else accessors) @
                             [property_writer quotedKey target])
          | Unknown u \<Rightarrow> (if u = '''' then results' else results' @ [u], accessors))"

definition preProcess_entries :: "kv_entry list \<Rightarrow> string" where
  "preProcess_entries keyValueArray =
     (case fold preProcess_step keyValueArray ([], []) of
        (results, accessors) \<Rightarrow>
          concat results @
          (if accessors \<noteq> []
           then '', '' @ [CHR 0x27] @ ''_ko_property_writers'' @ [CHR 0x27] @ '' : { '' @ concat accessors @ '' } ''
           else ''''))"

definition preProcessBindings :: "string \<Rightarrow> string option" where
  "preProcessBindings s = map_option preProcess_entries (parseObjectLiteral s)"

definition keyValueArrayContainsKey :: "kv_entry list \<Rightarrow> string \<Rightarrow> bool" where
  "keyValueArrayContainsKey keyValueArray key \<longleftrightarrow>
     list_ex (\<lambda>e. stringTrim (case e of KeyValue k _ \<Rightarrow> k | Unknown _ \<Rightarrow> '''') = key) keyValueArray"

text \<open>The closed form of the loop, for entries that are not empty.\<close>

fun rewritten_entry :: "kv_entry \<Rightarrow> string" where
  "rewritten_entry (KeyValue k v) = ensureQuoted k @ '':'' @ v"
| "rewritten_entry (Unknown u) = u"

fun entry_writer :: "kv_entry \<Rightarrow> string list" where
  "entry_writer (KeyValue k v) =
     (case getWriteableValue (stringTrim v) of None \<Rightarrow> [] | Some t \<Rightarrow> [property_writer (ensureQuoted k) t])"
| "entry_writer (Unknown u) = []"

fun entry_ok :: "kv_entry \<Rightarrow> bool" where
  "entry_ok (KeyValue k v) \<longleftrightarrow> k \<noteq> ''''"
| "entry_ok (Unknown u) \<longleftrightarrow> u \<noteq> ''''"

lemma ensureQuoted_nonempty: "k \<noteq> '''' \<Longrightarrow> ensureQuoted k \<noteq> ''''"
  by (simp add: ensureQuoted_def Let_def)

definition joins :: "string \<Rightarrow> string list \<Rightarrow> string list \<Rightarrow> bool" where
  "joins sep pieces ws \<longleftrightarrow> concat pieces = js_join sep ws \<and> (pieces = [] \<longleftrightarrow> ws = [])"

lemma js_join_snoc: "js_join sep (ws @ [w]) = (if ws = [] then w else js_join sep ws @ sep @ w)"
  by (induction ws) (auto simp: js_join_Cons)

lemma preProcess_step_joins:
  assumes "joins '','' r ws" "joins '', '' a us" "entry_ok e"
  shows "joins '','' (fst (preProcess_step e (r, a))) (ws @ [rewritten_entry e])"
    and "joins '', '' (snd (preProcess_step e (r, a))) (us @ entry_writer e)"
  using assms
  by (cases e; auto simp: joins_def preProcess_step_def Let_def js_join_snoc split: option.split)+

lemma preProcess_fold_joins:
  "joins '','' r ws \<Longrightarrow> joins '', '' a us \<Longrightarrow> \<forall>e \<in> set es. entry_ok e \<Longrightarrow>
     joins '','' (fst (fold preProcess_step es (r, a))) (ws @ map rewritten_entry es) \<and>
     joins '', '' (snd (fold preProcess_step es (r, a))) (us @ concat (map entry_writer es))"
proof (induction es arbitrary: r a ws us)
  case (Cons e es)
  obtain r' a' where s: "preProcess_step e (r, a) = (r', a')" by fastforce
  show ?case
    using Cons.IH [of r' "ws @ [rewritten_entry e]" a' "us @ entry_writer e"]
      preProcess_step_joins [OF Cons.prems(1,2), of e] Cons.prems(3) s by simp
qed simp

text \<open>C12: for non-empty entries the rewritten binding is the comma-joined quoted entries, followed
  by the property writers of exactly the entries whose value can be assigned to.\<close>

theorem preProcess_entries_closed:
  assumes "\<forall>e \<in> set es. entry_ok e"
  shows "preProcess_entries es =
    js_join '','' (map rewritten_entry es) @
    (if concat (map entry_writer es) = [] then ''''
     else '', '' @ [CHR 0x27] @ ''_ko_property_writers'' @ [CHR 0x27] @ '' : { '' @
       js_join '', '' (concat (map entry_writer es)) @ '' } '')"
proof -
  have "joins '','' [] []" "joins '', '' [] []" by (simp_all add: joins_def)
  from preProcess_fold_joins [OF this assms] show ?thesis
    by (auto simp: preProcess_entries_def joins_def split: prod.split)
qed

theorem preProcess_entries_closed_witness:
  "preProcess_entries [KeyValue ''value'' '' name''] = js_join '','' [CHR 0x27 # ''value'' @ [CHR 0x27] @ '': name''] @
     '', '' @ [CHR 0x27] @ ''_ko_property_writers'' @ [CHR 0x27] @ '' : { '' @
       property_writer (CHR 0x27 # ''value'' @ [CHR 0x27]) ''name'' @ '' } ''"
proof -
  have w: "entry_writer (KeyValue ''value'' '' name'') = [property_writer (CHR 0x27 # ''value'' @ [CHR 0x27]) ''name'']"
    and r: "rewritten_entry (KeyValue ''value'' '' name'') = CHR 0x27 # ''value'' @ [CHR 0x27] @ '': name''"
    by code_simp+
  show ?thesis
    using preProcess_entries_closed [of "[KeyValue ''value'' '' name'']"] by (simp add: w r del: entry_writer.simps rewritten_entry.simps)
qed

end
