(* ===== verification/KoObservable.thy ===== *)
theory KoObservable
  imports KoUtils
begin

text \<open>
  Observables, subscriptions, dependency detection and computed observables of
  knockout-2.2.0.debug.js, as one machine over a heap of subscribables.

  A function supplied by the application (the read and write functions of a computed, the
  callback of a subscription, \<open>disposeWhen\<close>) is a program over the observables of the heap:
  a tree that reads, peeks, writes, subscribes, disposes a subscription, returns a value or
  throws. Disposing of a computed is a call of the machine (\<open>dispose_computed\<close>), not a step
  of a program. Numbers are integers, objects are references compared by identity.

  The mutually recursive functions of the source are definitions over a parameter \<open>call\<close>,
  which runs a program or evaluates a computed; \<open>exec\<close> ties the knot with fuel, \<^const>\<open>None\<close>
  when it runs out. A run gives the value returned or the exception thrown, and the state
  reached in both cases.
\<close>

subsection \<open>Values and programs\<close>

datatype kval = KUndef | KNull | KBool bool | KNum int | KStr string | KRef nat

fun k_truthy :: "kval \<Rightarrow> bool" where
  "k_truthy KUndef = False"
| "k_truthy KNull = False"
| "k_truthy (KBool b) = b"
| "k_truthy (KNum n) = (n \<noteq> 0)"
| "k_truthy (KStr s) = (s \<noteq> '''')"
| "k_truthy (KRef r) = True"

fun k_primitive :: "kval \<Rightarrow> bool" where
  "k_primitive (KRef r) = False"
| "k_primitive _ = True"

definition valuesArePrimitiveAndEqual :: "kval \<Rightarrow> kval \<Rightarrow> bool" where
  "valuesArePrimitiveAndEqual a b = (if k_primitive a then a = b else False)"

datatype prog =
    Return kval
  | Fail string
  | ReadObs nat "kval \<Rightarrow> prog"
  | PeekObs nat "kval \<Rightarrow> prog"
  | WriteObs nat kval prog
  | Subscribe nat string "kval \<Rightarrow> prog" "nat \<Rightarrow> prog"
  | DisposeSub nat prog

subsection \<open>The state\<close>

text \<open>\<open>evaluatePossiblyAsync\<close> of a computed, or a callback of the application.\<close>

datatype sub_callback = Reevaluate nat | Callback "kval \<Rightarrow> prog"

record ksub =
  sub_target :: nat
  sub_event :: string
  sub_callback :: sub_callback
  sub_isDisposed :: bool

text \<open>The private variables of an observable and of a computed; \<open>ko_candidates\<close> is the
  \<open>disposalCandidates\<close> of the evaluation in progress, which \<open>ko_isBeingEvaluated\<close> keeps from
  nesting. \<open>ko_computed\<close> is \<^const>\<open>None\<close> for a plain observable.\<close>

record kcomputed =
  kc_hasBeenEvaluated :: bool
  kc_isBeingEvaluated :: bool
  kc_deps :: "nat list"
  kc_candidates :: "nat option list"
  kc_read :: prog
  kc_write :: "(kval \<Rightarrow> prog) option"
  kc_disposeWhen :: prog
  kc_throttled :: bool

record kobj =
  ko_latestValue :: kval
  ko_comparer :: bool
  ko_subscriptions :: "string \<Rightarrow> nat list option"
  ko_computed :: "kcomputed option"

record frame =
  fr_computed :: nat
  fr_distinct :: "nat list"

record kstate =
  ks_objs :: "nat \<Rightarrow> kobj"
  ks_nextObj :: nat
  ks_subs :: "nat \<Rightarrow> ksub"
  ks_nextSub :: nat
  ks_frames :: "frame option list"
  ks_timers :: "nat list"

type_synonym 'a run = "kstate \<Rightarrow> ('a res \<times> kstate) option"

definition ret :: "'a \<Rightarrow> 'a run" where
  "ret x = (\<lambda>s. Some (Inr x, s))"

definition throw :: "js_error \<Rightarrow> 'a run" where
  "throw e = (\<lambda>s. Some (Inl e, s))"

definition bind :: "'a run \<Rightarrow> ('a \<Rightarrow> 'b run) \<Rightarrow> 'b run" where
  "bind m f = (\<lambda>s. case m s of
      None \<Rightarrow> None
    | Some (Inl e, s') \<Rightarrow> Some (Inl e, s')
    | Some (Inr x, s') \<Rightarrow> f x s')"

definition modify :: "(kstate \<Rightarrow> kstate) \<Rightarrow> unit run" where
  "modify g = (\<lambda>s. Some (Inr (), g s))"

definition gets :: "(kstate \<Rightarrow> 'a) \<Rightarrow> 'a run" where
  "gets g = (\<lambda>s. Some (Inr (g s), s))"

text \<open>\<open>try { m } finally { g }\<close> for a \<open>g\<close> that does not throw.\<close>

definition try_finally :: "'a run \<Rightarrow> (kstate \<Rightarrow> kstate) \<Rightarrow> 'a run" where
  "try_finally m g = (\<lambda>s. case m s of None \<Rightarrow> None | Some (r, s') \<Rightarrow> Some (r, g s'))"

definition upd_obj :: "nat \<Rightarrow> (kobj \<Rightarrow> kobj) \<Rightarrow> kstate \<Rightarrow> kstate" where
  "upd_obj x f s = s\<lparr>ks_objs := (ks_objs s)(x := f (ks_objs s x))\<rparr>"

definition upd_computed :: "nat \<Rightarrow> (kcomputed \<Rightarrow> kcomputed) \<Rightarrow> kstate \<Rightarrow> kstate" where
  "upd_computed x f = upd_obj x (\<lambda>b. b\<lparr>ko_computed := map_option f (ko_computed b)\<rparr>)"

definition latestValue :: "kstate \<Rightarrow> nat \<Rightarrow> kval" where
  "latestValue s x = ko_latestValue (ks_objs s x)"

definition computed_of :: "kstate \<Rightarrow> nat \<Rightarrow> kcomputed option" where
  "computed_of s x = ko_computed (ks_objs s x)"

definition deps_of :: "kstate \<Rightarrow> nat \<Rightarrow> nat list" where
  "deps_of s x = (case computed_of s x of None \<Rightarrow> [] | Some c \<Rightarrow> kc_deps c)"

definition being_evaluated :: "kstate \<Rightarrow> nat \<Rightarrow> bool" where
  "being_evaluated s x = (case computed_of s x of None \<Rightarrow> False | Some c \<Rightarrow> kc_isBeingEvaluated c)"

definition has_been_evaluated :: "kstate \<Rightarrow> nat \<Rightarrow> bool" where
  "has_been_evaluated s x = (case computed_of s x of None \<Rightarrow> False | Some c \<Rightarrow> kc_hasBeenEvaluated c)"

subsection \<open>Subscriptions\<close>

definition default_event :: string where
  "default_event = ''change''"

definition subs_on :: "kstate \<Rightarrow> nat \<Rightarrow> string \<Rightarrow> nat list" where
  "subs_on s x event = (case ko_subscriptions (ks_objs s x) event of None \<Rightarrow> [] | Some l \<Rightarrow> l)"

definition set_subs :: "nat \<Rightarrow> string \<Rightarrow> nat list \<Rightarrow> kstate \<Rightarrow> kstate" where
  "set_subs x event l = upd_obj x (\<lambda>b. b\<lparr>ko_subscriptions := (ko_subscriptions b)(event := Some l)\<rparr>)"

definition subscribe :: "nat \<Rightarrow> string \<Rightarrow> sub_callback \<Rightarrow> kstate \<Rightarrow> nat \<times> kstate" where
  "subscribe x event callback s =
     (let sub = ks_nextSub s;
          s' = s\<lparr>ks_nextSub := Suc sub,
                 ks_subs := (ks_subs s)(sub := \<lparr>sub_target = x, sub_event = event,
                    sub_callback = callback, sub_isDisposed = False\<rparr>)\<rparr>
      in (sub, set_subs x event (subs_on s' x event @ [sub]) s'))"

definition dispose_subscription :: "nat \<Rightarrow> kstate \<Rightarrow> kstate" where
  "dispose_subscription sub s =
     (let x = sub_target (ks_subs s sub); event = sub_event (ks_subs s sub);
          s' = s\<lparr>ks_subs := (ks_subs s)(sub := (ks_subs s sub)\<lparr>sub_isDisposed := True\<rparr>)\<rparr>
      in set_subs x event (arrayRemoveItem (subs_on s' x event) sub) s')"

definition getSubscriptionsCount :: "kstate \<Rightarrow> nat \<Rightarrow> string list \<Rightarrow> nat" where
  "getSubscriptionsCount s x events = fold (\<lambda>event total. total + length (subs_on s x event)) events 0"

subsection \<open>Dependency detection\<close>

definition begin_frame :: "nat \<Rightarrow> kstate \<Rightarrow> kstate" where
  "begin_frame c s = s\<lparr>ks_frames := Some \<lparr>fr_computed = c, fr_distinct = []\<rparr> # ks_frames s\<rparr>"

definition pop_frame :: "kstate \<Rightarrow> kstate" where
  "pop_frame s = s\<lparr>ks_frames := tl (ks_frames s)\<rparr>"

definition ignore_dependencies :: "'a run \<Rightarrow> 'a run" where
  "ignore_dependencies m = try_finally (\<lambda>s. m (s\<lparr>ks_frames := None # ks_frames s\<rparr>)) pop_frame"

text \<open>The callback a computed passes to \<open>begin\<close>.\<close>

definition addSubscriptionToDependency :: "nat \<Rightarrow> nat \<Rightarrow> kstate \<Rightarrow> kstate" where
  "addSubscriptionToDependency c x s =
     (case subscribe x default_event (Reevaluate c) s of
        (sub, s') \<Rightarrow> upd_computed c (\<lambda>k. k\<lparr>kc_deps := kc_deps k @ [sub]\<rparr>) s')"

definition dependency_read :: "nat \<Rightarrow> nat \<Rightarrow> kstate \<Rightarrow> kstate" where
  "dependency_read c x s =
     (let candidates = (case computed_of s c of None \<Rightarrow> [] | Some k \<Rightarrow> kc_candidates k);
          inOld = arrayIndexOf candidates (Some x)
      in if inOld \<ge> 0 then upd_computed c (\<lambda>k. k\<lparr>kc_candidates := candidates[nat inOld := None]\<rparr>) s
         else addSubscriptionToDependency c x s)"

definition registerDependency :: "nat \<Rightarrow> kstate \<Rightarrow> kstate" where
  "registerDependency x s =
     (case ks_frames s of
        Some f # rest \<Rightarrow>
          if arrayIndexOf (fr_distinct f) x \<ge> 0 then s
          else dependency_read (fr_computed f) x
                 (s\<lparr>ks_frames := Some (f\<lparr>fr_distinct := fr_distinct f @ [x]\<rparr>) # rest\<rparr>)
      | _ \<Rightarrow> s)"

subsection \<open>Notification, reading and writing\<close>

datatype task = Run prog | Evaluate nat

text \<open>One subscription of the copy of the list that \<open>notifySubscribers\<close> walks. A throttled
  computed only restarts its timer.\<close>

definition evaluatePossiblyAsync :: "(task \<Rightarrow> kval run) \<Rightarrow> nat \<Rightarrow> unit run" where
  "evaluatePossiblyAsync call c =
     bind (gets (\<lambda>s. case computed_of s c of None \<Rightarrow> False | Some k \<Rightarrow> kc_throttled k)) (\<lambda>throttled.
       if throttled
       then modify (\<lambda>s. s\<lparr>ks_timers := removeAll c (ks_timers s) @ [c]\<rparr>)
       else bind (call (Evaluate c)) (\<lambda>_. ret ()))"

definition run_callback :: "(task \<Rightarrow> kval run) \<Rightarrow> nat \<Rightarrow> kval \<Rightarrow> unit run" where
  "run_callback call sub v =
     bind (gets (\<lambda>s. ks_subs s sub)) (\<lambda>b.
       if sub_isDisposed b then ret ()
       else (case sub_callback b of
               Reevaluate c \<Rightarrow> evaluatePossiblyAsync call c
             | Callback f \<Rightarrow> bind (call (Run (f v))) (\<lambda>_. ret ())))"

fun notify_each :: "(task \<Rightarrow> kval run) \<Rightarrow> nat list \<Rightarrow> kval \<Rightarrow> unit run" where
  "notify_each call [] v = ret ()"
| "notify_each call (sub # subs) v = bind (run_callback call sub v) (\<lambda>_. notify_each call subs v)"

definition notifySubscribers :: "(task \<Rightarrow> kval run) \<Rightarrow> nat \<Rightarrow> kval \<Rightarrow> string \<Rightarrow> unit run" where
  "notifySubscribers call x v event =
     bind (gets (\<lambda>s. ko_subscriptions (ks_objs s x) event)) (\<lambda>l.
       case l of None \<Rightarrow> ret ()
       | Some subs \<Rightarrow> ignore_dependencies (notify_each call subs v))"

definition valueWillMutate :: "(task \<Rightarrow> kval run) \<Rightarrow> nat \<Rightarrow> unit run" where
  "valueWillMutate call x =
     bind (gets (\<lambda>s. latestValue s x)) (\<lambda>v. notifySubscribers call x v ''beforeChange'')"

definition valueHasMutated :: "(task \<Rightarrow> kval run) \<Rightarrow> nat \<Rightarrow> unit run" where
  "valueHasMutated call x =
     bind (gets (\<lambda>s. latestValue s x)) (\<lambda>v. notifySubscribers call x v default_event)"

definition set_latest :: "nat \<Rightarrow> kval \<Rightarrow> kstate \<Rightarrow> kstate" where
  "set_latest x v = upd_obj x (\<lambda>b. b\<lparr>ko_latestValue := v\<rparr>)"

definition write_observable :: "(task \<Rightarrow> kval run) \<Rightarrow> nat \<Rightarrow> kval \<Rightarrow> unit run" where
  "write_observable call x v =
     bind (gets (\<lambda>s. ko_comparer (ks_objs s x) \<and> valuesArePrimitiveAndEqual (latestValue s x) v)) (\<lambda>same.
       if same then ret ()
       else bind (valueWillMutate call x) (\<lambda>_.
            bind (modify (set_latest x v)) (\<lambda>_.
            valueHasMutated call x)))"

definition read_computed :: "(task \<Rightarrow> kval run) \<Rightarrow> nat \<Rightarrow> unit run" where
  "read_computed call x =
     bind (gets (\<lambda>s. has_been_evaluated s x)) (\<lambda>done'.
       if done' then ret () else bind (call (Evaluate x)) (\<lambda>_. ret ()))"

definition write_computed :: "(task \<Rightarrow> kval run) \<Rightarrow> kcomputed \<Rightarrow> kval \<Rightarrow> unit run" where
  "write_computed call k v =
     (case kc_write k of
        Some f \<Rightarrow> bind (call (Run (f v))) (\<lambda>_. ret ())
      | None \<Rightarrow> throw (Thrown ''Cannot write a value to a ko.computed unless you specify a 'write' option.''))"

text \<open>Calling a subscribable with no argument, \<open>peek\<close>, and calling it with one.\<close>

definition ko_peek :: "(task \<Rightarrow> kval run) \<Rightarrow> nat \<Rightarrow> kval run" where
  "ko_peek call x =
     bind (gets (\<lambda>s. computed_of s x)) (\<lambda>k.
       bind (if k = None then ret () else read_computed call x) (\<lambda>_. gets (\<lambda>s. latestValue s x)))"

definition ko_read :: "(task \<Rightarrow> kval run) \<Rightarrow> nat \<Rightarrow> kval run" where
  "ko_read call x =
     bind (gets (\<lambda>s. computed_of s x)) (\<lambda>k.
       bind (if k = None then ret () else read_computed call x) (\<lambda>_.
       bind (modify (registerDependency x)) (\<lambda>_. gets (\<lambda>s. latestValue s x))))"

definition ko_write :: "(task \<Rightarrow> kval run) \<Rightarrow> nat \<Rightarrow> kval \<Rightarrow> unit run" where
  "ko_write call x v =
     bind (gets (\<lambda>s. computed_of s x)) (\<lambda>k.
       case k of None \<Rightarrow> write_observable call x v | Some c \<Rightarrow> write_computed call c v)"

subsection \<open>Evaluating a computed\<close>

definition disposeAllSubscriptionsToDependencies :: "nat \<Rightarrow> kstate \<Rightarrow> kstate" where
  "disposeAllSubscriptionsToDependencies c s =
     upd_computed c (\<lambda>k. k\<lparr>kc_deps := []\<rparr>) (fold dispose_subscription (deps_of s c) s)"

text \<open>\<open>for (i = disposalCandidates.length - 1; ...)\<close>: the subscriptions of the candidates that
  were not read. \<open>splice(i, 1)[0]\<close> is \<open>undefined\<close> outside the array.\<close>

fun dispose_unused :: "nat \<Rightarrow> nat \<Rightarrow> unit run" where
  "dispose_unused c 0 = ret ()"
| "dispose_unused c (Suc i) =
     bind (gets (\<lambda>s. (computed_of s c, deps_of s c))) (\<lambda>(k, deps).
       case k of None \<Rightarrow> throw TypeError
       | Some k \<Rightarrow>
           if i < length (kc_candidates k) \<and> kc_candidates k ! i \<noteq> None
           then if i < length deps
                then bind (modify (\<lambda>s. dispose_subscription (deps ! i)
                       (upd_computed c (\<lambda>k. k\<lparr>kc_deps := remove_at i (kc_deps k)\<rparr>) s)))
                     (\<lambda>_. dispose_unused c i)
                else throw TypeError
           else dispose_unused c i)"

definition init_candidates :: "nat \<Rightarrow> kstate \<Rightarrow> kstate" where
  "init_candidates c s =
     upd_computed c (\<lambda>k. k\<lparr>kc_candidates :=
       arrayMap (kc_deps k) (\<lambda>sub. Some (sub_target (ks_subs s sub)))\<rparr>) s"

text \<open>The body of the \<open>try\<close> from the call of \<open>readFunction\<close> to the disposal loop, and the rest
  of it; \<open>disposalCandidates\<close> is dead after the loop.\<close>

definition read_and_prune :: "(task \<Rightarrow> kval run) \<Rightarrow> nat \<Rightarrow> kcomputed \<Rightarrow> kval run" where
  "read_and_prune call c k =
     bind (call (Run (kc_read k))) (\<lambda>newValue.
     bind (gets (\<lambda>s. case computed_of s c of None \<Rightarrow> 0 | Some k \<Rightarrow> length (kc_candidates k))) (\<lambda>n.
     bind (dispose_unused c n) (\<lambda>_.
     bind (modify (upd_computed c (\<lambda>k. k\<lparr>kc_hasBeenEvaluated := True, kc_candidates := []\<rparr>))) (\<lambda>_.
     ret newValue))))"

definition publish :: "(task \<Rightarrow> kval run) \<Rightarrow> nat \<Rightarrow> kval \<Rightarrow> unit run" where
  "publish call c newValue =
     bind (valueWillMutate call c) (\<lambda>_. modify (set_latest c newValue))"

definition evaluate_body :: "(task \<Rightarrow> kval run) \<Rightarrow> nat \<Rightarrow> kcomputed \<Rightarrow> unit run" where
  "evaluate_body call c k =
     bind (modify (\<lambda>s. begin_frame c (init_candidates c s))) (\<lambda>_.
     bind (read_and_prune call c k) (publish call c))"

text \<open>What follows the \<open>finally\<close>, and \<open>evaluateImmediate\<close> with its two early returns.\<close>

definition set_evaluating :: "bool \<Rightarrow> nat \<Rightarrow> kstate \<Rightarrow> kstate" where
  "set_evaluating b c = upd_computed c (\<lambda>k. k\<lparr>kc_isBeingEvaluated := b\<rparr>)"

definition finish_evaluation :: "(task \<Rightarrow> kval run) \<Rightarrow> nat \<Rightarrow> unit run" where
  "finish_evaluation call c =
     bind (valueHasMutated call c) (\<lambda>_.
     modify (\<lambda>s. let s' = set_evaluating False c s
                 in if deps_of s' c = [] then disposeAllSubscriptionsToDependencies c s' else s'))"

definition evaluate_now :: "(task \<Rightarrow> kval run) \<Rightarrow> nat \<Rightarrow> kcomputed \<Rightarrow> unit run" where
  "evaluate_now call c k =
     bind (modify (set_evaluating True c)) (\<lambda>_.
     bind (try_finally (evaluate_body call c k) pop_frame) (\<lambda>_.
     finish_evaluation call c))"

definition evaluateImmediate :: "(task \<Rightarrow> kval run) \<Rightarrow> nat \<Rightarrow> unit run" where
  "evaluateImmediate call c =
     bind (gets (\<lambda>s. computed_of s c)) (\<lambda>ko. case ko of None \<Rightarrow> throw TypeError
     | Some k \<Rightarrow>
         if kc_isBeingEvaluated k then ret ()
         else bind (if kc_hasBeenEvaluated k then call (Run (kc_disposeWhen k)) else ret (KBool False)) (\<lambda>dispose.
         if k_truthy dispose then modify (disposeAllSubscriptionsToDependencies c)
         else evaluate_now call c k))"

subsection \<open>Programs\<close>

text \<open>A reference to an object that does not exist is \<open>undefined\<close>: using it throws.\<close>

definition known :: "nat \<Rightarrow> 'a run \<Rightarrow> 'a run" where
  "known x m = (\<lambda>s. if x < ks_nextObj s then m s else Some (Inl TypeError, s))"

definition subscribe_app :: "nat \<Rightarrow> string \<Rightarrow> (kval \<Rightarrow> prog) \<Rightarrow> nat run" where
  "subscribe_app x event f =
     (\<lambda>s. case subscribe x (if event = '''' then default_event else event) (Callback f) s of
            (sub, s') \<Rightarrow> Some (Inr sub, s'))"

text \<open>The application holds the subscriptions it made; those of a computed are private to it.\<close>

definition dispose_app :: "nat \<Rightarrow> kstate \<Rightarrow> kstate" where
  "dispose_app sub s =
     (case sub_callback (ks_subs s sub) of
        Reevaluate c \<Rightarrow> s
      | Callback f \<Rightarrow> if sub < ks_nextSub s then dispose_subscription sub s else s)"

fun run_prog :: "(task \<Rightarrow> kval run) \<Rightarrow> prog \<Rightarrow> kval run" where
  "run_prog call (Return v) = ret v"
| "run_prog call (Fail e) = throw (Thrown e)"
| "run_prog call (ReadObs x k) = bind (known x (ko_read call x)) (\<lambda>v. call (Run (k v)))"
| "run_prog call (PeekObs x k) = bind (known x (ko_peek call x)) (\<lambda>v. call (Run (k v)))"
| "run_prog call (WriteObs x v k) = bind (known x (ko_write call x v)) (\<lambda>_. call (Run k))"
| "run_prog call (Subscribe x event f k) =
     bind (known x (subscribe_app x event f)) (\<lambda>sub. call (Run (k sub)))"
| "run_prog call (DisposeSub sub k) = bind (modify (dispose_app sub)) (\<lambda>_. call (Run k))"

primrec exec :: "nat \<Rightarrow> task \<Rightarrow> kval run" where
  "exec 0 t = (\<lambda>s. None)"
| "exec (Suc n) t =
     (case t of
        Run p \<Rightarrow> run_prog (exec n) p
      | Evaluate c \<Rightarrow> bind (evaluateImmediate (exec n) c) (\<lambda>_. ret KUndef))"

subsection \<open>Construction\<close>

definition fresh_obj :: "kval \<Rightarrow> kcomputed option \<Rightarrow> kobj" where
  "fresh_obj v k = \<lparr>ko_latestValue = v, ko_comparer = (k = None), ko_subscriptions = (\<lambda>_. None), ko_computed = k\<rparr>"

definition add_obj :: "kobj \<Rightarrow> kstate \<Rightarrow> kstate" where
  "add_obj b s = s\<lparr>ks_objs := (ks_objs s)(ks_nextObj s := b), ks_nextObj := Suc (ks_nextObj s)\<rparr>"

definition observable :: "kval \<Rightarrow> kstate \<Rightarrow> nat \<times> kstate" where
  "observable initialValue s = (ks_nextObj s, add_obj (fresh_obj initialValue None) s)"

definition fresh_computed :: "prog \<Rightarrow> (kval \<Rightarrow> prog) option \<Rightarrow> prog \<Rightarrow> kcomputed" where
  "fresh_computed r w d = \<lparr>kc_hasBeenEvaluated = False, kc_isBeingEvaluated = False, kc_deps = [],
     kc_candidates = [], kc_read = r, kc_write = w, kc_disposeWhen = d, kc_throttled = False\<rparr>"

definition dependentObservable ::
  "nat \<Rightarrow> prog \<Rightarrow> (kval \<Rightarrow> prog) option \<Rightarrow> prog \<Rightarrow> bool \<Rightarrow> nat run" where
  "dependentObservable fuel r w d deferEvaluation =
     (\<lambda>s. bind (modify (add_obj (fresh_obj KUndef (Some (fresh_computed r w d))))) (\<lambda>_.
            bind (if deferEvaluation then ret KUndef else exec fuel (Evaluate (ks_nextObj s))) (\<lambda>_.
            ret (ks_nextObj s))) s)"

definition dispose_computed :: "nat \<Rightarrow> kstate \<Rightarrow> kstate" where
  "dispose_computed c = disposeAllSubscriptionsToDependencies c"

definition computed_isActive :: "kstate \<Rightarrow> nat \<Rightarrow> bool" where
  "computed_isActive s c \<longleftrightarrow> \<not> has_been_evaluated s c \<or> deps_of s c \<noteq> []"

definition isWriteableObservable :: "kstate \<Rightarrow> nat \<Rightarrow> bool" where
  "isWriteableObservable s x =
     (case computed_of s x of None \<Rightarrow> True | Some k \<Rightarrow> kc_write k \<noteq> None)"

text \<open>\<open>ko.extenders.notify\<close>, and the evaluation half of \<open>ko.extenders.throttle\<close>.\<close>

definition extend_notify :: "string \<Rightarrow> nat \<Rightarrow> kstate \<Rightarrow> kstate" where
  "extend_notify notifyWhen x = upd_obj x (\<lambda>b. b\<lparr>ko_comparer := (notifyWhen \<noteq> ''always'')\<rparr>)"

definition extend_throttle :: "nat \<Rightarrow> nat \<Rightarrow> kstate \<Rightarrow> kstate" where
  "extend_throttle timeout x = upd_computed x (\<lambda>k. k\<lparr>kc_throttled := timeout \<noteq> 0\<rparr>)"

text \<open>A timer fires.\<close>

definition fire_timer :: "nat \<Rightarrow> nat \<Rightarrow> kval run" where
  "fire_timer fuel c =
     (\<lambda>s. if c \<in> set (ks_timers s)
          then exec fuel (Evaluate c) (s\<lparr>ks_timers := removeAll c (ks_timers s)\<rparr>)
          else Some (Inr KUndef, s))"

subsection \<open>What every run keeps_rel\<close>

definition keeps_rel :: "(kstate \<Rightarrow> kstate \<Rightarrow> bool) \<Rightarrow> 'a run \<Rightarrow> bool" where
  "keeps_rel R m \<longleftrightarrow> (\<forall>s r s'. m s = Some (r, s') \<longrightarrow> R s s')"

lemma keeps_relI [intro?]: "(\<And>s r s'. m s = Some (r, s') \<Longrightarrow> R s s') \<Longrightarrow> keeps_rel R m"
  by (simp add: keeps_rel_def)

lemma keeps_relD: "keeps_rel R m \<Longrightarrow> m s = Some (r, s') \<Longrightarrow> R s s'"
  by (simp add: keeps_rel_def)

lemma run_simps [js_simps]:
  "ret x s = Some (Inr x, s)" "throw e s = Some (Inl e, s)"
  "modify g s = Some (Inr (), g s)" "gets h s = Some (Inr (h s), s)"
  by (simp_all add: ret_def throw_def modify_def gets_def)

lemma bind_cases:
  assumes "bind m f s = Some (r, s')"
  obtains (fails) e where "m s = Some (Inl e, s')" "r = Inl e"
    | (works) x s1 where "m s = Some (Inr x, s1)" "f x s1 = Some (r, s')"
  using assms by (auto simp: bind_def split: option.splits prod.splits sum.splits)

lemma bind_modify: "bind (modify g) f s = f () (g s)"
  by (simp add: bind_def modify_def)

lemma bind_gets: "bind (gets h) f s = f (h s) s"
  by (simp add: bind_def gets_def)

lemma bind_ret: "bind (ret x) f s = f x s"
  by (simp add: bind_def ret_def)

lemma try_finally_cases:
  assumes "try_finally m g s = Some (r, s')"
  obtains s1 where "m s = Some (r, s1)" "s' = g s1"
  using assms by (auto simp: try_finally_def split: option.splits prod.splits)

definition same_kinds :: "kstate \<Rightarrow> kstate \<Rightarrow> bool" where
  "same_kinds s s' \<longleftrightarrow> ks_nextObj s' = ks_nextObj s \<and> (\<forall>x. computed_of s x = None \<longleftrightarrow> computed_of s' x = None)"

text \<open>
  A relation between the states before and after, closed under the state changes a program
  can cause. From these laws it holds for everything written over \<open>call\<close>; with the law for
  \<open>evaluateImmediate\<close> it holds for every run.
\<close>

locale ko_laws =
  fixes R :: "kstate \<Rightarrow> kstate \<Rightarrow> bool"
  assumes R_refl: "R s s"
    and R_trans: "R s1 s2 \<Longrightarrow> R s2 s3 \<Longrightarrow> R s1 s3"
    and R_kinds: "R s s' \<Longrightarrow> same_kinds s s'"
    and R_subscribe: "x < ks_nextObj s \<Longrightarrow> R s (snd (subscribe x event (Callback f) s))"
    and R_dispose: "R s (dispose_app sub s)"
    and R_register: "x < ks_nextObj s \<Longrightarrow> R s (registerDependency x s)"
    and R_write: "computed_of s x = None \<Longrightarrow> R s (set_latest x v s)"
    and R_timers: "R s (s\<lparr>ks_timers := ts\<rparr>)"
    and R_ignore: "keeps_rel R m \<Longrightarrow> keeps_rel R (ignore_dependencies (m :: unit run))"
begin

lemma keeps_rel_ret [inv_intros]: "keeps_rel R (ret x)"
  by rule (auto simp: js_simps R_refl)

lemma keeps_rel_throw [inv_intros]: "keeps_rel R (throw e)"
  by rule (auto simp: js_simps R_refl)

lemma keeps_rel_gets [inv_intros]: "keeps_rel R (gets h)"
  by rule (auto simp: js_simps R_refl)

lemma keeps_rel_modify: "(\<And>s. R s (g s)) \<Longrightarrow> keeps_rel R (modify g)"
  by rule (auto simp: js_simps)

lemma keeps_rel_bind [inv_intros]:
  assumes "keeps_rel R m" "\<And>x. keeps_rel R (f x)"
  shows "keeps_rel R (bind m f)"
proof
  fix s r s' assume "bind m f s = Some (r, s')"
  then show "R s s'"
  proof (cases rule: bind_cases)
    case (fails e)
    then show ?thesis using keeps_relD [OF assms(1)] by blast
  next
    case (works x s1)
    then show ?thesis using keeps_relD [OF assms(1)] keeps_relD [OF assms(2)] R_trans by blast
  qed
qed

lemma keeps_rel_if [inv_intros]: "keeps_rel R a \<Longrightarrow> keeps_rel R b \<Longrightarrow> keeps_rel R (if c then a else b)"
  by simp

lemma run_callback_R:
  assumes "\<And>t. keeps_rel R (call t)"
  shows "keeps_rel R (run_callback call sub v)"
  unfolding run_callback_def evaluatePossiblyAsync_def
  by (intro inv_intros keeps_rel_if)
    (auto split: sub_callback.split intro!: inv_intros assms keeps_rel_modify R_refl R_timers)

lemma notify_each_R:
  assumes "\<And>t. keeps_rel R (call t)"
  shows "keeps_rel R (notify_each call subs v)"
  by (induction subs) (auto intro!: inv_intros run_callback_R assms)

lemma notify_R:
  assumes "\<And>t. keeps_rel R (call t)"
  shows "keeps_rel R (notifySubscribers call x v event)"
  unfolding notifySubscribers_def
  by (intro inv_intros) (auto split: option.split intro!: inv_intros R_ignore notify_each_R assms)

lemma mutate_R:
  assumes "\<And>t. keeps_rel R (call t)"
  shows "keeps_rel R (valueWillMutate call x)" "keeps_rel R (valueHasMutated call x)"
  unfolding valueWillMutate_def valueHasMutated_def
  by (intro inv_intros notify_R assms)+

lemma write_observable_R:
  assumes "\<And>t. keeps_rel R (call t)" "computed_of s x = None" "write_observable call x v s = Some (r, s')"
  shows "R s s'"
proof -
  have will: "keeps_rel R (valueWillMutate call x)" and has: "keeps_rel R (valueHasMutated call x)"
    by (rule mutate_R assms(1))+
  show ?thesis
  proof (cases "ko_comparer (ks_objs s x) \<and> valuesArePrimitiveAndEqual (latestValue s x) v")
    case True
    then show ?thesis using assms(3) R_refl by (simp add: write_observable_def bind_gets js_simps)
  next
    case False
    then have "bind (valueWillMutate call x) (\<lambda>_. bind (modify (set_latest x v)) (\<lambda>_. valueHasMutated call x)) s = Some (r, s')"
      using assms(3) by (auto simp: write_observable_def bind_gets)
    then show ?thesis
    proof (cases rule: bind_cases)
      case (fails e)
      then show ?thesis using keeps_relD [OF will] by blast
    next
      case (works y s1)
      then have s1: "R s s1" "valueHasMutated call x (set_latest x v s1) = Some (r, s')"
        using keeps_relD [OF will] by (simp_all add: bind_modify)
      moreover have "computed_of s1 x = None" using R_kinds [OF s1(1)] assms(2) by (simp add: same_kinds_def)
      ultimately show ?thesis using R_write keeps_relD [OF has] R_trans by blast
    qed
  qed
qed

lemma ko_write_R:
  assumes "\<And>t. keeps_rel R (call t)"
  shows "keeps_rel R (ko_write call x v)"
proof
  fix s r s' assume r: "ko_write call x v s = Some (r, s')"
  show "R s s'"
  proof (cases "computed_of s x")
    case None
    then show ?thesis using r write_observable_R [OF assms] by (simp add: ko_write_def bind_gets)
  next
    case (Some k)
    have "keeps_rel R (write_computed call k v)"
      unfolding write_computed_def by (auto split: option.split intro!: inv_intros assms)
    then show ?thesis using r Some by (auto simp: ko_write_def bind_gets dest: keeps_relD)
  qed
qed

lemma ko_peek_R:
  assumes "\<And>t. keeps_rel R (call t)"
  shows "keeps_rel R (ko_peek call x)"
  unfolding ko_peek_def read_computed_def
  by (intro inv_intros keeps_rel_if assms)

lemma keeps_rel_known:
  assumes "\<And>s r s'. x < ks_nextObj s \<Longrightarrow> m s = Some (r, s') \<Longrightarrow> R s s'"
  shows "keeps_rel R (known x m)"
  by rule (use assms R_refl in \<open>auto simp: known_def split: if_splits\<close>)

lemma ko_read_R:
  assumes call: "\<And>t. keeps_rel R (call t)"
  shows "keeps_rel R (known x (ko_read call x))"
proof (rule keeps_rel_known)
  fix s r s' assume x: "x < ks_nextObj s" and run: "ko_read call x s = Some (r, s')"
  let ?m = "if computed_of s x = None then ret () else read_computed call x"
  have m: "keeps_rel R ?m"
    unfolding read_computed_def by (intro inv_intros keeps_rel_if call)
  have "bind ?m (\<lambda>_. bind (modify (registerDependency x)) (\<lambda>_. gets (\<lambda>s. latestValue s x))) s = Some (r, s')"
    using run by (simp add: ko_read_def bind_gets)
  then show "R s s'"
  proof (cases rule: bind_cases)
    case (fails e)
    then show ?thesis using keeps_relD [OF m] by blast
  next
    case (works u s1)
    have s1: "R s s1" using keeps_relD [OF m works(1)] .
    then have "x < ks_nextObj s1" using R_kinds [OF s1] x by (simp add: same_kinds_def)
    then show ?thesis using works(2) R_register R_trans [OF s1] by (auto simp: bind_modify js_simps)
  qed
qed

lemma keeps_rel_subscribe: "keeps_rel R (known x (subscribe_app x event f))"
proof (rule keeps_rel_known)
  fix s r s' assume "x < ks_nextObj s" "subscribe_app x event f s = Some (r, s')"
  moreover from this have "s' = snd (subscribe x (if event = '''' then default_event else event) (Callback f) s)"
    by (auto simp: subscribe_app_def split: prod.splits)
  ultimately show "R s s'" using R_subscribe by simp
qed

lemma keeps_rel_known_any: "keeps_rel R m \<Longrightarrow> keeps_rel R (known x m)"
  by (rule keeps_rel_known) (rule keeps_relD)

lemma run_prog_R:
  assumes "\<And>t. keeps_rel R (call t)"
  shows "keeps_rel R (run_prog call p)"
  by (cases p) (simp_all add: keeps_rel_ret keeps_rel_throw keeps_rel_bind ko_read_R ko_write_R ko_peek_R assms
      keeps_rel_known_any keeps_rel_subscribe keeps_rel_modify R_dispose)

lemma finish_rel:
  assumes call: "\<And>t. keeps_rel R (call t)"
    and run: "finish_evaluation call c s1 = Some (r, s')" and s1: "R s s1"
    and dispose: "\<And>s1. R s s1 \<Longrightarrow> R s (disposeAllSubscriptionsToDependencies c s1)"
    and idle: "\<And>s1. R s s1 \<Longrightarrow> R s (set_evaluating False c s1)"
  shows "R s s'"
proof -
  have mut: "keeps_rel R (valueHasMutated call c)" by (rule mutate_R(2) [OF call])
  show ?thesis
    using run unfolding finish_evaluation_def
  proof (cases rule: bind_cases)
    case (fails e)
    then show ?thesis using keeps_relD [OF mut] s1 R_trans by blast
  next
    case (works y s5)
    have "R s (set_evaluating False c s5)" using idle keeps_relD [OF mut works(1)] s1 R_trans by blast
    then show ?thesis using works(2) dispose by (auto simp: js_simps Let_def split: if_splits)
  qed
qed

lemma evaluateImmediate_rel:
  assumes call: "\<And>t. keeps_rel R (call t)"
    and run: "evaluateImmediate call c s = Some (r, s')"
    and dispose: "\<And>k s1. computed_of s c = Some k \<Longrightarrow> \<not> kc_isBeingEvaluated k \<Longrightarrow> R s s1 \<Longrightarrow>
      R s (disposeAllSubscriptionsToDependencies c s1)"
    and body: "\<And>k s1 rb s3. computed_of s c = Some k \<Longrightarrow> \<not> kc_isBeingEvaluated k \<Longrightarrow> R s s1 \<Longrightarrow>
      evaluate_body call c k (set_evaluating True c s1) = Some (rb, s3) \<Longrightarrow> R s (pop_frame s3)"
    and idle: "\<And>k s1. computed_of s c = Some k \<Longrightarrow> \<not> kc_isBeingEvaluated k \<Longrightarrow> R s s1 \<Longrightarrow>
      R s (set_evaluating False c s1)"
  shows "R s s'"
proof (cases "computed_of s c")
  case None
  then show ?thesis using run R_refl by (simp add: evaluateImmediate_def bind_gets js_simps)
next
  case k: (Some k)
  show ?thesis
  proof (cases "kc_isBeingEvaluated k")
    case True
    then show ?thesis using run k R_refl by (simp add: evaluateImmediate_def bind_gets js_simps)
  next
    case False
    let ?when = "if kc_hasBeenEvaluated k then call (Run (kc_disposeWhen k)) else ret (KBool False)"
    have when_R: "keeps_rel R ?when" by (intro keeps_rel_if call keeps_rel_ret)
    have "bind ?when (\<lambda>d. if k_truthy d then modify (disposeAllSubscriptionsToDependencies c)
        else evaluate_now call c k) s = Some (r, s')"
      using run k False by (simp add: evaluateImmediate_def bind_gets)
    then show ?thesis
    proof (cases rule: bind_cases)
      case (fails e)
      then show ?thesis using keeps_relD [OF when_R] by blast
    next
      case (works v s1)
      have s1: "R s s1" using keeps_relD [OF when_R works(1)] .
      show ?thesis
      proof (cases "k_truthy v")
        case True
        then show ?thesis using works(2) dispose [OF k False s1] by (simp add: js_simps)
      next
        case nd: False
        then have "bind (try_finally (evaluate_body call c k) pop_frame) (\<lambda>_. finish_evaluation call c)
            (set_evaluating True c s1) = Some (r, s')"
          using works(2) by (simp add: evaluate_now_def bind_modify)
        then show ?thesis
        proof (cases rule: bind_cases)
          case (fails e)
          then show ?thesis using body [OF k False s1] by (auto elim!: try_finally_cases)
        next
          case (works u s4)
          then have "R s s4" using body [OF k False s1] by (auto elim!: try_finally_cases)
          then show ?thesis using finish_rel [OF call works(2)] dispose [OF k False] idle [OF k False] by blast
        qed
      qed
    qed
  qed
qed

end

locale ko_run_laws = ko_laws +
  assumes R_evaluate: "(\<And>t. keeps_rel R (call t)) \<Longrightarrow> keeps_rel R (evaluateImmediate call c)"
begin

lemma exec_R: "keeps_rel R (exec n t)"
proof (induction n arbitrary: t)
  case 0
  show ?case by (simp add: keeps_rel_def)
next
  case (Suc n)
  show ?case
    by (cases t) (simp_all add: run_prog_R R_evaluate keeps_rel_bind keeps_rel_ret Suc)
qed

lemma exec_R_D: "exec n t s = Some (r, s') \<Longrightarrow> R s s'"
  using exec_R keeps_relD by blast

end

subsection \<open>Reading an updated state\<close>

named_theorems ks_simps \<open>selectors of updated states\<close>

lemma upd_obj_sel [ks_simps]:
  "ks_nextObj (upd_obj x f s) = ks_nextObj s"
  "ks_frames (upd_obj x f s) = ks_frames s" "ks_subs (upd_obj x f s) = ks_subs s"
  "ks_nextSub (upd_obj x f s) = ks_nextSub s" "ks_timers (upd_obj x f s) = ks_timers s"
  "ks_objs (upd_obj x f s) y = (if y = x then f (ks_objs s x) else ks_objs s y)"
  by (simp_all add: upd_obj_def)

lemma upd_computed_sel [ks_simps]:
  "ks_nextObj (upd_computed x g s) = ks_nextObj s"
  "ks_frames (upd_computed x g s) = ks_frames s" "ks_subs (upd_computed x g s) = ks_subs s"
  "ks_nextSub (upd_computed x g s) = ks_nextSub s"
  "computed_of (upd_computed x g s) y = (if y = x then map_option g (computed_of s x) else computed_of s y)"
  "subs_on (upd_computed x g s) y e = subs_on s y e"
  "latestValue (upd_computed x g s) y = latestValue s y"
  by (simp_all add: upd_computed_def ks_simps computed_of_def subs_on_def latestValue_def)

lemma set_subs_sel [ks_simps]:
  "ks_nextObj (set_subs x e l s) = ks_nextObj s"
  "ks_frames (set_subs x e l s) = ks_frames s" "ks_subs (set_subs x e l s) = ks_subs s"
  "ks_nextSub (set_subs x e l s) = ks_nextSub s"
  "computed_of (set_subs x e l s) y = computed_of s y"
  "subs_on (set_subs x e l s) y e' = (if y = x \<and> e' = e then l else subs_on s y e')"
  "latestValue (set_subs x e l s) y = latestValue s y"
  by (simp_all add: set_subs_def ks_simps computed_of_def subs_on_def latestValue_def)

lemma set_latest_sel [ks_simps]:
  "ks_nextObj (set_latest x v s) = ks_nextObj s"
  "ks_frames (set_latest x v s) = ks_frames s" "ks_subs (set_latest x v s) = ks_subs s"
  "ks_nextSub (set_latest x v s) = ks_nextSub s"
  "computed_of (set_latest x v s) y = computed_of s y"
  "subs_on (set_latest x v s) y e = subs_on s y e"
  "latestValue (set_latest x v s) y = (if y = x then v else latestValue s y)"
  by (simp_all add: set_latest_def ks_simps computed_of_def subs_on_def latestValue_def)

lemma frames_sel [ks_simps]:
  "computed_of (s\<lparr>ks_frames := fs\<rparr>) y = computed_of s y"
  "subs_on (s\<lparr>ks_frames := fs\<rparr>) y e = subs_on s y e"
  "latestValue (s\<lparr>ks_frames := fs\<rparr>) y = latestValue s y"
  "computed_of (s\<lparr>ks_timers := ts\<rparr>) y = computed_of s y"
  "subs_on (s\<lparr>ks_timers := ts\<rparr>) y e = subs_on s y e"
  "latestValue (s\<lparr>ks_timers := ts\<rparr>) y = latestValue s y"
  "computed_of (s\<lparr>ks_subs := sb\<rparr>) y = computed_of s y"
  "subs_on (s\<lparr>ks_subs := sb\<rparr>) y e = subs_on s y e"
  "latestValue (s\<lparr>ks_subs := sb\<rparr>) y = latestValue s y"
  "computed_of (s\<lparr>ks_nextSub := n\<rparr>) y = computed_of s y"
  "subs_on (s\<lparr>ks_nextSub := n\<rparr>) y e = subs_on s y e"
  "latestValue (s\<lparr>ks_nextSub := n\<rparr>) y = latestValue s y"
  "computed_of (s\<lparr>ks_nextSub := n, ks_subs := sb\<rparr>) y = computed_of s y"
  "subs_on (s\<lparr>ks_nextSub := n, ks_subs := sb\<rparr>) y e = subs_on s y e"
  "latestValue (s\<lparr>ks_nextSub := n, ks_subs := sb\<rparr>) y = latestValue s y"
  by (simp_all add: computed_of_def subs_on_def latestValue_def)

lemma subscribe_sel [ks_simps]:
  "ks_nextObj (snd (subscribe x e cb s)) = ks_nextObj s"
  "fst (subscribe x e cb s) = ks_nextSub s"
  "ks_frames (snd (subscribe x e cb s)) = ks_frames s"
  "ks_nextSub (snd (subscribe x e cb s)) = Suc (ks_nextSub s)"
  "ks_subs (snd (subscribe x e cb s)) = (ks_subs s)(ks_nextSub s :=
     \<lparr>sub_target = x, sub_event = e, sub_callback = cb, sub_isDisposed = False\<rparr>)"
  "computed_of (snd (subscribe x e cb s)) y = computed_of s y"
  "subs_on (snd (subscribe x e cb s)) y e' =
     (if y = x \<and> e' = e then subs_on s x e @ [ks_nextSub s] else subs_on s y e')"
  "latestValue (snd (subscribe x e cb s)) y = latestValue s y"
  by (simp_all add: subscribe_def Let_def ks_simps)

lemma dispose_sel [ks_simps]:
  "ks_nextObj (dispose_subscription sub s) = ks_nextObj s"
  "ks_frames (dispose_subscription sub s) = ks_frames s"
  "ks_nextSub (dispose_subscription sub s) = ks_nextSub s"
  "ks_subs (dispose_subscription sub s) = (ks_subs s)(sub := (ks_subs s sub)\<lparr>sub_isDisposed := True\<rparr>)"
  "computed_of (dispose_subscription sub s) y = computed_of s y"
  "subs_on (dispose_subscription sub s) y e =
     (if y = sub_target (ks_subs s sub) \<and> e = sub_event (ks_subs s sub)
      then remove1 sub (subs_on s y e) else subs_on s y e)"
  "latestValue (dispose_subscription sub s) y = latestValue s y"
  by (simp_all add: dispose_subscription_def Let_def ks_simps arrayRemoveItem_remove1)

lemma fold_dispose_sel [ks_simps]:
  "ks_nextObj (fold dispose_subscription l s) = ks_nextObj s"
  "ks_frames (fold dispose_subscription l s) = ks_frames s"
  "ks_nextSub (fold dispose_subscription l s) = ks_nextSub s"
  "computed_of (fold dispose_subscription l s) y = computed_of s y"
  "latestValue (fold dispose_subscription l s) y = latestValue s y"
  by (induction l arbitrary: s) (simp_all add: ks_simps)

lemma fold_dispose_subs [ks_simps]:
  "ks_subs (fold dispose_subscription l s) sub =
     (if sub \<in> set l then (ks_subs s sub)\<lparr>sub_isDisposed := True\<rparr> else ks_subs s sub)"
  by (induction l arbitrary: s) (simp_all add: ks_simps)

lemma disposeAll_sel [ks_simps]:
  "ks_nextObj (disposeAllSubscriptionsToDependencies c s) = ks_nextObj s"
  "ks_frames (disposeAllSubscriptionsToDependencies c s) = ks_frames s"
  "ks_nextSub (disposeAllSubscriptionsToDependencies c s) = ks_nextSub s"
  "ks_subs (disposeAllSubscriptionsToDependencies c s) sub =
     (if sub \<in> set (deps_of s c) then (ks_subs s sub)\<lparr>sub_isDisposed := True\<rparr> else ks_subs s sub)"
  "computed_of (disposeAllSubscriptionsToDependencies c s) y =
     (if y = c then map_option (\<lambda>k. k\<lparr>kc_deps := []\<rparr>) (computed_of s c) else computed_of s y)"
  "latestValue (disposeAllSubscriptionsToDependencies c s) y = latestValue s y"
  by (simp_all add: disposeAllSubscriptionsToDependencies_def ks_simps)

lemma set_evaluating_sel [ks_simps]:
  "ks_nextObj (set_evaluating b c s) = ks_nextObj s"
  "ks_frames (set_evaluating b c s) = ks_frames s" "ks_subs (set_evaluating b c s) = ks_subs s"
  "ks_nextSub (set_evaluating b c s) = ks_nextSub s"
  "computed_of (set_evaluating b c s) y =
     (if y = c then map_option (\<lambda>k. k\<lparr>kc_isBeingEvaluated := b\<rparr>) (computed_of s c) else computed_of s y)"
  "subs_on (set_evaluating b c s) y e = subs_on s y e"
  "latestValue (set_evaluating b c s) y = latestValue s y"
  by (simp_all add: set_evaluating_def ks_simps)

lemma dependency_read_sel [ks_simps]:
  "ks_nextObj (dependency_read c x s) = ks_nextObj s"
  "ks_frames (dependency_read c x s) = ks_frames s"
  "latestValue (dependency_read c x s) y = latestValue s y"
  "computed_of (dependency_read c x s) y = None \<longleftrightarrow> computed_of s y = None"
  "y \<noteq> c \<Longrightarrow> computed_of (dependency_read c x s) y = computed_of s y"
  "being_evaluated (dependency_read c x s) y = being_evaluated s y"
  by (auto simp: dependency_read_def addSubscriptionToDependency_def Let_def ks_simps being_evaluated_def
      split: prod.splits option.splits) (auto simp: ks_simps dest!: sym [of "(_, _)"] arg_cong [where f = snd] split: option.splits)

subsection \<open>The frames are balanced\<close>

fun frames_like :: "frame option list \<Rightarrow> frame option list \<Rightarrow> bool" where
  "frames_like [] gs \<longleftrightarrow> gs = []"
| "frames_like (f # fs) gs \<longleftrightarrow>
     (case gs of [] \<Rightarrow> False
      | g # gs' \<Rightarrow> gs' = fs \<and> map_option fr_computed g = map_option fr_computed f)"

definition frames_rel :: "kstate \<Rightarrow> kstate \<Rightarrow> bool" where
  "frames_rel s s' \<longleftrightarrow> same_kinds s s' \<and> frames_like (ks_frames s) (ks_frames s')"

lemma frames_like_refl: "frames_like fs fs"
  by (cases fs) auto

lemma frames_like_trans: "frames_like a b \<Longrightarrow> frames_like b c \<Longrightarrow> frames_like a c"
  by (cases a; cases b; cases c) auto

lemma frames_rel_same: "ks_frames s' = ks_frames s \<Longrightarrow> same_kinds s s' \<Longrightarrow> frames_rel s s'"
  by (simp add: frames_rel_def frames_like_refl)

lemma same_kinds_refl: "same_kinds s s"
  by (simp add: same_kinds_def)

lemma same_kinds_trans: "same_kinds a b \<Longrightarrow> same_kinds b c \<Longrightarrow> same_kinds a c"
  by (simp add: same_kinds_def)

lemma dispose_app_sel [ks_simps]:
  "ks_nextObj (dispose_app sub s) = ks_nextObj s"
  "ks_frames (dispose_app sub s) = ks_frames s"
  "ks_nextSub (dispose_app sub s) = ks_nextSub s"
  "computed_of (dispose_app sub s) y = computed_of s y"
  "latestValue (dispose_app sub s) y = latestValue s y"
  by (simp_all add: dispose_app_def ks_simps split: sub_callback.split)

lemma registerDependency_kinds: "same_kinds s (registerDependency x s)"
  by (simp add: same_kinds_def registerDependency_def Let_def ks_simps split: list.split option.split)

lemma registerDependency_frames:
  "frames_like (ks_frames s) (ks_frames (registerDependency x s))"
  by (auto simp: registerDependency_def ks_simps frames_like_refl split: list.split option.split)

lemma ignore_frames:
  assumes m: "keeps_rel frames_rel (m :: unit run)"
  shows "keeps_rel frames_rel (ignore_dependencies m)"
    and "ignore_dependencies m s = Some (r, s') \<Longrightarrow> ks_frames s' = ks_frames s"
proof -
  have *: "same_kinds s s' \<and> ks_frames s' = ks_frames s" if run: "ignore_dependencies m s = Some (r, s')" for s r s'
  proof -
    obtain s1 where s1: "m (s\<lparr>ks_frames := None # ks_frames s\<rparr>) = Some (r, s1)" "s' = pop_frame s1"
      using run by (auto simp: ignore_dependencies_def try_finally_def split: option.splits prod.splits)
    then have "frames_rel (s\<lparr>ks_frames := None # ks_frames s\<rparr>) s1" using keeps_relD [OF m] by blast
    then show ?thesis using s1(2)
      by (auto simp: frames_rel_def same_kinds_def pop_frame_def ks_simps split: list.splits)
  qed
  show "keeps_rel frames_rel (ignore_dependencies m)"
    by rule (use * frames_rel_same in blast)
  show "ignore_dependencies m s = Some (r, s') \<Longrightarrow> ks_frames s' = ks_frames s" using * by blast
qed

interpretation frames: ko_laws frames_rel
proof
  fix s1 s2 s3
  show "frames_rel s1 s2 \<Longrightarrow> frames_rel s2 s3 \<Longrightarrow> frames_rel s1 s3"
    unfolding frames_rel_def by (metis frames_like_trans same_kinds_trans)
next
  fix s x
  show "frames_rel s (registerDependency x s)"
    by (simp add: frames_rel_def registerDependency_kinds registerDependency_frames)
qed (auto simp: frames_rel_same same_kinds_refl same_kinds_def ks_simps ignore_frames(1)
      intro!: frames_rel_same, auto simp: frames_rel_def same_kinds_def)

lemma dispose_unused_frames: "dispose_unused c n s = Some (r, s') \<Longrightarrow> frames_rel s s'"
proof (induction n arbitrary: s r s')
  case 0
  then show ?case by (simp add: js_simps frames.R_refl)
next
  case (Suc n)
  have m: "keeps_rel frames_rel (modify (\<lambda>s. dispose_subscription (d ! i)
      (upd_computed c (\<lambda>k. k\<lparr>kc_deps := remove_at i (kc_deps k)\<rparr>) s)))" for d i
    by (rule frames.keeps_rel_modify) (auto simp: ks_simps same_kinds_def intro!: frames_rel_same)
  have "keeps_rel frames_rel (dispose_unused c n)" by rule (rule Suc.IH)
  then have "keeps_rel frames_rel (dispose_unused c (Suc n))"
    unfolding dispose_unused.simps
    by (auto intro!: frames.keeps_rel_bind frames.keeps_rel_gets frames.keeps_rel_throw m split: prod.split option.split)
  then show ?case using Suc.prems by (rule keeps_relD)
qed

lemma upd_computed_frames: "frames_rel s (upd_computed c f s)"
  by (rule frames_rel_same) (simp_all add: ks_simps same_kinds_def)

lemma evaluate_body_exact:
  assumes call: "\<And>t. keeps_rel frames_rel (call t)"
    and run: "evaluate_body call c k s = Some (r, s')"
  shows "same_kinds s (pop_frame s') \<and> ks_frames (pop_frame s') = ks_frames s"
proof -
  have "keeps_rel frames_rel (read_and_prune call c k)"
    unfolding read_and_prune_def
    by (intro frames.keeps_rel_bind frames.keeps_rel_gets frames.keeps_rel_ret call frames.keeps_rel_modify
        upd_computed_frames keeps_relI [of "dispose_unused c _"] dispose_unused_frames)
  moreover have "keeps_rel frames_rel (publish call c v)" for v
    unfolding publish_def
    by (intro frames.keeps_rel_bind frames.mutate_R call frames.keeps_rel_modify frames_rel_same)
      (simp_all add: ks_simps same_kinds_def)
  ultimately have "keeps_rel frames_rel (bind (read_and_prune call c k) (publish call c))"
    by (rule frames.keeps_rel_bind)
  then have "frames_rel (begin_frame c (init_candidates c s)) s'"
    using run keeps_relD by (fastforce simp: evaluate_body_def bind_modify)
  moreover have "same_kinds s (begin_frame c (init_candidates c s))"
    by (simp add: same_kinds_def begin_frame_def init_candidates_def ks_simps)
  moreover have "same_kinds s' (pop_frame s')"
    by (simp add: same_kinds_def pop_frame_def ks_simps)
  ultimately show ?thesis
    using same_kinds_trans
    by (auto simp: frames_rel_def begin_frame_def init_candidates_def pop_frame_def ks_simps
        split: list.splits)
qed

lemma evaluate_body_frames:
  assumes "\<And>t. keeps_rel frames_rel (call t)" "evaluate_body call c k s = Some (r, s')"
  shows "frames_rel s (pop_frame s')"
  using evaluate_body_exact [OF assms] frames_rel_same by blast

interpretation frames_run: ko_run_laws frames_rel
proof
  fix call :: "task \<Rightarrow> kval run" and c
  assume call: "\<And>t. keeps_rel frames_rel (call t)"
  show "keeps_rel frames_rel (evaluateImmediate call c)"
  proof
    fix s r s' assume run: "evaluateImmediate call c s = Some (r, s')"
    show "frames_rel s s'"
    proof (rule frames.evaluateImmediate_rel [OF call run])
      show "frames_rel s (pop_frame s3)"
        if "frames_rel s s1" "evaluate_body call c k (set_evaluating True c s1) = Some (rb, s3)" for k s1 rb s3
        using evaluate_body_frames [OF call that(2)] frames.R_trans that(1) upd_computed_frames set_evaluating_def by metis
    qed (auto elim!: frames.R_trans simp: ks_simps same_kinds_def intro!: frames_rel_same)
  qed
qed

text \<open>C4: dependency detection is balanced. Whatever the programs do, and whether or not they
  throw, a run leaves the frames below the top one as they were, and the top one belongs to
  the same computed.\<close>

theorem exec_frames_balanced:
  assumes "exec n t s = Some (r, s')"
  shows "frames_like (ks_frames s) (ks_frames s')"
  using frames_run.exec_R_D [OF assms] by (simp add: frames_rel_def)

text \<open>The callbacks run by a notification register no dependency with the evaluation in
  progress: all frames, with the dependencies they hold, are as before.\<close>

theorem notify_frames_untouched:
  assumes "notifySubscribers (exec n) x v event s = Some (r, s')"
  shows "ks_frames s' = ks_frames s"
proof (cases "ko_subscriptions (ks_objs s x) event")
  case None
  then show ?thesis using assms by (simp add: notifySubscribers_def bind_gets js_simps)
next
  case (Some subs)
  then have "ignore_dependencies (notify_each (exec n) subs v) s = Some (r, s')"
    using assms by (simp add: notifySubscribers_def bind_gets)
  then show ?thesis
    by (rule ignore_frames(2) [OF frames.notify_each_R [OF frames_run.exec_R]])
qed

subsection \<open>A computed in evaluation is left alone\<close>

definition busy_rel :: "nat \<Rightarrow> kstate \<Rightarrow> kstate \<Rightarrow> bool" where
  "busy_rel c s s' \<longleftrightarrow> same_kinds s s' \<and> (being_evaluated s c \<longrightarrow> being_evaluated s' c)"

definition stuck_rel :: "nat \<Rightarrow> kstate \<Rightarrow> kstate \<Rightarrow> bool" where
  "stuck_rel c s s' \<longleftrightarrow> busy_rel c s s' \<and> (being_evaluated s c \<longrightarrow> latestValue s' c = latestValue s c)"

lemma being_evaluated_cong: "computed_of s' c = computed_of s c \<Longrightarrow> being_evaluated s' c = being_evaluated s c"
  by (simp add: being_evaluated_def)

lemma being_evaluated_upd:
  "(\<And>k. kc_isBeingEvaluated (f k) = kc_isBeingEvaluated k) \<Longrightarrow>
     being_evaluated (upd_computed x f s) c = being_evaluated s c"
  by (simp add: being_evaluated_def ks_simps split: option.split)

lemma registerDependency_sel [ks_simps]:
  "being_evaluated (registerDependency x s) c = being_evaluated s c"
  "latestValue (registerDependency x s) c = latestValue s c"
  by (auto simp: registerDependency_def Let_def ks_simps split: list.split option.split)
    (auto simp: being_evaluated_def ks_simps)

lemma kinds_iff: "same_kinds s s' \<longleftrightarrow> ks_nextObj s' = ks_nextObj s \<and> (\<forall>x. computed_of s' x = None \<longleftrightarrow> computed_of s x = None)"
  by (auto simp: same_kinds_def)

lemma busy_rel_same:
  "same_kinds s s' \<Longrightarrow> (\<And>x. being_evaluated s' x = being_evaluated s x) \<Longrightarrow> busy_rel c s s'"
  by (simp add: busy_rel_def)

lemma ignore_cases:
  assumes "ignore_dependencies m s = Some (r, s')"
  obtains s1 where "m (s\<lparr>ks_frames := None # ks_frames s\<rparr>) = Some (r, s1)" "s' = pop_frame s1"
  using assms by (auto simp: ignore_dependencies_def try_finally_def split: option.splits prod.splits)

lemma frame_changes [ks_simps]:
  "being_evaluated (s\<lparr>ks_frames := fs\<rparr>) c = being_evaluated s c"
  "being_evaluated (s\<lparr>ks_timers := ts\<rparr>) c = being_evaluated s c"
  "being_evaluated (pop_frame s) c = being_evaluated s c"
  "being_evaluated (begin_frame x s) c = being_evaluated s c"
  "latestValue (pop_frame s) c = latestValue s c"
  "latestValue (begin_frame x s) c = latestValue s c"
  "computed_of (pop_frame s) c = computed_of s c"
  "ks_nextObj (pop_frame s) = ks_nextObj s"
  "ks_nextObj (begin_frame x s) = ks_nextObj s"
  "computed_of (begin_frame x s) c = computed_of s c"
  by (simp_all add: being_evaluated_def pop_frame_def begin_frame_def ks_simps)

lemma being_evaluated_changes [ks_simps]:
  "being_evaluated (dispose_app sub s) c = being_evaluated s c"
  "being_evaluated (snd (subscribe x e cb s)) c = being_evaluated s c"
  "being_evaluated (set_latest x v s) c = being_evaluated s c"
  "being_evaluated (init_candidates x s) c = being_evaluated s c"
  "being_evaluated (disposeAllSubscriptionsToDependencies x s) c = being_evaluated s c"
  "being_evaluated (dispose_subscription sub s) c = being_evaluated s c"
  by (auto simp: being_evaluated_def init_candidates_def ks_simps split: option.split)

lemma register_same_kinds [ks_simps]:
  "computed_of (registerDependency x s) y = None \<longleftrightarrow> computed_of s y = None"
  "ks_nextObj (registerDependency x s) = ks_nextObj s"
  using registerDependency_kinds by (auto simp: same_kinds_def)

lemma init_candidates_kinds [ks_simps]:
  "computed_of (init_candidates c s) y = None \<longleftrightarrow> computed_of s y = None"
  "latestValue (init_candidates c s) y = latestValue s y"
  "ks_nextObj (init_candidates c s) = ks_nextObj s"
  by (simp_all add: init_candidates_def ks_simps)

interpretation busy: ko_laws "busy_rel c" for c
proof
  fix s1 s2 s3
  show "busy_rel c s1 s2 \<Longrightarrow> busy_rel c s2 s3 \<Longrightarrow> busy_rel c s1 s3"
    unfolding busy_rel_def by (metis same_kinds_trans)
next
  fix m :: "unit run"
  assume m: "keeps_rel (busy_rel c) m"
  show "keeps_rel (busy_rel c) (ignore_dependencies m)"
  proof
    fix s r s' assume "ignore_dependencies m s = Some (r, s')"
    then show "busy_rel c s s'"
      by (elim ignore_cases) (drule keeps_relD [OF m], simp add: busy_rel_def kinds_iff ks_simps)
  qed
qed (simp_all add: busy_rel_def kinds_iff ks_simps)

interpretation stuck: ko_laws "stuck_rel c" for c
proof
  fix s1 s2 s3
  show "stuck_rel c s1 s2 \<Longrightarrow> stuck_rel c s2 s3 \<Longrightarrow> stuck_rel c s1 s3"
    using busy.R_trans [of c s1 s2 s3] unfolding stuck_rel_def by (metis busy_rel_def)
next
  fix m :: "unit run"
  assume m: "keeps_rel (stuck_rel c) m"
  show "keeps_rel (stuck_rel c) (ignore_dependencies m)"
  proof
    fix s r s' assume "ignore_dependencies m s = Some (r, s')"
    then show "stuck_rel c s s'"
      by (elim ignore_cases) (drule keeps_relD [OF m], simp add: stuck_rel_def busy_rel_def kinds_iff ks_simps)
  qed
next
  fix s x v assume "computed_of s x = None"
  then show "stuck_rel c s (set_latest x v s)"
    by (auto simp: stuck_rel_def busy_rel_def kinds_iff ks_simps) (auto simp: being_evaluated_def)
qed (simp_all add: stuck_rel_def busy_rel_def kinds_iff ks_simps)

lemma stuck_busy: "stuck_rel c s s' \<Longrightarrow> busy_rel c s s'"
  by (simp add: stuck_rel_def)

lemma busy_upd: "(\<And>k. kc_isBeingEvaluated (f k) = kc_isBeingEvaluated k) \<Longrightarrow> busy_rel c s (upd_computed x f s)"
  by (simp add: busy_rel_def kinds_iff ks_simps being_evaluated_upd)

lemma stuck_upd: "(\<And>k. kc_isBeingEvaluated (f k) = kc_isBeingEvaluated k) \<Longrightarrow> stuck_rel c s (upd_computed x f s)"
  by (simp add: stuck_rel_def busy_upd ks_simps)

lemma dispose_unused_stuck: "keeps_rel (stuck_rel c) (dispose_unused x n)"
proof (induction n)
  case 0
  show ?case by (simp add: stuck.keeps_rel_ret)
next
  case (Suc n)
  have "keeps_rel (stuck_rel c) (modify (\<lambda>s. dispose_subscription d
      (upd_computed x (\<lambda>k. k\<lparr>kc_deps := remove_at n (kc_deps k)\<rparr>) s)))" for d
    by (rule stuck.keeps_rel_modify)
      (simp add: stuck_rel_def busy_rel_def kinds_iff ks_simps being_evaluated_upd)
  then show ?case
    unfolding dispose_unused.simps
    by (auto intro!: stuck.keeps_rel_bind stuck.keeps_rel_gets stuck.keeps_rel_throw Suc.IH split: prod.split option.split)
qed

lemma read_and_prune_stuck:
  "(\<And>t. keeps_rel (stuck_rel c) (call t)) \<Longrightarrow> keeps_rel (stuck_rel c) (read_and_prune call x k)"
  unfolding read_and_prune_def
  by (intro stuck.keeps_rel_bind stuck.keeps_rel_gets stuck.keeps_rel_ret stuck.keeps_rel_modify
      dispose_unused_stuck stuck_upd) auto

lemma publish_busy:
  "(\<And>t. keeps_rel (stuck_rel c) (call t)) \<Longrightarrow> keeps_rel (busy_rel c) (publish call x v)"
  unfolding publish_def
  by (intro busy.keeps_rel_bind busy.mutate_R busy.keeps_rel_modify)
    (auto simp: keeps_rel_def stuck_rel_def, auto simp: busy_rel_def kinds_iff ks_simps)

lemma publish_stuck:
  "x \<noteq> c \<Longrightarrow> (\<And>t. keeps_rel (stuck_rel c) (call t)) \<Longrightarrow> keeps_rel (stuck_rel c) (publish call x v)"
  unfolding publish_def
  by (intro stuck.keeps_rel_bind stuck.mutate_R stuck.keeps_rel_modify)
    (auto simp: stuck_rel_def busy_rel_def kinds_iff ks_simps)

lemma begin_stuck: "stuck_rel c s (begin_frame x (init_candidates x s))"
  by (simp add: stuck_rel_def busy_rel_def kinds_iff ks_simps)

lemma evaluate_body_busy:
  assumes call: "\<And>t. keeps_rel (stuck_rel c) (call t)"
  shows "keeps_rel (busy_rel c) (evaluate_body call x k)"
    and "x \<noteq> c \<Longrightarrow> keeps_rel (stuck_rel c) (evaluate_body call x k)"
  unfolding evaluate_body_def
  using read_and_prune_stuck [OF call] stuck_busy
  by (intro busy.keeps_rel_bind busy.keeps_rel_modify publish_busy [OF call]; auto simp: keeps_rel_def begin_stuck)
    (intro stuck.keeps_rel_bind stuck.keeps_rel_modify publish_stuck call read_and_prune_stuck begin_stuck)

lemma set_evaluating_being [ks_simps]:
  "being_evaluated (set_evaluating b x s) c = (if x = c \<and> computed_of s c \<noteq> None then b else being_evaluated s c)"
  by (auto simp: being_evaluated_def ks_simps split: option.split)

lemma not_being_stuck: "\<not> being_evaluated s c \<Longrightarrow> same_kinds s s' \<Longrightarrow> stuck_rel c s s'"
  by (simp add: stuck_rel_def busy_rel_def)

interpretation stuck_run: ko_run_laws "stuck_rel c" for c
proof
  fix call :: "task \<Rightarrow> kval run" and c x
  assume call: "\<And>t. keeps_rel (stuck_rel c) (call t)"
  show "keeps_rel (stuck_rel c) (evaluateImmediate call x)"
  proof
    fix s r s' assume run: "evaluateImmediate call x s = Some (r, s')"
    show "stuck_rel c s s'"
    proof (rule stuck.evaluateImmediate_rel [OF call run])
      fix k s1 assume k: "computed_of s x = Some k" "\<not> kc_isBeingEvaluated k" and s1: "stuck_rel c s s1"
      have kinds: "same_kinds s s1" using s1 by (simp add: stuck_rel_def busy_rel_def)
      have idle: "x = c \<Longrightarrow> \<not> being_evaluated s c" using k by (simp add: being_evaluated_def)
      show "stuck_rel c s (disposeAllSubscriptionsToDependencies x s1)"
        by (rule stuck.R_trans [OF s1]) (simp add: stuck_rel_def busy_rel_def kinds_iff ks_simps)
      show "stuck_rel c s (set_evaluating False x s1)"
        using s1 idle by (auto simp: stuck_rel_def busy_rel_def kinds_iff ks_simps)
      show "stuck_rel c s (pop_frame s3)"
        if b: "evaluate_body call x k (set_evaluating True x s1) = Some (rb, s3)" for rb s3
      proof (cases "x = c")
        case True
        have "busy_rel c (set_evaluating True x s1) s3"
          using keeps_relD [OF evaluate_body_busy(1) b] call by blast
        then show ?thesis using True idle kinds
          by (intro not_being_stuck) (auto simp: busy_rel_def kinds_iff ks_simps)
      next
        case False
        have "stuck_rel c (set_evaluating True x s1) s3"
          using keeps_relD [OF evaluate_body_busy(2) b] False call by blast
        then show ?thesis using False s1 stuck.R_trans [OF s1, of "pop_frame s3"]
          by (auto simp: stuck_rel_def busy_rel_def kinds_iff ks_simps)
      qed
    qed
  qed
qed

text \<open>A first evaluation that throws leaves \<open>_isBeingEvaluated\<close> set.\<close>

lemma evaluate_now_throws:
  assumes call: "\<And>t. keeps_rel (stuck_rel c) (call t)" and "computed_of s c \<noteq> None"
    and "evaluate_now call c k s = Some (Inl e, s')"
  shows "being_evaluated s' c"
proof -
  have s0: "being_evaluated (set_evaluating True c s) c" using assms(2) by (simp add: ks_simps)
  have "bind (try_finally (evaluate_body call c k) pop_frame) (\<lambda>_. finish_evaluation call c)
      (set_evaluating True c s) = Some (Inl e, s')"
    using assms(3) by (simp add: evaluate_now_def bind_modify)
  then show ?thesis
  proof (cases rule: bind_cases)
    case (fails e')
    then obtain s3 where "evaluate_body call c k (set_evaluating True c s) = Some (Inl e', s3)" "s' = pop_frame s3"
      by (auto elim: try_finally_cases)
    then show ?thesis
      using keeps_relD [OF evaluate_body_busy(1) [OF call]] s0 by (fastforce simp: busy_rel_def ks_simps)
  next
    case (works u s4)
    then obtain s3 where s3: "evaluate_body call c k (set_evaluating True c s) = Some (Inr u, s3)" "s4 = pop_frame s3"
      by (auto elim: try_finally_cases)
    have s4: "being_evaluated s4 c"
      using keeps_relD [OF evaluate_body_busy(1) [OF call] s3(1)] s0 s3(2) by (simp add: busy_rel_def ks_simps)
    have mut: "keeps_rel (stuck_rel c) (valueHasMutated call c)" by (rule stuck.mutate_R(2) [OF call])
    show ?thesis
      using works(2) unfolding finish_evaluation_def
    proof (cases rule: bind_cases)
      case (fails e')
      then show ?thesis using keeps_relD [OF mut] s4 by (fastforce simp: stuck_rel_def busy_rel_def)
    qed (simp add: js_simps)
  qed
qed

text \<open>C9: after an exception in the first evaluation of a computed, no later run of the machine
  evaluates it again or changes its value.\<close>

theorem throwing_computed_is_stuck:
  assumes "computed_of s c = Some k" "\<not> kc_isBeingEvaluated k" "\<not> kc_hasBeenEvaluated k"
    and "exec n (Evaluate c) s = Some (Inl e, s1)" and "exec m t s1 = Some (r, s2)"
  shows "being_evaluated s2 c \<and> latestValue s2 c = latestValue s1 c"
proof -
  obtain n' where n: "n = Suc n'" using assms(4) by (cases n) auto
  have "evaluateImmediate (exec n') c s = Some (Inl e, s1)"
    using assms(4) n by (auto simp: js_simps elim!: bind_cases)
  then have "evaluate_now (exec n') c k s = Some (Inl e, s1)"
    using assms(1-3) by (simp add: evaluateImmediate_def bind_gets bind_ret)
  then have "being_evaluated s1 c"
    using evaluate_now_throws [where call = "exec n'", OF stuck_run.exec_R] assms(1) by blast
  then show ?thesis
    using stuck_run.exec_R_D [OF assms(5), of c] by (simp add: stuck_rel_def busy_rel_def)
qed

definition ko_empty :: kstate where
  "ko_empty = \<lparr>ks_objs = (\<lambda>_. fresh_obj KUndef None), ks_nextObj = 0, ks_subs = (\<lambda>_. \<lparr>sub_target = 0, sub_event = '''',
     sub_callback = Reevaluate 0, sub_isDisposed = True\<rparr>), ks_nextSub = 0, ks_frames = [], ks_timers = []\<rparr>"

text \<open>An observable 0, and a computed 1 that throws while observable 0 is 0.\<close>

definition failing_program :: prog where
  "failing_program = ReadObs 0 (\<lambda>v. if v = KNum 0 then Fail ''no value'' else Return v)"

definition failing_state :: kstate where
  "failing_state = add_obj (fresh_obj KUndef (Some (fresh_computed failing_program None (Return (KBool False)))))
     (snd (observable (KNum 0) ko_empty))"

theorem throwing_computed_is_stuck_witness:
  "\<exists>s1 s2. exec 9 (Evaluate 1) failing_state = Some (Inl (Thrown ''no value''), s1) \<and>
     exec 9 (Run (WriteObs 0 (KNum 7) (ReadObs 1 Return))) s1 = Some (Inr KUndef, s2) \<and> being_evaluated s2 1"
proof -
  let ?next = "\<lambda>s1. map_option fst (exec 9 (Run (WriteObs 0 (KNum 7) (ReadObs 1 Return))) s1)"
  have run: "map_option (\<lambda>(r, s1). (r, ?next s1)) (exec 9 (Evaluate 1) failing_state) =
      Some (Inl (Thrown ''no value''), Some (Inr KUndef))"
    by code_simp
  then obtain s1 where s1: "exec 9 (Evaluate 1) failing_state = Some (Inl (Thrown ''no value''), s1)"
    "?next s1 = Some (Inr KUndef)"
    by (auto simp del: exec.simps split: prod.splits)
  then obtain s2 where s2: "exec 9 (Run (WriteObs 0 (KNum 7) (ReadObs 1 Return))) s1 = Some (Inr KUndef, s2)" by auto
  have k: "computed_of failing_state 1 = Some (fresh_computed failing_program None (Return (KBool False)))"
    by (simp add: failing_state_def add_obj_def observable_def ko_empty_def computed_of_def fresh_obj_def)
  have "being_evaluated s2 1"
    using throwing_computed_is_stuck [OF k _ _ s1(1) s2] by (simp add: fresh_computed_def)
  then show ?thesis using s1 s2 by blast
qed

subsection \<open>Subscriptions and dependencies agree\<close>

definition live :: "kstate \<Rightarrow> nat \<Rightarrow> bool" where
  "live s sub \<longleftrightarrow> sub < ks_nextSub s \<and> \<not> sub_isDisposed (ks_subs s sub)"

definition frame_computeds :: "kstate \<Rightarrow> nat list" where
  "frame_computeds s = List.map_filter (map_option fr_computed) (ks_frames s)"

text \<open>The lists of subscribers and of dependencies hold exactly the subscriptions that are not
  disposed, once each; those of a computed are on the change event.\<close>

definition links_ok :: "kstate \<Rightarrow> bool" where
  "links_ok s \<longleftrightarrow>
     (\<forall>x e. distinct (subs_on s x e)) \<and>
     (\<forall>x e sub. sub \<in> set (subs_on s x e) \<longleftrightarrow>
        live s sub \<and> sub_target (ks_subs s sub) = x \<and> sub_event (ks_subs s sub) = e) \<and>
     (\<forall>c. distinct (deps_of s c)) \<and>
     (\<forall>c sub. sub \<in> set (deps_of s c) \<longleftrightarrow> live s sub \<and> sub_callback (ks_subs s sub) = Reevaluate c) \<and>
     (\<forall>c sub. live s sub \<longrightarrow> sub_callback (ks_subs s sub) = Reevaluate c \<longrightarrow>
        sub_event (ks_subs s sub) = default_event) \<and>
     (\<forall>sub. live s sub \<longrightarrow> sub_target (ks_subs s sub) < ks_nextObj s) \<and>
     (\<forall>x \<ge> ks_nextObj s. computed_of s x = None) \<and>
     (\<forall>c \<in> set (frame_computeds s). computed_of s c \<noteq> None)"

definition targets :: "kstate \<Rightarrow> nat \<Rightarrow> nat list" where
  "targets s c = map (\<lambda>sub. sub_target (ks_subs s sub)) (deps_of s c)"

definition candidates_of :: "kstate \<Rightarrow> nat \<Rightarrow> nat option list" where
  "candidates_of s c = (case computed_of s c of None \<Rightarrow> [] | Some k \<Rightarrow> kc_candidates k)"

text \<open>A candidate still in the list is a dependency that has not been read; all the others have.\<close>

definition aligned_frame :: "nat list \<Rightarrow> nat option list \<Rightarrow> nat list \<Rightarrow> bool" where
  "aligned_frame ts cands reads \<longleftrightarrow>
     length cands \<le> length ts \<and>
     (\<forall>i < length ts. if i < length cands \<and> cands ! i \<noteq> None
        then cands ! i = Some (ts ! i) \<and> ts ! i \<notin> set reads else ts ! i \<in> set reads) \<and>
     set reads \<subseteq> set ts"

definition aligned :: "kstate \<Rightarrow> bool" where
  "aligned s \<longleftrightarrow>
     (\<forall>c. distinct (targets s c)) \<and> distinct (frame_computeds s) \<and>
     (\<forall>f. Some f \<in> set (ks_frames s) \<longrightarrow> being_evaluated s (fr_computed f) \<and>
        aligned_frame (targets s (fr_computed f)) (candidates_of s (fr_computed f)) (fr_distinct f))"

definition ko_ok :: "kstate \<Rightarrow> bool" where
  "ko_ok s \<longleftrightarrow> links_ok s \<and> aligned s"

definition ok_rel :: "kstate \<Rightarrow> kstate \<Rightarrow> bool" where
  "ok_rel s s' \<longleftrightarrow> frames_rel s s' \<and> (ko_ok s \<longrightarrow> ko_ok s')"

text \<open>What the two predicates read of a state.\<close>

lemma deps_of_cong: "computed_of s' c = computed_of s c \<Longrightarrow> deps_of s' c = deps_of s c"
  by (simp add: deps_of_def)

lemma ko_ok_cong:
  assumes "ks_subs s' = ks_subs s" "ks_nextSub s' = ks_nextSub s" "ks_nextObj s' = ks_nextObj s"
    "ks_frames s' = ks_frames s" "\<And>x e. subs_on s' x e = subs_on s x e" "\<And>c. computed_of s' c = computed_of s c"
  shows "ko_ok s' \<longleftrightarrow> ko_ok s"
proof -
  have "deps_of s' = deps_of s" "live s' = live s" "frame_computeds s' = frame_computeds s"
    "candidates_of s' = candidates_of s" "being_evaluated s' = being_evaluated s"
    by (auto simp: fun_eq_iff deps_of_def assms live_def frame_computeds_def candidates_of_def being_evaluated_def)
  moreover from this have "targets s' = targets s" by (simp add: fun_eq_iff targets_def assms)
  ultimately show ?thesis by (simp add: ko_ok_def links_ok_def aligned_def assms)
qed

lemma ok_rel_same:
  "frames_rel s s' \<Longrightarrow> (ko_ok s \<Longrightarrow> ko_ok s') \<Longrightarrow> ok_rel s s'"
  by (simp add: ok_rel_def)

lemma live_subscribe:
  "live (snd (subscribe x e cb s)) sub \<longleftrightarrow> sub = ks_nextSub s \<or> live s sub"
  by (auto simp: live_def ks_simps)

lemma live_dispose: "live (dispose_subscription sub s) sub' \<longleftrightarrow> live s sub' \<and> sub' \<noteq> sub"
  by (auto simp: live_def ks_simps)

lemma live_lt: "live s sub \<Longrightarrow> sub < ks_nextSub s"
  by (simp add: live_def)

lemma deps_lt: "links_ok s \<Longrightarrow> sub \<in> set (deps_of s c) \<Longrightarrow> sub < ks_nextSub s \<and> \<not> sub_isDisposed (ks_subs s sub)"
  by (auto simp: links_ok_def live_def)

lemma subscribe_app_links:
  assumes "links_ok s" "x < ks_nextObj s"
  shows "links_ok (snd (subscribe x e (Callback f) s))"
proof -
  let ?s = "snd (subscribe x e (Callback f) s)" and ?n = "ks_nextSub s"
  have d: "deps_of ?s c = deps_of s c" for c by (rule deps_of_cong) (simp add: ks_simps)
  have fresh: "\<not> live s ?n" by (simp add: live_def)
  have fr: "frame_computeds ?s = frame_computeds s" by (simp add: frame_computeds_def ks_simps)
  show ?thesis
    using assms fresh unfolding links_ok_def d fr
    by (auto simp: ks_simps live_subscribe)
qed

lemma dispose_app_links:
  assumes "links_ok s" "sub_callback (ks_subs s sub) = Callback f"
  shows "links_ok (dispose_subscription sub s)"
proof -
  let ?s = "dispose_subscription sub s"
  have d: "deps_of ?s c = deps_of s c" for c by (rule deps_of_cong) (simp add: ks_simps)
  have fr: "frame_computeds ?s = frame_computeds s" by (simp add: frame_computeds_def ks_simps)
  show ?thesis
    using assms unfolding links_ok_def d fr
    by (auto simp: ks_simps live_dispose set_remove1_eq split: if_splits)
qed

lemma targets_cong:
  assumes "links_ok s" "deps_of s' c = deps_of s c"
    "\<And>sub. sub < ks_nextSub s \<Longrightarrow> sub_target (ks_subs s' sub) = sub_target (ks_subs s sub)"
  shows "targets s' c = targets s c"
  using assms by (auto simp: targets_def dest!: deps_lt [OF assms(1)])

lemma aligned_cong:
  assumes "aligned s" "\<And>c. targets s' c = targets s c" "ks_frames s' = ks_frames s"
    "\<And>c. computed_of s' c = computed_of s c"
  shows "aligned s'"
proof -
  have "candidates_of s' = candidates_of s" "being_evaluated s' = being_evaluated s" "frame_computeds s' = frame_computeds s"
    by (auto simp: fun_eq_iff assms frame_computeds_def candidates_of_def being_evaluated_def)
  then show ?thesis using assms by (simp add: aligned_def)
qed

lemma subscribe_app_ok:
  assumes "ko_ok s" "x < ks_nextObj s"
  shows "ko_ok (snd (subscribe x e (Callback f) s))"
  using assms subscribe_app_links
  by (auto simp: ko_ok_def ks_simps intro!: aligned_cong [of s] targets_cong deps_of_cong)

lemma dispose_app_ok: "ko_ok s \<Longrightarrow> ko_ok (dispose_app sub s)"
  by (auto simp: ko_ok_def dispose_app_def dispose_app_links ks_simps split: sub_callback.split
      intro!: aligned_cong [of s] targets_cong deps_of_cong)

lemma addSubscription_sel:
  "ks_frames (addSubscriptionToDependency c x s) = ks_frames s"
  "ks_nextObj (addSubscriptionToDependency c x s) = ks_nextObj s"
  "ks_nextSub (addSubscriptionToDependency c x s) = Suc (ks_nextSub s)"
  "ks_subs (addSubscriptionToDependency c x s) = (ks_subs s)(ks_nextSub s :=
     \<lparr>sub_target = x, sub_event = default_event, sub_callback = Reevaluate c, sub_isDisposed = False\<rparr>)"
  "subs_on (addSubscriptionToDependency c x s) y e =
     (if y = x \<and> e = default_event then subs_on s x e @ [ks_nextSub s] else subs_on s y e)"
  "computed_of (addSubscriptionToDependency c x s) y =
     (if y = c then map_option (\<lambda>k. k\<lparr>kc_deps := kc_deps k @ [ks_nextSub s]\<rparr>) (computed_of s c) else computed_of s y)"
proof -
  obtain sub s' where p: "subscribe x default_event (Reevaluate c) s = (sub, s')" by fastforce
  then have *: "sub = ks_nextSub s" "s' = snd (subscribe x default_event (Reevaluate c) s)"
    using subscribe_sel(2) [of x default_event "Reevaluate c" s] by simp_all
  have def': "addSubscriptionToDependency c x s =
      upd_computed c (\<lambda>k. k\<lparr>kc_deps := kc_deps k @ [ks_nextSub s]\<rparr>) (snd (subscribe x default_event (Reevaluate c) s))"
    unfolding addSubscriptionToDependency_def p prod.case by (simp add: *(1))
  show
    "ks_frames (addSubscriptionToDependency c x s) = ks_frames s"
    "ks_nextObj (addSubscriptionToDependency c x s) = ks_nextObj s"
    "ks_nextSub (addSubscriptionToDependency c x s) = Suc (ks_nextSub s)"
    "ks_subs (addSubscriptionToDependency c x s) = (ks_subs s)(ks_nextSub s :=
       \<lparr>sub_target = x, sub_event = default_event, sub_callback = Reevaluate c, sub_isDisposed = False\<rparr>)"
    "subs_on (addSubscriptionToDependency c x s) y e =
       (if y = x \<and> e = default_event then subs_on s x e @ [ks_nextSub s] else subs_on s y e)"
    "computed_of (addSubscriptionToDependency c x s) y =
       (if y = c then map_option (\<lambda>k. k\<lparr>kc_deps := kc_deps k @ [ks_nextSub s]\<rparr>) (computed_of s c) else computed_of s y)"
    by (simp_all add: def' ks_simps)
qed

lemma deps_of_dependency:
  "computed_of s c \<noteq> None \<Longrightarrow> deps_of (addSubscriptionToDependency c x s) c' =
     (if c' = c then deps_of s c @ [ks_nextSub s] else deps_of s c')"
  by (auto simp: deps_of_def addSubscription_sel)

lemma addSubscription_links:
  assumes "links_ok s" "x < ks_nextObj s" "computed_of s c \<noteq> None"
  shows "links_ok (addSubscriptionToDependency c x s)"
proof -
  let ?s = "addSubscriptionToDependency c x s"
  have fresh: "\<not> live s (ks_nextSub s)" by (simp add: live_def)
  have live': "live ?s sub \<longleftrightarrow> sub = ks_nextSub s \<or> live s sub" for sub
    by (auto simp: live_def addSubscription_sel)
  have fr: "frame_computeds ?s = frame_computeds s" by (simp add: frame_computeds_def addSubscription_sel)
  show ?thesis
    using assms fresh unfolding links_ok_def fr
    by (auto simp: addSubscription_sel(1-5) live' deps_of_dependency)
      (auto simp: addSubscription_sel(6))
qed

lemma deps_of_candidates: "deps_of (upd_computed c (\<lambda>k. k\<lparr>kc_candidates := v\<rparr>) s) c' = deps_of s c'"
  by (auto simp: deps_of_def ks_simps split: option.split)

lemma candidates_links: "links_ok (upd_computed c (\<lambda>k. k\<lparr>kc_candidates := v\<rparr>) s) \<longleftrightarrow> links_ok s"
proof -
  have "computed_of (upd_computed c (\<lambda>k. k\<lparr>kc_candidates := v\<rparr>) s) y = None \<longleftrightarrow> computed_of s y = None" for y
    by (simp add: ks_simps)
  then show ?thesis
    unfolding links_ok_def deps_of_candidates by (simp add: ks_simps live_def frame_computeds_def)
qed

lemma frame_in: "Some f \<in> set (ks_frames s) \<Longrightarrow> fr_computed f \<in> set (frame_computeds s)"
  by (force simp: frame_computeds_def List.map_filter_def)

lemma dependency_read_links:
  assumes "links_ok s" "x < ks_nextObj s" "computed_of s c \<noteq> None"
  shows "links_ok (dependency_read c x s)"
  using assms addSubscription_links by (simp add: dependency_read_def Let_def candidates_links)

text \<open>The effect of a read on the lists of its frame's computed.\<close>

lemma dependency_read_lists:
  assumes links: "links_ok s" and k: "computed_of s c \<noteq> None"
  shows "c' \<noteq> c \<Longrightarrow> targets (dependency_read c x s) c' = targets s c'"
    and "c' \<noteq> c \<Longrightarrow> candidates_of (dependency_read c x s) c' = candidates_of s c'"
    and "Some x \<in> set (candidates_of s c) \<Longrightarrow> targets (dependency_read c x s) c = targets s c \<and>
      (\<exists>i < length (candidates_of s c). candidates_of s c ! i = Some x \<and>
         candidates_of (dependency_read c x s) c = (candidates_of s c)[i := None])"
    and "Some x \<notin> set (candidates_of s c) \<Longrightarrow> targets (dependency_read c x s) c = targets s c @ [x] \<and>
      candidates_of (dependency_read c x s) c = candidates_of s c"
proof -
  have add: "targets (addSubscriptionToDependency c x s) c' = (if c' = c then targets s c @ [x] else targets s c')" for c'
  proof -
    have "map (\<lambda>sub. sub_target (ks_subs (addSubscriptionToDependency c x s) sub)) (deps_of s c') = targets s c'"
      unfolding targets_def by (rule map_cong) (auto simp: addSubscription_sel dest!: deps_lt [OF links])
    then show ?thesis using k by (simp add: targets_def deps_of_dependency) (simp add: addSubscription_sel)
  qed
  have cands: "candidates_of (addSubscriptionToDependency c x s) c' = candidates_of s c'" for c'
    by (auto simp: candidates_of_def addSubscription_sel split: option.split)
  have mark: "targets (upd_computed c (\<lambda>k. k\<lparr>kc_candidates := v\<rparr>) s) c' = targets s c'" for v c'
    by (simp add: targets_def deps_of_candidates ks_simps)
  have candu: "candidates_of (upd_computed c (\<lambda>k. k\<lparr>kc_candidates := v\<rparr>) s) c' = (if c' = c then v else candidates_of s c')" for v c'
    using k by (auto simp: candidates_of_def ks_simps)
  note defs = dependency_read_def Let_def candidates_of_def [symmetric]
  show "c' \<noteq> c \<Longrightarrow> targets (dependency_read c x s) c' = targets s c'"
    "c' \<noteq> c \<Longrightarrow> candidates_of (dependency_read c x s) c' = candidates_of s c'"
    by (simp_all add: defs add mark candu cands)
  show "Some x \<notin> set (candidates_of s c) \<Longrightarrow> targets (dependency_read c x s) c = targets s c @ [x] \<and>
      candidates_of (dependency_read c x s) c = candidates_of s c"
    by (simp add: defs add cands)
  show "Some x \<in> set (candidates_of s c) \<Longrightarrow> targets (dependency_read c x s) c = targets s c \<and>
      (\<exists>i < length (candidates_of s c). candidates_of s c ! i = Some x \<and>
         candidates_of (dependency_read c x s) c = (candidates_of s c)[i := None])"
  proof -
    assume x: "Some x \<in> set (candidates_of s c)"
    let ?i = "nat (arrayIndexOf (candidates_of s c) (Some x))"
    have "arrayIndexOf (candidates_of s c) (Some x) = int ?i" using x by simp
    from iffD1 [OF arrayIndexOf_nth this]
    have "?i < length (candidates_of s c)" "candidates_of s c ! ?i = Some x" by simp_all
    moreover have "dependency_read c x s = upd_computed c (\<lambda>k. k\<lparr>kc_candidates := (candidates_of s c)[?i := None]\<rparr>) s"
      using x by (simp add: defs)
    ultimately show ?thesis using mark candu by metis
  qed
qed

lemma aligned_frame_at:
  "aligned_frame ts cands reads \<Longrightarrow> i < length ts \<Longrightarrow>
     if i < length cands \<and> cands ! i \<noteq> None
     then cands ! i = Some (ts ! i) \<and> ts ! i \<notin> set reads else ts ! i \<in> set reads"
  by (simp add: aligned_frame_def)

lemma aligned_frame_mark:
  assumes "aligned_frame ts cands reads" "i < length cands" "cands ! i = Some x" "distinct ts"
  shows "aligned_frame ts (cands[i := None]) (reads @ [x])"
proof -
  have "i < length ts" using assms(1,2) by (simp add: aligned_frame_def)
  then have i: "i < length ts" "ts ! i = x" using aligned_frame_at [OF assms(1), of i] assms(2,3) by simp_all
  have ne: "ts ! j \<noteq> x" if "j < length ts" "j \<noteq> i" for j
    using that i assms(4) nth_eq_iff_index_eq by metis
  show ?thesis
    unfolding aligned_frame_def
  proof (intro conjI allI impI)
    fix j assume j: "j < length ts"
    have old: "if j < length cands \<and> cands ! j \<noteq> None
        then cands ! j = Some (ts ! j) \<and> ts ! j \<notin> set reads else ts ! j \<in> set reads"
      using aligned_frame_at [OF assms(1) j] .
    show "if j < length (cands[i := None]) \<and> cands[i := None] ! j \<noteq> None
        then cands[i := None] ! j = Some (ts ! j) \<and> ts ! j \<notin> set (reads @ [x]) else ts ! j \<in> set (reads @ [x])"
      using old ne [OF j] i by (cases "j = i") auto
  qed (use assms(1) i in \<open>auto simp: aligned_frame_def\<close>)
qed

lemma aligned_frame_add:
  assumes "aligned_frame ts cands reads" "Some x \<notin> set cands" "x \<notin> set reads"
  shows "aligned_frame (ts @ [x]) cands (reads @ [x])" and "x \<notin> set ts"
proof -
  show x: "x \<notin> set ts"
  proof
    assume "x \<in> set ts"
    then obtain i where i: "i < length ts" "ts ! i = x" by (auto simp: in_set_conv_nth)
    then show False using assms unfolding aligned_frame_def by (metis nth_mem)
  qed
  show "aligned_frame (ts @ [x]) cands (reads @ [x])"
    unfolding aligned_frame_def
  proof (intro conjI allI impI)
    fix i assume i: "i < length (ts @ [x])"
    show "if i < length cands \<and> cands ! i \<noteq> None
        then cands ! i = Some ((ts @ [x]) ! i) \<and> (ts @ [x]) ! i \<notin> set (reads @ [x]) else (ts @ [x]) ! i \<in> set (reads @ [x])"
    proof (cases "i < length ts")
      case True
      moreover have "ts ! i \<noteq> x" using True x nth_mem by blast
      ultimately show ?thesis using aligned_frame_at [OF assms(1) True] by (simp add: nth_append)
    next
      case False
      then have "i = length ts" using i by simp
      then show ?thesis using assms(1) by (simp add: aligned_frame_def)
    qed
  qed (use assms(1) in \<open>auto simp: aligned_frame_def\<close>)
qed

lemma registerDependency_ok:
  assumes ok: "ko_ok s" and x: "x < ks_nextObj s"
  shows "ko_ok (registerDependency x s)"
proof (cases "ks_frames s")
  case (Cons fo rest)
  show ?thesis
  proof (cases fo)
    case (Some f)
    let ?c = "fr_computed f" and ?f = "f\<lparr>fr_distinct := fr_distinct f @ [x]\<rparr>"
    let ?s = "s\<lparr>ks_frames := Some ?f # rest\<rparr>"
    show ?thesis
    proof (cases "x \<in> set (fr_distinct f)")
      case True
      then show ?thesis using ok Cons Some by (simp add: registerDependency_def)
    next
      case False
      have reg: "registerDependency x s = dependency_read ?c x ?s"
        using False Cons Some by (simp add: registerDependency_def)
      have c: "computed_of s ?c \<noteq> None" "links_ok s" "aligned s"
        using ok Cons Some by (auto simp: ko_ok_def links_ok_def frame_computeds_def)
      have fc: "frame_computeds ?s = frame_computeds s"
        using Cons Some by (simp add: frame_computeds_def)
      have links: "links_ok ?s"
        using c(2) by (simp add: links_ok_def fc ks_simps live_def deps_of_def)
      have k: "computed_of ?s ?c \<noteq> None" using c(1) by (simp add: ks_simps)
      have same: "targets ?s = targets s" "candidates_of ?s = candidates_of s"
        by (simp_all add: fun_eq_iff targets_def deps_of_def candidates_of_def ks_simps)
      note lists = dependency_read_lists [OF links k, where x = x, unfolded same]
      have fr: "aligned_frame (targets s ?c) (candidates_of s ?c) (fr_distinct f)"
        using c(3) Cons Some by (simp add: aligned_def)
      have dist: "distinct (targets s ?c)" using c(3) by (simp add: aligned_def)
      let ?s' = "dependency_read ?c x ?s"
      have new: "aligned_frame (targets ?s' ?c) (candidates_of ?s' ?c) (fr_distinct f @ [x]) \<and> distinct (targets ?s' ?c)"
      proof (cases "Some x \<in> set (candidates_of s ?c)")
        case True
        then show ?thesis using lists(3) aligned_frame_mark [OF fr _ _ dist] dist by metis
      next
        case no: False
        then show ?thesis using lists(4) aligned_frame_add [OF fr no False] dist by simp
      qed
      have other: "fr_computed g \<noteq> ?c" if "Some g \<in> set rest" for g
        using c(3) Cons Some that by (force simp: aligned_def frame_computeds_def List.map_filter_def)
      have "aligned ?s'"
        unfolding aligned_def
      proof (intro conjI allI impI)
        show "distinct (targets ?s' c')" for c'
          using new lists(1) c(3) by (cases "c' = ?c") (auto simp: aligned_def)
        show "distinct (frame_computeds ?s')"
          using c(3) fc by (simp add: aligned_def frame_computeds_def ks_simps)
      next
        fix g assume "Some g \<in> set (ks_frames ?s')"
        then have g: "g = ?f \<or> Some g \<in> set rest" by (auto simp: ks_simps)
        then show "being_evaluated ?s' (fr_computed g)"
          using c(3) Cons Some by (auto simp: aligned_def ks_simps)
        show "aligned_frame (targets ?s' (fr_computed g)) (candidates_of ?s' (fr_computed g)) (fr_distinct g)"
          using g
        proof
          assume "g = ?f"
          then show ?thesis using new by simp
        next
          assume "Some g \<in> set rest"
          then show ?thesis using other lists(1,2) c(3) Cons by (simp add: aligned_def)
        qed
      qed
      then show ?thesis using dependency_read_links [OF links _ k] x reg by (simp add: ko_ok_def)
    qed
  qed (use ok Cons in \<open>simp add: registerDependency_def\<close>)
qed (use ok in \<open>simp add: registerDependency_def\<close>)

lemma frame_computeds_same: "frames_rel s s' \<Longrightarrow> frame_computeds s' = frame_computeds s"
  by (cases "ks_frames s"; cases "ks_frames s'")
    (auto simp: frames_rel_def frame_computeds_def List.map_filter_simps)

lemma ko_ok_frames_Cons:
  assumes "ko_ok s"
  shows "ko_ok (s\<lparr>ks_frames := None # ks_frames s\<rparr>)"
proof -
  have "deps_of (s\<lparr>ks_frames := None # ks_frames s\<rparr>) = deps_of s"
    "frame_computeds (s\<lparr>ks_frames := None # ks_frames s\<rparr>) = frame_computeds s"
    "candidates_of (s\<lparr>ks_frames := None # ks_frames s\<rparr>) = candidates_of s"
    by (simp_all add: fun_eq_iff deps_of_def candidates_of_def frame_computeds_def List.map_filter_def ks_simps)
  moreover from this have "targets (s\<lparr>ks_frames := None # ks_frames s\<rparr>) = targets s"
    by (simp add: fun_eq_iff targets_def)
  ultimately show ?thesis
    using assms by (simp add: ko_ok_def links_ok_def aligned_def ks_simps live_def)
qed

lemma ko_ok_pop:
  assumes "ko_ok s"
  shows "ko_ok (pop_frame s)"
proof -
  have "deps_of (pop_frame s) = deps_of s" "candidates_of (pop_frame s) = candidates_of s"
    by (simp_all add: fun_eq_iff deps_of_def candidates_of_def ks_simps)
  moreover from this have "targets (pop_frame s) = targets s"
    by (simp add: fun_eq_iff targets_def) (simp add: pop_frame_def)
  moreover have "set (frame_computeds (pop_frame s)) \<subseteq> set (frame_computeds s)"
    "distinct (frame_computeds s) \<Longrightarrow> distinct (frame_computeds (pop_frame s))"
    "set (ks_frames (pop_frame s)) \<subseteq> set (ks_frames s)"
    by (cases "ks_frames s"; auto simp: frame_computeds_def pop_frame_def List.map_filter_def split: if_splits option.splits)+
  moreover have "ks_subs (pop_frame s) = ks_subs s" "ks_nextSub (pop_frame s) = ks_nextSub s"
    "subs_on (pop_frame s) = subs_on s"
    by (simp_all add: pop_frame_def fun_eq_iff ks_simps)
  ultimately show ?thesis
    using assms unfolding ko_ok_def links_ok_def aligned_def
    by (simp add: ks_simps live_def subset_iff)
qed

interpretation ok: ko_laws ok_rel
proof
  fix s1 s2 s3
  show "ok_rel s1 s2 \<Longrightarrow> ok_rel s2 s3 \<Longrightarrow> ok_rel s1 s3"
    unfolding ok_rel_def using frames.R_trans by blast
next
  fix s :: kstate and x event f assume x: "x < ks_nextObj s"
  show "ok_rel s (snd (subscribe x event (Callback f) s))"
    using x subscribe_app_ok frames.R_subscribe [OF x] by (simp add: ok_rel_def)
  show "ok_rel s (registerDependency x s)"
    using x registerDependency_ok frames.R_register [OF x] by (simp add: ok_rel_def)
next
  fix s sub
  show "ok_rel s (dispose_app sub s)"
    using dispose_app_ok frames.R_dispose by (simp add: ok_rel_def)
next
  fix s x v assume "computed_of s x = None"
  then show "ok_rel s (set_latest x v s)"
    using frames.R_write ko_ok_cong [of "set_latest x v s" s] by (simp add: ok_rel_def ks_simps)
next
  fix s ts
  show "ok_rel s (s\<lparr>ks_timers := ts\<rparr>)"
    using frames.R_timers ko_ok_cong [of "s\<lparr>ks_timers := ts\<rparr>" s] by (simp add: ok_rel_def ks_simps)
next
  fix m :: "unit run"
  assume m: "keeps_rel ok_rel m"
  then have "keeps_rel frames_rel m" by (simp add: keeps_rel_def ok_rel_def)
  then have fr: "keeps_rel frames_rel (ignore_dependencies m)" by (rule ignore_frames)
  show "keeps_rel ok_rel (ignore_dependencies m)"
  proof
    fix s r s' assume run: "ignore_dependencies m s = Some (r, s')"
    then obtain s1 where s1: "m (s\<lparr>ks_frames := None # ks_frames s\<rparr>) = Some (r, s1)" "s' = pop_frame s1"
      by (rule ignore_cases)
    then have "ok_rel (s\<lparr>ks_frames := None # ks_frames s\<rparr>) s1" using keeps_relD [OF m] by blast
    then show "ok_rel s s'"
      using keeps_relD [OF fr run] ko_ok_frames_Cons ko_ok_pop s1(2) by (auto simp: ok_rel_def)
  qed
qed (simp_all add: ok_rel_def frames.R_refl same_kinds_refl, simp add: frames_rel_def)

subsection \<open>The disposal loop\<close>

text \<open>Taking a subscription out of the dependencies and disposing of it.\<close>

definition drop_dependency :: "nat \<Rightarrow> nat \<Rightarrow> kstate \<Rightarrow> kstate" where
  "drop_dependency c i s = dispose_subscription (deps_of s c ! i)
     (upd_computed c (\<lambda>k. k\<lparr>kc_deps := remove_at i (kc_deps k)\<rparr>) s)"

lemma drop_dependency_sel:
  "ks_frames (drop_dependency c i s) = ks_frames s"
  "ks_nextObj (drop_dependency c i s) = ks_nextObj s"
  "candidates_of (drop_dependency c i s) c' = candidates_of s c'"
  "being_evaluated (drop_dependency c i s) c' = being_evaluated s c'"
  "sub_target (ks_subs (drop_dependency c i s) sub) = sub_target (ks_subs s sub)"
  "computed_of s c \<noteq> None \<Longrightarrow> deps_of (drop_dependency c i s) c' =
     (if c' = c then remove_at i (deps_of s c) else deps_of s c')"
  "computed_of (drop_dependency c i s) c' = None \<longleftrightarrow> computed_of s c' = None"
  by (auto simp: drop_dependency_def candidates_of_def being_evaluated_def deps_of_def ks_simps split: option.split)

lemma drop_dependency_links:
  assumes links: "links_ok s" and k: "computed_of s c \<noteq> None" and i: "i < length (deps_of s c)"
  shows "links_ok (drop_dependency c i s)"
proof -
  let ?s = "drop_dependency c i s" and ?sub = "deps_of s c ! i"
  have sub: "live s ?sub" "sub_callback (ks_subs s ?sub) = Reevaluate c" "distinct (deps_of s c)"
    using links i nth_mem [OF i] unfolding links_ok_def by blast+
  have live': "live ?s x \<longleftrightarrow> live s x \<and> x \<noteq> ?sub" for x
    by (simp add: drop_dependency_def live_dispose) (simp add: live_def ks_simps)
  have cb: "sub_callback (ks_subs ?s x) = sub_callback (ks_subs s x)" "sub_event (ks_subs ?s x) = sub_event (ks_subs s x)" for x
    by (simp_all add: drop_dependency_def ks_simps)
  have subs: "subs_on ?s y e = (if y = sub_target (ks_subs s ?sub) \<and> e = sub_event (ks_subs s ?sub)
      then remove1 ?sub (subs_on s y e) else subs_on s y e)" for y e
    by (simp add: drop_dependency_def ks_simps)
  have rem: "set (remove_at i (deps_of s c)) = set (deps_of s c) - {?sub}" "distinct (remove_at i (deps_of s c))"
    using sub(3) i by (simp_all add: set_eq_iff remove_at_notin distinct_remove_at)
  have comp: "computed_of ?s y = None \<longleftrightarrow> computed_of s y = None" for y
    by (rule drop_dependency_sel)
  have fr: "frame_computeds ?s = frame_computeds s" by (simp add: frame_computeds_def drop_dependency_sel)
  show ?thesis
    using links unfolding links_ok_def drop_dependency_sel(2,5) drop_dependency_sel(6) [OF k] live' cb subs fr comp
    using sub by (auto simp: rem set_remove1_eq)
qed

definition kept_index :: "nat \<Rightarrow> nat option list \<Rightarrow> nat set" where
  "kept_index n cands = {i. i < n \<longrightarrow> cands ! i = None}"

lemma nths_cong: "(\<And>i. i < length xs \<Longrightarrow> i \<in> I \<longleftrightarrow> i \<in> J) \<Longrightarrow> nths xs I = nths xs J"
proof (induction xs arbitrary: I J)
  case (Cons x xs)
  have "nths xs {j. Suc j \<in> I} = nths xs {j. Suc j \<in> J}" by (rule Cons.IH) (use Cons.prems in auto)
  then show ?case using Cons.prems [of 0] by (simp add: nths_Cons)
qed simp

lemma nths_split:
  assumes "i < length d"
  shows "nths d I = nths (take i d) I @ (if i \<in> I then [d ! i] else []) @ nths (drop (Suc i) d) {j. j + Suc i \<in> I}"
  by (subst id_take_nth_drop [OF assms]) (use assms in \<open>simp add: nths_append nths_Cons add.commute min_def\<close>)

lemma nths_kept_drop:
  assumes i: "i < length d" and c: "cands ! i \<noteq> None"
  shows "nths (remove_at i d) (kept_index i cands) = nths d (kept_index (Suc i) cands)"
proof -
  have l: "nths (take i d) (kept_index i cands) = nths (take i d) (kept_index (Suc i) cands)"
    by (rule nths_cong) (simp add: kept_index_def)
  have r: "nths (drop (Suc i) d) {j. j + Suc i \<in> kept_index (Suc i) cands} = drop (Suc i) d"
    "nths (drop (Suc i) d) {j. j + i \<in> kept_index i cands} = drop (Suc i) d"
    by (rule nths_all; simp add: kept_index_def)+
  have "nths (remove_at i d) (kept_index i cands) = nths (take i d) (kept_index i cands) @ drop (Suc i) d"
    using i r(2) by (simp add: remove_at_def nths_append min_def)
  moreover have "i \<notin> kept_index (Suc i) cands" using c by (simp add: kept_index_def)
  ultimately show ?thesis using nths_split [OF i, of "kept_index (Suc i) cands"] l r(1) by simp
qed

lemma dispose_unused_result:
  assumes "links_ok s" "computed_of s c \<noteq> None" "n \<le> length (deps_of s c)" "n \<le> length (candidates_of s c)"
  shows "\<exists>s'. dispose_unused c n s = Some (Inr (), s') \<and> links_ok s' \<and> ks_frames s' = ks_frames s \<and>
    deps_of s' c = nths (deps_of s c) (kept_index n (candidates_of s c)) \<and>
    (\<forall>c'. c' \<noteq> c \<longrightarrow> deps_of s' c' = deps_of s c') \<and>
    (\<forall>c'. candidates_of s' c' = candidates_of s c' \<and> being_evaluated s' c' = being_evaluated s c') \<and>
    (\<forall>sub. sub_target (ks_subs s' sub) = sub_target (ks_subs s sub)) \<and> computed_of s' c \<noteq> None"
  using assms
proof (induction n arbitrary: s)
  case 0
  have "nths (deps_of s c) (kept_index 0 (candidates_of s c)) = deps_of s c"
    by (rule nths_all) (simp add: kept_index_def)
  then show ?case using 0 by (simp add: js_simps)
next
  case (Suc i)
  let ?d = "deps_of s c" and ?cs = "candidates_of s c"
  have i: "i < length ?d" "i < length ?cs" using Suc.prems by simp_all
  obtain k where k: "computed_of s c = Some k" using Suc.prems by auto
  have kc: "kc_candidates k = ?cs" using k by (simp add: candidates_of_def)
  show ?case
  proof (cases "?cs ! i = None")
    case True
    have "dispose_unused c (Suc i) s = dispose_unused c i s"
      using True k kc by (simp add: bind_gets)
    moreover have "nths ?d (kept_index i ?cs) = nths ?d (kept_index (Suc i) ?cs)"
      by (rule nths_cong) (use True in \<open>auto simp: kept_index_def less_Suc_eq\<close>)
    ultimately show ?thesis using Suc.IH [of s] Suc.prems by simp
  next
    case False
    let ?s = "drop_dependency c i s"
    have step: "dispose_unused c (Suc i) s = dispose_unused c i ?s"
      using False k kc i by (simp add: bind_gets bind_modify drop_dependency_def)
    have deps: "deps_of ?s c = remove_at i ?d" "\<And>c'. c' \<noteq> c \<Longrightarrow> deps_of ?s c' = deps_of s c'"
      using drop_dependency_sel(6) [OF Suc.prems(2)] by simp_all
    have "length (remove_at i ?d) = length ?d - 1" using i by (simp add: length_remove_at)
    then have "i \<le> length (deps_of ?s c)" using i by (simp add: deps)
    from Suc.IH [OF drop_dependency_links [OF Suc.prems(1,2) i(1)] _ this]
    obtain s' where "dispose_unused c i ?s = Some (Inr (), s')" "links_ok s'" "ks_frames s' = ks_frames ?s"
      "deps_of s' c = nths (deps_of ?s c) (kept_index i (candidates_of ?s c))"
      "\<forall>c'. c' \<noteq> c \<longrightarrow> deps_of s' c' = deps_of ?s c'"
      "\<forall>c'. candidates_of s' c' = candidates_of ?s c' \<and> being_evaluated s' c' = being_evaluated ?s c'"
      "\<forall>sub. sub_target (ks_subs s' sub) = sub_target (ks_subs ?s sub)" "computed_of s' c \<noteq> None"
      using Suc.prems(2) i(2) by (auto simp: drop_dependency_sel)
    then show ?thesis
      using step nths_kept_drop [OF i(1) False] deps by (auto simp: drop_dependency_sel(1,3-5))
  qed
qed

definition pruned :: "nat \<Rightarrow> kstate \<Rightarrow> kstate" where
  "pruned c = upd_computed c (\<lambda>k. k\<lparr>kc_hasBeenEvaluated := True, kc_candidates := []\<rparr>)"

lemma pruned_sel:
  "ks_frames (pruned c s) = ks_frames s" "ks_subs (pruned c s) = ks_subs s"
  "deps_of (pruned c s) c' = deps_of s c'" "being_evaluated (pruned c s) c' = being_evaluated s c'"
  "candidates_of (pruned c s) c' = (if c' = c then [] else candidates_of s c')"
  "targets (pruned c s) c' = targets s c'" "links_ok (pruned c s) \<longleftrightarrow> links_ok s"
proof -
  show d: "deps_of (pruned c s) c' = deps_of s c'" for c'
    by (auto simp: pruned_def deps_of_def ks_simps split: option.split)
  show "being_evaluated (pruned c s) c' = being_evaluated s c'"
    "candidates_of (pruned c s) c' = (if c' = c then [] else candidates_of s c')"
    by (auto simp: pruned_def being_evaluated_def candidates_of_def ks_simps split: option.split)
  show fs: "ks_frames (pruned c s) = ks_frames s" "ks_subs (pruned c s) = ks_subs s"
    by (simp_all add: pruned_def ks_simps)
  show "targets (pruned c s) c' = targets s c'" by (simp add: targets_def d fs)
  have "computed_of (pruned c s) y = None \<longleftrightarrow> computed_of s y = None" for y by (simp add: pruned_def ks_simps)
  moreover have "live (pruned c s) = live s" "frame_computeds (pruned c s) = frame_computeds s"
    by (simp_all add: fun_eq_iff live_def frame_computeds_def pruned_def ks_simps)
  ultimately show "links_ok (pruned c s) \<longleftrightarrow> links_ok s"
    unfolding links_ok_def d fs by (simp add: pruned_def ks_simps)
qed

text \<open>After the loop the dependencies are the observables that were read.\<close>

lemma aligned_frame_kept:
  assumes "aligned_frame ts cands reads"
  shows "set (nths ts (kept_index (length cands) cands)) = set reads"
    and "aligned_frame (nths ts (kept_index (length cands) cands)) [] reads"
proof -
  show *: "set (nths ts (kept_index (length cands) cands)) = set reads"
  proof
    show "set (nths ts (kept_index (length cands) cands)) \<subseteq> set reads"
      using aligned_frame_at [OF assms] by (auto simp: set_nths kept_index_def)
    show "set reads \<subseteq> set (nths ts (kept_index (length cands) cands))"
    proof
      fix x assume x: "x \<in> set reads"
      then obtain i where i: "i < length ts" "ts ! i = x"
        using assms by (auto simp: aligned_frame_def in_set_conv_nth subset_iff)
      then have "i < length cands \<longrightarrow> cands ! i = None" using aligned_frame_at [OF assms i(1)] x i(2) by (auto split: if_splits)
      then show "x \<in> set (nths ts (kept_index (length cands) cands))"
        using i by (auto simp: set_nths kept_index_def)
    qed
  qed
  show "aligned_frame (nths ts (kept_index (length cands) cands)) [] reads"
    using * nth_mem by (auto simp: aligned_frame_def)
qed

lemma prune_ok:
  assumes ok: "ko_ok s" and top: "ks_frames s = Some f # rest" "fr_computed f = c"
    and n: "n = length (candidates_of s c)"
  shows "\<exists>s'. dispose_unused c n s = Some (Inr (), s') \<and> ko_ok (pruned c s') \<and> ks_frames s' = ks_frames s \<and>
    set (targets s' c) = set (fr_distinct f)"
proof -
  have al: "aligned s" and li: "links_ok s" using ok by (simp_all add: ko_ok_def)
  have c: "computed_of s c \<noteq> None" using li top by (auto simp: links_ok_def frame_computeds_def List.map_filter_def)
  have fr: "aligned_frame (targets s c) (candidates_of s c) (fr_distinct f)"
    using al top by (auto simp: aligned_def)
  have "n \<le> length (deps_of s c)" using fr n by (simp add: aligned_frame_def targets_def)
  from dispose_unused_result [OF li c this] n obtain s' where s':
    "dispose_unused c n s = Some (Inr (), s')" "links_ok s'" "ks_frames s' = ks_frames s"
    "deps_of s' c = nths (deps_of s c) (kept_index n (candidates_of s c))"
    "\<forall>c'. c' \<noteq> c \<longrightarrow> deps_of s' c' = deps_of s c'"
    "\<forall>c'. candidates_of s' c' = candidates_of s c' \<and> being_evaluated s' c' = being_evaluated s c'"
    "\<forall>sub. sub_target (ks_subs s' sub) = sub_target (ks_subs s sub)"
    by auto
  have tg: "targets s' c = nths (targets s c) (kept_index n (candidates_of s c))"
    "\<And>c'. c' \<noteq> c \<Longrightarrow> targets s' c' = targets s c'"
    using s'(4,5,7) by (simp_all add: targets_def nths_map)
  have reads: "set (targets s' c) = set (fr_distinct f)" "aligned_frame (targets s' c) [] (fr_distinct f)"
    using aligned_frame_kept [OF fr] tg(1) n by simp_all
  have dist: "distinct (targets s' c')" for c'
    using al tg by (cases "c' = c") (auto simp: aligned_def distinct_nthsI)
  have fc: "frame_computeds (pruned c s') = frame_computeds s" by (simp add: frame_computeds_def pruned_sel s'(3))
  have other: "fr_computed g \<noteq> c" if "Some g \<in> set rest" for g
    using al top that by (force simp: aligned_def frame_computeds_def List.map_filter_def)
  have "aligned (pruned c s')"
    unfolding aligned_def pruned_sel fc s'(3)
  proof (intro conjI allI impI)
    fix g assume g: "Some g \<in> set (ks_frames s)"
    then show "being_evaluated s' (fr_computed g)" using al s'(6) by (simp add: aligned_def)
    show "aligned_frame (targets s' (fr_computed g)) (if fr_computed g = c then [] else candidates_of s' (fr_computed g)) (fr_distinct g)"
      using g top reads(2) other tg(2) s'(6) al by (auto simp: aligned_def)
  qed (use dist al in \<open>auto simp: aligned_def\<close>)
  then show ?thesis using s' reads(1) by (auto simp: ko_ok_def pruned_sel)
qed

lemma read_and_prune_cases:
  assumes "read_and_prune call c k s = Some (r, s')"
  obtains (read_fails) e where "call (Run (kc_read k)) s = Some (Inl e, s')" "r = Inl e"
    | (loop_fails) v s1 e where "call (Run (kc_read k)) s = Some (Inr v, s1)"
        "dispose_unused c (length (candidates_of s1 c)) s1 = Some (Inl e, s')" "r = Inl e"
    | (works) v s1 s2 where "call (Run (kc_read k)) s = Some (Inr v, s1)"
        "dispose_unused c (length (candidates_of s1 c)) s1 = Some (Inr (), s2)" "s' = pruned c s2" "r = Inr v"
proof -
  have len: "(case computed_of s1 c of None \<Rightarrow> 0 | Some k \<Rightarrow> length (kc_candidates k)) = length (candidates_of s1 c)" for s1
    by (simp add: candidates_of_def split: option.split)
  show thesis
    using assms unfolding read_and_prune_def
  proof (cases rule: bind_cases)
    case (fails e)
    then show thesis by (rule read_fails)
  next
    case (works v s1)
    note first = works(1)
    from works(2) have "bind (dispose_unused c (length (candidates_of s1 c)))
       (\<lambda>_. bind (modify (pruned c)) (\<lambda>_. ret v)) s1 = Some (r, s')"
      by (simp add: bind_gets len pruned_def)
    then show thesis
    proof (cases rule: bind_cases)
      case (fails e)
      then show thesis using loop_fails works(1) by blast
    next
      case (works u s2)
      then have "s' = pruned c s2" "r = Inr v" by (simp_all add: bind_modify js_simps)
      then show thesis using that(3) [OF first] works(1) by simp
    qed
  qed
qed

lemma read_and_prune_ok:
  assumes call: "\<And>t. keeps_rel ok_rel (call t)" and ok: "ko_ok s"
    and top: "ks_frames s = Some f # rest" "fr_computed f = c"
    and run: "read_and_prune call c k s = Some (r, s')"
  shows "ko_ok s'" and "\<exists>g. ks_frames s' = Some g # rest \<and> fr_computed g = c \<and>
    (\<forall>v. r = Inr v \<longrightarrow> set (targets s' c) = set (fr_distinct g))"
proof -
  have *: "ko_ok s1 \<and> (\<exists>g. ks_frames s1 = Some g # rest \<and> fr_computed g = c)"
    if "call (Run (kc_read k)) s = Some (r1, s1)" for r1 s1
    using keeps_relD [OF call that] ok top by (auto simp: ok_rel_def frames_rel_def split: list.splits)
  have "ko_ok s' \<and> (\<exists>g. ks_frames s' = Some g # rest \<and> fr_computed g = c \<and>
    (\<forall>v. r = Inr v \<longrightarrow> set (targets s' c) = set (fr_distinct g)))"
    using run
  proof (cases rule: read_and_prune_cases)
    case (read_fails e)
    then show ?thesis using * [OF read_fails(1)] by auto
  next
    case (loop_fails v s1 e)
    then show ?thesis using * [OF loop_fails(1)] prune_ok [of s1 _ rest c] by fastforce
  next
    case (works v s1 s2)
    then obtain g where g: "ko_ok s1" "ks_frames s1 = Some g # rest" "fr_computed g = c" using * by blast
    then show ?thesis using works prune_ok [OF g refl] by (auto simp: pruned_sel)
  qed
  then show "ko_ok s'" "\<exists>g. ks_frames s' = Some g # rest \<and> fr_computed g = c \<and>
    (\<forall>v. r = Inr v \<longrightarrow> set (targets s' c) = set (fr_distinct g))" by auto
qed

lemma publish_ok:
  assumes call: "\<And>t. keeps_rel ok_rel (call t)"
  shows "keeps_rel (\<lambda>s s'. ko_ok s \<longrightarrow> ko_ok s') (publish call c v)"
proof
  fix s r s' assume "publish call c v s = Some (r, s')"
  then show "ko_ok s \<longrightarrow> ko_ok s'"
    unfolding publish_def
  proof (cases rule: bind_cases)
    case (fails e)
    then show ?thesis using keeps_relD [OF ok.mutate_R(1) [OF call]] by (auto simp: ok_rel_def)
  next
    case (works u s1)
    then have "ok_rel s s1" "s' = set_latest c v s1"
      using keeps_relD [OF ok.mutate_R(1) [OF call] works(1)] by (simp_all add: js_simps)
    then show ?thesis using ko_ok_cong [of s' s1] by (simp add: ok_rel_def ks_simps)
  qed
qed

text \<open>Changing a computed that is not in a frame.\<close>

lemma begin_ok:
  assumes ok: "ko_ok s" and k: "computed_of s c = Some k" and idle: "c \<notin> set (frame_computeds s)"
  shows "ko_ok (begin_frame c (init_candidates c (set_evaluating True c s)))"
proof -
  let ?s = "begin_frame c (init_candidates c (set_evaluating True c s))"
  have fr: "ks_frames ?s = Some \<lparr>fr_computed = c, fr_distinct = []\<rparr> # ks_frames s"
    "ks_subs ?s = ks_subs s" "ks_nextSub ?s = ks_nextSub s"
    by (simp_all add: begin_frame_def init_candidates_def ks_simps)
  have deps: "deps_of ?s = deps_of s"
    by (auto simp: fun_eq_iff deps_of_def begin_frame_def init_candidates_def ks_simps split: option.split)
  then have tg: "targets ?s = targets s" by (simp add: fun_eq_iff targets_def fr)
  have cands: "candidates_of ?s c' = (if c' = c then map Some (targets s c) else candidates_of s c')" for c'
    using k by (auto simp: candidates_of_def begin_frame_def init_candidates_def ks_simps targets_def deps_of_def arrayMap_map)
  have being: "being_evaluated ?s c' = (c' = c \<or> being_evaluated s c')" for c'
    using k by (auto simp: being_evaluated_def begin_frame_def init_candidates_def ks_simps)
  have fc: "frame_computeds ?s = c # frame_computeds s"
    by (simp add: frame_computeds_def fr List.map_filter_simps)
  have comp: "computed_of ?s y = None \<longleftrightarrow> computed_of s y = None" for y by (simp add: ks_simps)
  have subs: "subs_on ?s = subs_on s" by (simp add: fun_eq_iff begin_frame_def init_candidates_def ks_simps)
  have "links_ok ?s"
    using ok k unfolding ko_ok_def links_ok_def deps fr comp subs fc
    by (simp add: live_def fr ks_simps)
  moreover have "aligned ?s"
    unfolding aligned_def
  proof (intro conjI allI impI)
    fix g assume g: "Some g \<in> set (ks_frames ?s)"
    then show "being_evaluated ?s (fr_computed g)" using ok by (auto simp: fr being ko_ok_def aligned_def)
    show "aligned_frame (targets ?s (fr_computed g)) (candidates_of ?s (fr_computed g)) (fr_distinct g)"
    proof (cases "fr_computed g = c")
      case True
      then have "g = \<lparr>fr_computed = c, fr_distinct = []\<rparr>" using g idle frame_in by (auto simp: fr)
      then show ?thesis by (simp add: tg cands aligned_frame_def)
    next
      case False
      then show ?thesis using g ok by (auto simp: fr tg cands ko_ok_def aligned_def)
    qed
  qed (use ok idle in \<open>auto simp: tg fc ko_ok_def aligned_def\<close>)
  ultimately show ?thesis by (simp add: ko_ok_def)
qed

lemma set_evaluating_ok:
  assumes ok: "ko_ok s" and idle: "c \<notin> set (frame_computeds s)"
  shows "ko_ok (set_evaluating b c s)"
proof -
  let ?s = "set_evaluating b c s"
  have "deps_of ?s = deps_of s" "candidates_of ?s = candidates_of s" "live ?s = live s"
    "frame_computeds ?s = frame_computeds s" "subs_on ?s = subs_on s" "ks_subs ?s = ks_subs s"
    by (auto simp: fun_eq_iff deps_of_def candidates_of_def live_def frame_computeds_def ks_simps split: option.split)
  moreover from this have "targets ?s = targets s" by (simp add: fun_eq_iff targets_def)
  moreover have "being_evaluated ?s y = being_evaluated s y" if "y \<noteq> c" for y
    using that by (simp add: being_evaluated_def ks_simps)
  moreover have "computed_of ?s y = None \<longleftrightarrow> computed_of s y = None" for y by (simp add: ks_simps)
  ultimately show ?thesis
    using ok idle frame_in [of _ s] unfolding ko_ok_def links_ok_def aligned_def by (force simp: ks_simps)
qed

lemma fold_dispose_subs_on:
  "distinct (subs_on s y e) \<Longrightarrow> distinct (subs_on (fold dispose_subscription l s) y e) \<and>
     set (subs_on (fold dispose_subscription l s) y e) =
       set (subs_on s y e) - {sub \<in> set l. sub_target (ks_subs s sub) = y \<and> sub_event (ks_subs s sub) = e}"
proof (induction l arbitrary: s)
  case Nil
  then show ?case by simp
next
  case (Cons a l)
  have "distinct (subs_on (dispose_subscription a s) y e)" using Cons.prems by (auto simp: ks_simps)
  from Cons.IH [OF this] Cons.prems show ?case
    by (auto simp: ks_simps set_remove1_eq split: if_splits)
qed

lemma disposeAll_subs_on:
  "subs_on (disposeAllSubscriptionsToDependencies c s) y e = subs_on (fold dispose_subscription (deps_of s c) s) y e"
  by (simp add: disposeAllSubscriptionsToDependencies_def ks_simps)

lemma disposeAll_ok:
  assumes ok: "ko_ok s" and idle: "c \<notin> set (frame_computeds s)"
  shows "ko_ok (disposeAllSubscriptionsToDependencies c s)"
proof -
  let ?s = "disposeAllSubscriptionsToDependencies c s"
  have li: "links_ok s" and al: "aligned s" using ok by (simp_all add: ko_ok_def)
  have deps: "deps_of ?s c' = (if c' = c then [] else deps_of s c')" for c'
    by (auto simp: deps_of_def ks_simps split: option.split)
  have live': "live ?s sub \<longleftrightarrow> live s sub \<and> sub \<notin> set (deps_of s c)" for sub
    by (auto simp: live_def ks_simps)
  have tgt: "sub_target (ks_subs ?s sub) = sub_target (ks_subs s sub)"
    "sub_event (ks_subs ?s sub) = sub_event (ks_subs s sub)"
    "sub_callback (ks_subs ?s sub) = sub_callback (ks_subs s sub)" for sub
    by (simp_all add: ks_simps)
  have fc: "frame_computeds ?s = frame_computeds s" by (simp add: frame_computeds_def ks_simps)
  have comp: "computed_of ?s y = None \<longleftrightarrow> computed_of s y = None" for y by (simp add: ks_simps)
  have subs: "distinct (subs_on ?s y e)" "set (subs_on ?s y e) = set (subs_on s y e) -
      {sub \<in> set (deps_of s c). sub_target (ks_subs s sub) = y \<and> sub_event (ks_subs s sub) = e}" for y e
    using fold_dispose_subs_on [of s y e "deps_of s c"] li by (simp_all add: disposeAll_subs_on links_ok_def)
  have "links_ok ?s"
    unfolding links_ok_def
  proof (intro conjI allI impI ballI)
    show "sub \<in> set (subs_on ?s y e) \<longleftrightarrow> live ?s sub \<and> sub_target (ks_subs ?s sub) = y \<and> sub_event (ks_subs ?s sub) = e" for y e sub
      using li by (auto simp: subs tgt live' links_ok_def)
    show "sub \<in> set (deps_of ?s c') \<longleftrightarrow> live ?s sub \<and> sub_callback (ks_subs ?s sub) = Reevaluate c'" for c' sub
      using li by (auto simp: deps tgt live' links_ok_def)
    show "computed_of ?s y \<noteq> None" if "y \<in> set (frame_computeds ?s)" for y
      using that li unfolding fc links_ok_def comp by blast
    show "computed_of ?s y = None" if "y \<ge> ks_nextObj ?s" for y
      using that li unfolding comp by (simp add: links_ok_def ks_simps)
  qed (use li in \<open>auto simp: subs(1) deps live' tgt links_ok_def\<close>, simp_all add: ks_simps)
  moreover have "aligned ?s"
  proof -
    have tg: "targets ?s c' = (if c' = c then [] else targets s c')" for c' by (simp add: targets_def deps tgt)
    have "candidates_of ?s c' = candidates_of s c'" "being_evaluated ?s c' = being_evaluated s c'" for c'
      by (auto simp: candidates_of_def ks_simps split: option.split)
    then show ?thesis using al idle frame_in [of _ s]
      unfolding aligned_def tg fc by (auto simp: ks_simps)
  qed
  ultimately show ?thesis by (simp add: ko_ok_def)
qed

lemma evaluate_body_ok:
  assumes call: "\<And>t. keeps_rel ok_rel (call t)" and ok: "ko_ok s" and k: "computed_of s c = Some k'"
    and idle: "c \<notin> set (frame_computeds s)"
    and run: "evaluate_body call c k (set_evaluating True c s) = Some (r, s')"
  shows "ko_ok s'"
proof -
  let ?s = "begin_frame c (init_candidates c (set_evaluating True c s))"
  have top: "ks_frames ?s = Some \<lparr>fr_computed = c, fr_distinct = []\<rparr> # ks_frames s"
    by (simp add: begin_frame_def init_candidates_def ks_simps)
  have ok': "ko_ok ?s" by (rule begin_ok [OF ok k idle])
  have "bind (read_and_prune call c k) (publish call c) ?s = Some (r, s')"
    using run by (simp add: evaluate_body_def bind_modify)
  then show ?thesis
  proof (cases rule: bind_cases)
    case (fails e)
    then show ?thesis using read_and_prune_ok(1) [OF call ok' top] by simp
  next
    case (works v s1)
    then have "ko_ok s1" using read_and_prune_ok(1) [OF call ok' top] by simp
    then show ?thesis using keeps_relD [OF publish_ok [OF call] works(2)] by simp
  qed
qed

interpretation ok_run: ko_run_laws ok_rel
proof
  fix call :: "task \<Rightarrow> kval run" and c
  assume call: "\<And>t. keeps_rel ok_rel (call t)"
  then have callf: "keeps_rel frames_rel (call t)" for t by (simp add: keeps_rel_def ok_rel_def)
  show "keeps_rel ok_rel (evaluateImmediate call c)"
  proof
    fix s r s' assume run: "evaluateImmediate call c s = Some (r, s')"
    show "ok_rel s s'"
    proof (rule ok.evaluateImmediate_rel [OF call run])
      fix k s1 assume k: "computed_of s c = Some k" "\<not> kc_isBeingEvaluated k" and s1: "ok_rel s s1"
      have fr: "frames_rel s s1" and ok1: "ko_ok s \<Longrightarrow> ko_ok s1" using s1 by (simp_all add: ok_rel_def)
      have idle: "c \<notin> set (frame_computeds s1)" if "ko_ok s"
        using that k frame_computeds_same [OF fr]
        by (force simp: ko_ok_def aligned_def being_evaluated_def frame_computeds_def List.map_filter_def)
      obtain k1 where k1: "computed_of s1 c = Some k1" using k(1) fr by (force simp: frames_rel_def same_kinds_def)
      have same: "frames_rel s s2" if "ks_frames s2 = ks_frames s1" "same_kinds s1 s2" for s2
        using frames.R_trans [OF fr frames_rel_same [OF that]] .
      show "ok_rel s (disposeAllSubscriptionsToDependencies c s1)"
        using ok1 idle disposeAll_ok by (auto simp: ok_rel_def ks_simps same_kinds_def intro!: same)
      show "ok_rel s (set_evaluating False c s1)"
        using ok1 idle set_evaluating_ok by (auto simp: ok_rel_def ks_simps same_kinds_def intro!: same)
      show "ok_rel s (pop_frame s3)"
        if b: "evaluate_body call c k (set_evaluating True c s1) = Some (rb, s3)" for rb s3
      proof -
        have "frames_rel s1 (set_evaluating True c s1)" unfolding set_evaluating_def by (rule upd_computed_frames)
        then have "frames_rel s (pop_frame s3)"
          using evaluate_body_frames [OF callf b] fr frames.R_trans by blast
        moreover have "ko_ok (pop_frame s3)" if "ko_ok s"
          using ko_ok_pop [OF evaluate_body_ok [OF call ok1 [OF that] k1 idle [OF that] b]] .
        ultimately show ?thesis by (simp add: ok_rel_def)
      qed
    qed
  qed
qed

subsection \<open>Reachable states\<close>

text \<open>The states an application reaches: it makes observables and computeds, runs programs,
  disposes of computeds between runs, and timers fire.\<close>

inductive ko_reachable :: "kstate \<Rightarrow> bool" where
  empty: "ko_reachable ko_empty"
| new_observable: "ko_reachable s \<Longrightarrow> ko_reachable (snd (observable v s))"
| new_computed: "ko_reachable s \<Longrightarrow> dependentObservable fuel r w d defer' s = Some (x, s') \<Longrightarrow> ko_reachable s'"
| run: "ko_reachable s \<Longrightarrow> exec n (Run p) s = Some (x, s') \<Longrightarrow> ko_reachable s'"
| timer: "ko_reachable s \<Longrightarrow> fire_timer n c s = Some (x, s') \<Longrightarrow> ko_reachable s'"
| dispose: "ko_reachable s \<Longrightarrow> ko_reachable (dispose_computed c s)"
| extend: "ko_reachable s \<Longrightarrow> ko_reachable (extend_notify w x s)"
| throttle: "ko_reachable s \<Longrightarrow> ko_reachable (extend_throttle t x s)"

inductive_cases ko_reachableE: "ko_reachable s"

lemma add_obj_ok:
  assumes ok: "ko_ok s" and b: "ko_subscriptions b = (\<lambda>_. None)" "\<And>k. ko_computed b = Some k \<Longrightarrow> kc_deps k = []"
    and fr: "ks_frames s = []"
  shows "ko_ok (add_obj b s)"
proof -
  let ?s = "add_obj b s" and ?n = "ks_nextObj s"
  have li: "links_ok s" and al: "aligned s" using ok by (simp_all add: ko_ok_def)
  have none: "computed_of s ?n = None" "\<And>x. x \<ge> ?n \<Longrightarrow> computed_of s x = None" using li by (simp_all add: links_ok_def)
  have nosubs: "subs_on s ?n e = []" for e
  proof (rule ccontr)
    assume "subs_on s ?n e \<noteq> []"
    then have "hd (subs_on s ?n e) \<in> set (subs_on s ?n e)" by simp
    then have "live s (hd (subs_on s ?n e))" "sub_target (ks_subs s (hd (subs_on s ?n e))) = ?n"
      using li unfolding links_ok_def by blast+
    then show False using li unfolding links_ok_def by force
  qed
  have sel: "ks_subs ?s = ks_subs s" "ks_nextSub ?s = ks_nextSub s" "ks_frames ?s = []" "ks_nextObj ?s = Suc ?n"
    "computed_of ?s y = (if y = ?n then ko_computed b else computed_of s y)" for y
    by (simp_all add: add_obj_def computed_of_def fr)
  have subs: "subs_on ?s y e = subs_on s y e" for y e
  proof (cases "y = ?n")
    case True
    then have "subs_on ?s y e = []" by (simp add: subs_on_def add_obj_def b(1))
    then show ?thesis using True nosubs by simp
  qed (simp add: subs_on_def add_obj_def)
  have deps: "deps_of ?s y = deps_of s y" for y
    using b(2) none(1) by (auto simp: deps_of_def sel split: option.split)
  have tg: "targets ?s = targets s" by (simp add: fun_eq_iff targets_def deps sel)
  have "live ?s = live s" by (simp add: fun_eq_iff live_def sel)
  then have "links_ok ?s"
    using li unfolding links_ok_def subs deps sel(1-4)
    by (auto simp: frame_computeds_def sel(3,5) List.map_filter_def less_Suc_eq)
  moreover have "aligned ?s" using al by (simp add: aligned_def tg sel(3) frame_computeds_def List.map_filter_def)
  ultimately show ?thesis by (simp add: ko_ok_def)
qed

lemma ko_ok_empty: "ko_ok ko_empty" "ks_frames ko_empty = []"
  by (auto simp: ko_ok_def links_ok_def aligned_def ko_empty_def subs_on_def deps_of_def computed_of_def live_def
      frame_computeds_def fresh_obj_def targets_def List.map_filter_def)

lemma exec_ok: "exec n t s = Some (r, s') \<Longrightarrow> ko_ok s \<and> ks_frames s = [] \<Longrightarrow> ko_ok s' \<and> ks_frames s' = []"
  using ok_run.exec_R_D [of n t s r s'] by (auto simp: ok_rel_def frames_rel_def)

lemma ko_ok_settings:
  assumes ok: "ko_ok s" and f: "\<And>k. kc_deps (f k) = kc_deps k" "\<And>k. kc_candidates (f k) = kc_candidates k"
    "\<And>k. kc_isBeingEvaluated (f k) = kc_isBeingEvaluated k"
  shows "ko_ok (upd_computed x f s)"
proof -
  let ?s = "upd_computed x f s"
  have sel: "deps_of ?s = deps_of s" "candidates_of ?s = candidates_of s" "being_evaluated ?s = being_evaluated s"
    "subs_on ?s = subs_on s" "frame_computeds ?s = frame_computeds s" "live ?s = live s" "ks_subs ?s = ks_subs s"
    by (auto simp: fun_eq_iff deps_of_def candidates_of_def being_evaluated_def frame_computeds_def live_def ks_simps f split: option.split)
  moreover from this have "targets ?s = targets s" by (simp add: fun_eq_iff targets_def)
  moreover have "computed_of ?s y = None \<longleftrightarrow> computed_of s y = None" for y by (simp add: ks_simps)
  ultimately show ?thesis using ok unfolding ko_ok_def links_ok_def aligned_def by (simp add: ks_simps)
qed

lemma reachable_ok: "ko_reachable s \<Longrightarrow> ko_ok s \<and> ks_frames s = []"
proof (induction rule: ko_reachable.induct)
  case empty
  show ?case using ko_ok_empty by blast
next
  case (new_observable s v)
  then have "ko_ok (add_obj (fresh_obj v None) s)" by (intro add_obj_ok) (simp_all add: fresh_obj_def)
  then show ?case using new_observable.IH by (simp add: observable_def add_obj_def)
next
  case (new_computed s fuel r w d defer' x s')
  let ?s = "add_obj (fresh_obj KUndef (Some (fresh_computed r w d))) s"
  have s: "ko_ok ?s \<and> ks_frames ?s = []"
    using new_computed.IH add_obj_ok [of s "fresh_obj KUndef (Some (fresh_computed r w d))"]
    by (simp add: fresh_obj_def fresh_computed_def) (simp add: add_obj_def)
  show ?case
    using new_computed.hyps(2) s exec_ok
    by (auto simp: dependentObservable_def bind_modify bind_ret js_simps split: if_splits elim!: bind_cases)
next
  case (run s n p x s')
  then show ?case using exec_ok by blast
next
  case (timer s n c x s')
  have "ko_ok (s\<lparr>ks_timers := ts\<rparr>) \<and> ks_frames (s\<lparr>ks_timers := ts\<rparr>) = []" for ts
    using timer.IH ko_ok_cong [of "s\<lparr>ks_timers := ts\<rparr>" s] by (simp add: ks_simps)
  then show ?case using timer.hyps(2) timer.IH exec_ok by (auto simp: fire_timer_def split: if_splits)
next
  case (dispose s c)
  then show ?case
    using disposeAll_ok [of s c] by (simp add: dispose_computed_def ks_simps frame_computeds_def List.map_filter_def)
next
  case (extend s w x)
  have "ko_ok (extend_notify w x s) \<longleftrightarrow> ko_ok s"
    by (rule ko_ok_cong) (simp_all add: extend_notify_def ks_simps subs_on_def computed_of_def)
  then show ?case using extend by (simp add: extend_notify_def ks_simps)
next
  case (throttle s t x)
  then show ?case using ko_ok_settings [of s] by (simp add: extend_throttle_def ks_simps)
qed

text \<open>A run of the two subscribables of \<open>failing_state\<close> that ends, with its result.\<close>

lemma failing_run: "\<exists>s1. exec 9 (Evaluate 1) failing_state = Some (Inl (Thrown ''no value''), s1)"
proof -
  have "map_option fst (exec 9 (Evaluate 1) failing_state) = Some (Inl (Thrown ''no value''))"
    by code_simp
  then show ?thesis by (auto simp del: exec.simps)
qed

theorem exec_frames_balanced_witness:
  "\<exists>s1. exec 9 (Evaluate 1) failing_state = Some (Inl (Thrown ''no value''), s1) \<and>
     frames_like (ks_frames failing_state) (ks_frames s1)"
  using failing_run exec_frames_balanced by blast

theorem notify_frames_untouched_witness:
  "\<exists>s1. notifySubscribers (exec 5) 0 KNull default_event failing_state = Some (Inr (), s1) \<and>
     ks_frames s1 = ks_frames failing_state"
proof -
  have "notifySubscribers (exec 5) 0 KNull default_event failing_state = Some (Inr (), failing_state)"
    by (simp add: notifySubscribers_def bind_gets js_simps failing_state_def observable_def ko_empty_def
        add_obj_def fresh_obj_def)
  then show ?thesis using notify_frames_untouched by blast
qed

text \<open>C1: in every state that an application reaches, the subscriber list of an observable and
  the dependency list of a computed hold exactly the subscriptions that are not disposed,
  each once, and no frame is left open.\<close>

theorem reachable_links:
  assumes "ko_reachable s"
  shows "links_ok s \<and> ks_frames s = []"
  using reachable_ok [OF assms] by (simp add: ko_ok_def)

text \<open>Observable 0 and a computed 1 that reads it.\<close>

definition echo_program :: prog where
  "echo_program = ReadObs 0 Return"

definition echo_state :: "kstate option" where
  "echo_state = map_option snd (dependentObservable 9 echo_program None (Return (KBool False)) False
     (snd (observable (KNum 5) ko_empty)))"

lemma echo_runs: "\<exists>s. echo_state = Some s \<and> ko_reachable s \<and> deps_of s 1 = [0] \<and> latestValue s 1 = KNum 5"
proof -
  let ?init = "snd (observable (KNum 5) ko_empty)"
  have "map_option (\<lambda>s. (deps_of s 1, latestValue s 1)) echo_state = Some ([0], KNum 5)"
    by code_simp
  then obtain s where s: "echo_state = Some s" "deps_of s 1 = [0]" "latestValue s 1 = KNum 5" by auto
  then obtain x where "dependentObservable 9 echo_program None (Return (KBool False)) False ?init = Some (x, s)"
    by (auto simp: echo_state_def)
  then have "ko_reachable s" using ko_reachable.new_computed ko_reachable.new_observable ko_reachable.empty by blast
  then show ?thesis using s by blast
qed

theorem reachable_links_witness: "\<exists>s. deps_of s 1 = [0] \<and> links_ok s"
  using echo_runs reachable_links by blast

end
