(* ===== verification/KoReads.thy ===== *)
theory KoReads
  imports KoObservable
begin

text \<open>
  What a computed depends on: the observables its read function reads, in terms of the program the
  application supplied and not of the frame in which the machine of the theory \<open>KoObservable\<close> notes
  them.
\<close>

subsection \<open>What a run reads\<close>

text \<open>
  The observables that a run of a program reads for itself, in order: those its \<open>ReadObs\<close> steps name
  when the read returns, and those the write function of a computed reads when the program writes to
  that computed, which is a plain call in the source. Peeking is no read, and what the callbacks of a
  notification and the evaluation of another computed read is not read by this program. The state
  each step finds is that of the run.
\<close>

definition written_program :: "nat \<Rightarrow> kval \<Rightarrow> kstate \<Rightarrow> prog" where
  "written_program x v s =
     (case computed_of s x of
        Some k \<Rightarrow> (case kc_write k of Some f \<Rightarrow> f v | None \<Rightarrow> Return KUndef)
      | None \<Rightarrow> Return KUndef)"

definition after :: "'a run \<Rightarrow> kstate \<Rightarrow> ('a \<Rightarrow> kstate \<Rightarrow> nat list) \<Rightarrow> nat list" where
  "after m s f = (case m s of Some (Inr v, s') \<Rightarrow> f v s' | _ \<Rightarrow> [])"

primrec reads_of :: "nat \<Rightarrow> prog \<Rightarrow> kstate \<Rightarrow> nat list" where
  "reads_of 0 p s = []"
| "reads_of (Suc n) p s =
     (case p of
        Return v \<Rightarrow> []
      | Fail e \<Rightarrow> []
      | ReadObs x k \<Rightarrow> after (known x (ko_read (exec n) x)) s (\<lambda>v s'. x # reads_of n (k v) s')
      | PeekObs x k \<Rightarrow> after (known x (ko_peek (exec n) x)) s (\<lambda>v s'. reads_of n (k v) s')
      | WriteObs x v k \<Rightarrow>
          reads_of n (written_program x v s) s @
          after (known x (ko_write (exec n) x v)) s (\<lambda>_ s'. reads_of n k s')
      | Subscribe x event f k \<Rightarrow> after (known x (subscribe_app x event f)) s (\<lambda>sub s'. reads_of n (k sub) s')
      | DisposeSub sub k \<Rightarrow> reads_of n k (dispose_app sub s))"

text \<open>Noting each once, where it is first read.\<close>

definition note_all :: "nat list \<Rightarrow> nat list \<Rightarrow> nat list" where
  "note_all ds xs = fold (\<lambda>x ds. if x \<in> set ds then ds else ds @ [x]) xs ds"

lemma note_all_simps [simp]:
  "note_all ds [] = ds"
  "note_all ds (x # xs) = note_all (if x \<in> set ds then ds else ds @ [x]) xs"
  "note_all ds (xs @ ys) = note_all (note_all ds xs) ys"
  by (simp_all add: note_all_def)

lemma set_note_all: "set (note_all ds xs) = set ds \<union> set xs"
  by (induction xs arbitrary: ds) auto

subsection \<open>Steps that leave the frame in progress alone\<close>

lemma notify_same_frames:
  assumes "\<And>t. keeps_rel frames_rel (call t)" "notifySubscribers call x v event s = Some (r, s')"
  shows "ks_frames s' = ks_frames s"
  using assms(2) ignore_frames(2) [OF frames.notify_each_R [OF assms(1)]]
  by (auto simp: notifySubscribers_def bind_gets js_simps split: option.splits)

lemma mutate_same_frames:
  assumes "\<And>t. keeps_rel frames_rel (call t)"
  shows "valueWillMutate call x s = Some (r, s') \<Longrightarrow> ks_frames s' = ks_frames s"
    and "valueHasMutated call x s = Some (r, s') \<Longrightarrow> ks_frames s' = ks_frames s"
  using notify_same_frames [OF assms] by (auto simp: valueWillMutate_def valueHasMutated_def bind_gets)

lemma body_same_frames:
  assumes "\<And>t. keeps_rel frames_rel (call t)" "try_finally (evaluate_body call c k) pop_frame s = Some (r, s')"
  shows "ks_frames s' = ks_frames s"
  using assms(2)
proof (rule try_finally_cases)
  fix s1 assume "evaluate_body call c k s = Some (r, s1)" "s' = pop_frame s1"
  then show ?thesis using evaluate_body_exact [OF assms(1)] by simp
qed

lemma first_evaluation_frames:
  assumes call: "\<And>t. keeps_rel frames_rel (call t)" and new: "\<not> has_been_evaluated s c"
    and run: "evaluateImmediate call c s = Some (r, s')"
  shows "ks_frames s' = ks_frames s"
proof (cases "computed_of s c")
  case None
  then show ?thesis using run by (simp add: evaluateImmediate_def bind_gets js_simps)
next
  case k: (Some k)
  show ?thesis
  proof (cases "kc_isBeingEvaluated k")
    case True
    then show ?thesis using run k by (simp add: evaluateImmediate_def bind_gets js_simps)
  next
    case False
    have "\<not> kc_hasBeenEvaluated k" using new k by (simp add: has_been_evaluated_def)
    then have "bind (try_finally (evaluate_body call c k) pop_frame) (\<lambda>_. finish_evaluation call c)
        (set_evaluating True c s) = Some (r, s')"
      using run k False by (simp add: evaluateImmediate_def bind_gets bind_ret evaluate_now_def bind_modify)
    then show ?thesis
    proof (cases rule: bind_cases)
      case (fails e)
      show ?thesis using body_same_frames [OF call fails(1)] by (simp add: ks_simps)
    next
      case (works u s4)
      have s4: "ks_frames s4 = ks_frames s"
        using body_same_frames [OF call works(1)] by (simp add: ks_simps)
      show ?thesis using works(2) unfolding finish_evaluation_def
      proof (cases rule: bind_cases)
        case (fails e)
        show ?thesis using mutate_same_frames(2) [OF call fails(1)] s4 by simp
      next
        case (works u s5)
        have "ks_frames s5 = ks_frames s" using mutate_same_frames(2) [OF call works(1)] s4 by simp
        then show ?thesis using works(2) by (auto simp: js_simps Let_def ks_simps split: if_splits)
      qed
    qed
  qed
qed

lemma exec_keeps_frames_like: "keeps_rel frames_rel (exec n t)"
  by (rule frames_run.exec_R)

lemma read_computed_frames:
  assumes "read_computed (exec n) x s = Some (r, s')"
  shows "ks_frames s' = ks_frames s"
proof (cases "has_been_evaluated s x")
  case True
  then show ?thesis using assms by (simp add: read_computed_def bind_gets js_simps)
next
  case False
  then have "bind (exec n (Evaluate x)) (\<lambda>_. ret ()) s = Some (r, s')"
    using assms by (simp add: read_computed_def bind_gets)
  then obtain r1 where "exec n (Evaluate x) s = Some (r1, s')"
    by (cases rule: bind_cases) (auto simp: js_simps)
  then obtain m r2 where "evaluateImmediate (exec m) x s = Some (r2, s')"
    by (cases n) (auto simp: js_simps elim!: bind_cases)
  then show ?thesis by (rule first_evaluation_frames [OF exec_keeps_frames_like False])
qed

lemma ko_peek_frames:
  assumes "ko_peek (exec n) x s = Some (r, s')"
  shows "ks_frames s' = ks_frames s"
  using assms read_computed_frames
  by (auto simp: ko_peek_def bind_gets bind_ret js_simps elim!: bind_cases split: if_splits)

lemma write_observable_frames:
  assumes "write_observable (exec n) x v s = Some (r, s')"
  shows "ks_frames s' = ks_frames s"
  using assms mutate_same_frames [OF exec_keeps_frames_like]
  by (auto simp: write_observable_def bind_gets bind_modify js_simps ks_simps elim!: bind_cases split: if_splits)

subsection \<open>The frame in progress notes what is read\<close>

lemma registerDependency_notes:
  assumes "ks_frames s = Some f # rest"
  shows "ks_frames (registerDependency x s) = Some (f\<lparr>fr_distinct := note_all (fr_distinct f) [x]\<rparr>) # rest"
  using assms by (simp add: registerDependency_def ks_simps)

lemma known_returns: "known x m s = Some (Inr v, s') \<longleftrightarrow> x < ks_nextObj s \<and> m s = Some (Inr v, s')"
  by (simp add: known_def)

lemma ko_read_notes:
  assumes "ko_read (exec n) x s = Some (Inr v, s')" "ks_frames s = Some f # rest"
  shows "ks_frames s' = Some (f\<lparr>fr_distinct := note_all (fr_distinct f) [x]\<rparr>) # rest"
proof -
  let ?m = "if computed_of s x = None then ret () else read_computed (exec n) x"
  have "bind ?m (\<lambda>_. bind (modify (registerDependency x)) (\<lambda>_. gets (\<lambda>s. latestValue s x))) s = Some (Inr v, s')"
    using assms(1) by (simp add: ko_read_def bind_gets)
  then obtain s1 where s1: "?m s = Some (Inr (), s1)" "s' = registerDependency x s1"
    by (cases rule: bind_cases) (auto simp: bind_modify js_simps)
  have "ks_frames s1 = ks_frames s"
    using s1(1) read_computed_frames by (auto simp: js_simps split: if_splits)
  then show ?thesis using registerDependency_notes assms(2) s1(2) by simp
qed

lemma subscribe_app_frames: "subscribe_app x event f s = Some (r, s') \<Longrightarrow> ks_frames s' = ks_frames s"
  by (auto simp: subscribe_app_def subscribe_def Let_def ks_simps split: prod.splits)

lemma reads_of_Return [simp]: "reads_of n (Return v) s = []"
  by (cases n) simp_all

lemma run_notes:
  assumes "exec n (Run p) s = Some (Inr v, s')" "ks_frames s = Some f # rest"
  shows "ks_frames s' = Some (f\<lparr>fr_distinct := note_all (fr_distinct f) (reads_of n p s)\<rparr>) # rest"
  using assms
proof (induction n arbitrary: p s f v s')
  case 0
  then show ?case by simp
next
  case (Suc n)
  have run: "run_prog (exec n) p s = Some (Inr v, s')" using Suc.prems(1) by simp
  show ?case
  proof (cases p)
    case (Return w)
    then show ?thesis using run Suc.prems(2) by (simp add: js_simps)
  next
    case (Fail e)
    then show ?thesis using run by (simp add: js_simps)
  next
    case (ReadObs x k)
    then obtain w s1 where r: "known x (ko_read (exec n) x) s = Some (Inr w, s1)" "exec n (Run (k w)) s1 = Some (Inr v, s')"
      using run by (auto elim!: bind_cases)
    have "ko_read (exec n) x s = Some (Inr w, s1)" using r(1) by (simp add: known_returns)
    then have "ks_frames s1 = Some (f\<lparr>fr_distinct := note_all (fr_distinct f) [x]\<rparr>) # rest"
      by (rule ko_read_notes [OF _ Suc.prems(2)])
    then show ?thesis using Suc.IH [OF r(2)] ReadObs r(1) by (simp add: after_def)
  next
    case (PeekObs x k)
    then obtain w s1 where r: "known x (ko_peek (exec n) x) s = Some (Inr w, s1)" "exec n (Run (k w)) s1 = Some (Inr v, s')"
      using run by (auto elim!: bind_cases)
    have "ko_peek (exec n) x s = Some (Inr w, s1)" using r(1) by (simp add: known_returns)
    then have "ks_frames s1 = Some f # rest" using ko_peek_frames Suc.prems(2) by metis
    then show ?thesis using Suc.IH [OF r(2)] PeekObs r(1) by (simp add: after_def)
  next
    case (WriteObs x w k)
    then obtain s1 where r: "known x (ko_write (exec n) x w) s = Some (Inr (), s1)" "exec n (Run k) s1 = Some (Inr v, s')"
      using run by (auto elim!: bind_cases)
    have w: "ko_write (exec n) x w s = Some (Inr (), s1)" using r(1) by (simp add: known_returns)
    have "ks_frames s1 = Some (f\<lparr>fr_distinct := note_all (fr_distinct f) (reads_of n (written_program x w s) s)\<rparr>) # rest"
    proof (cases "computed_of s x")
      case None
      then have "write_observable (exec n) x w s = Some (Inr (), s1)" using w by (simp add: ko_write_def bind_gets)
      then show ?thesis using write_observable_frames Suc.prems(2) None by (simp add: written_program_def)
    next
      case (Some c)
      then obtain g where g: "kc_write c = Some g"
        using w by (cases "kc_write c") (simp_all add: ko_write_def bind_gets write_computed_def js_simps)
      then have "bind (exec n (Run (g w))) (\<lambda>_. ret ()) s = Some (Inr (), s1)"
        using w Some by (simp add: ko_write_def bind_gets write_computed_def)
      then obtain u where "exec n (Run (g w)) s = Some (Inr u, s1)"
        by (cases rule: bind_cases) (auto simp: js_simps)
      then show ?thesis using Suc.IH Suc.prems(2) Some g by (simp add: written_program_def)
    qed
    then show ?thesis using Suc.IH [OF r(2)] WriteObs r(1) by (simp add: after_def)
  next
    case (Subscribe x event g k)
    then obtain sub s1 where r: "known x (subscribe_app x event g) s = Some (Inr sub, s1)"
        "exec n (Run (k sub)) s1 = Some (Inr v, s')"
      using run by (auto elim!: bind_cases)
    have "subscribe_app x event g s = Some (Inr sub, s1)" using r(1) by (simp add: known_returns)
    then have "ks_frames s1 = Some f # rest" using subscribe_app_frames Suc.prems(2) by metis
    then show ?thesis using Suc.IH [OF r(2)] Subscribe r(1) by (simp add: after_def)
  next
    case (DisposeSub sub k)
    then have "exec n (Run k) (dispose_app sub s) = Some (Inr v, s')" using run by (simp add: bind_modify)
    then show ?thesis using Suc.IH Suc.prems(2) DisposeSub by (simp add: ks_simps)
  qed
qed

lemma dispose_unused_same_frames: "dispose_unused c n s = Some (r, s') \<Longrightarrow> ks_frames s' = ks_frames s"
proof (induction n arbitrary: s r s')
  case 0
  then show ?case by (simp add: js_simps)
next
  case (Suc n)
  then show ?case
    by (auto simp: bind_gets bind_modify js_simps ks_simps split: option.splits if_splits)
qed

text \<open>C2: when the read function of an evaluation has returned and the disposal loop has run, the
  computed is subscribed to exactly the observables that the function read in this run, once each,
  whatever it was subscribed to before.\<close>

theorem dependencies_are_reads:
  assumes "ko_ok s" "computed_of s c = Some k" "c \<notin> set (frame_computeds s)"
    and "start = begin_frame c (init_candidates c (set_evaluating True c s))"
    and "read_and_prune (exec n) c k start = Some (Inr v, s')"
  shows "set (targets s' c) = set (reads_of n (kc_read k) start) \<and> distinct (targets s' c)"
proof -
  have top: "ks_frames start = Some \<lparr>fr_computed = c, fr_distinct = []\<rparr> # ks_frames s"
    by (simp add: assms(4) begin_frame_def init_candidates_def ks_simps)
  obtain s1 s2 where run: "exec n (Run (kc_read k)) start = Some (Inr v, s1)"
      "dispose_unused c (length (candidates_of s1 c)) s1 = Some (Inr (), s2)" "s' = pruned c s2"
    using assms(5) by (cases rule: read_and_prune_cases) auto
  have "ks_frames s' = ks_frames s1" using dispose_unused_same_frames [OF run(2)] by (simp add: run(3) pruned_sel)
  moreover have "ks_frames s1 =
      Some \<lparr>fr_computed = c, fr_distinct = note_all [] (reads_of n (kc_read k) start)\<rparr> # ks_frames s"
    using run_notes [OF run(1) top] by simp
  moreover obtain g where "ks_frames s' = Some g # ks_frames s" "set (targets s' c) = set (fr_distinct g)" "ko_ok s'"
    using read_and_prune_ok [OF ok_run.exec_R begin_ok [OF assms(1-3)] top [unfolded assms(4)] _ assms(5) [unfolded assms(4)]]
    by auto
  ultimately show ?thesis by (auto simp: ko_ok_def aligned_def set_note_all)
qed

theorem dependencies_are_reads_witness:
  "\<exists>s s' v. read_and_prune (exec 9) 1 (fresh_computed echo_program None (Return KNull)) s = Some (Inr v, s') \<and>
     v = KNum 5 \<and> targets s' 1 = [0]"
proof -
  let ?k = "fresh_computed echo_program None (Return KNull)"
  let ?init = "add_obj (fresh_obj KUndef (Some ?k)) (snd (observable (KNum 5) ko_empty))"
  let ?s = "begin_frame 1 (init_candidates 1 (set_evaluating True 1 ?init))"
  have "ko_ok (snd (observable (KNum 5) ko_empty)) \<and> ks_frames (snd (observable (KNum 5) ko_empty)) = []"
    using reachable_ok [OF ko_reachable.new_observable [OF ko_reachable.empty]] .
  then have ok: "ko_ok ?init"
    by (intro add_obj_ok) (auto simp: fresh_obj_def fresh_computed_def)
  have k: "computed_of ?init 1 = Some ?k"
    by (simp add: add_obj_def computed_of_def observable_def ko_empty_def fresh_obj_def)
  have fr: "1 \<notin> set (frame_computeds ?init)"
    by (simp add: add_obj_def frame_computeds_def observable_def ko_empty_def List.map_filter_def)
  have run: "map_option fst (read_and_prune (exec 9) 1 ?k ?s) = Some (Inr (KNum 5))"
    by code_simp
  have reads: "reads_of 9 (kc_read ?k) ?s = [0]" by code_simp
  obtain s' where s': "read_and_prune (exec 9) 1 ?k ?s = Some (Inr (KNum 5), s')" using run by auto
  have t: "set (targets s' 1) = {0}" "distinct (targets s' 1)"
    using dependencies_are_reads [OF ok k fr refl s'] by (simp_all only: reads list.set)
  have "length (targets s' 1) = card {0 :: nat}" using distinct_card [OF t(2)] by (simp only: t(1))
  then have "length (targets s' 1) = 1" by simp
  then have "targets s' 1 = [0]" using t(1) by (cases "targets s' 1") auto
  then show ?thesis using s' by blast
qed

end
