(* ===== verification/Dom.thy ===== *)
theory Dom
  imports JsString "HOL-Library.Multiset"
begin

text \<open>
  The part of the document that the page scripts use, as a tree of elements, and the jQuery
  operations they call on it. An element is identified by a key; a jQuery collection is the
  list of the keys of its elements, in document order when it comes from a selector.

  The classes of an element are the list of names in its \<open>class\<close> attribute. \<open>appendTo\<close> with
  more than one target element would clone; the scripts call it with one target or none,
  and the model takes the first.
\<close>

datatype node = Node
  (n_key: nat) (n_tag: string) (n_id: string) (n_classes: "string list")
  (n_hidden: bool) (n_html: string) (n_kids: "node list")

fun nodes :: "node \<Rightarrow> node list" where
  "nodes (Node k t i c h x ns) = Node k t i c h x ns # concat (map nodes ns)"

definition keys :: "node \<Rightarrow> nat list" where
  "keys n = map n_key (nodes n)"

definition set_classes :: "(string list \<Rightarrow> string list) \<Rightarrow> node \<Rightarrow> node" where
  "set_classes f n = Node (n_key n) (n_tag n) (n_id n) (f (n_classes n)) (n_hidden n) (n_html n) (n_kids n)"

definition set_hidden :: "bool \<Rightarrow> node \<Rightarrow> node" where
  "set_hidden b n = Node (n_key n) (n_tag n) (n_id n) (n_classes n) b (n_html n) (n_kids n)"

definition set_id :: "string \<Rightarrow> node \<Rightarrow> node" where
  "set_id i n = Node (n_key n) (n_tag n) i (n_classes n) (n_hidden n) (n_html n) (n_kids n)"

definition set_content :: "string \<Rightarrow> node list \<Rightarrow> node \<Rightarrow> node" where
  "set_content x ns n = Node (n_key n) (n_tag n) (n_id n) (n_classes n) (n_hidden n) x ns"

definition add_kids :: "node list \<Rightarrow> node \<Rightarrow> node" where
  "add_kids ms n = Node (n_key n) (n_tag n) (n_id n) (n_classes n) (n_hidden n) (n_html n) (n_kids n @ ms)"

text \<open>Changing the elements of a collection in place.\<close>

fun modify_nodes :: "nat set \<Rightarrow> (node \<Rightarrow> node) \<Rightarrow> node \<Rightarrow> node" where
  "modify_nodes ks f (Node k t i c h x ns) =
     (let n = Node k t i c h x (map (modify_nodes ks f) ns) in if k \<in> ks then f n else n)"

definition modify_all :: "nat list \<Rightarrow> (node \<Rightarrow> node) \<Rightarrow> node \<Rightarrow> node" where
  "modify_all ks f n = modify_nodes (set ks) f n"

text \<open>Taking the elements of a collection out of the tree (the root stays).\<close>

fun detach :: "nat set \<Rightarrow> node \<Rightarrow> node" where
  "detach ks (Node k t i c h x ns) =
     Node k t i c h x (concat (map (\<lambda>m. if n_key m \<in> ks then [] else [detach ks m]) ns))"

subsection \<open>Selecting\<close>

definition find_node :: "node \<Rightarrow> nat \<Rightarrow> node option" where
  "find_node root k = find (\<lambda>n. n_key n = k) (nodes root)"

definition select :: "(node \<Rightarrow> bool) \<Rightarrow> node \<Rightarrow> nat list" where
  "select p root = map n_key (filter p (nodes root))"

definition has_class :: "string \<Rightarrow> node \<Rightarrow> bool" where
  "has_class c n \<longleftrightarrow> c \<in> set (n_classes n)"

definition by_class :: "string \<Rightarrow> node \<Rightarrow> nat list" where
  "by_class c root = select (has_class c) root"

definition by_tag :: "string \<Rightarrow> node \<Rightarrow> nat list" where
  "by_tag t root = select (\<lambda>n. n_tag n = t) root"

definition by_id :: "string \<Rightarrow> node \<Rightarrow> nat list" where
  "by_id i root = take 1 (select (\<lambda>n. n_id n = i) root)"

text \<open>\<open>$(e).find(...)\<close> looks below the elements of \<open>e\<close>.\<close>

definition below :: "node \<Rightarrow> nat \<Rightarrow> node list" where
  "below root k = (case find_node root k of None \<Rightarrow> [] | Some n \<Rightarrow> concat (map nodes (n_kids n)))"

definition find_below :: "(node \<Rightarrow> bool) \<Rightarrow> node \<Rightarrow> nat list \<Rightarrow> nat list" where
  "find_below p root ks = remdups (concat (map (\<lambda>k. map n_key (filter p (below root k))) ks))"

definition kids_of :: "node \<Rightarrow> nat \<Rightarrow> nat list" where
  "kids_of root k = (case find_node root k of None \<Rightarrow> [] | Some n \<Rightarrow> map n_key (n_kids n))"

definition classes_of :: "node \<Rightarrow> nat \<Rightarrow> string list" where
  "classes_of root k = (case find_node root k of None \<Rightarrow> [] | Some n \<Rightarrow> n_classes n)"

definition id_of :: "node \<Rightarrow> nat \<Rightarrow> string" where
  "id_of root k = (case find_node root k of None \<Rightarrow> '''' | Some n \<Rightarrow> n_id n)"

text \<open>The parent, and \<open>closest('.c')\<close>: the nearest ancestor, the element itself included.\<close>

definition parent_of :: "node \<Rightarrow> nat \<Rightarrow> nat option" where
  "parent_of root k = map_option n_key (find (\<lambda>n. k \<in> n_key ` set (n_kids n)) (nodes root))"

definition closest_class :: "string \<Rightarrow> node \<Rightarrow> nat \<Rightarrow> nat option" where
  "closest_class c root k =
     (case rev (filter (\<lambda>n. has_class c n \<and> k \<in> set (keys n)) (nodes root)) of [] \<Rightarrow> None | n # _ \<Rightarrow> Some (n_key n))"

subsection \<open>The jQuery operations\<close>

definition addClass :: "string \<Rightarrow> nat list \<Rightarrow> node \<Rightarrow> node" where
  "addClass c ks root = modify_all ks (set_classes (\<lambda>cs. if c \<in> set cs then cs else cs @ [c])) root"

definition removeClasses :: "string list \<Rightarrow> nat list \<Rightarrow> node \<Rightarrow> node" where
  "removeClasses rs ks root = modify_all ks (set_classes (filter (\<lambda>c. c \<notin> set rs))) root"

definition show_all :: "nat list \<Rightarrow> node \<Rightarrow> node" where
  "show_all ks root = modify_all ks (set_hidden False) root"

definition hide_all :: "nat list \<Rightarrow> node \<Rightarrow> node" where
  "hide_all ks root = modify_all ks (set_hidden True) root"

definition set_html :: "string \<Rightarrow> nat list \<Rightarrow> node \<Rightarrow> node" where
  "set_html x ks root = modify_all ks (set_content x []) root"

definition remove_nodes :: "nat list \<Rightarrow> node \<Rightarrow> node" where
  "remove_nodes ks root = detach (set ks) root"

definition append_nodes :: "node list \<Rightarrow> nat \<Rightarrow> node \<Rightarrow> node" where
  "append_nodes ms t root = modify_all [t] (add_kids ms) root"

text \<open>Moving the elements \<open>ks\<close> to the end of \<open>t\<close>: an element cannot be put inside itself.\<close>

definition move_nodes :: "nat list \<Rightarrow> nat \<Rightarrow> node \<Rightarrow> node res" where
  "move_nodes ks t root =
     (let ms = List.map_filter (find_node root) ks
      in if t \<in> set (concat (map keys ms)) then Inl (Thrown ''HierarchyRequestError'')
         else Inr (append_nodes ms t (detach (set ks) root)))"

definition appendTo :: "nat list \<Rightarrow> nat list \<Rightarrow> node \<Rightarrow> node res" where
  "appendTo ks targets root = (case targets of [] \<Rightarrow> Inr root | t # _ \<Rightarrow> move_nodes ks t root)"

subsection \<open>Lemmas\<close>

lemma nodes_self: "nodes n = n # concat (map nodes (n_kids n))"
  by (cases n) simp

lemma node_induct [case_names Node]:
  "(\<And>k t i c h x ns. (\<And>m. m \<in> set ns \<Longrightarrow> P m) \<Longrightarrow> P (Node k t i c h x ns)) \<Longrightarrow> P n"
  by (rule node.induct) auto

text \<open>Changes of single elements keep the shape: the list of nodes is mapped.\<close>

lemma nodes_modify:
  assumes "\<And>n. n_kids (f n) = n_kids n"
  shows "nodes (modify_nodes ks f n) = map (modify_nodes ks f) (nodes n)"
proof (induction n rule: node_induct)
  case (Node k t i c h x ns)
  have "concat (map nodes (map (modify_nodes ks f) ns)) = map (modify_nodes ks f) (concat (map nodes ns))"
    using Node by (induction ns) auto
  then show ?case using assms by (subst nodes_self) (simp add: Let_def)
qed

lemma modify_sel:
  assumes "\<And>n. n_key (f n) = n_key n"
  shows "n_key (modify_nodes ks f n) = n_key n"
  using assms by (cases n) (simp add: Let_def)

lemma modify_kids:
  assumes "\<And>n. n_kids (f n) = n_kids n"
  shows "n_kids (modify_nodes ks f n) = map (modify_nodes ks f) (n_kids n)"
  using assms by (cases n) (simp add: Let_def)

lemma find_map: "(\<And>x. p (g x) = q x) \<Longrightarrow> find p (map g xs) = map_option g (find q xs)"
  by (induction xs) auto

lemma find_node_modify:
  assumes "\<And>n. n_kids (f n) = n_kids n" "\<And>n. n_key (f n) = n_key n"
  shows "find_node (modify_nodes ks f root) k = map_option (modify_nodes ks f) (find_node root k)"
  unfolding find_node_def nodes_modify [OF assms(1)]
  by (rule find_map) (simp add: modify_sel assms(2))

lemma kids_of_modify:
  assumes "\<And>n. n_kids (f n) = n_kids n" "\<And>n. n_key (f n) = n_key n"
  shows "kids_of (modify_nodes ks f root) k = kids_of root k"
  by (auto simp: kids_of_def find_node_modify [OF assms] modify_kids [OF assms(1)] modify_sel [OF assms(2)]
      split: option.split)

lemma keys_modify:
  assumes "\<And>n. n_kids (f n) = n_kids n" "\<And>n. n_key (f n) = n_key n"
  shows "keys (modify_nodes ks f root) = keys root"
  by (simp add: keys_def nodes_modify [OF assms(1)] modify_sel [OF assms(2)] o_def)

lemma set_classes_sel [simp]:
  "n_kids (set_classes f n) = n_kids n" "n_key (set_classes f n) = n_key n" "n_classes (set_classes f n) = f (n_classes n)"
  by (simp_all add: set_classes_def)

lemma modify_classes:
  "n_classes (modify_nodes ks (set_classes f) n) = (if n_key n \<in> ks then f (n_classes n) else n_classes n)"
  by (cases n) (simp add: Let_def)

text \<open>Changing classes, read through the selectors.\<close>

lemma classes_sel [simp]:
  "kids_of (addClass c ks root) k = kids_of root k" "kids_of (removeClasses cs ks root) k = kids_of root k"
  "keys (addClass c ks root) = keys root" "keys (removeClasses cs ks root) = keys root"
  by (simp_all add: addClass_def removeClasses_def modify_all_def kids_of_modify keys_modify)

lemma select_modify:
  assumes "\<And>n. n_kids (f n) = n_kids n" "\<And>n. n_key (f n) = n_key n"
  shows "select p (modify_nodes ks f root) = select (\<lambda>n. p (modify_nodes ks f n)) root"
  by (simp add: select_def nodes_modify [OF assms(1)] filter_map o_def modify_sel [OF assms(2)])

lemma by_class_addClass:
  "by_class d (addClass c ks root) =
     select (\<lambda>n. has_class d n \<or> (d = c \<and> n_key n \<in> set ks)) root"
  unfolding by_class_def addClass_def modify_all_def
  by (simp add: select_modify has_class_def modify_classes) (rule arg_cong [where f = "\<lambda>p. select p root"], auto)

lemma by_class_removeClasses:
  "by_class d (removeClasses cs ks root) =
     select (\<lambda>n. has_class d n \<and> \<not> (d \<in> set cs \<and> n_key n \<in> set ks)) root"
  unfolding by_class_def removeClasses_def modify_all_def
  by (simp add: select_modify has_class_def modify_classes) (rule arg_cong [where f = "\<lambda>p. select p root"], auto)

text \<open>Taking out and putting in subtrees that hold no node of a kind.\<close>

lemma detach_sel [simp]:
  "n_key (detach ks n) = n_key n" "n_classes (detach ks n) = n_classes n" "n_id (detach ks n) = n_id n"
  by (cases n; simp)+

lemma nodes_detach:
  assumes "\<And>m. p (detach ks m) \<longleftrightarrow> p m"
    and "\<And>m m'. m \<in> set (concat (map nodes (n_kids n))) \<Longrightarrow> n_key m \<in> ks \<Longrightarrow> m' \<in> set (nodes m) \<Longrightarrow> \<not> p m'"
  shows "filter p (nodes (detach ks n)) = map (detach ks) (filter p (nodes n))"
  using assms(2)
proof (induction n rule: node_induct)
  case (Node k t i c h x ns)
  have "filter p (concat (map nodes (concat (map (\<lambda>m. if n_key m \<in> ks then [] else [detach ks m]) ns)))) =
      map (detach ks) (filter p (concat (map nodes ns)))"
    using Node
  proof (induction ns)
    case (Cons m ms)
    have rest: "filter p (concat (map nodes (concat (map (\<lambda>m. if n_key m \<in> ks then [] else [detach ks m]) ms)))) =
      map (detach ks) (filter p (concat (map nodes ms)))"
      by (rule Cons.IH) (use Cons.prems in \<open>auto\<close>)
    show ?case
    proof (cases "n_key m \<in> ks")
      case True
      have "filter p (nodes m) = []"
        using Cons.prems(2) [of m] True nodes_self [of m] by (auto simp: filter_empty_conv)
      then show ?thesis using True rest by simp
    next
      case False
      have "filter p (nodes (detach ks m)) = map (detach ks) (filter p (nodes m))"
      proof (rule Cons.prems(1))
        fix a a' assume "a \<in> set (concat (map nodes (n_kids m)))" "n_key a \<in> ks" "a' \<in> set (nodes a)"
        moreover have "set (concat (map nodes (n_kids m))) \<subseteq> set (nodes m)" by (subst nodes_self) auto
        ultimately show "\<not> p a'" using Cons.prems(2) by auto
      qed simp
      then show ?thesis using False rest by simp
    qed
  qed simp
  then show ?case using assms(1) [of "Node k t i c h x ns"] by simp
qed

subsection \<open>Moving the children of one element to another\<close>

fun removed :: "nat set \<Rightarrow> node \<Rightarrow> node list" where
  "removed ks (Node k t i c h x ns) = concat (map (\<lambda>m. if n_key m \<in> ks then [m] else removed ks m) ns)"

lemma keys_self: "keys n = n_key n # concat (map keys (n_kids n))"
proof -
  have "keys = (\<lambda>n. map n_key (nodes n))" by (rule ext) (simp add: keys_def)
  then show ?thesis by (subst keys_def, subst nodes_self) (simp add: map_concat o_def)
qed

text \<open>What an element is, without its children.\<close>

definition attrs :: "node \<Rightarrow> nat \<times> string \<times> string \<times> string list \<times> bool \<times> string" where
  "attrs n = (n_key n, n_tag n, n_id n, n_classes n, n_hidden n, n_html n)"

definition all_attrs :: "node \<Rightarrow> (nat \<times> string \<times> string \<times> string list \<times> bool \<times> string) list" where
  "all_attrs n = map attrs (nodes n)"

lemma keys_all_attrs: "keys n = map fst (all_attrs n)"
  by (simp add: keys_def all_attrs_def attrs_def o_def)

lemma all_attrs_self: "all_attrs n = attrs n # concat (map all_attrs (n_kids n))"
proof -
  have "all_attrs = (\<lambda>n. map attrs (nodes n))" by (rule ext) (simp add: all_attrs_def)
  then show ?thesis by (subst all_attrs_def, subst nodes_self) (simp add: map_concat o_def)
qed

lemma all_attrs_detach:
  "mset (all_attrs n) = mset (all_attrs (detach ks n)) + mset (concat (map all_attrs (removed ks n)))"
proof (induction n rule: node_induct)
  case (Node k t i c h x ns)
  have "mset (concat (map all_attrs ns)) =
      mset (concat (map all_attrs (concat (map (\<lambda>m. if n_key m \<in> ks then [] else [detach ks m]) ns)))) +
      mset (concat (map all_attrs (concat (map (\<lambda>m. if n_key m \<in> ks then [m] else removed ks m) ns))))"
    using Node by (induction ns) auto
  then show ?case
    by (simp add: all_attrs_self [of "Node k t i c h x ns"] all_attrs_self [of "Node k t i c h x (concat _)"])
      (simp add: attrs_def)
qed

lemma all_attrs_append:
  "t \<notin> set (concat (map keys ms)) \<Longrightarrow> distinct (keys n) \<Longrightarrow>
     mset (all_attrs (modify_nodes {t} (add_kids ms) n)) =
     mset (all_attrs n) + (if t \<in> set (keys n) then mset (concat (map all_attrs ms)) else {#})"
proof (induction n rule: node_induct)
  case (Node k t' i c h x ns)
  let ?f = "modify_nodes {t} (add_kids ms)"
  have d: "k \<notin> set (concat (map keys ns))" "distinct (concat (map keys ns))"
    using Node.prems(2) by (simp_all add: keys_self [of "Node k t' i c h x ns"])
  have "mset (concat (map all_attrs (map ?f ns))) = mset (concat (map all_attrs ns)) +
      (if t \<in> set (concat (map keys ns)) then mset (concat (map all_attrs ms)) else {#})"
    using d(2) Node.IH
  proof (induction ns)
    case (Cons m ns')
    have "mset (all_attrs (?f m)) = mset (all_attrs m) + (if t \<in> set (keys m) then mset (concat (map all_attrs ms)) else {#})"
      using Cons.prems Node.prems(1) by simp
    moreover have "mset (concat (map all_attrs (map ?f ns'))) = mset (concat (map all_attrs ns')) +
      (if t \<in> set (concat (map keys ns')) then mset (concat (map all_attrs ms)) else {#})"
      using Cons by simp
    ultimately show ?case using Cons.prems(1) by auto
  qed simp
  then show ?case
    using d(1) by (auto simp: keys_self [of "Node k t' i c h x ns"] all_attrs_self [of "Node k t' i c h x ns"]
        all_attrs_self [of "Node k t' i c h x (map _ _)"] all_attrs_self [of "add_kids _ _"] Let_def)
      (simp_all add: add_kids_def attrs_def)
qed

lemma removed_none: "set (keys n) \<inter> ks = {} \<Longrightarrow> removed ks n = []"
proof (induction n rule: node_induct)
  case (Node k t i c h x ns)
  have "n_key m \<notin> ks \<and> removed ks m = []" if "m \<in> set ns" for m
  proof -
    have "set (keys m) \<inter> ks = {}" using Node.prems that by (auto simp: keys_self [of "Node k t i c h x ns"])
    then show ?thesis using Node.IH [OF that] by (simp add: keys_self [of m])
  qed
  then show ?case by simp
qed

lemma kid_keys: "cn \<in> set (nodes n) \<Longrightarrow> n_key ` set (n_kids cn) \<subseteq> set (concat (map keys (n_kids n)))"
proof (induction n rule: node_induct)
  case (Node k t i c h x ns)
  consider "cn = Node k t i c h x ns" | m where "m \<in> set ns" "cn \<in> set (nodes m)" using Node.prems by auto
  then show ?case
  proof cases
    case 1
    have "n_key m \<in> set (keys m)" for m by (simp add: keys_self [of m])
    then show ?thesis using 1 by auto
  next
    case 2
    have "set (concat (map keys (n_kids m))) \<subseteq> set (keys m)" by (auto simp: keys_self [of m])
    then have "n_key ` set (n_kids cn) \<subseteq> set (keys m)" using Node.IH [OF 2] by blast
    then show ?thesis using 2(1) by fastforce
  qed
qed

lemma distinct_concat_split:
  assumes "distinct (concat (map f xs))" "y \<in> set xs" "z \<in> set xs" "a \<in> set (f y)" "a \<in> set (f z)"
  shows "f y = f z"
  using assms by (induction xs) auto

lemma removed_kids:
  "distinct (keys n) \<Longrightarrow> cn \<in> set (nodes n) \<Longrightarrow> removed (n_key ` set (n_kids cn)) n = n_kids cn"
proof (induction n rule: node_induct)
  case (Node k t i c h x ns)
  let ?ks = "n_key ` set (n_kids cn)"
  have d: "distinct (concat (map keys ns))" using Node.prems(1) by (simp add: keys_self [of "Node k t i c h x ns"])
  show ?case
  proof (cases "cn = Node k t i c h x ns")
    case True
    then have "\<forall>m \<in> set ns. n_key m \<in> ?ks" by simp
    then have "map (\<lambda>m. if n_key m \<in> ?ks then [m] else removed ?ks m) ns = map (\<lambda>m. [m]) ns" by simp
    then show ?thesis using True by (simp only: removed.simps concat_map_singleton) simp
  next
    case False
    then obtain m0 where m0: "m0 \<in> set ns" "cn \<in> set (nodes m0)" using Node.prems(2) by auto
    have dm: "distinct (keys m0)" using d m0(1) by (induction ns) auto
    have ks: "?ks \<subseteq> set (concat (map keys (n_kids m0)))" by (rule kid_keys [OF m0(2)])
    have k0: "n_key m0 \<notin> ?ks" using dm ks by (subst (asm) keys_self) auto
    obtain a b where ab: "ns = a @ m0 # b" using m0(1) by (meson split_list)
    have none: "n_key m \<notin> ?ks \<and> removed ?ks m = []" if "m \<in> set a \<union> set b" for m
    proof -
      have "set (keys m) \<inter> set (keys m0) = {}" using d that by (auto simp: ab)
      moreover have "?ks \<subseteq> set (keys m0)" using ks by (subst keys_self) auto
      ultimately have "set (keys m) \<inter> ?ks = {}" by blast
      then show ?thesis using removed_none [of m ?ks] by (simp add: keys_self [of m])
    qed
    have e: "concat (map (\<lambda>m. if n_key m \<in> ?ks then [m] else removed ?ks m) l) = []"
      if "set l \<subseteq> set a \<union> set b" for l
      using that none by (induction l) auto
    have "removed ?ks m0 = n_kids cn" using Node.IH [OF m0(1) dm m0(2)] .
    then show ?thesis using e [of a] e [of b] k0 by (simp add: ab del: concat_eq_Nil_conv)
  qed
qed

lemma find_node_Some:
  assumes "distinct (keys root)"
  shows "find_node root k = Some m \<longleftrightarrow> m \<in> set (nodes root) \<and> n_key m = k"
proof -
  have "find (\<lambda>n. n_key n = k) ns = Some m \<longleftrightarrow> m \<in> set ns \<and> n_key m = k"
    if "distinct (map n_key ns)" for ns :: "node list"
    using that by (induction ns) force+
  then show ?thesis using assms by (simp add: find_node_def keys_def)
qed

lemma nodes_kids: "cn \<in> set (nodes n) \<Longrightarrow> m \<in> set (n_kids cn) \<Longrightarrow> m \<in> set (nodes n)"
proof (induction n rule: node_induct)
  case (Node k t i c h x ns)
  have self: "m \<in> set (nodes m)" by (subst nodes_self) simp
  show ?case
  proof (cases "cn = Node k t i c h x ns")
    case True
    then show ?thesis using Node.prems(2) self by auto
  next
    case False
    then show ?thesis using Node by auto
  qed
qed

lemma nodes_trans: "m \<in> set (nodes n) \<Longrightarrow> m' \<in> set (nodes m) \<Longrightarrow> m' \<in> set (nodes n)"
proof (induction n rule: node_induct)
  case (Node k t i c h x ns)
  then show ?case by (cases "m = Node k t i c h x ns") auto
qed

lemma found_kids:
  assumes "distinct (keys root)" "cn \<in> set (nodes root)"
  shows "List.map_filter (find_node root) (map n_key (n_kids cn)) = n_kids cn"
proof -
  have "find_node root (n_key m) = Some m" if "m \<in> set (n_kids cn)" for m
    using find_node_Some [OF assms(1)] nodes_kids [OF assms(2) that] by simp
  then have "List.map_filter (find_node root) (map n_key l) = l" if "set l \<subseteq> set (n_kids cn)" for l
    using that by (induction l) (auto simp: List.map_filter_simps)
  then show ?thesis by simp
qed

text \<open>A set of elements none of which is inside another.\<close>

definition flat_in :: "node \<Rightarrow> nat set \<Rightarrow> bool" where
  "flat_in root C \<longleftrightarrow> (\<forall>cn \<in> set (nodes root). n_key cn \<in> C \<longrightarrow>
     (\<forall>m \<in> set (concat (map nodes (n_kids cn))). n_key m \<notin> C))"

lemma find_filter: "(\<And>x. q x \<Longrightarrow> p x) \<Longrightarrow> find q xs = find q (filter p xs)"
  by (induction xs) auto

lemma nodes_add:
  assumes none: "\<And>m. m \<in> set ms \<Longrightarrow> filter p (nodes m) = []"
    and p: "\<And>m. p (modify_nodes {t} (add_kids ms) m) = p m"
  shows "filter p (nodes (modify_nodes {t} (add_kids ms) n)) =
    map (modify_nodes {t} (add_kids ms)) (filter p (nodes n))"
proof (induction n rule: node_induct)
  case (Node k t' i c h x ns)
  let ?F = "modify_nodes {t} (add_kids ms)"
  have sub: "filter p (concat (map nodes (map ?F ns))) = map ?F (filter p (concat (map nodes ns)))"
    using Node by (induction ns) auto
  have ms: "filter p (concat (map nodes ms)) = []" using none by (induction ms) auto
  have kids: "n_kids (?F (Node k t' i c h x ns)) = map ?F ns @ (if k = t then ms else [])"
    by (simp add: Let_def add_kids_def)
  have "filter p (concat (map nodes (n_kids (?F (Node k t' i c h x ns))))) = map ?F (filter p (concat (map nodes ns)))"
    unfolding kids using sub ms by simp
  then show ?case
    using p [of "Node k t' i c h x ns"] nodes_self [of "?F (Node k t' i c h x ns)"]
    by (simp del: modify_nodes.simps)
qed

lemma add_sel [simp]:
  "n_key (modify_nodes ks (add_kids ms) n) = n_key n" "n_classes (modify_nodes ks (add_kids ms) n) = n_classes n"
  "n_kids (modify_nodes {t} (add_kids ms) n) = map (modify_nodes {t} (add_kids ms)) (n_kids n) @ (if n_key n = t then ms else [])"
  by (cases n; simp add: Let_def add_kids_def)+

lemma detach_kids: "map n_key (n_kids (detach ks n)) = filter (\<lambda>k. k \<notin> ks) (map n_key (n_kids n))"
proof (cases n)
  case (Node k t i c h x ns)
  have "map n_key (concat (map (\<lambda>m. if n_key m \<in> ks then [] else [detach ks m]) ns)) = filter (\<lambda>k. k \<notin> ks) (map n_key ns)"
    by (induction ns) auto
  then show ?thesis using Node by simp
qed

lemma image_mset_all_attrs: "image_mset fst (mset (concat (map all_attrs l))) = mset (concat (map keys l))"
  by (induction l) (simp_all add: keys_all_attrs)

lemma same_member:
  "distinct (concat (map keys ns)) \<Longrightarrow> y \<in> set ns \<Longrightarrow> z \<in> set ns \<Longrightarrow> a \<in> set (keys y) \<Longrightarrow> a \<in> set (keys z) \<Longrightarrow> y = z"
  by (induction ns) auto

lemma shared_kid:
  "distinct (keys n) \<Longrightarrow> cn \<in> set (nodes n) \<Longrightarrow> en \<in> set (nodes n) \<Longrightarrow>
     m \<in> set (n_kids cn) \<Longrightarrow> m \<in> set (n_kids en) \<Longrightarrow> cn = en"
proof (induction n rule: node_induct)
  case (Node k t i c h x ns)
  let ?n = "Node k t i c h x ns"
  have d: "distinct (concat (map keys ns))" using Node.prems(1) by (simp add: keys_self [of ?n])
  have dm: "distinct (keys y)" if "y \<in> set ns" for y using d that by (induction ns) auto
  have own: "n_key m \<in> set (keys m)" by (simp add: keys_self [of m])
  have below: "n_key m \<in> set (keys y)" "y \<noteq> m" if "y \<in> set ns" "e \<in> set (nodes y)" "m \<in> set (n_kids e)" for y e
  proof -
    have k: "n_key m \<in> set (concat (map keys (n_kids y)))" using kid_keys [OF that(2)] that(3) by auto
    then show "n_key m \<in> set (keys y)" by (simp add: keys_self [of y])
    show "y \<noteq> m" using k dm [OF that(1)] by (auto simp: keys_self [of y])
  qed
  consider "cn = ?n" "en = ?n"
    | (top) y e where "y \<in> set ns" "e \<in> set (nodes y)" "m \<in> set (n_kids e)" "m \<in> set ns"
    | (both) y z where "y \<in> set ns" "z \<in> set ns" "cn \<in> set (nodes y)" "en \<in> set (nodes z)"
    using Node.prems(2-) by auto
  then show ?case
  proof cases
    case top
    then show ?thesis using same_member [OF d top(1,4) below(1) [OF top(1-3)] own] below(2) [OF top(1-3)] by simp
  next
    case both
    then have "y = z" using same_member [OF d both(1,2)] below(1) Node.prems(4,5) by blast
    then show ?thesis using Node.IH [OF both(1) dm] both Node.prems(4,5) by blast
  qed simp
qed

text \<open>Moving the children of one element of such a set to another.\<close>

lemma move_kids:
  assumes d: "distinct (keys root)" and flat: "flat_in root C"
    and c: "c \<in> C" "c \<in> set (keys root)" and t: "t \<in> C" "t \<in> set (keys root)" and ne: "t \<noteq> c"
  shows "\<exists>root'. move_nodes (kids_of root c) t root = Inr root' \<and>
    mset (all_attrs root') = mset (all_attrs root) \<and> flat_in root' C \<and>
    (\<forall>e \<in> C. e \<in> set (keys root) \<longrightarrow> kids_of root' e =
       (if e = t then kids_of root t @ kids_of root c else if e = c then [] else kids_of root e)) \<and>
    map (\<lambda>n. (n_key n, n_classes n)) (filter (\<lambda>n. n_key n \<in> C) (nodes root')) =
    map (\<lambda>n. (n_key n, n_classes n)) (filter (\<lambda>n. n_key n \<in> C) (nodes root))"
proof -
  obtain cn where cn: "cn \<in> set (nodes root)" "n_key cn = c" using c(2) by (auto simp: keys_def)
  let ?ms = "n_kids cn" and ?ks = "n_key ` set (n_kids cn)"
  have ks: "kids_of root c = map n_key ?ms"
    using find_node_Some [OF d, of c cn] cn by (simp add: kids_of_def)
  have ms: "List.map_filter (find_node root) (kids_of root c) = ?ms"
    unfolding ks by (rule found_kids [OF d cn(1)])
  have noC: "n_key m \<notin> C" if "m \<in> set (concat (map nodes ?ms))" for m
    using flat cn c(1) that unfolding flat_in_def by blast
  have tms: "t \<notin> set (concat (map keys ?ms))"
    using noC t(1) by (auto simp: keys_def)
  let ?D = "detach ?ks root" and ?F = "modify_nodes {t} (add_kids ?ms)"
  let ?r = "?F ?D" and ?p = "\<lambda>n. n_key n \<in> C"
  have move: "move_nodes (kids_of root c) t root = Inr ?r"
    using tms ms by (simp add: move_nodes_def append_nodes_def modify_all_def ks Let_def)
  have rem: "removed ?ks root = ?ms" by (rule removed_kids [OF d cn(1)])
  have all: "mset (all_attrs root) = mset (all_attrs ?D) + mset (concat (map all_attrs ?ms))"
    using all_attrs_detach [of root ?ks] rem by simp
  have keysD: "mset (keys root) = mset (keys ?D) + mset (concat (map keys ?ms))"
    using arg_cong [OF all, of "image_mset fst"] by (simp add: image_mset_all_attrs) (simp add: keys_all_attrs)
  have dD: "distinct (keys ?D)"
  proof -
    have "distinct (keys ?D @ concat (map keys ?ms))"
      using d keysD by (metis mset_append mset_eq_imp_distinct_iff)
    then show ?thesis by simp
  qed
  have tD: "t \<in> set (keys ?D)"
    using t(2) tms arg_cong [OF keysD, of set_mset] by auto
  have attrs': "mset (all_attrs ?r) = mset (all_attrs root)"
    using all_attrs_append [OF tms dD] tD all by simp
  have one: "m \<in> set ?ms" if mk: "m \<in> set (nodes root)" "n_key m \<in> ?ks" for m
  proof -
    obtain m' where m': "m' \<in> set ?ms" "n_key m' = n_key m" using mk(2) by auto
    then have "find_node root (n_key m) = Some m" "find_node root (n_key m) = Some m'"
      using find_node_Some [OF d] mk(1) nodes_kids [OF cn(1) m'(1)] by auto
    then show ?thesis using m' by simp
  qed
  have det: "filter ?p (nodes ?D) = map (detach ?ks) (filter ?p (nodes root))"
  proof (rule nodes_detach)
    fix m m' assume m: "m \<in> set (concat (map nodes (n_kids root)))" "n_key m \<in> ?ks" "m' \<in> set (nodes m)"
    have "m \<in> set (nodes root)" using m(1) by (subst nodes_self) simp
    then have "m \<in> set ?ms" using one m(2) by blast
    then show "\<not> ?p m'" using noC m(3) by auto
  qed simp
  have add: "filter ?p (nodes ?r) = map ?F (filter ?p (nodes ?D))"
    by (rule nodes_add) (use noC in \<open>auto simp: filter_empty_conv\<close>)
  have filt: "filter ?p (nodes ?r) = map (\<lambda>n. ?F (detach ?ks n)) (filter ?p (nodes root))"
    using det add by simp
  have found: "find_node ?r e = map_option (\<lambda>n. ?F (detach ?ks n)) (find_node root e)" if "e \<in> C" for e
  proof -
    have "find_node ?r e = find (\<lambda>n. n_key n = e) (filter ?p (nodes ?r))"
      unfolding find_node_def by (rule find_filter) (use that in auto)
    also have "\<dots> = map_option (\<lambda>n. ?F (detach ?ks n)) (find (\<lambda>n. n_key n = e) (filter ?p (nodes root)))"
      unfolding filt by (rule find_map) simp
    also have "find (\<lambda>n. n_key n = e) (filter ?p (nodes root)) = find_node root e"
      unfolding find_node_def by (rule find_filter [symmetric]) (use that in auto)
    finally show ?thesis .
  qed
  have kidsFD: "map n_key (n_kids (?F (detach ?ks n))) =
      filter (\<lambda>k. k \<notin> ?ks) (map n_key (n_kids n)) @ (if n_key n = t then map n_key ?ms else [])" for n
    by (simp add: o_def detach_kids)
  have kids: "kids_of ?r e = (if e = t then kids_of root t @ kids_of root c else if e = c then [] else kids_of root e)"
    if e: "e \<in> C" "e \<in> set (keys root)" for e
  proof -
    obtain en where en: "find_node root e = Some en" "en \<in> set (nodes root)" "n_key en = e"
      using e(2) find_node_Some [OF d] by (auto simp: keys_def)
    have "filter (\<lambda>k. k \<notin> ?ks) (map n_key (n_kids en)) = (if e = c then [] else map n_key (n_kids en))"
    proof (cases "e = c")
      case True
      then have "en = cn" using en find_node_Some [OF d, of c cn] cn by simp
      then show ?thesis using True by (simp add: filter_empty_conv)
    next
      case False
      have "k \<notin> ?ks" if "k \<in> set (map n_key (n_kids en))" for k
      proof
        assume "k \<in> ?ks"
        obtain m where m: "m \<in> set (n_kids en)" "n_key m = k" using \<open>k \<in> set (map n_key (n_kids en))\<close> by auto
        then have "m \<in> set ?ms" using one nodes_kids [OF en(2)] \<open>k \<in> ?ks\<close> by blast
        have "removed (n_key ` set (n_kids en)) root = n_kids en" by (rule removed_kids [OF d en(2)])
        then show False using m \<open>m \<in> set ?ms\<close> False en cn shared_kid [OF d cn(1) en(2)] by blast
      qed
      then show ?thesis using False by (simp add: filter_id_conv)
    qed
    moreover have "kids_of root e = map n_key (n_kids en)" using en(1) by (simp add: kids_of_def)
    moreover have "kids_of ?r e = map n_key (n_kids (?F (detach ?ks en)))"
      using found [OF e(1)] en(1) by (simp only: kids_of_def option.map option.case)
    ultimately show ?thesis using kidsFD [of en] en(3) ks ne by auto
  qed
  have flat': "flat_in ?r C"
    unfolding flat_in_def
  proof (intro ballI impI)
    fix rn m assume rn: "rn \<in> set (nodes ?r)" "n_key rn \<in> C" and m: "m \<in> set (concat (map nodes (n_kids rn)))"
    have "rn \<in> set (filter ?p (nodes ?r))" using rn by simp
    then obtain n where n: "n \<in> set (nodes root)" "n_key n \<in> C" "rn = ?F (detach ?ks n)"
      unfolding filt by auto
    have "filter ?p (concat (map nodes (n_kids n))) = []"
      using flat n(1,2) unfolding flat_in_def by (simp add: filter_empty_conv)
    then have "filter ?p (nodes n) = [n]" using n(2) by (subst nodes_self) simp
    moreover have "filter ?p (nodes (detach ?ks n)) = map (detach ?ks) (filter ?p (nodes n))"
    proof (rule nodes_detach)
      fix a a' assume a: "a \<in> set (concat (map nodes (n_kids n)))" "n_key a \<in> ?ks" "a' \<in> set (nodes a)"
      have "a \<in> set (nodes n)" using a(1) by (subst nodes_self) simp
      then have "a \<in> set ?ms" using one nodes_trans [OF n(1)] a(2) by blast
      then show "\<not> ?p a'" using noC a(3) by auto
    qed simp
    moreover have "filter ?p (nodes rn) = map ?F (filter ?p (nodes (detach ?ks n)))"
      unfolding n(3) by (rule nodes_add) (use noC in \<open>auto simp: filter_empty_conv\<close>)
    ultimately have "filter ?p (nodes rn) = [rn]" using n(3) by simp
    then have "filter ?p (concat (map nodes (n_kids rn))) = []" using rn(2) by (subst (asm) nodes_self) simp
    then show "n_key m \<notin> C" using m by (auto simp: filter_empty_conv)
  qed
  show ?thesis using move attrs' flat' kids filt by (intro exI [of _ ?r]) (auto simp: o_def)
qed

end
