(* ===== verification/SitePage.thy ===== *)
theory SitePage
  imports Dom KoUtils
begin

text \<open>
  \<open>SiteScripts.js\<close>: the click handlers that change the layout of the dashboard page, and the
  view model of the request list. A handler is a function of the document; it gives
  \<^const>\<open>Inl\<close> when the browser throws. The \<open>sortable\<close> set-up of the columns (lines 43-53) and
  the request to the server (lines 106-112) only call libraries.
\<close>

subsection \<open>Layouts\<close>

definition move_hidden_columns :: "node \<Rightarrow> node res" where
  "move_hidden_columns root =
     rfold (\<lambda>k r. appendTo (kids_of r k) (take 1 (by_class ''dashboardCol'' r)) r)
       (by_class ''nonsortable'' root) root"

definition set_layout_classes :: "string list \<Rightarrow> string \<Rightarrow> nat \<Rightarrow> node \<Rightarrow> node" where
  "set_layout_classes old new keep root =
     (let r1 = removeClasses old (by_class ''dashboard'' root) root;
          r2 = addClass new (by_class ''dashboard'' r1) r1;
          r3 = removeClasses [''nonsortable''] (by_class ''dashboardCol'' r2) r2
      in addClass ''nonsortable'' (drop keep (by_class ''dashboardCol'' r3)) r3)"

definition one_column :: "node \<Rightarrow> node res" where
  "one_column root = move_hidden_columns (set_layout_classes [''layout-aa'', ''layout-aaa''] ''layout-a'' 1 root)"

definition two_column :: "node \<Rightarrow> node res" where
  "two_column root = move_hidden_columns (set_layout_classes [''layout-a'', ''layout-aaa''] ''layout-aa'' 2 root)"

definition three_column :: "node \<Rightarrow> node res" where
  "three_column root =
     (let r1 = removeClasses [''layout-a'', ''layout-aa''] (by_class ''dashboard'' root) root;
          r2 = addClass ''layout-aaa'' (by_class ''dashboard'' r1) r1
      in Inr (removeClasses [''nonsortable''] (by_class ''dashboardCol'' r2) r2))"

text \<open>The pages these handlers are written for: no column inside a column, and only columns
  carry the class \<open>nonsortable\<close>.\<close>

definition column_page :: "node \<Rightarrow> bool" where
  "column_page root \<longleftrightarrow> distinct (keys root) \<and> flat_in root (set (by_class ''dashboardCol'' root)) \<and>
     set (by_class ''nonsortable'' root) \<subseteq> set (by_class ''dashboardCol'' root)"

lemma select_cong: "(\<And>n. n \<in> set (nodes root) \<Longrightarrow> p n = q n) \<Longrightarrow> select p root = select q root"
  unfolding select_def by (simp cong: filter_cong)

lemma select_keys: "set (select p root) \<subseteq> set (keys root)" "distinct (keys root) \<Longrightarrow> distinct (select p root)"
  by (auto simp: select_def keys_def distinct_map_filter)

text \<open>The columns with their classes, in document order.\<close>

definition column_classes :: "nat set \<Rightarrow> node \<Rightarrow> (nat \<times> string list) list" where
  "column_classes C root = map (\<lambda>n. (n_key n, n_classes n)) (filter (\<lambda>n. n_key n \<in> C) (nodes root))"

lemma select_class_columns:
  assumes "set (by_class c root) \<subseteq> C"
  shows "by_class c root = map fst (filter (\<lambda>(k, cs). c \<in> set cs) (column_classes C root))"
proof -
  have "\<forall>n \<in> set (nodes root). has_class c n \<longrightarrow> n_key n \<in> C"
    using assms by (auto simp: by_class_def select_def)
  then have "filter (has_class c) (nodes root) = filter (has_class c) (filter (\<lambda>n. n_key n \<in> C) (nodes root))"
    unfolding filter_filter by (intro filter_cong) auto
  then show ?thesis
    by (simp add: by_class_def select_def column_classes_def filter_map o_def has_class_def)
qed

lemma by_class_attrs: "set (by_class c root) = {k. \<exists>t i cs h x. (k, t, i, cs, h, x) \<in> set (all_attrs root) \<and> c \<in> set cs}"
proof -
  have "(k, t, i, cs, h, x) \<in> set (all_attrs root) \<longleftrightarrow> (\<exists>n \<in> set (nodes root). attrs n = (k, t, i, cs, h, x))" for k t i cs h x
    by (simp add: all_attrs_def image_iff) metis
  then have "{k. \<exists>t i cs h x. (k, t, i, cs, h, x) \<in> set (all_attrs root) \<and> c \<in> set cs} =
      {k. \<exists>n \<in> set (nodes root). n_key n = k \<and> c \<in> set (n_classes n)}"
    by (simp add: attrs_def) blast
  then show ?thesis by (auto simp: by_class_def select_def has_class_def)
qed

text \<open>The loop over the hidden columns.\<close>

lemma by_class_moved:
  assumes "mset (all_attrs r) = mset (all_attrs root)" "column_classes C r = column_classes C root"
    and "set (by_class c root) \<subseteq> C"
  shows "by_class c r = by_class c root"
proof -
  have "set (all_attrs r) = set (all_attrs root)" using assms(1) by (rule mset_eq_setD)
  then have "set (by_class c r) \<subseteq> C" using assms(3) by (simp add: by_class_attrs)
  then show ?thesis using select_class_columns [of c r C] select_class_columns [OF assms(3)] assms(2) by simp
qed

abbreviation move_hidden_column :: "nat \<Rightarrow> node \<Rightarrow> node res" where
  "move_hidden_column k r \<equiv> appendTo (kids_of r k) (take 1 (by_class ''dashboardCol'' r)) r"

lemma move_columns:
  assumes "distinct (keys root)" "flat_in root C" "by_class ''dashboardCol'' root = t # cols" "C = set (t # cols)"
    "distinct hs" "t \<notin> set hs" "set hs \<subseteq> C" "C \<subseteq> set (keys root)"
  shows "\<exists>root'. rfold move_hidden_column hs root = Inr root' \<and>
    mset (all_attrs root') = mset (all_attrs root) \<and> flat_in root' C \<and>
    column_classes C root' = column_classes C root \<and>
    kids_of root' t = kids_of root t @ concat (map (kids_of root) hs) \<and>
    (\<forall>e \<in> C. e \<noteq> t \<longrightarrow> kids_of root' e = (if e \<in> set hs then [] else kids_of root e))"
  using assms
proof (induction hs arbitrary: root)
  case Nil
  then show ?case by simp
next
  case (Cons k hs)
  have t: "t \<in> C" "t \<in> set (keys root)" and k: "k \<in> C" "k \<in> set (keys root)" "t \<noteq> k"
    using Cons.prems(4,6-8) by auto
  obtain r1 where r1: "move_nodes (kids_of root k) t root = Inr r1"
    "mset (all_attrs r1) = mset (all_attrs root)" "flat_in r1 C"
    "\<forall>e \<in> C. e \<in> set (keys root) \<longrightarrow> kids_of r1 e =
       (if e = t then kids_of root t @ kids_of root k else if e = k then [] else kids_of root e)"
    "column_classes C r1 = column_classes C root"
    using move_kids [OF Cons.prems(1,2) k(1,2) t k(3)] unfolding column_classes_def by auto
  have step: "move_hidden_column k root = Inr r1" using Cons.prems(3) r1(1) by (simp add: appendTo_def)
  have keys: "mset (keys r1) = mset (keys root)"
    using arg_cong [OF r1(2), of "image_mset fst"] by (simp add: keys_all_attrs)
  have dk: "distinct (keys r1)" using Cons.prems(1) mset_eq_imp_distinct_iff [OF keys] by simp
  have sk: "set (keys r1) = set (keys root)" using keys by (rule mset_eq_setD)
  have cols: "by_class ''dashboardCol'' r1 = t # cols"
    using by_class_moved [OF r1(2,5)] Cons.prems(3,4) by simp
  have kids: "kids_of r1 e = (if e = t then kids_of root t @ kids_of root k else if e = k then [] else kids_of root e)"
    if "e \<in> C" for e using r1(4) that Cons.prems(8) by blast
  have same: "map (kids_of r1) hs = map (kids_of root) hs"
    using kids Cons.prems(5-7) by auto
  obtain root' where root': "rfold move_hidden_column hs r1 = Inr root'"
    "mset (all_attrs root') = mset (all_attrs r1)" "flat_in root' C"
    "column_classes C root' = column_classes C r1"
    "kids_of root' t = kids_of r1 t @ concat (map (kids_of r1) hs)"
    "\<forall>e \<in> C. e \<noteq> t \<longrightarrow> kids_of root' e = (if e \<in> set hs then [] else kids_of r1 e)"
    using Cons.IH [OF dk r1(3) cols Cons.prems(4)] Cons.prems(5-8) sk by auto
  have "kids_of root' t = kids_of root t @ concat (map (kids_of root) (k # hs))"
    using root'(5) kids t(1) same by simp
  moreover have "\<forall>e \<in> C. e \<noteq> t \<longrightarrow> kids_of root' e = (if e \<in> set (k # hs) then [] else kids_of root e)"
    using root'(6) kids Cons.prems(5) by auto
  ultimately show ?case using step r1(2,5) root'(1-4) by (intro exI [of _ root']) simp
qed

lemma filter_drop_filter:
  assumes "distinct xs" "ys = filter P xs"
  shows "filter (\<lambda>x. x \<in> set (drop n ys)) xs = drop n ys"
proof -
  have d: "distinct ys" using assms by simp
  have "filter (\<lambda>x. x \<in> set (drop n ys)) ys = drop n ys"
  proof -
    have "filter (\<lambda>x. x \<in> set (drop n ys)) (take n ys @ drop n ys) = drop n ys"
      using set_take_disj_set_drop_if_distinct [OF d, of n n]
      by (simp only: filter_append) (auto simp: filter_empty_conv filter_id_conv)
    then show ?thesis by simp
  qed
  moreover have "filter (\<lambda>x. x \<in> set (drop n ys)) xs = filter (\<lambda>x. x \<in> set (drop n ys)) ys"
    unfolding assms(2) filter_filter by (intro filter_cong) (auto dest: in_set_dropD)
  ultimately show ?thesis by simp
qed

lemma select_drop:
  assumes "distinct (keys root)"
  shows "select (\<lambda>n. n_key n \<in> set (drop k (select p root))) root = drop k (select p root)"
proof -
  have s: "select q root = filter (\<lambda>x. \<exists>n \<in> set (nodes root). n_key n = x \<and> q n) (keys root)" for q
  proof -
    have "map n_key (filter q ns) = filter (\<lambda>x. \<exists>n \<in> set ns. n_key n = x \<and> q n) (map n_key ns)"
      if "distinct (map n_key ns)" for ns :: "node list"
      using that
    proof (induction ns)
      case (Cons a ns)
      have "filter (\<lambda>x. \<exists>n \<in> set (a # ns). n_key n = x \<and> q n) (map n_key ns) =
          filter (\<lambda>x. \<exists>n \<in> set ns. n_key n = x \<and> q n) (map n_key ns)"
        using Cons.prems by (intro filter_cong) auto
      moreover have "(\<exists>n \<in> set (a # ns). n_key n = n_key a \<and> q n) \<longleftrightarrow> q a"
      using Cons.prems by (auto simp: image_iff)
      ultimately show ?case using Cons by (cases "q a") simp_all
    qed simp
    then show ?thesis using assms by (simp add: select_def keys_def)
  qed
  have "select (\<lambda>n. n_key n \<in> K) root = filter (\<lambda>x. x \<in> K) (keys root)" for K
    by (simp add: select_def keys_def filter_map o_def)
  then show ?thesis using filter_drop_filter [OF assms s [of p]] by simp
qed

lemma flat_in_classes:
  "flat_in (addClass c ks root) C \<longleftrightarrow> flat_in root C" "flat_in (removeClasses cs ks root) C \<longleftrightarrow> flat_in root C"
proof -
  have "flat_in (modify_nodes ks (set_classes f) root) C \<longleftrightarrow> flat_in root C" for ks f
  proof -
    have "concat (map nodes (map (modify_nodes ks (set_classes f)) ns)) =
        map (modify_nodes ks (set_classes f)) (concat (map nodes ns))" for ns
      by (induction ns) (simp_all add: nodes_modify)
    then show ?thesis by (simp add: flat_in_def nodes_modify modify_kids modify_sel)
  qed
  then show "flat_in (addClass c ks root) C \<longleftrightarrow> flat_in root C" "flat_in (removeClasses cs ks root) C \<longleftrightarrow> flat_in root C"
    by (simp_all add: addClass_def removeClasses_def modify_all_def)
qed

text \<open>The document after the classes have been set.\<close>

lemma select_all: "select (\<lambda>n. p n \<and> n_key n \<notin> set (select p root)) root = []"
  by (auto simp: select_def filter_empty_conv)

lemma by_class_other:
  "d \<noteq> c \<Longrightarrow> by_class d (addClass c ks r) = by_class d r"
  "d \<notin> set cs \<Longrightarrow> by_class d (removeClasses cs ks r) = by_class d r"
  unfolding by_class_addClass by_class_removeClasses by (simp_all add: by_class_def)

lemma by_class_removed: "set (by_class c r) \<subseteq> set ks \<Longrightarrow> by_class c (removeClasses [c] ks r) = []"
  by (auto simp: by_class_removeClasses) (auto simp: by_class_def select_def filter_empty_conv)

lemma set_layout_classes_page:
  fixes keep :: nat
  assumes page: "column_page root" and names: "new \<noteq> ''dashboardCol''" "new \<noteq> ''nonsortable''"
    "''dashboardCol'' \<notin> set old" "''nonsortable'' \<notin> set old"
  defines "r \<equiv> set_layout_classes old new keep root"
  shows "by_class ''dashboardCol'' r = by_class ''dashboardCol'' root"
    and "by_class ''nonsortable'' r = drop keep (by_class ''dashboardCol'' root)"
    and "kids_of r = kids_of root" "keys r = keys root" "flat_in r C \<longleftrightarrow> flat_in root C"
proof -
  let ?cols = "by_class ''dashboardCol'' root"
  let ?r1 = "removeClasses old (by_class ''dashboard'' root) root"
  let ?r2 = "addClass new (by_class ''dashboard'' ?r1) ?r1"
  let ?r3 = "removeClasses [''nonsortable''] (by_class ''dashboardCol'' ?r2) ?r2"
  have c2: "by_class ''dashboardCol'' ?r2 = ?cols"
    using names by (auto simp: by_class_other)
  have n2: "by_class ''nonsortable'' ?r2 = by_class ''nonsortable'' root"
    using names by (auto simp: by_class_other)
  have c3: "by_class ''dashboardCol'' ?r3 = ?cols"
    using c2 by (simp add: by_class_other)
  have n3: "by_class ''nonsortable'' ?r3 = []"
  proof -
    have "set (by_class ''nonsortable'' ?r2) \<subseteq> set (by_class ''dashboardCol'' ?r2)"
      using page unfolding n2 c2 by (simp add: column_page_def)
    then show ?thesis by (rule by_class_removed)
  qed
  have r: "r = addClass ''nonsortable'' (drop keep ?cols) ?r3"
    by (simp add: r_def set_layout_classes_def Let_def c3)
  show "by_class ''dashboardCol'' r = ?cols"
    using c3 by (simp add: r by_class_other)
  have keys: "distinct (keys ?r3)" using page by (simp add: column_page_def)
  have "by_class ''nonsortable'' r = select (\<lambda>n. n_key n \<in> set (drop keep ?cols)) ?r3"
  proof -
    have "\<forall>n \<in> set (nodes ?r3). \<not> has_class ''nonsortable'' n"
      using n3 by (simp add: by_class_def select_def filter_empty_conv)
    then show ?thesis unfolding r by_class_addClass by (intro select_cong) simp
  qed
  also have "\<dots> = drop keep ?cols"
    using select_drop [OF keys, of keep "has_class ''dashboardCol''"] c3 by (simp add: by_class_def)
  finally show "by_class ''nonsortable'' r = drop keep ?cols" .
  show "kids_of r = kids_of root" "keys r = keys root" "flat_in r C \<longleftrightarrow> flat_in root C"
    by (simp_all add: r fun_eq_iff flat_in_classes)
qed

text \<open>What the two hiding handlers do: the first \<open>keep\<close> columns stay, the widgets of the others
  go to the end of the first one, in the order of the columns.\<close>

lemma layout_handler:
  assumes page: "column_page root" and cols: "by_class ''dashboardCol'' root = t # cols" and keep: "0 < keep"
    and names: "new \<noteq> ''dashboardCol''" "new \<noteq> ''nonsortable''" "''dashboardCol'' \<notin> set old" "''nonsortable'' \<notin> set old"
  shows "\<exists>root'. move_hidden_columns (set_layout_classes old new keep root) = Inr root' \<and>
    by_class ''dashboardCol'' root' = t # cols \<and>
    by_class ''nonsortable'' root' = drop keep (t # cols) \<and>
    kids_of root' t = kids_of root t @ concat (map (kids_of root) (drop keep (t # cols))) \<and>
    (\<forall>c \<in> set (drop keep (t # cols)). kids_of root' c = []) \<and>
    (\<forall>c \<in> set (take (keep - 1) cols). kids_of root' c = kids_of root c) \<and>
    mset (keys root') = mset (keys root)"
proof -
  let ?r = "set_layout_classes old new keep root" and ?C = "set (t # cols)"
  let ?hs = "drop keep (t # cols)"
  note r = set_layout_classes_page [OF page names, of keep]
  have dist: "distinct (t # cols)"
    using page select_keys(2) [of root "has_class ''dashboardCol''"] cols by (simp add: column_page_def by_class_def)
  have hs: "?hs = drop (keep - 1) cols" using keep by (cases keep) auto
  have sub: "?C \<subseteq> set (keys root)"
    using select_keys(1) [of "has_class ''dashboardCol''" root] cols by (simp add: by_class_def)
  have "distinct ?hs" "t \<notin> set ?hs" "set ?hs \<subseteq> ?C"
    using dist by (auto simp: hs dest: in_set_dropD)
  moreover have "distinct (keys ?r)" "flat_in ?r ?C" "by_class ''dashboardCol'' ?r = t # cols" "?C \<subseteq> set (keys ?r)"
    using page r cols sub by (simp_all add: column_page_def)
  ultimately obtain root' where root': "rfold move_hidden_column ?hs ?r = Inr root'"
    "mset (all_attrs root') = mset (all_attrs ?r)" "column_classes ?C root' = column_classes ?C ?r"
    "kids_of root' t = kids_of ?r t @ concat (map (kids_of ?r) ?hs)"
    "\<forall>e \<in> ?C. e \<noteq> t \<longrightarrow> kids_of root' e = (if e \<in> set ?hs then [] else kids_of ?r e)"
    using move_columns [of ?r ?C t cols ?hs] by auto
  have "move_hidden_columns ?r = Inr root'" using root'(1) r(2) cols by (simp add: move_hidden_columns_def)
  moreover have "by_class ''dashboardCol'' root' = t # cols"
    using by_class_moved [OF root'(2,3)] r(1) cols by simp
  moreover have "by_class ''nonsortable'' root' = ?hs"
    using by_class_moved [OF root'(2,3), of "''nonsortable''"] r(2) cols hs by (auto dest: in_set_dropD)
  moreover have "mset (keys root') = mset (keys root)"
    using arg_cong [OF root'(2), of "image_mset fst"] arg_cong [OF r(4), of mset]
    by (simp only: keys_all_attrs mset_map)
  moreover have "\<forall>c \<in> set ?hs. kids_of root' c = []"
    using root'(5) \<open>t \<notin> set ?hs\<close> \<open>set ?hs \<subseteq> ?C\<close> by (metis subsetD)
  moreover have "\<forall>c \<in> set (take (keep - 1) cols). kids_of root' c = kids_of root c"
  proof
    fix c assume c: "c \<in> set (take (keep - 1) cols)"
    then have "c \<in> set cols" "c \<noteq> t" using dist by (auto dest: in_set_takeD)
    moreover have "c \<notin> set ?hs"
      using c dist set_take_disj_set_drop_if_distinct [of cols "keep - 1" "keep - 1"] by (auto simp: hs)
    ultimately show "kids_of root' c = kids_of root c" using root'(5) r(3) by simp
  qed
  ultimately show ?thesis using root'(4) r(3) by (intro exI [of _ root']) simp
qed

text \<open>C17: one column keeps every widget. On a page of the expected shape the handler returns; the
  first column ends with its own widgets followed by those of the other columns in order,
  the others are empty and hidden, and no element of the page is lost or doubled.\<close>

theorem one_column_keeps_widgets:
  assumes "column_page root" and "by_class ''dashboardCol'' root = t # cols"
  shows "\<exists>root'. one_column root = Inr root' \<and>
    by_class ''nonsortable'' root' = cols \<and>
    kids_of root' t = concat (map (kids_of root) (t # cols)) \<and>
    (\<forall>c \<in> set cols. kids_of root' c = []) \<and> mset (keys root') = mset (keys root)"
  using layout_handler [OF assms, of 1 "''layout-a''" "[''layout-aa'', ''layout-aaa'']"]
  by (auto simp: one_column_def)

text \<open>Two columns. The second column keeps its widgets, those of the third and later ones go
  to the end of the first.\<close>

theorem two_column_keeps_widgets:
  assumes "column_page root" and "by_class ''dashboardCol'' root = t # u # cols"
  shows "\<exists>root'. two_column root = Inr root' \<and>
    by_class ''nonsortable'' root' = cols \<and>
    kids_of root' t = kids_of root t @ concat (map (kids_of root) cols) \<and> kids_of root' u = kids_of root u \<and>
    (\<forall>c \<in> set cols. kids_of root' c = []) \<and> mset (keys root') = mset (keys root)"
  using layout_handler [OF assms, of 2 "''layout-aa''" "[''layout-a'', ''layout-aaa'']"]
  by (auto simp: two_column_def)

text \<open>A page with three columns and four widgets.\<close>

definition elem :: "nat \<Rightarrow> string list \<Rightarrow> node list \<Rightarrow> node" where
  "elem k cs ns = Node k ''div'' '''' cs False '''' ns"

definition sample_page :: node where
  "sample_page = elem 0 [] [elem 1 [''dashboard'', ''layout-aaa'']
     [elem 2 [''dashboardCol''] [elem 5 [] []], elem 3 [''dashboardCol''] [elem 6 [] []],
      elem 4 [''dashboardCol''] [elem 7 [] [], elem 8 [] []]]]"

lemma sample_page_shape:
  "column_page sample_page" "by_class ''dashboardCol'' sample_page = [2, 3, 4]"
  "map (kids_of sample_page) [2, 3, 4] = [[5], [6], [7, 8]]"
  by code_simp+

theorem one_column_keeps_widgets_witness:
  "\<exists>root'. one_column sample_page = Inr root' \<and> kids_of root' 2 = [5, 6, 7, 8]"
  using one_column_keeps_widgets [OF sample_page_shape(1,2)] sample_page_shape(3) by auto

theorem two_column_keeps_widgets_witness:
  "\<exists>root'. two_column sample_page = Inr root' \<and> kids_of root' 2 = [5, 7, 8] \<and> kids_of root' 3 = [6]"
  using two_column_keeps_widgets [OF sample_page_shape(1,2)] sample_page_shape(3) by auto

subsection \<open>The request list\<close>

text \<open>
  The view model over the requests the server sends. A request is known by its place in the
  list; of the fields that \<open>ko.mapping\<close> makes observable only \<open>State\<close> is read here.
  \<open>isCompleted\<close> is a computed over it. \<open>sendMessage\<close> reads the selection and does nothing.
\<close>

record request =
  rq_State :: int
  rq_isSelected :: bool

record main_view =
  mv_requests :: "request list"
  mv_selectedRequest :: "nat option"
  mv_currentMessage :: "string option"

definition requestViewModel :: "int \<Rightarrow> request" where
  "requestViewModel state = \<lparr>rq_State = state, rq_isSelected = False\<rparr>"

definition isCompleted :: "request \<Rightarrow> bool" where
  "isCompleted r \<longleftrightarrow> rq_State r = 10"

definition mainViewModel :: "int list \<Rightarrow> main_view" where
  "mainViewModel states =
     \<lparr>mv_requests = map requestViewModel states, mv_selectedRequest = None, mv_currentMessage = None\<rparr>"

definition sendMessage :: "main_view \<Rightarrow> main_view" where
  "sendMessage v = v"

definition set_selected :: "nat \<Rightarrow> bool \<Rightarrow> main_view \<Rightarrow> main_view" where
  "set_selected i b v = v\<lparr>mv_requests := (mv_requests v)[i := (mv_requests v ! i)\<lparr>rq_isSelected := b\<rparr>]\<rparr>"

definition selectRequest :: "nat \<Rightarrow> main_view \<Rightarrow> main_view" where
  "selectRequest request v =
     (let v1 = arrayForEach [0..<length (mv_requests v)]
                 (\<lambda>item v. if item \<noteq> request then set_selected item False v else v) v;
          v2 = set_selected request True v1
      in v2\<lparr>mv_selectedRequest := Some request\<rparr>)"

datatype view_call = Select nat | SendMessage

fun view_step :: "view_call \<Rightarrow> main_view \<Rightarrow> main_view" where
  "view_step (Select i) v = (if i < length (mv_requests v) then selectRequest i v else v)"
| "view_step SendMessage v = sendMessage v"

definition selection_ok :: "int list \<Rightarrow> main_view \<Rightarrow> bool" where
  "selection_ok states v \<longleftrightarrow> map rq_State (mv_requests v) = states \<and>
     (\<forall>i < length (mv_requests v). rq_isSelected (mv_requests v ! i) \<longleftrightarrow> mv_selectedRequest v = Some i)"

lemma deselect_others:
  fixes r :: nat
  assumes "n \<le> length (mv_requests v)"
  defines "v' \<equiv> fold (\<lambda>item v. if item \<noteq> r then set_selected item False v else v) [0..<n] v"
  shows "length (mv_requests v') = length (mv_requests v) \<and>
    (\<forall>i < length (mv_requests v). mv_requests v' ! i =
       (if i < n \<and> i \<noteq> r then (mv_requests v ! i)\<lparr>rq_isSelected := False\<rparr> else mv_requests v ! i))"
  using assms(1) unfolding v'_def
  by (induction n) (auto simp: set_selected_def nth_list_update less_Suc_eq)

lemma selectRequest_requests:
  assumes "r < length (mv_requests v)"
  shows "length (mv_requests (selectRequest r v)) = length (mv_requests v)"
    and "i < length (mv_requests v) \<Longrightarrow> mv_requests (selectRequest r v) ! i =
      (mv_requests v ! i)\<lparr>rq_isSelected := (i = r)\<rparr>"
    and "mv_selectedRequest (selectRequest r v) = Some r"
  using assms deselect_others [of "length (mv_requests v)" v r]
  by (auto simp: selectRequest_def Let_def arrayForEach_def set_selected_def nth_list_update)

interpretation view: machine view_step "selection_ok states" for states
proof
  fix v e assume ok: "selection_ok states v"
  show "selection_ok states (view_step e v)"
  proof (cases e)
    case (Select r)
    show ?thesis
    proof (cases "r < length (mv_requests v)")
      case True
      have "map rq_State (mv_requests (selectRequest r v)) = map rq_State (mv_requests v)"
        by (rule nth_equalityI) (simp_all add: selectRequest_requests [OF True])
      then show ?thesis using ok Select True
        by (auto simp: selection_ok_def selectRequest_requests [OF True])
    next
      case False
      then show ?thesis using ok Select by simp
    qed
  next
    case SendMessage
    then show ?thesis using ok by (simp add: sendMessage_def)
  qed
qed

text \<open>At every moment a request is shown as selected exactly when it is the selected one, and
  selecting never changes what a request holds.\<close>

theorem one_request_selected:
  "selection_ok states (fold view_step calls (mainViewModel states))"
  by (rule view.inv_run) (simp add: selection_ok_def mainViewModel_def requestViewModel_def o_def)

end
