(* ===== verification/Action.thy ===== *)
theory Action
  imports Prelude
begin

text \<open>
  Code that changes state and may throw, as a function of the state: it gives the exception or
  the value, and the state at that point, so what was done before an exception stays done. The
  collection \<open>act_simps\<close> runs such code, \<open>keeps_intros\<close> proves that it keeps a predicate.
\<close>

named_theorems act_simps \<open>running actions\<close>
named_theorems keeps_intros \<open>actions that keep a predicate\<close>

type_synonym ('s, 'a) act = "'s \<Rightarrow> (js_error + 'a) \<times> 's"

definition areturn :: "'a \<Rightarrow> ('s, 'a) act" where
  "areturn x s = (Inr x, s)"

definition athrow :: "js_error \<Rightarrow> ('s, 'a) act" where
  "athrow e s = (Inl e, s)"

definition abind :: "('s, 'a) act \<Rightarrow> ('a \<Rightarrow> ('s, 'b) act) \<Rightarrow> ('s, 'b) act" where
  "abind m f s = (case m s of (Inl e, s') \<Rightarrow> (Inl e, s') | (Inr x, s') \<Rightarrow> f x s')"

definition athen :: "('s, 'a) act \<Rightarrow> ('s, 'b) act \<Rightarrow> ('s, 'b) act" where
  "athen m k = abind m (\<lambda>_. k)"

definition aget_state :: "('s \<Rightarrow> 'a) \<Rightarrow> ('s, 'a) act" where
  "aget_state f s = (Inr (f s), s)"

definition amodify :: "('s \<Rightarrow> 's) \<Rightarrow> ('s, unit) act" where
  "amodify f s = (Inr (), f s)"

text \<open>Code whose choice of what to do reads the state.\<close>

definition ado :: "('s \<Rightarrow> ('s, 'a) act) \<Rightarrow> ('s, 'a) act" where
  "ado f s = f s s"

definition aof :: "js_error + 'a \<Rightarrow> ('s, 'a) act" where
  "aof r s = (r, s)"

definition awhen :: "bool \<Rightarrow> ('s, unit) act \<Rightarrow> ('s, unit) act" where
  "awhen b m = (if b then m else areturn ())"

text \<open>Statements in sequence, and a loop over a list fixed in advance.\<close>

fun aseq :: "('s, unit) act list \<Rightarrow> ('s, unit) act" where
  "aseq [] = areturn ()"
| "aseq (m # ms) = athen m (aseq ms)"

fun aeach :: "('x \<Rightarrow> ('s, unit) act) \<Rightarrow> 'x list \<Rightarrow> ('s, unit) act" where
  "aeach f [] = areturn ()"
| "aeach f (x # xs) = athen (f x) (aeach f xs)"

fun amap :: "('x \<Rightarrow> ('s, 'y) act) \<Rightarrow> 'x list \<Rightarrow> ('s, 'y list) act" where
  "amap f [] = areturn []"
| "amap f (x # xs) = abind (f x) (\<lambda>y. abind (amap f xs) (\<lambda>ys. areturn (y # ys)))"

text \<open>What is left of the state, whether or not an exception came.\<close>

definition after :: "('s, 'a) act \<Rightarrow> 's \<Rightarrow> 's" where
  "after m s = snd (m s)"

lemma areturn_run [act_simps]: "areturn x s = (Inr x, s)" by (simp add: areturn_def)
lemma athrow_run [act_simps]: "athrow e s = (Inl e, s)" by (simp add: athrow_def)
lemma aget_state_run [act_simps]: "aget_state f s = (Inr (f s), s)" by (simp add: aget_state_def)
lemma amodify_run [act_simps]: "amodify f s = (Inr (), f s)" by (simp add: amodify_def)
lemma ado_run [act_simps]: "ado f s = f s s" by (simp add: ado_def)
lemma aof_run [act_simps]: "aof r s = (r, s)" by (simp add: aof_def)

lemma abind_run [act_simps]:
  "m s = (Inr x, s') \<Longrightarrow> abind m f s = f x s'"
  "m s = (Inl e, s') \<Longrightarrow> abind m f s = (Inl e, s')"
  by (simp_all add: abind_def)

lemma athen_run [act_simps]:
  "m s = (Inr x, s') \<Longrightarrow> athen m k s = k s'"
  "m s = (Inl e, s') \<Longrightarrow> athen m k s = (Inl e, s')"
  by (simp_all add: athen_def abind_def)

lemma awhen_run [act_simps]: "awhen b m s = (if b then m s else (Inr (), s))"
  by (simp add: awhen_def areturn_def)

lemma abind_areturn [simp]: "abind (areturn x) f = f x"
  by (rule ext) (simp add: abind_def areturn_def)

lemma abind_assoc: "abind (abind m f) g = abind m (\<lambda>x. abind (f x) g)"
  by (rule ext) (simp add: abind_def split: prod.split sum.split)

lemma aeach_append: "aeach f (xs @ ys) = athen (aeach f xs) (aeach f ys)"
  by (induction xs) (simp_all add: athen_def abind_assoc)

text \<open>A loop over calls that cannot throw.\<close>

lemma aeach_total:
  assumes "\<And>x s. f x s = (Inr (), g x s)"
  shows "aeach f xs s = (Inr (), fold g xs s)"
  by (induction xs arbitrary: s) (simp_all add: act_simps assms)

subsection \<open>Predicates that an action keeps\<close>

definition keeps :: "('s \<Rightarrow> bool) \<Rightarrow> ('s, 'a) act \<Rightarrow> bool" where
  "keeps P m \<longleftrightarrow> (\<forall>s. P s \<longrightarrow> P (snd (m s)))"

lemma keepsD: "keeps P m \<Longrightarrow> P s \<Longrightarrow> m s = (r, s') \<Longrightarrow> P s'"
  by (auto simp: keeps_def dest: spec [of _ s])

lemma keeps_after: "keeps P m \<Longrightarrow> P s \<Longrightarrow> P (after m s)"
  by (simp add: keeps_def after_def)

lemma keeps_areturn [keeps_intros]: "keeps P (areturn x)" by (simp add: keeps_def areturn_def)
lemma keeps_athrow [keeps_intros]: "keeps P (athrow e)" by (simp add: keeps_def athrow_def)
lemma keeps_aget [keeps_intros]: "keeps P (aget_state f)" by (simp add: keeps_def aget_state_def)
lemma keeps_aof [keeps_intros]: "keeps P (aof r)" by (simp add: keeps_def aof_def)
lemma keeps_amodify [keeps_intros]: "(\<And>s. P s \<Longrightarrow> P (f s)) \<Longrightarrow> keeps P (amodify f)"
  by (simp add: keeps_def amodify_def)
lemma keeps_ado [keeps_intros]: "(\<And>s. keeps P (f s)) \<Longrightarrow> keeps P (ado f)"
  by (simp add: keeps_def ado_def)

lemma keeps_abind [keeps_intros]: "keeps P m \<Longrightarrow> (\<And>x. keeps P (f x)) \<Longrightarrow> keeps P (abind m f)"
  unfolding keeps_def abind_def by (auto split: prod.split sum.split dest: spec)

lemma keeps_athen [keeps_intros]: "keeps P m \<Longrightarrow> keeps P k \<Longrightarrow> keeps P (athen m k)"
  unfolding athen_def by (intro keeps_intros)

lemma keeps_awhen [keeps_intros]: "(b \<Longrightarrow> keeps P m) \<Longrightarrow> keeps P (awhen b m)"
  by (simp add: awhen_def keeps_areturn)

lemma keeps_if [keeps_intros]: "(b \<Longrightarrow> keeps P m) \<Longrightarrow> (\<not> b \<Longrightarrow> keeps P k) \<Longrightarrow> keeps P (if b then m else k)"
  by simp

lemma keeps_aseq [keeps_intros]:
  "keeps P (aseq [])" "keeps P m \<Longrightarrow> keeps P (aseq ms) \<Longrightarrow> keeps P (aseq (m # ms))"
  by (simp_all add: keeps_areturn keeps_athen)

lemma keeps_aeach [keeps_intros]: "(\<And>x. x \<in> set xs \<Longrightarrow> keeps P (f x)) \<Longrightarrow> keeps P (aeach f xs)"
  by (induction xs) (auto intro!: keeps_intros)

lemma keeps_amap [keeps_intros]: "(\<And>x. x \<in> set xs \<Longrightarrow> keeps P (f x)) \<Longrightarrow> keeps P (amap f xs)"
  by (induction xs) (auto intro!: keeps_intros)

lemma keeps_option [keeps_intros]:
  "(r = None \<Longrightarrow> keeps P m) \<Longrightarrow> (\<And>x. r = Some x \<Longrightarrow> keeps P (f x)) \<Longrightarrow> keeps P (case r of None \<Rightarrow> m | Some x \<Rightarrow> f x)"
  by (cases r) simp_all

subsection \<open>Triples\<close>

text \<open>From a state with \<open>P\<close>, a value leaves \<open>Q\<close> and an exception leaves \<open>E\<close>.\<close>

definition triple :: "('s \<Rightarrow> bool) \<Rightarrow> ('s, 'a) act \<Rightarrow> ('a \<Rightarrow> 's \<Rightarrow> bool) \<Rightarrow> ('s \<Rightarrow> bool) \<Rightarrow> bool" where
  "triple P m Q E \<longleftrightarrow> (\<forall>s. P s \<longrightarrow> (case m s of (Inl e, s') \<Rightarrow> E s' | (Inr x, s') \<Rightarrow> Q x s'))"

lemma triple_bind:
  "triple P m R E \<Longrightarrow> (\<And>x. triple (R x) (f x) Q E) \<Longrightarrow> triple P (abind m f) Q E"
  unfolding triple_def abind_def by (fastforce split: prod.splits sum.splits)

lemma triple_then: "triple P m (\<lambda>_. R) E \<Longrightarrow> triple R k Q E \<Longrightarrow> triple P (athen m k) Q E"
  unfolding athen_def by (rule triple_bind)

lemma triple_ado: "(\<And>s. P s \<Longrightarrow> triple (\<lambda>t. t = s) (f s) Q E) \<Longrightarrow> triple P (ado f) Q E"
  by (simp add: triple_def ado_def)

lemma triple_amodify: "(\<And>s. P s \<Longrightarrow> Q () (f s)) \<Longrightarrow> triple P (amodify f) Q E"
  by (simp add: triple_def amodify_def)

lemma triple_areturn: "(\<And>s. P s \<Longrightarrow> Q x s) \<Longrightarrow> triple P (areturn x) Q E"
  by (simp add: triple_def areturn_def)

lemma triple_athrow: "(\<And>s. P s \<Longrightarrow> E s) \<Longrightarrow> triple P (athrow e) Q E"
  by (simp add: triple_def athrow_def)

lemma triple_keeps: "keeps P m \<Longrightarrow> triple P m (\<lambda>_. P) P"
  unfolding triple_def keeps_def by (metis (mono_tags, lifting) case_prod_beta sum.case_eq_if)

lemma triple_mono:
  "triple P m Q E \<Longrightarrow> (\<And>s. P' s \<Longrightarrow> P s) \<Longrightarrow> (\<And>x s. Q x s \<Longrightarrow> Q' x s) \<Longrightarrow> (\<And>s. E s \<Longrightarrow> E' s) \<Longrightarrow> triple P' m Q' E'"
  unfolding triple_def by (fastforce split: prod.splits sum.splits)

lemma triple_aseq:
  "triple P m (\<lambda>_. R) E \<Longrightarrow> triple R (aseq ms) Q E \<Longrightarrow> triple P (aseq (m # ms)) Q E"
  "triple P (aseq []) (\<lambda>_. P) E"
  by (simp_all add: triple_then triple_areturn)

lemma triple_after: "triple P m (\<lambda>_. Q) Q \<Longrightarrow> P s \<Longrightarrow> Q (after m s)"
  unfolding triple_def after_def by (cases "m s"; cases "fst (m s)") (force dest!: spec [of _ s])+

lemma triple_Inr: "triple P m Q E \<Longrightarrow> P s \<Longrightarrow> m s = (Inr x, s') \<Longrightarrow> Q x s'"
  unfolding triple_def by (auto split: prod.splits sum.splits dest!: spec [of _ s])

lemma keeps_triple: "triple P m (\<lambda>_. P) P \<Longrightarrow> keeps P m"
  using triple_after [of P m P] unfolding keeps_def after_def by blast

text \<open>A loop whose body keeps \<open>P\<close> and establishes \<open>Q x\<close>, which later rounds keep.\<close>

lemma triple_aeach:
  assumes "\<And>x. x \<in> set xs \<Longrightarrow> triple P (f x) (\<lambda>_ s. P s \<and> Q x s) E"
    and "\<And>x y. x \<in> set xs \<Longrightarrow> y \<in> set xs \<Longrightarrow> triple (\<lambda>s. P s \<and> Q x s) (f y) (\<lambda>_. Q x) E"
    and "\<And>s. P s \<Longrightarrow> E s"
  shows "triple P (aeach f xs) (\<lambda>_ s. P s \<and> (\<forall>x \<in> set xs. Q x s)) E"
proof -
  have "triple (\<lambda>s. P s \<and> (\<forall>x \<in> A. Q x s)) (aeach f ys) (\<lambda>_ s. P s \<and> (\<forall>x \<in> A \<union> set ys. Q x s)) E"
    if "A \<subseteq> set xs" "set ys \<subseteq> set xs" for A ys
    using that
  proof (induction ys arbitrary: A)
    case Nil
    then show ?case by (simp add: triple_areturn)
  next
    case (Cons y ys)
    have y: "y \<in> set xs" using Cons.prems by simp
    have "triple (\<lambda>s. P s \<and> (\<forall>x \<in> A. Q x s)) (f y) (\<lambda>_ s. P s \<and> (\<forall>x \<in> insert y A. Q x s)) E"
      unfolding triple_def
    proof (intro allI impI)
      fix s assume s: "P s \<and> (\<forall>x \<in> A. Q x s)"
      have own: "case f y s of (Inl e, s') \<Rightarrow> E s' | (Inr _, s') \<Rightarrow> P s' \<and> Q y s'"
        using assms(1) [OF y] s unfolding triple_def by (cases "f y s"; cases "fst (f y s)") (force dest: spec [of _ s])+
      have kept: "case f y s of (Inl e, s') \<Rightarrow> E s' | (Inr _, s') \<Rightarrow> Q x s'" if "x \<in> A" for x
        using assms(2) [OF _ y, of x] s Cons.prems(1) that unfolding triple_def
        by (cases "f y s"; cases "fst (f y s)") (force dest: spec [of _ s])+
      show "case f y s of (Inl e, s') \<Rightarrow> E s' | (Inr _, s') \<Rightarrow> P s' \<and> (\<forall>x \<in> insert y A. Q x s')"
        using own kept by (cases "f y s"; cases "fst (f y s)") auto
    qed
    moreover have "triple (\<lambda>s. P s \<and> (\<forall>x \<in> insert y A. Q x s)) (aeach f ys)
        (\<lambda>_ s. P s \<and> (\<forall>x \<in> insert y A \<union> set ys. Q x s)) E"
      using Cons.IH [of "insert y A"] Cons.prems by simp
    ultimately have "triple (\<lambda>s. P s \<and> (\<forall>x \<in> A. Q x s)) (aeach f (y # ys))
        (\<lambda>_ s. P s \<and> (\<forall>x \<in> insert y A \<union> set ys. Q x s)) E"
      unfolding aeach.simps by (rule triple_then)
    then show ?case by simp
  qed
  from this [of "{}" xs] show ?thesis by simp
qed

subsection \<open>Catching\<close>

definition acatch :: "('s, 'a) act \<Rightarrow> (js_error \<Rightarrow> ('s, 'a) act) \<Rightarrow> ('s, 'a) act" where
  "acatch m h s = (case m s of (Inl e, s') \<Rightarrow> h e s' | (Inr x, s') \<Rightarrow> (Inr x, s'))"

lemma acatch_run [act_simps]:
  "m s = (Inr x, s') \<Longrightarrow> acatch m h s = (Inr x, s')"
  "m s = (Inl e, s') \<Longrightarrow> acatch m h s = h e s'"
  by (simp_all add: acatch_def)

lemma keeps_acatch [keeps_intros]: "keeps P m \<Longrightarrow> (\<And>e. keeps P (h e)) \<Longrightarrow> keeps P (acatch m h)"
  unfolding keeps_def acatch_def by (auto split: prod.split sum.split dest: spec)

end
