(* ===== verification/Dashboard.thy ===== *)
theory Dashboard
  imports Dom Action
begin

text \<open>
  \<open>jquery.dashboard.js\<close>: the dashboard object, its widgets, and the handlers of the events that
  they throw at each other.

  Widgets and metadata objects live on heaps, since the code shares them: \<open>dashboard.widgets\<close>
  refers to widgets, a widget and the data it was made from refer to the same metadata, and
  metadata \<open>0\<close> is \<open>$.fn.dashboard.widget.defaults.metadata\<close>. A request that has been sent stays
  pending until one of the callbacks at the end is called with its answer. What comes from
  outside the scripts is a parameter (\<open>dash_env\<close>): the result of a template on an item, the
  parse of HTML text, and the style sheets. An element taken out of the document is dropped.

  Console output is left out; the events are kept, in order, with whom they were thrown at.
\<close>

subsection \<open>State\<close>

record layout =
  l_id :: string
  l_classname :: string
  l_html :: string

record widget_data =
  o_id :: string
  o_column :: "string option"
  o_url :: "string option option"
  o_editurl :: "string option"
  o_title :: "string option"
  o_open :: "bool option"
  o_metadata :: "nat option"

record widget =
  w_id :: string
  w_element :: nat
  w_column :: "string option"
  w_url :: "string option"
  w_editurl :: "string option"
  w_title :: "string option"
  w_open :: bool
  w_loaded :: bool
  w_fullscreen :: bool
  w_metadata :: nat

record add_opts =
  a_openDialogClass :: string
  a_addWidgetClass :: string
  a_selectCategoryClass :: string
  a_selectedCategoryClass :: string
  a_categoryClass :: string
  a_widgetClass :: string
  a_dialogId :: string
  a_categoryTemplate :: string
  a_widgetTemplate :: string
  a_widgetDirectoryUrl :: string

record layout_opts =
  e_dialogId :: string
  e_layoutClass :: string
  e_selectLayoutClass :: string
  e_selectedLayoutClass :: string
  e_openDialogClass :: string
  e_layoutTemplate :: string

record dash_opts =
  json_url :: string
  json_data :: "widget_data list"
  loadingHtml :: string
  emptyColumnHtml :: string
  widgetTemplate :: string
  columnPrefix :: string
  widgetNotFoundHtml :: string
  columnClass :: string
  widgetClass :: string
  menuClass :: string
  widgetContentClass :: string
  widgetTitleClass :: string
  widgetHeaderClass :: string
  iconsClass :: string
  stateChangeUrl :: string
  layoutClass :: "string option"
  layouts :: "layout list option"
  addOpts :: add_opts
  layoutOpts :: layout_opts

record dash_env =
  template_node :: "string \<Rightarrow> widget_data \<Rightarrow> node"
  category_node :: "string \<Rightarrow> string \<times> string \<Rightarrow> node"
  layout_node :: "string \<Rightarrow> layout \<Rightarrow> node"
  parse_html :: "string \<Rightarrow> node list"
  display_none :: "node \<Rightarrow> nat \<Rightarrow> bool"

datatype target = On_widget nat | On_dashboard

datatype request_sent = Load_content nat "nat list" string | Get_layout string | Post_settings string string
  | Get_directory string | Get_category "string option"

record dash =
  d_doc :: node
  d_next :: nat
  d_id :: string
  d_element :: nat
  d_layout :: "layout option option"
  d_heap :: "widget list"
  d_metas :: "string obj list"
  d_widgets :: "nat obj"
  d_initialized :: bool
  d_loading :: "nat list"
  d_events :: "(string \<times> target) list"
  d_requests :: "request_sent list"
  d_toAdd :: "widget_data obj"
  d_categories :: "string obj"
  d_open_dialogs :: "string list"

text \<open>The default settings (lines 847-897 of the source) that the model reads.\<close>

definition dashboard_defaults :: dash_opts where
  "dashboard_defaults =
     \<lparr>json_url = '''', json_data = [],
      loadingHtml = ''<div class=\"loading\"><img alt=\"Loading, please wait\" src=\"../themes/default/loading.gif\" /><p>Loading...</p></div>'',
      emptyColumnHtml = ''Drag your widgets here'', widgetTemplate = ''widgettemplate'',
      columnPrefix = ''column-'',
      widgetNotFoundHtml = ''The content of this widget is not available anymore. You may remove this widget.'',
      columnClass = ''column'', widgetClass = ''widget'', menuClass = ''controls'',
      widgetContentClass = ''widgetcontent'', widgetTitleClass = ''widgettitle'',
      widgetHeaderClass = ''widgetheader'', iconsClass = ''icons'', stateChangeUrl = '''',
      layoutClass = None, layouts = None,
      addOpts = \<lparr>a_openDialogClass = ''openaddwidgetdialog'', a_addWidgetClass = ''addwidget'',
        a_selectCategoryClass = ''selectcategory'', a_selectedCategoryClass = ''selected'',
        a_categoryClass = ''categories'', a_widgetClass = ''widgets'', a_dialogId = ''addwidgetdialog'',
        a_categoryTemplate = ''categorytemplate'', a_widgetTemplate = ''addwidgettemplate'',
        a_widgetDirectoryUrl = ''undefined''\<rparr>,
      layoutOpts = \<lparr>e_dialogId = ''editLayout'', e_layoutClass = ''layoutselection'',
        e_selectLayoutClass = ''layoutchoice'', e_selectedLayoutClass = ''selected'',
        e_openDialogClass = ''editlayout'', e_layoutTemplate = ''selectlayouttemplate''\<rparr>\<rparr>"

type_synonym 'a dash_act = "(dash, 'a) act"

subsection \<open>The document\<close>

definition on_doc :: "(node \<Rightarrow> node) \<Rightarrow> unit dash_act" where
  "on_doc f = amodify (\<lambda>s. s\<lparr>d_doc := f (d_doc s)\<rparr>)"

text \<open>New elements get keys of their own.\<close>

fun shift_keys :: "nat \<Rightarrow> node \<Rightarrow> node" where
  "shift_keys b (Node k t i c h x ns) = Node (b + k) t i c h x (map (shift_keys b) ns)"

definition next_key :: "nat \<Rightarrow> node list \<Rightarrow> nat" where
  "next_key b ns = fold max (map Suc (concat (map keys ns))) b"

definition fresh_nodes :: "node list \<Rightarrow> node list dash_act" where
  "fresh_nodes ns = ado (\<lambda>s.
     let ms = map (shift_keys (d_next s)) ns
     in athen (amodify (\<lambda>s. s\<lparr>d_next := next_key (d_next s) ms\<rparr>)) (areturn ms))"

text \<open>\<open>$(html).appendTo(targets)\<close> for text or a template, giving the elements made: the first
  target gets them, the others get copies.\<close>

definition append_new :: "node list \<Rightarrow> nat list \<Rightarrow> nat list dash_act" where
  "append_new ns targets =
     abind (fresh_nodes ns) (\<lambda>ms.
       athen (case targets of [] \<Rightarrow> areturn ()
              | t # ts \<Rightarrow> athen (on_doc (append_nodes ms t))
                  (aeach (\<lambda>t. abind (fresh_nodes ns) (\<lambda>cs. on_doc (append_nodes cs t))) ts))
         (areturn (map n_key ms)))"

definition move_to :: "nat list \<Rightarrow> nat list \<Rightarrow> unit dash_act" where
  "move_to ks targets = ado (\<lambda>s. abind (aof (appendTo ks targets (d_doc s))) (\<lambda>r. on_doc (\<lambda>_. r)))"

definition find_class :: "string \<Rightarrow> nat list \<Rightarrow> dash \<Rightarrow> nat list" where
  "find_class c ks s = find_below (has_class c) (d_doc s) ks"

definition put_html :: "dash_env \<Rightarrow> string \<Rightarrow> nat list \<Rightarrow> unit dash_act" where
  "put_html env x ks =
     aeach (\<lambda>k. abind (fresh_nodes (parse_html env x)) (\<lambda>ms. on_doc (modify_all [k] (set_content x ms)))) ks"

subsection \<open>Events\<close>

text \<open>
  \<open>trigger\<close> records the event and then runs the handlers that this file installs with
  \<open>live\<close>. Those of a widget run when the element thrown at is in the document, below the
  dashboard, and still has the widget class. The handlers below only touch the document, or
  send the settings; the others call operations and come after them.
\<close>

definition throw_event :: "string \<Rightarrow> target \<Rightarrow> unit dash_act" where
  "throw_event name t = amodify (\<lambda>s. s\<lparr>d_events := d_events s @ [(name, t)]\<rparr>)"

definition send :: "request_sent \<Rightarrow> unit dash_act" where
  "send r = amodify (\<lambda>s. s\<lparr>d_requests := d_requests s @ [r]\<rparr>)"

abbreviation the_widget :: "nat \<Rightarrow> dash \<Rightarrow> widget" where
  "the_widget w s \<equiv> d_heap s ! w"

definition widget_live :: "dash_opts \<Rightarrow> nat \<Rightarrow> dash \<Rightarrow> bool" where
  "widget_live opts w s \<longleftrightarrow>
     w_element (the_widget w s) \<in> set (find_class (widgetClass opts) (by_id (d_id s) (d_doc s)) s)"

definition find_in_widget :: "string \<Rightarrow> nat \<Rightarrow> dash \<Rightarrow> nat list" where
  "find_in_widget c w s = find_class c [w_element (the_widget w s)] s"

definition openMenu :: "dash_opts \<Rightarrow> nat \<Rightarrow> unit dash_act" where
  "openMenu opts w = ado (\<lambda>s. on_doc (show_all (find_in_widget (menuClass opts) w s)))"

definition closeMenu :: "dash_opts \<Rightarrow> nat \<Rightarrow> unit dash_act" where
  "closeMenu opts w = ado (\<lambda>s. on_doc (hide_all (find_in_widget (menuClass opts) w s)))"

definition leaf_handler :: "dash_opts \<Rightarrow> string \<Rightarrow> nat \<Rightarrow> unit dash_act" where
  "leaf_handler opts name w = ado (\<lambda>s.
     if name = ''widgetShow'' then on_doc (show_all (find_in_widget (widgetContentClass opts) w s))
     else if name = ''widgetHide'' then on_doc (hide_all (find_in_widget (widgetContentClass opts) w s))
     else if name = ''widgetCloseMenu'' then closeMenu opts w
     else if name = ''widgetOpenMenu'' then openMenu opts w
     else areturn ())"

definition trigger_leaf :: "dash_opts \<Rightarrow> string \<Rightarrow> nat \<Rightarrow> unit dash_act" where
  "trigger_leaf opts name w =
     aseq [throw_event name (On_widget w), ado (\<lambda>s. awhen (widget_live opts w s) (leaf_handler opts name w))]"

subsection \<open>Serialization\<close>

text \<open>How JavaScript writes a value that may be missing.\<close>

definition or_undefined :: "string option \<Rightarrow> string" where
  "or_undefined x = (case x of None \<Rightarrow> ''undefined'' | Some v \<Rightarrow> v)"

definition or_null :: "string option \<Rightarrow> string" where
  "or_null x = (case x of None \<Rightarrow> ''null'' | Some v \<Rightarrow> v)"

definition serialize_metadata :: "string obj \<Rightarrow> string" where
  "serialize_metadata m = js_join '','' (map (\<lambda>(item, v). ''\"'' @ item @ ''\":\"'' @ v @ ''\"'') m)"

definition widget_serialize :: "nat \<Rightarrow> dash \<Rightarrow> string" where
  "widget_serialize w s =
     (let wd = the_widget w s
      in ''{\"title\" : \"'' @ or_undefined (w_title wd) @ ''\", \"id\" : \"'' @ w_id wd @
         ''\", \"column\" : \"'' @ or_undefined (w_column wd) @ ''\",\"editurl\" : \"'' @
         or_undefined (w_editurl wd) @ ''\",\"open\" : '' @ (if w_open wd then ''true'' else ''false'') @
         '',\"url\" : \"'' @ or_null (w_url wd) @ ''\"'' @
         '',\"metadata\":{'' @ serialize_metadata (d_metas s ! w_metadata wd) @ ''}'' @ ''}'')"

definition getWidget :: "string \<Rightarrow> dash \<Rightarrow> nat option" where
  "getWidget i s = oget (d_widgets s) i"

text \<open>\<open>$(e).attr("id")\<close> used as a key: an element without an id reads \<open>"undefined"\<close>.\<close>

definition id_key :: "nat \<Rightarrow> dash \<Rightarrow> string" where
  "id_key e s = (if id_of (d_doc s) e = '''' then ''undefined'' else id_of (d_doc s) e)"

text \<open>The method call on what \<open>getWidget\<close> gives throws on \<open>null\<close>.\<close>

definition widget_of :: "nat \<Rightarrow> dash \<Rightarrow> nat res" where
  "widget_of e s = (case getWidget (id_key e s) s of None \<Rightarrow> Inl TypeError | Some w \<Rightarrow> Inr w)"

definition column_widgets :: "dash_opts \<Rightarrow> dash \<Rightarrow> nat list" where
  "column_widgets opts s =
     filter (\<lambda>e. widgetClass opts \<in> set (classes_of (d_doc s) e))
       (concat (map (kids_of (d_doc s)) (by_class (columnClass opts) (d_doc s))))"

fun serialize_loop :: "nat list \<Rightarrow> nat \<Rightarrow> string \<Rightarrow> dash \<Rightarrow> string res" where
  "serialize_loop [] i r s = Inr r"
| "serialize_loop (e # es) i r s =
     rbind (widget_of e s) (\<lambda>w.
       serialize_loop es (Suc i) ((if i > 0 then r @ '','' else r) @ widget_serialize w s) s)"

definition serialize :: "dash_opts \<Rightarrow> dash \<Rightarrow> string res" where
  "serialize opts s =
     (case d_layout s of
        Some (Some l) \<Rightarrow>
          rbind (serialize_loop (column_widgets opts s) 0 (''{\"layout\": \"'' @ l_id l @ ''\", \"data\" : ['') s)
            (\<lambda>r. Inr (r @ '']}''))
      | _ \<Rightarrow> Inl TypeError)"

text \<open>The \<open>dashboardStateChange\<close> event and its handler.\<close>

definition post_settings :: "dash_opts \<Rightarrow> unit dash_act" where
  "post_settings opts = ado (\<lambda>s.
     awhen (stateChangeUrl opts \<noteq> '''')
       (abind (aof (serialize opts s)) (\<lambda>settings. send (Post_settings (d_id s) settings))))"

definition dashboard_live :: "dash \<Rightarrow> bool" where
  "dashboard_live s \<longleftrightarrow> d_element s \<in> set (by_id (d_id s) (d_doc s))"

definition state_change :: "dash_opts \<Rightarrow> unit dash_act" where
  "state_change opts =
     aseq [throw_event ''dashboardStateChange'' On_dashboard,
           ado (\<lambda>s. awhen (dashboard_live s) (post_settings opts))]"

text \<open>The answer of the server to the settings (\<open>None\<close>: the request failed).\<close>

definition settings_answered :: "string option \<Rightarrow> unit dash_act" where
  "settings_answered answer =
     throw_event
       (case answer of
          None \<Rightarrow> ''dashboardSaveFailed''
        | Some d \<Rightarrow> if d = ''NOK'' \<or> str_index ''<response>NOK</response>'' d \<noteq> None
                    then ''dashboardSaveFailed'' else ''dashboardSuccessfulSaved'')
       On_dashboard"

subsection \<open>Operations of a widget\<close>

definition upd_widget :: "nat \<Rightarrow> (widget \<Rightarrow> widget) \<Rightarrow> unit dash_act" where
  "upd_widget w f = amodify (\<lambda>s. s\<lparr>d_heap := (d_heap s)[w := f (the_widget w s)]\<rparr>)"

definition openContent :: "dash_env \<Rightarrow> dash_opts \<Rightarrow> nat \<Rightarrow> unit dash_act" where
  "openContent env opts w =
     aseq
      [ado (\<lambda>s. on_doc (hide_all (find_in_widget ''widgetOpen'' w s))),
       ado (\<lambda>s. on_doc (show_all (find_in_widget ''widgetClose'' w s))),
       upd_widget w (w_open_update (\<lambda>_. True)),
       ado (\<lambda>s.
         if \<not> w_loaded (the_widget w s) then
           (case w_url (the_widget w s) of
              Some (c # u) \<Rightarrow>
                aseq [ado (\<lambda>s. athen (append_new (parse_html env (loadingHtml opts))
                                        (find_in_widget (widgetContentClass opts) w s)) (areturn ())),
                      trigger_leaf opts ''widgetShow'' w,
                      ado (\<lambda>s. let cs = find_in_widget (widgetContentClass opts) w s
                                in awhen (cs \<noteq> []) (send (Load_content w cs (c # u))))]
            | _ \<Rightarrow> aseq [trigger_leaf opts ''widgetShow'' w, throw_event ''widgetLoaded'' (On_widget w)])
         else trigger_leaf opts ''widgetShow'' w),
       ado (\<lambda>s. awhen (d_initialized s) (state_change opts))]"

text \<open>The answer to a \<open>load\<close>: on success the text becomes the content of every element it was
  called on, then the callback runs for each of them.\<close>

definition content_loaded :: "dash_env \<Rightarrow> dash_opts \<Rightarrow> nat \<Rightarrow> nat list \<Rightarrow> string option \<Rightarrow> unit dash_act" where
  "content_loaded env opts w cs answer =
     aseq
      [(case answer of None \<Rightarrow> areturn () | Some text \<Rightarrow> put_html env text cs),
       aeach (\<lambda>c. aseq
         [awhen (answer = None)
            (ado (\<lambda>s. put_html env (widgetNotFoundHtml opts) (find_in_widget (widgetContentClass opts) w s))),
          upd_widget w (w_loaded_update (\<lambda>_. True)),
          throw_event ''widgetLoaded'' (On_widget w)]) cs]"

definition refreshContent :: "dash_env \<Rightarrow> dash_opts \<Rightarrow> nat \<Rightarrow> unit dash_act" where
  "refreshContent env opts w =
     aseq [upd_widget w (w_loaded_update (\<lambda>_. False)),
           ado (\<lambda>s. awhen (w_open (the_widget w s)) (openContent env opts w))]"

definition setTitle :: "dash_env \<Rightarrow> dash_opts \<Rightarrow> nat \<Rightarrow> string option \<Rightarrow> unit dash_act" where
  "setTitle env opts w newTitle =
     aseq [upd_widget w (w_title_update (\<lambda>_. newTitle)),
           ado (\<lambda>s. case newTitle of None \<Rightarrow> areturn ()
                    | Some t \<Rightarrow> put_html env t (find_in_widget (widgetTitleClass opts) w s)),
           ado (\<lambda>s. awhen (d_initialized s) (state_change opts))]"

definition closeContent :: "dash_opts \<Rightarrow> nat \<Rightarrow> unit dash_act" where
  "closeContent opts w =
     aseq [upd_widget w (w_open_update (\<lambda>_. False)),
           trigger_leaf opts ''widgetHide'' w,
           ado (\<lambda>s. on_doc (show_all (find_in_widget ''widgetOpen'' w s))),
           ado (\<lambda>s. on_doc (hide_all (find_in_widget ''widgetClose'' w s))),
           state_change opts]"

definition addMetadataValue :: "dash_opts \<Rightarrow> nat \<Rightarrow> string option \<Rightarrow> string option \<Rightarrow> unit dash_act" where
  "addMetadataValue opts w name v =
     aseq [amodify (\<lambda>s. let m = w_metadata (the_widget w s)
             in s\<lparr>d_metas := (d_metas s)[m := oset (or_undefined name) (or_undefined v) (d_metas s ! m)]\<rparr>),
           state_change opts]"

definition widget_remove :: "dash_opts \<Rightarrow> nat \<Rightarrow> unit dash_act" where
  "widget_remove opts w =
     aseq [ado (\<lambda>s. on_doc (remove_nodes [w_element (the_widget w s)])),
           throw_event ''widgetDeleted'' (On_widget w),
           state_change opts]"

definition fullscreen_id :: "dash \<Rightarrow> string" where
  "fullscreen_id s = ''fullscreen_'' @ d_id s"

definition openFullscreen :: "dash_opts \<Rightarrow> nat \<Rightarrow> unit dash_act" where
  "openFullscreen opts w =
     aseq [upd_widget w (w_fullscreen_update (\<lambda>_. True)),
           ado (\<lambda>s. on_doc (hide_all (by_class (columnClass opts) (d_doc s)))),
           ado (\<lambda>s. abind (append_new [Node 0 ''ul'' (fullscreen_id s) [] False '''' []] [d_element s]) (\<lambda>fs.
             ado (\<lambda>s. let e = w_element (the_widget w s)
               in aseq [(case parent_of (d_doc s) e of None \<Rightarrow> areturn ()
                         | Some p \<Rightarrow> on_doc (modify_all [p] (set_id ''placeholder''))),
                        move_to [e] fs])))]"

definition closeFullscreen :: "dash_opts \<Rightarrow> nat \<Rightarrow> unit dash_act" where
  "closeFullscreen opts w =
     aseq [upd_widget w (w_fullscreen_update (\<lambda>_. False)),
           ado (\<lambda>s. move_to [w_element (the_widget w s)] (by_id ''placeholder'' (d_doc s))),
           ado (\<lambda>s. on_doc (remove_nodes (by_id (fullscreen_id s) (d_doc s)))),
           ado (\<lambda>s. on_doc (show_all (by_class (columnClass opts) (d_doc s))))]"

definition openSettings :: "nat \<Rightarrow> unit dash_act" where
  "openSettings w = throw_event ''editSettings'' (On_widget w)"

text \<open>The constructor: defaults for what the data leaves out, then opening.\<close>

definition new_widget :: "nat \<Rightarrow> widget_data \<Rightarrow> widget" where
  "new_widget el obj =
     \<lparr>w_id = o_id obj, w_element = el, w_column = o_column obj,
      w_url = (case o_url obj of None \<Rightarrow> None | Some u \<Rightarrow> u), w_editurl = o_editurl obj, w_title = o_title obj,
      w_open = (case o_open obj of None \<Rightarrow> True | Some b \<Rightarrow> b), w_loaded = False, w_fullscreen = False,
      w_metadata = (case o_metadata obj of None \<Rightarrow> 0 | Some m \<Rightarrow> m)\<rparr>"

definition construct_widget :: "dash_env \<Rightarrow> dash_opts \<Rightarrow> nat \<Rightarrow> widget_data \<Rightarrow> nat dash_act" where
  "construct_widget env opts el obj = ado (\<lambda>s.
     let w = length (d_heap s)
     in athen (amodify (\<lambda>s. s\<lparr>d_heap := d_heap s @ [new_widget el obj]\<rparr>))
          (athen (aseq [ado (\<lambda>s. awhen (w_open (the_widget w s)) (openContent env opts w)),
                        throw_event ''widgetInitialized'' (On_widget w)])
            (areturn w)))"

subsection \<open>Loading the layout and the widgets\<close>

text \<open>A column of a widget is named by a word, which a selector reads as a tag. A name that is no word would be
  another selector, or an error of the selector engine; that is left out.\<close>

definition addWidget :: "dash_env \<Rightarrow> dash_opts \<Rightarrow> widget_data \<Rightarrow> nat list \<Rightarrow> unit dash_act" where
  "addWidget env opts obj column = ado (\<lambda>s.
     let wid = o_id obj
     in athen
         (case (getWidget wid s, by_id wid (d_doc s)) of
            (Some w, e # es) \<Rightarrow>
              \<comment> \<open>the column's name is used as a selector, which reads it as a tag\<close>
              move_to (e # es) (case w_column (the_widget w s) of None \<Rightarrow> [] | Some c \<Rightarrow> by_tag c (d_doc s))
          | _ \<Rightarrow>
              abind (append_new [template_node env (widgetTemplate opts) obj] column) (\<lambda>wi.
                abind (construct_widget env opts (hd wi) obj) (\<lambda>w.
                  amodify (\<lambda>s. s\<lparr>d_widgets := oset wid w (d_widgets s)\<rparr>))))
         (ado (\<lambda>s. aseq
           [throw_event ''widgetAdded'' (On_widget (the (getWidget wid s))),
            awhen (d_initialized s) (state_change opts)])))"

definition empty_columns_text :: "dash_env \<Rightarrow> dash_opts \<Rightarrow> nat list \<Rightarrow> unit dash_act" where
  "empty_columns_text env opts columns =
     aeach (\<lambda>c. ado (\<lambda>s. awhen (kids_of (d_doc s) c = [])
       (put_html env (''<div class=\"emptycolumn\">'' @ emptyColumnHtml opts @ ''</div>'') [c]))) columns"

definition set_column :: "nat \<Rightarrow> string option \<Rightarrow> unit dash_act" where
  "set_column e c = ado (\<lambda>s. abind (aof (widget_of e s)) (\<lambda>w. upd_widget w (w_column_update (\<lambda>_. c))))"

definition attr_id :: "nat list \<Rightarrow> dash \<Rightarrow> string option" where
  "attr_id ks s = (case ks of [] \<Rightarrow> None | k # _ \<Rightarrow> if id_of (d_doc s) k = '''' then None else Some (id_of (d_doc s) k))"

definition loadWidgets :: "dash_env \<Rightarrow> dash_opts \<Rightarrow> widget_data list \<Rightarrow> unit dash_act" where
  "loadWidgets env opts data =
     aseq
      [ado (\<lambda>s. on_doc (set_html '''' (find_class (columnClass opts) [d_element s] s))),
       aeach (\<lambda>obj. ado (\<lambda>s. addWidget env opts obj
         (find_class (columnPrefix opts @ or_undefined (o_column obj)) [d_element s] s))) data,
       ado (\<lambda>s. aeach (\<lambda>e. ado (\<lambda>s.
           let firstCol = take 1 (find_class (columnClass opts) [d_element s] s)
           in aseq [move_to [e] firstCol, ado (\<lambda>s. set_column e (attr_id firstCol s))]))
         (find_class (widgetClass opts) (by_id ''tempdashboard'' (d_doc s)) s)),
       ado (\<lambda>s. on_doc (remove_nodes (by_id ''tempdashboard'' (d_doc s)))),
       ado (\<lambda>s. empty_columns_text env opts (by_class (columnClass opts) (d_doc s))),
       amodify (\<lambda>s. s\<lparr>d_initialized := True\<rparr>)]"

definition fixSortableColumns :: "dash_env \<Rightarrow> dash_opts \<Rightarrow> unit dash_act" where
  "fixSortableColumns env opts =
     aseq [ado (\<lambda>s. let ks = by_class ''nonsortablecolumn'' (d_doc s)
                    in on_doc (\<lambda>r. addClass (columnClass opts) ks (removeClasses [''nonsortablecolumn''] ks r))),
           ado (\<lambda>s. let ks = filter (display_none env (d_doc s)) (by_class (columnClass opts) (d_doc s))
                    in on_doc (\<lambda>r. removeClasses [columnClass opts] ks (addClass ''nonsortablecolumn'' ks r)))]"

definition setLayout :: "dash_env \<Rightarrow> dash_opts \<Rightarrow> layout option \<Rightarrow> unit dash_act" where
  "setLayout env opts lay =
     aseq [amodify (\<lambda>s. s\<lparr>d_layout := Some lay\<rparr>),
           ado (\<lambda>s. on_doc (remove_nodes (d_loading s))),
           (case lay of None \<Rightarrow> areturn ()
            | Some l \<Rightarrow> (case layoutClass opts of
                 Some c \<Rightarrow> ado (\<lambda>s. on_doc (addClass (l_classname l) (find_class c [d_element s] s)))
               | None \<Rightarrow> ado (\<lambda>s. put_html env (l_html l) [d_element s]))),
           fixSortableColumns env opts,
           throw_event ''dashboardLayoutLoaded'' On_dashboard]"

text \<open>The last of the layouts with this id, or else the first one.\<close>

fun layout_loop :: "string \<Rightarrow> layout list \<Rightarrow> nat \<Rightarrow> layout option \<Rightarrow> layout option \<Rightarrow> layout option \<times> layout option" where
  "layout_loop i [] n fst_item r = (fst_item, r)"
| "layout_loop i (item # items) n fst_item r =
     layout_loop i items (Suc n) (if n = 0 then Some item else fst_item) (if l_id item = i then Some item else r)"

definition getLayout :: "dash_opts \<Rightarrow> string \<Rightarrow> layout option" where
  "getLayout opts i =
     (case layouts opts of None \<Rightarrow> None
      | Some ls \<Rightarrow> (let (f, r) = layout_loop i ls 0 None None in case r of None \<Rightarrow> f | Some l \<Rightarrow> Some l))"

text \<open>\<open>json\<close> of the answer: its layout and data. Without a URL, \<open>json\<close> is a name that
  does not exist, read only when no layout has been set.\<close>

definition layout_received :: "dash_env \<Rightarrow> dash_opts \<Rightarrow> (string \<times> widget_data list) option \<Rightarrow> unit dash_act" where
  "layout_received env opts json =
     (case json of None \<Rightarrow> areturn ()
      | Some (lay, data) \<Rightarrow> ado (\<lambda>s.
          aseq [setLayout env opts (case d_layout s of Some l \<Rightarrow> l | None \<Rightarrow> getLayout opts lay),
                loadWidgets env opts data]))"

definition loadLayout :: "dash_env \<Rightarrow> dash_opts \<Rightarrow> unit dash_act" where
  "loadLayout env opts =
     (if json_url opts \<noteq> '''' then send (Get_layout (json_url opts))
      else ado (\<lambda>s. case d_layout s of
          None \<Rightarrow> athrow (Thrown ''ReferenceError'')
        | Some l \<Rightarrow> aseq [setLayout env opts l, loadWidgets env opts (json_data opts)]))"

definition dash_init :: "dash_env \<Rightarrow> dash_opts \<Rightarrow> unit dash_act" where
  "dash_init env opts = loadLayout env opts"

text \<open>\<open>$('#i').dashboard(options)\<close>: the new object, and the loading picture. \<open>metas\<close> are the
  metadata objects in the options' own data.\<close>

definition dashboard :: "dash_env \<Rightarrow> dash_opts \<Rightarrow> string obj list \<Rightarrow> node \<Rightarrow> nat \<Rightarrow> string \<Rightarrow> dash" where
  "dashboard env opts metas doc el i =
     after (abind (append_new (parse_html env (loadingHtml opts)) [el])
              (\<lambda>ks. amodify (\<lambda>s. s\<lparr>d_loading := ks\<rparr>)))
       \<lparr>d_doc = doc, d_next = next_key 0 [doc], d_id = i, d_element = el, d_layout = None,
        d_heap = [], d_metas = [] # metas, d_widgets = [], d_initialized = False, d_loading = [],
        d_events = [], d_requests = [], d_toAdd = [], d_categories = [], d_open_dialogs = []\<rparr>"

subsection \<open>Dragging a widget\<close>

text \<open>The last class that starts with the prefix, without it.\<close>

definition getColumnIdentifier :: "dash_opts \<Rightarrow> string \<Rightarrow> string res" where
  "getColumnIdentifier opts classes =
     (case fold (\<lambda>c r. if starts_with (columnPrefix opts) c then Some c else r)
             (split_on CHR '' '' classes) None of
        None \<Rightarrow> Inl TypeError
      | Some c \<Rightarrow> Inr (drop (length (columnPrefix opts)) c))"

definition sort_receive :: "dash_opts \<Rightarrow> nat \<Rightarrow> nat \<Rightarrow> unit dash_act" where
  "sort_receive opts column item = ado (\<lambda>s.
     abind (aof (getColumnIdentifier opts (js_join '' '' (classes_of (d_doc s) column)))) (\<lambda>c.
       aseq [set_column item (Some c),
             state_change opts,
             ado (\<lambda>s. abind (aof (widget_of item s)) (\<lambda>w. throw_event ''widgetDropped'' (On_widget w)))]))"

definition sort_deactivate :: "dash_env \<Rightarrow> dash_opts \<Rightarrow> nat \<Rightarrow> unit dash_act" where
  "sort_deactivate env opts column = ado (\<lambda>s.
     let n = length (kids_of (d_doc s) column)
     in if n = 0 then put_html env (''<div class=\"emptycolumn\">'' @ emptyColumnHtml opts @ ''</div>'') [column]
        else awhen (n = 2) (on_doc (remove_nodes (find_class ''emptycolumn'' [column] s))))"

definition sort_over :: "nat \<Rightarrow> unit dash_act" where
  "sort_over column = on_doc (addClass ''selectedcolumn'' [column])"

definition sort_out :: "nat \<Rightarrow> unit dash_act" where
  "sort_out column = on_doc (removeClasses [''selectedcolumn''] [column])"

definition sort_start :: "dash_opts \<Rightarrow> nat \<Rightarrow> unit dash_act" where
  "sort_start opts item = ado (\<lambda>s. on_doc (addClass ''noclick'' (find_class (widgetTitleClass opts) [item] s)))"

text \<open>300 ms after the drop.\<close>

definition sort_stop_timeout :: "dash_opts \<Rightarrow> nat \<Rightarrow> unit dash_act" where
  "sort_stop_timeout opts item =
     ado (\<lambda>s. on_doc (removeClasses [''noclick''] (find_class (widgetTitleClass opts) [item] s)))"

subsection \<open>Handlers of the widget events and of clicks\<close>

text \<open>What comes with an event besides the widget, and the user's answer to \<open>confirm\<close>.\<close>

record payload =
  p_title :: "string option"
  p_name :: "string option"
  p_value :: "string option"
  p_confirm :: bool

definition widget_handler :: "dash_env \<Rightarrow> dash_opts \<Rightarrow> payload \<Rightarrow> string \<Rightarrow> nat \<Rightarrow> unit dash_act" where
  "widget_handler env opts p name w =
     (if name = ''widgetDelete'' then awhen (p_confirm p) (widget_remove opts w)
      else if name = ''widgetRefresh'' then refreshContent env opts w
      else if name = ''widgetSetTitle'' then setTitle env opts w (p_title p)
      else if name = ''widgetClose'' then closeContent opts w
      else if name = ''widgetOpen'' then openContent env opts w
      else if name = ''widgetAddMetadataValue'' then addMetadataValue opts w (p_name p) (p_value p)
      else if name = ''widgetOpenFullScreen'' then openFullscreen opts w
      else if name = ''widgetCloseFullScreen'' then closeFullscreen opts w
      else if name = ''widgetEdit'' then openSettings w
      else leaf_handler opts name w)"

text \<open>The handler of \<open>widgetCloseFullScreen\<close> alone does not ask for the dashboard's id.\<close>

definition handler_live :: "dash_opts \<Rightarrow> string \<Rightarrow> nat \<Rightarrow> dash \<Rightarrow> bool" where
  "handler_live opts name w s \<longleftrightarrow>
     (if name = ''widgetCloseFullScreen''
      then w_element (the_widget w s) \<in> set (by_class (widgetClass opts) (d_doc s))
      else widget_live opts w s)"

definition trigger_widget :: "dash_env \<Rightarrow> dash_opts \<Rightarrow> payload \<Rightarrow> string \<Rightarrow> nat \<Rightarrow> unit dash_act" where
  "trigger_widget env opts p name w =
     aseq [throw_event name (On_widget w),
           ado (\<lambda>s. awhen (handler_live opts name w s) (widget_handler env opts p name w))]"

text \<open>\<open>dashboard.getWidget($(e).closest(...).attr("id"))\<close>.\<close>

definition closest_widget :: "dash_opts \<Rightarrow> nat \<Rightarrow> dash \<Rightarrow> nat res" where
  "closest_widget opts e s =
     (case closest_class (widgetClass opts) (d_doc s) e of
        Some k \<Rightarrow> widget_of k s
      | None \<Rightarrow> (case getWidget ''undefined'' s of None \<Rightarrow> Inl TypeError | Some w \<Rightarrow> Inr w))"

definition click_menutrigger :: "dash_env \<Rightarrow> dash_opts \<Rightarrow> payload \<Rightarrow> nat \<Rightarrow> unit dash_act" where
  "click_menutrigger env opts p e = ado (\<lambda>s.
     abind (aof (closest_widget opts e s)) (trigger_widget env opts p ''widgetOpenMenu''))"

definition click_fullscreen :: "dash_env \<Rightarrow> dash_opts \<Rightarrow> payload \<Rightarrow> nat \<Rightarrow> unit dash_act" where
  "click_fullscreen env opts p e = ado (\<lambda>s.
     abind (aof (closest_widget opts e s)) (\<lambda>w.
       aseq [trigger_widget env opts p ''widgetCloseMenu'' w,
             ado (\<lambda>s. trigger_widget env opts p
               (if w_fullscreen (the_widget w s) then ''widgetCloseFullScreen'' else ''widgetOpenFullScreen'') w)]))"

text \<open>The class of the menu item names the event to throw.\<close>

definition click_control :: "dash_env \<Rightarrow> dash_opts \<Rightarrow> payload \<Rightarrow> nat \<Rightarrow> unit dash_act" where
  "click_control env opts p e = ado (\<lambda>s.
     abind (aof (closest_widget opts e s)) (\<lambda>w.
       aseq [trigger_widget env opts p ''widgetCloseMenu'' w,
             ado (\<lambda>s. abind (aof (closest_widget opts e s))
               (trigger_widget env opts p (js_join '' '' (classes_of (d_doc s) e))))]))"

definition click_title :: "dash_env \<Rightarrow> dash_opts \<Rightarrow> payload \<Rightarrow> nat \<Rightarrow> unit dash_act" where
  "click_title env opts p e = ado (\<lambda>s.
     awhen (''noclick'' \<notin> set (classes_of (d_doc s) e))
       (abind (aof (closest_widget opts e s)) (\<lambda>w.
          trigger_widget env opts p (if w_open (the_widget w s) then ''widgetClose'' else ''widgetOpen'') w)))"

definition header_mouseover :: "dash_opts \<Rightarrow> nat \<Rightarrow> unit dash_act" where
  "header_mouseover opts e = ado (\<lambda>s. on_doc (removeClasses [''hidden''] (find_class (iconsClass opts) [e] s)))"

definition header_mouseout :: "dash_opts \<Rightarrow> nat \<Rightarrow> unit dash_act" where
  "header_mouseout opts e = ado (\<lambda>s. on_doc (addClass ''hidden'' (find_class (iconsClass opts) [e] s)))"

definition body_click :: "dash_opts \<Rightarrow> unit dash_act" where
  "body_click opts = ado (\<lambda>s. on_doc (hide_all (by_class (menuClass opts) (d_doc s))))"

subsection \<open>The dialogs\<close>

text \<open>Of a jQuery UI dialog the model keeps whether it is open.\<close>

definition dialog_open :: "string \<Rightarrow> unit dash_act" where
  "dialog_open i = amodify (\<lambda>s. s\<lparr>d_open_dialogs := List.insert i (d_open_dialogs s)\<rparr>)"

definition dialog_close :: "string \<Rightarrow> unit dash_act" where
  "dialog_close i = amodify (\<lambda>s. s\<lparr>d_open_dialogs := removeAll i (d_open_dialogs s)\<rparr>)"

definition find_in_dialog :: "string \<Rightarrow> string \<Rightarrow> dash \<Rightarrow> nat list" where
  "find_in_dialog c i s = find_class c (by_id i (d_doc s)) s"

definition append_each :: "node list \<Rightarrow> nat list \<Rightarrow> unit dash_act" where
  "append_each ns targets = aeach (\<lambda>t. abind (fresh_nodes ns) (\<lambda>ms. on_doc (append_nodes ms t))) targets"

definition empty_all :: "nat list \<Rightarrow> unit dash_act" where
  "empty_all ks = on_doc (set_html '''' ks)"

definition open_layout_dialog :: "dash_env \<Rightarrow> dash_opts \<Rightarrow> unit dash_act" where
  "open_layout_dialog env opts =
     (let lo = layoutOpts opts
      in aseq
       [throw_event ''dashboardOpenLayoutDialog'' On_dashboard,
        ado (\<lambda>s. awhen (dashboard_live s) (aseq
         [dialog_open (e_dialogId lo),
          ado (\<lambda>s. let h = find_in_dialog (e_layoutClass lo) (e_dialogId lo) s
            in aseq [empty_all h,
                     (case layouts opts of None \<Rightarrow> athrow TypeError
                      | Some ls \<Rightarrow> aeach (\<lambda>item. append_each [layout_node env (e_layoutTemplate lo) item] h) ls)]),
          ado (\<lambda>s. on_doc (removeClasses [e_selectedLayoutClass lo] (by_class (e_selectLayoutClass lo) (d_doc s)))),
          ado (\<lambda>s. case d_layout s of
              Some (Some l) \<Rightarrow> on_doc (addClass (e_selectedLayoutClass lo) (by_id (l_id l) (d_doc s)))
            | _ \<Rightarrow> athrow TypeError)]))])"

definition close_layout_dialog :: "dash_opts \<Rightarrow> unit dash_act" where
  "close_layout_dialog opts =
     aseq [throw_event ''dashboardCloseLayoutDialog'' On_dashboard,
           ado (\<lambda>s. awhen (dashboard_live s) (dialog_close (e_dialogId (layoutOpts opts))))]"

text \<open>A click on a layout of the dialog. The layouts share the document when \<open>layoutClass\<close> is
  set; otherwise the widgets wait in a hidden element while the dashboard is built again.\<close>

definition select_layout :: "dash_env \<Rightarrow> dash_opts \<Rightarrow> nat \<Rightarrow> unit dash_act" where
  "select_layout env opts e = ado (\<lambda>s.
     let currentLayout = d_layout s; newLayout = getLayout opts (id_key e s)
     in aseq
      [close_layout_dialog opts,
       amodify (\<lambda>s. s\<lparr>d_layout := Some newLayout\<rparr>),
       (case layoutClass opts of
          Some c \<Rightarrow> aseq
            [ado (\<lambda>s. let ks = find_class c [d_element s] s
               in case currentLayout of
                  Some (Some l) \<Rightarrow> aseq
                    [on_doc (removeClasses [l_classname l] ks),
                     (case newLayout of None \<Rightarrow> athrow TypeError
                      | Some l' \<Rightarrow> on_doc (addClass (l_classname l') ks))]
                | _ \<Rightarrow> athrow TypeError),
             fixSortableColumns env opts,
             ado (\<lambda>s. aeach (\<lambda>col. aseq
               [ado (\<lambda>s. move_to (kids_of (d_doc s) col) (take 1 (find_class (columnClass opts) [d_element s] s))),
                ado (\<lambda>s. on_doc (remove_nodes (by_class ''emptycolumn'' (d_doc s)))),
                ado (\<lambda>s. empty_columns_text env opts (by_class (columnClass opts) (d_doc s)))])
               (find_class ''nonsortablecolumn'' [d_element s] s))]
        | None \<Rightarrow> aseq
            [ado (\<lambda>s. abind (append_new [Node 0 ''div'' ''tempdashboard'' [] True '''' []] (by_tag ''body'' (d_doc s)))
                (\<lambda>temp. ado (\<lambda>s. move_to (kids_of (d_doc s) (d_element s)) temp))),
             dash_init env opts]),
       throw_event ''dashboardLayoutChanged'' On_dashboard])"

definition close_widget_dialog :: "dash_opts \<Rightarrow> unit dash_act" where
  "close_widget_dialog opts =
     aseq [throw_event ''dashboardCloseWidgetDialog'' On_dashboard,
           ado (\<lambda>s. awhen (dashboard_live s) (dialog_close (a_dialogId (addOpts opts))))]"

definition open_widget_dialog :: "dash_opts \<Rightarrow> unit dash_act" where
  "open_widget_dialog opts =
     (let ao = addOpts opts
      in aseq
       [throw_event ''dashboardOpenWidgetDialog'' On_dashboard,
        ado (\<lambda>s. awhen (dashboard_live s) (aseq
         [ado (\<lambda>s. empty_all (find_in_dialog (a_categoryClass ao) (a_dialogId ao) s)),
          ado (\<lambda>s. empty_all (find_in_dialog (a_widgetClass ao) (a_dialogId ao) s)),
          dialog_open (a_dialogId ao),
          send (Get_directory (a_widgetDirectoryUrl ao))]))])"

text \<open>Selecting a category asks for its widgets, and throws \<open>addWidgetDialogWidgetsLoaded\<close>
  before they can have come.\<close>

definition select_category :: "dash_opts \<Rightarrow> nat list \<Rightarrow> unit dash_act" where
  "select_category opts category =
     (let ao = addOpts opts
      in aseq
       [throw_event ''addWidgetDialogSelectCategory'' On_dashboard,
        ado (\<lambda>s. awhen (dashboard_live s) (aseq
         [ado (\<lambda>s. on_doc (removeClasses [a_selectedCategoryClass ao] (by_class (a_selectCategoryClass ao) (d_doc s)))),
          ado (\<lambda>s. empty_all (find_in_dialog (a_widgetClass ao) (a_dialogId ao) s)),
          on_doc (addClass (a_selectedCategoryClass ao) category),
          ado (\<lambda>s. send (Get_category (oget (d_categories s) (or_undefined (attr_id category s))))),
          throw_event ''addWidgetDialogWidgetsLoaded'' On_dashboard]))])"

definition directory_received :: "dash_env \<Rightarrow> dash_opts \<Rightarrow> (string \<times> string) list \<Rightarrow> unit dash_act" where
  "directory_received env opts cats =
     (let ao = addOpts opts
      in aseq
       [aeach (\<lambda>item. aseq
          [amodify (\<lambda>s. s\<lparr>d_categories := oset (fst item) (snd item) (d_categories s)\<rparr>),
           ado (\<lambda>s. append_each [category_node env (a_categoryTemplate ao) item]
             (find_in_dialog (a_categoryClass ao) (a_dialogId ao) s))]) cats,
        throw_event ''addWidgetDialogCategoriesLoaded'' On_dashboard,
        ado (\<lambda>s. select_category opts
          (take 1 (filter (\<lambda>k. k \<in> set (by_tag ''li'' (d_doc s)))
             (concat (map (kids_of (d_doc s)) (find_in_dialog (a_categoryClass ao) (a_dialogId ao) s))))))])"

definition category_received :: "dash_env \<Rightarrow> dash_opts \<Rightarrow> widget_data list \<Rightarrow> unit dash_act" where
  "category_received env opts items =
     (let ao = addOpts opts
      in aeach (\<lambda>item. aseq
          [amodify (\<lambda>s. s\<lparr>d_toAdd := oset (o_id item) item (d_toAdd s)\<rparr>),
           ado (\<lambda>s. append_each [template_node env (a_widgetTemplate ao) item]
             (find_in_dialog (a_widgetClass ao) (a_dialogId ao) s))]) items)"

text \<open>A click on a widget of the dialog: the entry that is handed to \<open>dashboardAddWidget\<close>.\<close>

definition str_remove :: "string \<Rightarrow> string \<Rightarrow> string" where
  "str_remove p s = (case str_index p s of None \<Rightarrow> s | Some i \<Rightarrow> take i s @ drop (i + length p) s)"

definition click_add_widget :: "dash_opts \<Rightarrow> nat \<Rightarrow> widget_data option dash_act" where
  "click_add_widget opts e = ado (\<lambda>s.
     (case attr_id [e] s of
        None \<Rightarrow> athrow TypeError
      | Some i \<Rightarrow>
          athen (throw_event ''dashboardAddWidget'' On_dashboard)
            (athen (close_widget_dialog opts) (areturn (oget (d_toAdd s) (str_remove ''addwidget'' i))))))"

subsection \<open>The dashboard as a machine\<close>

text \<open>
  Everything that can happen: answers to requests, clicks, drags, and calls of the public
  methods. Data that comes from the server brings metadata objects of its own; a call on a
  widget that does not exist does nothing.
\<close>

definition parse_data :: "(widget_data \<times> string obj option) list \<Rightarrow> widget_data list dash_act" where
  "parse_data items = amap (\<lambda>(d, m). ado (\<lambda>s. case m of
       None \<Rightarrow> areturn (d\<lparr>o_metadata := None\<rparr>)
     | Some x \<Rightarrow> athen (amodify (\<lambda>s. s\<lparr>d_metas := d_metas s @ [x]\<rparr>)) (areturn (d\<lparr>o_metadata := Some (length (d_metas s))\<rparr>))))
     items"

type_synonym json_items = "(widget_data \<times> string obj option) list"

datatype dash_call =
    Init
  | Layout_answer "(string \<times> json_items) option"
  | Content_answer nat "nat list" "string option"
  | Settings_answer "string option"
  | Add_widget widget_data "string obj option" "nat list"
  | Trigger string nat payload
  | Click_menu nat payload
  | Click_fullscreen nat payload
  | Click_control nat payload
  | Click_title nat payload
  | Click_body
  | Header_over nat
  | Header_out nat
  | Sort_receive nat nat
  | Sort_deactivate nat
  | Sort_over nat
  | Sort_out nat
  | Sort_start nat
  | Sort_stopped nat
  | Layout_dialog
  | Select_layout nat
  | Widget_dialog
  | Directory_answer "(string \<times> string) list"
  | Select_category "nat list"
  | Category_answer json_items
  | Click_add_widget nat

fun run_call :: "dash_env \<Rightarrow> dash_opts \<Rightarrow> dash_call \<Rightarrow> unit dash_act" where
  "run_call env opts Init = dash_init env opts"
| "run_call env opts (Layout_answer json) =
     (case json of None \<Rightarrow> layout_received env opts None
      | Some (l, items) \<Rightarrow> abind (parse_data items) (\<lambda>data. layout_received env opts (Some (l, data))))"
| "run_call env opts (Content_answer w cs answer) =
     ado (\<lambda>s. awhen (w < length (d_heap s)) (content_loaded env opts w cs answer))"
| "run_call env opts (Settings_answer answer) = settings_answered answer"
| "run_call env opts (Add_widget d m column) =
     abind (parse_data [(d, m)]) (\<lambda>data. addWidget env opts (hd data) column)"
| "run_call env opts (Trigger name w p) =
     ado (\<lambda>s. awhen (w < length (d_heap s)) (trigger_widget env opts p name w))"
| "run_call env opts (Click_menu e p) = click_menutrigger env opts p e"
| "run_call env opts (Click_fullscreen e p) = click_fullscreen env opts p e"
| "run_call env opts (Click_control e p) = click_control env opts p e"
| "run_call env opts (Click_title e p) = click_title env opts p e"
| "run_call env opts Click_body = body_click opts"
| "run_call env opts (Header_over e) = header_mouseover opts e"
| "run_call env opts (Header_out e) = header_mouseout opts e"
| "run_call env opts (Sort_receive c e) = sort_receive opts c e"
| "run_call env opts (Sort_deactivate c) = sort_deactivate env opts c"
| "run_call env opts (Sort_over c) = sort_over c"
| "run_call env opts (Sort_out c) = sort_out c"
| "run_call env opts (Sort_start e) = sort_start opts e"
| "run_call env opts (Sort_stopped e) = sort_stop_timeout opts e"
| "run_call env opts Layout_dialog = open_layout_dialog env opts"
| "run_call env opts (Select_layout e) = select_layout env opts e"
| "run_call env opts Widget_dialog = open_widget_dialog opts"
| "run_call env opts (Directory_answer cats) = directory_received env opts cats"
| "run_call env opts (Select_category ks) = select_category opts ks"
| "run_call env opts (Category_answer items) =
     abind (parse_data items) (\<lambda>data. category_received env opts data)"
| "run_call env opts (Click_add_widget e) = athen (click_add_widget opts e) (areturn ())"

definition dash_step :: "dash_env \<Rightarrow> dash_opts \<Rightarrow> dash_call \<Rightarrow> dash \<Rightarrow> dash" where
  "dash_step env opts c = after (run_call env opts c)"

end
