(* ===== verification/DashboardProps.thy ===== *)
theory DashboardProps
  imports Dashboard
begin

text \<open>
  What holds of the dashboard: the registry of widgets stays sound whatever happens, what is
  saved, which calls throw, and two faults, shared metadata and full screen, on the model of
  the code as it is.
\<close>

subsection \<open>What the operations leave alone\<close>

text \<open>
  A predicate of the state is stable when it survives the elementary changes that every
  operation but the making of widgets is built from: the document, the logs, the dialogs, a
  widget's open, loaded, full-screen, column and title fields, and the contents of a metadata object.
\<close>

abbreviation same_widget :: "widget \<Rightarrow> widget \<Rightarrow> bool" where
  "same_widget x y \<equiv> w_id x = w_id y \<and> w_element x = w_element y \<and> w_url x = w_url y \<and>
     w_editurl x = w_editurl y \<and> w_metadata x = w_metadata y"

locale dash_stable =
  fixes P :: "dash \<Rightarrow> bool"
  assumes doc: "P s \<Longrightarrow> P (s\<lparr>d_doc := r\<rparr>)"
    and next_k: "P s \<Longrightarrow> P (s\<lparr>d_next := n\<rparr>)"
    and events: "P s \<Longrightarrow> P (s\<lparr>d_events := es\<rparr>)"
    and requests: "P s \<Longrightarrow> P (s\<lparr>d_requests := rs\<rparr>)"
    and layout: "P s \<Longrightarrow> P (s\<lparr>d_layout := l\<rparr>)"
    and initialized: "P s \<Longrightarrow> P (s\<lparr>d_initialized := True\<rparr>)"
    and dialogs: "P s \<Longrightarrow> P (s\<lparr>d_open_dialogs := ds\<rparr>)"
    and categories: "P s \<Longrightarrow> P (s\<lparr>d_categories := cs\<rparr>)"
    and to_add: "P s \<Longrightarrow> P (s\<lparr>d_toAdd := ts\<rparr>)"
    and metas: "P s \<Longrightarrow> P (s\<lparr>d_metas := (d_metas s)[m := y]\<rparr>)"
    and widget: "P s \<Longrightarrow> same_widget x (the_widget w s) \<Longrightarrow> P (s\<lparr>d_heap := (d_heap s)[w := x]\<rparr>)"
begin

lemma upd: "(\<And>x. same_widget (f x) x) \<Longrightarrow> keeps P (upd_widget w f)"
  unfolding upd_widget_def by (intro keeps_intros widget) auto

lemma prims:
  "keeps P (on_doc f)" "keeps P (throw_event n t)" "keeps P (send r)" "keeps P (dialog_open i)"
  "keeps P (dialog_close i)" "keeps P (fresh_nodes ns)" "keeps P (amodify (\<lambda>s. s\<lparr>d_layout := l\<rparr>))"
  "keeps P (amodify (\<lambda>s. s\<lparr>d_initialized := True\<rparr>))"
  unfolding on_doc_def throw_event_def send_def dialog_open_def dialog_close_def fresh_nodes_def Let_def
  by (intro keeps_intros doc next_k events requests layout initialized dialogs; assumption)+

lemma each_target: "keeps P (append_each ns ts)" "keeps P (append_new ns ts)" "keeps P (put_html env x ks)"
  unfolding append_each_def append_new_def put_html_def
  by (cases ts; auto intro!: keeps_intros prims)+

end

context dash_stable begin

lemma move: "keeps P (move_to ks ts)"
  unfolding move_to_def by (intro keeps_intros prims)

lemma leaf: "keeps P (leaf_handler opts n w)" "keeps P (trigger_leaf opts n w)"
  unfolding trigger_leaf_def leaf_handler_def openMenu_def closeMenu_def
  by (intro keeps_intros prims)+

lemma changed: "keeps P (state_change opts)" "keeps P (settings_answered a)"
  unfolding state_change_def post_settings_def settings_answered_def by (intro keeps_intros prims)+

lemma contents:
  "keeps P (openContent env opts w)" "keeps P (content_loaded env opts w cs a)"
  "keeps P (refreshContent env opts w)" "keeps P (closeContent opts w)"
proof -
  show o: "keeps P (openContent env opts w)" for w
    unfolding openContent_def Let_def
    by (intro keeps_intros prims leaf changed upd each_target) (auto intro!: keeps_intros prims leaf changed each_target split: list.split)
  show "keeps P (content_loaded env opts w cs a)"
    unfolding content_loaded_def by (intro keeps_intros prims each_target upd) auto
  show "keeps P (refreshContent env opts w)"
    unfolding refreshContent_def by (intro keeps_intros upd o) auto
  show "keeps P (closeContent opts w)"
    unfolding closeContent_def by (intro keeps_intros prims leaf changed upd) auto
qed

lemma settings:
  "keeps P (setTitle env opts w t)" "keeps P (addMetadataValue opts w n v)" "keeps P (widget_remove opts w)"
  "keeps P (openFullscreen opts w)" "keeps P (closeFullscreen opts w)" "keeps P (openSettings w)"
proof -
  show "keeps P (setTitle env opts w t)"
    unfolding setTitle_def by (intro keeps_intros prims changed upd each_target) auto
  show "keeps P (addMetadataValue opts w n v)"
    unfolding addMetadataValue_def Let_def by (intro keeps_intros changed metas)
  show "keeps P (widget_remove opts w)"
    unfolding widget_remove_def by (intro keeps_intros prims changed)
  show "keeps P (openFullscreen opts w)"
    unfolding openFullscreen_def Let_def by (intro keeps_intros prims upd each_target move) auto
  show "keeps P (closeFullscreen opts w)"
    unfolding closeFullscreen_def by (intro keeps_intros prims upd move) auto
  show "keeps P (openSettings w)"
    unfolding openSettings_def by (intro prims)
qed

lemma trigger: "keeps P (trigger_widget env opts p n w)"
  unfolding trigger_widget_def widget_handler_def by (intro keeps_intros prims contents settings leaf)

lemma column_set: "keeps P (set_column e c)"
  unfolding set_column_def by (intro keeps_intros upd) auto

lemma clicks:
  "keeps P (click_menutrigger env opts p e)" "keeps P (click_fullscreen env opts p e)"
  "keeps P (click_control env opts p e)" "keeps P (click_title env opts p e)"
  "keeps P (header_mouseover opts e)" "keeps P (header_mouseout opts e)" "keeps P (body_click opts)"
  unfolding click_menutrigger_def click_fullscreen_def click_control_def click_title_def
    header_mouseover_def header_mouseout_def body_click_def
  by (intro keeps_intros prims trigger)+

lemma sorts:
  "keeps P (sort_receive opts c e)" "keeps P (sort_deactivate env opts c)" "keeps P (sort_over c)"
  "keeps P (sort_out c)" "keeps P (sort_start opts e)" "keeps P (sort_stop_timeout opts e)"
  unfolding sort_receive_def sort_deactivate_def sort_over_def sort_out_def sort_start_def
    sort_stop_timeout_def Let_def
  by (intro keeps_intros prims column_set changed each_target)+

lemma columns_fixed: "keeps P (empty_columns_text env opts cs)" "keeps P (fixSortableColumns env opts)"
  unfolding empty_columns_text_def fixSortableColumns_def Let_def
  by (intro keeps_intros prims each_target)+

lemma layout_set: "keeps P (setLayout env opts l)"
  unfolding setLayout_def
  by (intro keeps_intros prims columns_fixed each_target)

lemma dialogs_opened:
  "keeps P (open_layout_dialog env opts)" "keeps P (close_layout_dialog opts)"
  "keeps P (close_widget_dialog opts)" "keeps P (open_widget_dialog opts)"
  "keeps P (select_category opts ks)" "keeps P (directory_received env opts cats)"
  "keeps P (click_add_widget opts e)" "keeps P (category_received env opts items)"
proof -
  show "keeps P (category_received env opts items)"
    unfolding category_received_def Let_def by (intro keeps_intros prims each_target to_add)
  show c: "keeps P (select_category opts ks)" for ks
    unfolding select_category_def empty_all_def Let_def by (intro keeps_intros prims)
  show "keeps P (open_layout_dialog env opts)"
    unfolding open_layout_dialog_def empty_all_def Let_def
    by (intro keeps_intros prims each_target)
  show "keeps P (directory_received env opts cats)"
    unfolding directory_received_def Let_def by (intro keeps_intros prims each_target c categories)
  show w: "keeps P (close_widget_dialog opts)"
    unfolding close_widget_dialog_def by (intro keeps_intros prims)
  show "keeps P (close_layout_dialog opts)" "keeps P (open_widget_dialog opts)"
    unfolding close_layout_dialog_def open_widget_dialog_def empty_all_def Let_def by (intro keeps_intros prims)+
  show "keeps P (click_add_widget opts e)"
    unfolding click_add_widget_def by (intro keeps_intros prims w)
qed

end

text \<open>The registry: what \<open>dashboard.widgets\<close> refers to exists and bears the name it is
  registered under, and so do the metadata objects that widgets and data refer to.\<close>

definition data_ok :: "string obj list \<Rightarrow> widget_data \<Rightarrow> bool" where
  "data_ok ms d \<longleftrightarrow> (case o_metadata d of None \<Rightarrow> True | Some m \<Rightarrow> m < length ms)"

definition registry_ok :: "widget_data list \<Rightarrow> dash \<Rightarrow> bool" where
  "registry_ok D s \<longleftrightarrow>
     (\<forall>i w. oget (d_widgets s) i = Some w \<longrightarrow> w < length (d_heap s) \<and> w_id (d_heap s ! w) = i) \<and>
     (\<forall>w < length (d_heap s). w_metadata (d_heap s ! w) < length (d_metas s)) \<and>
     d_metas s \<noteq> [] \<and> (\<forall>d \<in> set D. data_ok (d_metas s) d)"

lemma nth_update: "xs[i := x] ! j = (if i = j \<and> i < length xs then x else xs ! j)"
  by (cases "i < length xs") (auto simp: nth_list_update list_update_beyond)

interpretation registry: dash_stable "registry_ok D" for D
proof
  fix s r assume "registry_ok D s"
  then show "registry_ok D (s\<lparr>d_doc := r\<rparr>)" by (simp add: registry_ok_def)
next
  fix s y m assume "registry_ok D s"
  then show "registry_ok D (s\<lparr>d_metas := (d_metas s)[m := y]\<rparr>)" by (auto simp: registry_ok_def data_ok_def cong: option.case_cong)
next
  fix s x w assume "registry_ok D s" "same_widget x (the_widget w s)"
  then show "registry_ok D (s\<lparr>d_heap := (d_heap s)[w := x]\<rparr>)" by (auto simp: registry_ok_def nth_update)
qed (simp_all add: registry_ok_def)

text \<open>A widget of the heap: what never changes of it.\<close>

definition made :: "widget_data list \<Rightarrow> nat \<Rightarrow> widget \<Rightarrow> dash \<Rightarrow> bool" where
  "made D w x s \<longleftrightarrow> registry_ok D s \<and> w < length (d_heap s) \<and> same_widget (the_widget w s) x"

interpretation made: dash_stable "made D w x" for D w x
proof
  fix s r assume "made D w x s"
  then show "made D w x (s\<lparr>d_doc := r\<rparr>)" by (simp add: made_def registry.doc)
next
  fix s y v assume "made D w x s" "same_widget y (the_widget v s)"
  then show "made D w x (s\<lparr>d_heap := (d_heap s)[v := y]\<rparr>)" by (auto simp: made_def registry.widget nth_update)
qed (simp_all add: made_def registry.next_k registry.events registry.requests registry.layout
  registry.initialized registry.dialogs registry.categories registry.metas registry.to_add)

lemma new_widget_ok:
  assumes "registry_ok D s" "d \<in> set D"
  shows "made D (length (d_heap s)) (new_widget el d) (s\<lparr>d_heap := d_heap s @ [new_widget el d]\<rparr>)"
  using assms by (auto simp: made_def registry_ok_def nth_append new_widget_def data_ok_def less_Suc_eq split: option.splits)

lemma construct_made:
  assumes d: "d \<in> set D"
  shows "triple (registry_ok D) (construct_widget env opts el d) (\<lambda>w. made D w (new_widget el d)) (registry_ok D)"
  unfolding construct_widget_def Let_def
proof (intro triple_ado triple_then [OF triple_amodify])
  fix s :: dash
  let ?w = "length (d_heap s)"
  let ?made = "made D ?w (new_widget el d)"
  show "registry_ok D s \<Longrightarrow> t = s \<Longrightarrow> ?made (t\<lparr>d_heap := d_heap t @ [new_widget el d]\<rparr>)" for t
    using new_widget_ok [OF _ d] by simp
  have "keeps ?made (aseq [ado (\<lambda>s. awhen (w_open (the_widget ?w s)) (openContent env opts ?w)),
      throw_event ''widgetInitialized'' (On_widget ?w)])"
    by (intro keeps_intros made.contents made.prims)
  then have "triple ?made (aseq [ado (\<lambda>s. awhen (w_open (the_widget ?w s)) (openContent env opts ?w)),
      throw_event ''widgetInitialized'' (On_widget ?w)]) (\<lambda>_. ?made) (registry_ok D)"
    by (rule triple_mono [OF triple_keeps]) (auto simp: made_def)
  then show "triple ?made (athen (aseq [ado (\<lambda>s. awhen (w_open (the_widget ?w s)) (openContent env opts ?w)),
      throw_event ''widgetInitialized'' (On_widget ?w)]) (areturn ?w)) (\<lambda>w. made D w (new_widget el d)) (registry_ok D)"
    by (rule triple_then) (rule triple_areturn)
qed

lemma registered:
  assumes "made D w x s" "w_id x = i"
  shows "registry_ok D (s\<lparr>d_widgets := oset i w (d_widgets s)\<rparr>)"
  using assms by (auto simp: made_def registry_ok_def oget_oset)

lemma add_registry:
  assumes d: "d \<in> set D"
  shows "keeps (registry_ok D) (addWidget env opts d col)"
proof -
  let ?reg = "registry_ok D"
  let ?build = "abind (append_new [template_node env (widgetTemplate opts) d] col) (\<lambda>wi.
      abind (construct_widget env opts (hd wi) d) (\<lambda>w.
        amodify (\<lambda>s. s\<lparr>d_widgets := oset (o_id d) w (d_widgets s)\<rparr>)))"
  have build: "triple (registry_ok D) ?build (\<lambda>_. ?reg) ?reg"
  proof (rule triple_bind [OF triple_keeps [OF registry.each_target(2)]], rule triple_bind [OF construct_made [OF d]])
    show "triple (made D w (new_widget (hd wi) d))
        (amodify (\<lambda>s. s\<lparr>d_widgets := oset (o_id d) w (d_widgets s)\<rparr>)) (\<lambda>_. ?reg) ?reg" for w wi
      by (rule triple_amodify) (auto simp: new_widget_def intro: registered)
  qed
  have move: "triple (registry_ok D) (move_to ks ts) (\<lambda>_. ?reg) ?reg" for ks ts
    by (rule triple_keeps [OF registry.move])
  have rest: "triple ?reg (ado (\<lambda>s. aseq [throw_event ''widgetAdded'' (On_widget (the (getWidget (o_id d) s))),
      awhen (d_initialized s) (state_change opts)])) (\<lambda>_. ?reg) ?reg"
    by (intro triple_keeps keeps_intros registry.prims registry.changed)
  show ?thesis
    unfolding addWidget_def Let_def
  proof (rule keeps_triple, rule triple_ado, rule triple_then [OF _ rest])
    fix s assume s: "registry_ok D s"
    show "triple (\<lambda>t. t = s)
        (case (getWidget (o_id d) s, by_id (o_id d) (d_doc s)) of
           (Some w, e # es) \<Rightarrow> move_to (e # es) (case w_column (the_widget w s) of None \<Rightarrow> [] | Some c \<Rightarrow> by_tag c (d_doc s))
         | _ \<Rightarrow> ?build) (\<lambda>_. ?reg) ?reg"
      using triple_mono [OF build, of "\<lambda>t. t = s"] triple_mono [OF move, of "\<lambda>t. t = s"] s
      by (auto split: option.split list.split)
  qed
qed

lemma load_registry: "set data \<subseteq> set D \<Longrightarrow> keeps (registry_ok D) (loadWidgets env opts data)"
  unfolding loadWidgets_def Let_def
  by (intro keeps_intros registry.prims registry.move registry.column_set registry.columns_fixed add_registry) auto

lemma layout_registry:
  "set data \<subseteq> set D \<Longrightarrow> keeps (registry_ok D) (layout_received env opts (Some (l, data)))"
  "keeps (registry_ok D) (layout_received env opts None)"
  unfolding layout_received_def by (auto intro!: keeps_intros registry.layout_set load_registry)

lemma init_registry: "set (json_data opts) \<subseteq> set D \<Longrightarrow> keeps (registry_ok D) (dash_init env opts)"
  unfolding dash_init_def loadLayout_def
  by (intro keeps_intros registry.prims registry.layout_set load_registry)

lemma select_layout_registry:
  "set (json_data opts) \<subseteq> set D \<Longrightarrow> keeps (registry_ok D) (select_layout env opts e)"
  unfolding select_layout_def Let_def
  by (intro keeps_intros registry.prims registry.dialogs_opened registry.columns_fixed registry.move
      init_registry registry.each_target)
    (auto split: option.split intro!: keeps_intros registry.prims)

text \<open>Data from the server comes with metadata objects of its own.\<close>

lemma registry_mono: "registry_ok D s \<Longrightarrow> set D' \<subseteq> set D \<Longrightarrow> registry_ok D' s"
  by (auto simp: registry_ok_def)

lemma parse_registry:
  "triple (registry_ok D) (parse_data items) (\<lambda>data. registry_ok (D @ data)) (registry_ok D)"
  unfolding parse_data_def
proof (induction items arbitrary: D)
  case Nil
  then show ?case by (simp add: triple_areturn)
next
  case (Cons x items)
  obtain d m where x: "x = (d, m)" by (cases x)
  let ?one = "ado (\<lambda>s. case m of None \<Rightarrow> areturn (d\<lparr>o_metadata := None\<rparr>)
     | Some x \<Rightarrow> athen (amodify (\<lambda>s. s\<lparr>d_metas := d_metas s @ [x]\<rparr>)) (areturn (d\<lparr>o_metadata := Some (length (d_metas s))\<rparr>)))"
  have one: "triple (registry_ok D) ?one (\<lambda>d. registry_ok (D @ [d])) (registry_ok D)"
    by (cases m) (auto simp: triple_def ado_run athen_def abind_def amodify_run areturn_run registry_ok_def
        data_ok_def less_SucI split: option.splits)
  have rest: "triple (registry_ok (D @ [y])) (amap f items) (\<lambda>ys. registry_ok (D @ y # ys)) (registry_ok D)"
    if "triple (registry_ok (D @ [y])) (amap f items) (\<lambda>data. registry_ok ((D @ [y]) @ data)) (registry_ok (D @ [y]))" for y f
    by (rule triple_mono [OF that]) (auto intro: registry_mono)
  show ?case
    unfolding amap.simps x prod.case
    by (intro triple_bind [OF one] triple_bind [OF rest] triple_areturn Cons.IH)
qed

lemma from_parsed:
  assumes "\<And>data. keeps (registry_ok (D @ data)) (f data)"
  shows "keeps (registry_ok D) (abind (parse_data items) f)"
proof (rule keeps_triple, rule triple_bind [OF parse_registry])
  fix data
  show "triple (registry_ok (D @ data)) (f data) (\<lambda>_. registry_ok D) (registry_ok D)"
    by (rule triple_mono [OF triple_keeps [OF assms]]) (auto intro: registry_mono)
qed

lemma add_parsed_registry:
  "keeps (registry_ok D) (abind (parse_data [(d, m)]) (\<lambda>data. addWidget env opts (hd data) col))"
proof -
  have "triple (registry_ok D) (parse_data [(d, m)]) (\<lambda>data s. registry_ok (D @ data) s \<and> data \<noteq> []) (registry_ok D)"
    using parse_registry [of D "[(d, m)]"] unfolding triple_def
    by (auto simp: parse_data_def abind_def areturn_run ado_run athen_def amodify_run split: prod.splits sum.splits option.splits)
  then show ?thesis
  proof (intro keeps_triple, elim triple_bind)
    fix data
    show "triple (\<lambda>s. registry_ok (D @ data) s \<and> data \<noteq> []) (addWidget env opts (hd data) col) (\<lambda>_. registry_ok D) (registry_ok D)"
    proof (cases "data = []")
      case True
      then show ?thesis by (simp add: triple_def)
    next
      case False
      then have "hd data \<in> set (D @ data)" by simp
      from triple_keeps [OF add_registry [OF this, where env = env and opts = opts and col = col]]
      show ?thesis by (rule triple_mono) (auto intro: registry_mono)
    qed
  qed
qed

interpretation dash: machine "dash_step env opts" "registry_ok (json_data opts)" for env :: dash_env and opts :: dash_opts
proof
  fix s c assume ok: "registry_ok (json_data opts) s"
  have "keeps (registry_ok (json_data opts)) (run_call env opts c)"
    by (cases c) (auto simp: hd_append intro!: keeps_intros init_registry layout_registry from_parsed registry.contents
        registry.changed add_parsed_registry registry.trigger registry.clicks registry.sorts registry.dialogs_opened
        select_layout_registry split: option.split prod.split)
  then show "registry_ok (json_data opts) (dash_step env opts c s)"
    unfolding dash_step_def using ok by (rule keeps_after)
qed

lemma dashboard_registry:
  assumes "\<forall>d \<in> set (json_data opts). data_ok ([] # metas) d"
  shows "registry_ok (json_data opts) (dashboard env opts metas doc el i)"
proof -
  have "keeps (registry_ok (json_data opts)) (abind (append_new (parse_html env (loadingHtml opts)) [el])
      (\<lambda>ks. amodify (\<lambda>s. s\<lparr>d_loading := ks\<rparr>)))"
    by (intro keeps_intros registry.each_target) (simp add: registry_ok_def)
  then show ?thesis unfolding dashboard_def
    by (rule keeps_after) (use assms in \<open>simp add: registry_ok_def\<close>)
qed

text \<open>C14: whatever happens to a dashboard, clicks, drags, answers of the server in any order,
  calls that throw half-way, the registry stays sound: a registered id refers to a widget that exists and bears
  that id, and every widget has a metadata object.\<close>

theorem registry_sound:
  assumes "\<forall>d \<in> set (json_data opts). data_ok ([] # metas) d"
    and "s = fold (dash_step env opts) calls (dashboard env opts metas doc el i)"
  shows "(\<forall>j w. getWidget j s = Some w \<longrightarrow> w < length (d_heap s) \<and> w_id (the_widget w s) = j) \<and>
    (\<forall>w < length (d_heap s). w_metadata (the_widget w s) < length (d_metas s))"
  using dash.inv_run [OF dashboard_registry [OF assms(1)], of env calls env doc el i] assms(2)
  by (auto simp: registry_ok_def getWidget_def)

subsection \<open>Serialization in closed form\<close>

lemma js_join_step: "js_join sep (w # ws) = w @ (if ws = [] then '''' else sep) @ js_join sep ws"
  by (cases ws) simp_all

lemma serialize_loop_eq:
  "serialize_loop es i r s =
     (case rmap (\<lambda>e. widget_of e s) es of
        Inl e \<Rightarrow> Inl e
      | Inr ws \<Rightarrow> Inr (r @ (if i > 0 \<and> ws \<noteq> [] then '','' else '''') @ js_join '','' (map (\<lambda>w. widget_serialize w s) ws)))"
proof (induction es arbitrary: i r)
  case (Cons e es)
  show ?case
  proof (cases "widget_of e s")
    case (Inr w)
    show ?thesis
      unfolding serialize_loop.simps rmap.simps Inr rbind_simps Cons
      by (cases "rmap (\<lambda>e. widget_of e s) es") (simp_all add: js_join_step del: js_join.simps(3))
  qed (simp add: rbind_def)
qed simp

text \<open>C15: what is saved. With a layout chosen, the settings list the widgets of the columns in document
  order, separated by commas; one element with the widget class and an id that is not registered, and
  nothing can be saved: the call throws.\<close>

theorem serialize_lists_widgets:
  assumes "d_layout s = Some (Some l)"
  shows "serialize opts s =
     (if \<forall>e \<in> set (column_widgets opts s). getWidget (id_key e s) s \<noteq> None
      then Inr (''{\"layout\": \"'' @ l_id l @ ''\", \"data\" : ['' @
        js_join '','' (map (\<lambda>e. widget_serialize (the (getWidget (id_key e s) s)) s) (column_widgets opts s)) @ '']}'')
      else Inl TypeError)"
proof -
  have "rmap (\<lambda>e. widget_of e s) es =
      (if \<forall>e \<in> set es. getWidget (id_key e s) s \<noteq> None
       then Inr (map (\<lambda>e. the (getWidget (id_key e s) s)) es) else Inl TypeError)" for es
    by (induction es) (auto simp: widget_of_def split: option.splits)
  then show ?thesis using assms by (simp add: serialize_def serialize_loop_eq o_def)
qed

text \<open>What one change does: the event is thrown, and with a URL to save at the settings of this
  very state are sent, or the exception of \<open>serialize\<close> comes out of whatever operation it was.\<close>

lemma state_change_run:
  "state_change opts s =
     (let s' = s\<lparr>d_events := d_events s @ [(''dashboardStateChange'', On_dashboard)]\<rparr>
      in if dashboard_live s \<and> stateChangeUrl opts \<noteq> ''''
         then (case serialize opts s of Inl e \<Rightarrow> (Inl e, s')
               | Inr x \<Rightarrow> (Inr (), s'\<lparr>d_requests := d_requests s @ [Post_settings (d_id s) x]\<rparr>))
         else (Inr (), s'))"
proof -
  let ?s = "s\<lparr>d_events := d_events s @ [(''dashboardStateChange'', On_dashboard)]\<rparr>"
  have gw: "getWidget i ?s = getWidget i s" "id_key e ?s = id_key e s" "widget_serialize w ?s = widget_serialize w s" for i e w
    by (simp_all add: getWidget_def id_key_def widget_serialize_def)
  have "serialize_loop es i r ?s = serialize_loop es i r s" for es i r
    by (induction es arbitrary: i r) (simp_all add: gw widget_of_def)
  then have "serialize opts ?s = serialize opts s" "dashboard_live ?s = dashboard_live s"
    by (simp_all add: serialize_def column_widgets_def dashboard_live_def cong: option.case_cong)
  then show ?thesis
    by (auto simp: state_change_def post_settings_def throw_event_def send_def athen_def abind_def act_simps Let_def
        split: sum.splits)
qed

text \<open>C16: a dashboard with a widget element that it does not know cannot report any change. Each of these
  operations throws, after it has changed the widget.\<close>

theorem unknown_widget_blocks_changes:
  assumes "stateChangeUrl opts \<noteq> ''''" "d_layout s = Some (Some l)" "dashboard_live s" "w < length (d_heap s)"
    and "e \<in> set (column_widgets opts s)" "getWidget (id_key e s) s = None"
  shows "fst (addMetadataValue opts w n v s) = Inl TypeError \<and> fst (state_change opts s) = Inl TypeError"
proof -
  have other: "serialize opts (s\<lparr>d_metas := ms\<rparr>) = Inl TypeError" for ms
    using assms serialize_lists_widgets [of "s\<lparr>d_metas := ms\<rparr>" l opts]
    by (auto simp: column_widgets_def getWidget_def id_key_def)
  then have "serialize opts s = Inl TypeError" using other [of "d_metas s"] by simp
  then have changed: "fst (state_change opts s) = Inl TypeError"
    using assms(1,3) by (simp add: state_change_run Let_def)
  have live: "dashboard_live (s\<lparr>d_metas := ms\<rparr>)" for ms using assms(3) by (simp add: dashboard_live_def)
  have "fst (addMetadataValue opts w n v s) = Inl TypeError"
    using assms(1) live other
    by (simp add: addMetadataValue_def athen_def abind_def amodify_run state_change_run Let_def)
  then show ?thesis using changed by simp
qed
text \<open>The metadata of widgets made without any is one and the same object, so a value added to
  one of them is a value of all of them.\<close>

theorem metadata_is_shared:
  assumes "o_metadata d1 = None" "o_metadata d2 = None" "registry_ok D s" "d1 \<in> set D" "d2 \<in> set D"
    and "the_widget w1 s = new_widget e1 d1" "the_widget w2 s = new_widget e2 d2"
    and "s' = after (addMetadataValue opts w1 (Some name) (Some v)) s"
  shows "the_widget w2 s' = new_widget e2 d2 \<and> oget (d_metas s' ! w_metadata (the_widget w2 s')) name = Some v"
proof -
  have m: "w_metadata (the_widget w1 s) = 0" "w_metadata (the_widget w2 s) = 0" "0 < length (d_metas s)"
    using assms(1-3,6,7) by (auto simp: new_widget_def registry_ok_def)
  have "d_heap s' = d_heap s \<and> d_metas s' = (d_metas s)[0 := oset name v (d_metas s ! 0)]"
    using m(1) unfolding assms(8)
    by (auto simp: after_def addMetadataValue_def athen_def abind_def amodify_run state_change_run areturn_run
        Let_def or_undefined_def split: sum.splits)
  then show ?thesis using m assms(7) by (simp add: oget_oset)
qed

subsection \<open>Layouts and columns\<close>

lemma layout_loop_eq:
  "layout_loop i ls n f r =
     (if n = 0 \<and> ls \<noteq> [] then Some (hd ls) else f,
      case filter (\<lambda>l. l_id l = i) ls of [] \<Rightarrow> r | xs \<Rightarrow> Some (last xs))"
  by (induction ls arbitrary: n f r) (auto split: list.splits)

text \<open>\<open>getLayout\<close> gives a layout whenever there are any: one with the id asked for, the last of
  them, and the first of all layouts when none has it.\<close>

theorem getLayout_spec:
  assumes "layouts opts = Some ls" "ls \<noteq> []"
  shows "getLayout opts i =
     (if \<exists>l \<in> set ls. l_id l = i then Some (last (filter (\<lambda>l. l_id l = i) ls)) else Some (hd ls))"
proof (cases "filter (\<lambda>l. l_id l = i) ls")
  case Nil
  then have "\<not> (\<exists>l \<in> set ls. l_id l = i)" by (auto simp: filter_empty_conv)
  then show ?thesis using assms Nil by (simp add: getLayout_def layout_loop_eq)
next
  case (Cons x xs)
  then have "x \<in> set (filter (\<lambda>l. l_id l = i) ls)" by simp
  then have "\<exists>l \<in> set ls. l_id l = i" by auto
  then show ?thesis using assms Cons by (simp add: getLayout_def layout_loop_eq)
qed

lemma fold_last: "fold (\<lambda>c r. if p c then Some c else r) cs r = (case filter p cs of [] \<Rightarrow> r | xs \<Rightarrow> Some (last xs))"
  by (induction cs arbitrary: r) (auto split: list.splits)

lemma column_identifier_eq:
  "getColumnIdentifier opts classes =
     (case filter (starts_with (columnPrefix opts)) (split_on CHR '' '' classes) of
        [] \<Rightarrow> Inl TypeError | cs \<Rightarrow> Inr (drop (length (columnPrefix opts)) (last cs)))"
  by (simp add: getColumnIdentifier_def fold_last split: list.split)

subsection \<open>Contents\<close>

definition loads :: "dash \<Rightarrow> request_sent list" where
  "loads s = filter (\<lambda>r. case r of Load_content w cs u \<Rightarrow> True | _ \<Rightarrow> False) (d_requests s)"

text \<open>The content of a widget is asked for once. Opening a widget whose content has come sends no
  request for it, and opens it.\<close>

theorem loaded_content_not_reloaded:
  assumes "w_loaded (the_widget w s)" "w < length (d_heap s)"
  shows "loads (after (openContent env opts w) s) = loads s \<and> w_open (the_widget w (after (openContent env opts w) s))"
proof -
  define H where "H = (d_heap s)[w := w_open_update (\<lambda>_. True) (the_widget w s)]"
  let ?P = "\<lambda>H t. loads t = loads s \<and> d_heap t = H"
  have doc: "keeps (?P H) (on_doc f)" for f H
    unfolding on_doc_def by (intro keeps_intros) (simp add: loads_def)
  have event: "keeps (?P H) (throw_event n t)" for n t H
    unfolding throw_event_def by (intro keeps_intros) (simp add: loads_def)
  have leaf: "keeps (?P H) (trigger_leaf opts n w)" for n H
    unfolding trigger_leaf_def leaf_handler_def openMenu_def closeMenu_def by (intro keeps_intros doc event)
  have change: "keeps (?P H) (state_change opts)" for H
    unfolding keeps_def state_change_run Let_def by (auto simp: loads_def split: sum.split)
  have H: "w_loaded (H ! w)" "w_open (H ! w)" using assms by (simp_all add: H_def)
  have "triple (?P (d_heap s)) (openContent env opts w) (\<lambda>_. ?P H) (?P H)"
    unfolding openContent_def
  proof (intro triple_aseq(1))
    show "triple (?P (d_heap s)) (ado (\<lambda>s. on_doc (hide_all (find_in_widget ''widgetOpen'' w s)))) (\<lambda>_. ?P (d_heap s)) (?P H)"
      "triple (?P (d_heap s)) (ado (\<lambda>s. on_doc (show_all (find_in_widget ''widgetClose'' w s)))) (\<lambda>_. ?P (d_heap s)) (?P H)"
      by (simp_all add: triple_def ado_run on_doc_def amodify_run loads_def)
    show "triple (?P (d_heap s)) (upd_widget w (w_open_update (\<lambda>_. True))) (\<lambda>_. ?P H) (?P H)"
      unfolding upd_widget_def by (rule triple_amodify) (simp add: loads_def H_def)
    show "triple (?P H) (ado (\<lambda>s. if \<not> w_loaded (the_widget w s) then
           (case w_url (the_widget w s) of
              Some (c # u) \<Rightarrow>
                aseq [ado (\<lambda>s. athen (append_new (parse_html env (loadingHtml opts))
                                        (find_in_widget (widgetContentClass opts) w s)) (areturn ())),
                      trigger_leaf opts ''widgetShow'' w,
                      ado (\<lambda>s. let cs = find_in_widget (widgetContentClass opts) w s
                                in awhen (cs \<noteq> []) (send (Load_content w cs (c # u))))]
            | _ \<Rightarrow> aseq [trigger_leaf opts ''widgetShow'' w, throw_event ''widgetLoaded'' (On_widget w)])
         else trigger_leaf opts ''widgetShow'' w)) (\<lambda>_. ?P H) (?P H)"
      by (rule triple_ado) (use H in \<open>auto intro: triple_mono [OF triple_keeps [OF leaf [where H = H]]]\<close>)
    show "triple (?P H) (ado (\<lambda>s. awhen (d_initialized s) (state_change opts))) (\<lambda>_. ?P H) (?P H)"
      by (intro triple_keeps keeps_intros change)
  qed (rule triple_aseq(2))
  then show ?thesis using H(2) triple_after [of "?P (d_heap s)" _ "?P H" s]
    by (auto intro: triple_mono)
qed

subsection \<open>A page to run the code on\<close>

definition sample_widget_node :: "string \<Rightarrow> widget_data \<Rightarrow> node" where
  "sample_widget_node t d = Node 0 ''li'' (o_id d) [''widget''] False ''''
     [Node 1 ''div'' '''' [''widgetcontent''] False '''' []]"

definition sample_env :: dash_env where
  "sample_env =
     \<lparr>template_node = sample_widget_node,
      category_node = (\<lambda>t c. Node 0 ''li'' (fst c) [''selectcategory''] False '''' []),
      layout_node = (\<lambda>t l. Node 0 ''div'' (l_id l) [''layoutchoice''] False '''' []),
      parse_html = (\<lambda>x. [Node 0 ''div'' '''' [''emptycolumn''] False x []]),
      display_none = (\<lambda>doc k. False)\<rparr>"

definition sample_layout :: layout where
  "sample_layout = \<lparr>l_id = ''layout1'', l_classname = ''layout-aaa'', l_html = ''''\<rparr>"

definition sample_data :: "string \<Rightarrow> string \<Rightarrow> widget_data" where
  "sample_data i c = \<lparr>o_id = i, o_column = Some c, o_url = None, o_editurl = None, o_title = Some i,
     o_open = None, o_metadata = None\<rparr>"

definition sample_opts :: dash_opts where
  "sample_opts = dashboard_defaults\<lparr>json_url := ''/dashboard'', stateChangeUrl := ''/save'',
     layoutClass := Some ''layout'', layouts := Some [sample_layout]\<rparr>"

definition sample_column :: "nat \<Rightarrow> string \<Rightarrow> node list \<Rightarrow> node" where
  "sample_column k c ns = Node k ''ul'' (''col-'' @ c) [''column'', ''column-'' @ c] False '''' ns"

definition sample_doc :: node where
  "sample_doc = Node 0 ''body'' '''' [] False ''''
     [Node 1 ''div'' ''dash'' [] False '''' [Node 2 ''div'' '''' [''layout''] False ''''
        [sample_column 3 ''first'' [], sample_column 4 ''second'' [], sample_column 5 ''third'' []]]]"

definition sample_start :: dash where
  "sample_start = dashboard sample_env sample_opts [] sample_doc 1 ''dash''"

text \<open>The state after the answer of the server with three widgets.\<close>

definition sample_widget :: "nat \<Rightarrow> string \<Rightarrow> string \<Rightarrow> widget" where
  "sample_widget e i c = new_widget e (sample_data i c)"

definition sample_item :: "nat \<Rightarrow> string \<Rightarrow> node" where
  "sample_item k i = Node k ''li'' i [''widget''] False '''' [Node (Suc k) ''div'' '''' [''widgetcontent''] False '''' []]"

definition sample_state :: "node list \<Rightarrow> nat \<Rightarrow> dash" where
  "sample_state cols n =
     \<lparr>d_doc = Node 0 ''body'' '''' [] False ''''
        [Node 1 ''div'' ''dash'' [] False '''' [Node 2 ''div'' '''' [''layout'', ''layout-aaa''] False '''' cols]],
      d_next = n, d_id = ''dash'', d_element = 1, d_layout = Some (Some sample_layout),
      d_heap = [sample_widget 7 ''w1'' ''first'', sample_widget 9 ''w2'' ''second'', sample_widget 11 ''w3'' ''third''],
      d_metas = [[]], d_widgets = [(''w1'', 0), (''w2'', 1), (''w3'', 2)], d_initialized = True, d_loading = [6],
      d_events = (''dashboardLayoutLoaded'', On_dashboard) #
        concat (map (\<lambda>w. map (\<lambda>e. (e, On_widget w)) [''widgetShow'', ''widgetLoaded'', ''widgetInitialized'', ''widgetAdded'']) [0, 1, 2]),
      d_requests = [], d_toAdd = [], d_categories = [], d_open_dialogs = []\<rparr>"

definition sample_loaded :: dash where
  "sample_loaded = sample_state
     [sample_column 3 ''first'' [sample_item 7 ''w1''], sample_column 4 ''second'' [sample_item 9 ''w2''],
      sample_column 5 ''third'' [sample_item 11 ''w3'']] 13"

lemma sample_loading:
  "after (layout_received sample_env sample_opts (Some (''layout1'',
     [sample_data ''w1'' ''first'', sample_data ''w2'' ''second'', sample_data ''w3'' ''third'']))) sample_start = sample_loaded"
  by code_simp

definition plain :: payload where
  "plain = \<lparr>p_title = None, p_name = None, p_value = None, p_confirm = True\<rparr>"

text \<open>Adding a widget to a dashboard that is in use fails, when the widget is to be open and
  changes are saved: opening it in its constructor announces a change while its element is in the column
  but its object not yet registered. The element stays behind, unknown to the dashboard.\<close>

theorem adding_open_widget_throws:
  "fst (addWidget sample_env sample_opts (sample_data ''w4'' ''first'') [3] sample_loaded) = Inl TypeError \<and>
   (let s = after (addWidget sample_env sample_opts (sample_data ''w4'' ''first'') [3]) sample_loaded
    in getWidget ''w4'' s = None \<and> length (by_id ''w4'' (d_doc s)) = 1 \<and> serialize sample_opts s = Inl TypeError)"
  by code_simp

definition fullscreen_and_back :: "dash_opts \<Rightarrow> nat \<Rightarrow> dash \<Rightarrow> dash" where
  "fullscreen_and_back opts w s = after (closeFullscreen opts w) (after (openFullscreen opts w) s)"

definition marked_column :: "nat \<Rightarrow> string \<Rightarrow> node list \<Rightarrow> node" where
  "marked_column k c ns = Node k ''ul'' ''placeholder'' [''column'', ''column-'' @ c] False '''' ns"

lemma fullscreen_first:
  "fullscreen_and_back sample_opts 1 sample_loaded = sample_state
     [sample_column 3 ''first'' [sample_item 7 ''w1''], marked_column 4 ''second'' [sample_item 9 ''w2''],
      sample_column 5 ''third'' [sample_item 11 ''w3'']] 14"
  by code_simp

lemma fullscreen_second:
  "fullscreen_and_back sample_opts 2 (sample_state
     [sample_column 3 ''first'' [sample_item 7 ''w1''], marked_column 4 ''second'' [sample_item 9 ''w2''],
      sample_column 5 ''third'' [sample_item 11 ''w3'']] 14) = sample_state
     [sample_column 3 ''first'' [sample_item 7 ''w1''], marked_column 4 ''second'' [sample_item 9 ''w2'', sample_item 11 ''w3''],
      marked_column 5 ''third'' []] 15"
  by code_simp

text \<open>A widget comes back from full screen into the wrong column. Full screen marks the column of the widget
  with the id \<open>placeholder\<close>, in place of its own id, and never takes the mark away: once a widget of the second
  column has been there, one of the third column comes back to the second.\<close>

theorem fullscreen_moves_widget:
  "d_doc (fullscreen_and_back sample_opts 2 (fullscreen_and_back sample_opts 1 sample_loaded)) = d_doc (sample_state
     [sample_column 3 ''first'' [sample_item 7 ''w1''], marked_column 4 ''second'' [sample_item 9 ''w2'', sample_item 11 ''w3''],
      marked_column 5 ''third'' []] 15)"
  by (simp only: fullscreen_first fullscreen_second)

text \<open>The hypotheses of the general properties hold on this page.\<close>

theorem registry_sound_witness:
  "getWidget ''w2'' sample_loaded = Some 1 \<and> w_id (the_widget 1 sample_loaded) = ''w2''"
proof -
  let ?s = "fold (dash_step sample_env sample_opts) [Layout_answer (Some (''layout1'', map (\<lambda>d. (d, None))
      [sample_data ''w1'' ''first'', sample_data ''w2'' ''second'', sample_data ''w3'' ''third'']))]
      (dashboard sample_env sample_opts [] sample_doc 1 ''dash'')"
  have s: "sample_loaded = ?s" by code_simp
  have "getWidget ''w2'' sample_loaded = Some 1" by code_simp
  moreover have "\<forall>d \<in> set (json_data sample_opts). data_ok ([] # []) d" by code_simp
  ultimately show ?thesis using registry_sound [OF _ s] by blast
qed

theorem serialize_lists_widgets_witness:
  "\<exists>r. serialize sample_opts sample_loaded = Inr r"
proof -
  have "d_layout sample_loaded = Some (Some sample_layout)" by code_simp
  moreover have "\<forall>e \<in> set (column_widgets sample_opts sample_loaded). getWidget (id_key e sample_loaded) sample_loaded \<noteq> None"
    by code_simp
  ultimately show ?thesis using serialize_lists_widgets [of sample_loaded sample_layout sample_opts] by simp
qed

definition sample_broken :: dash where
  "sample_broken = after (addWidget sample_env sample_opts (sample_data ''w4'' ''first'') [3]) sample_loaded"

theorem unknown_widget_blocks_changes_witness:
  "fst (addMetadataValue sample_opts 0 (Some ''a'') (Some ''b'') sample_broken) = Inl TypeError"
  by (rule unknown_widget_blocks_changes [of sample_opts sample_broken sample_layout 0 13, THEN conjunct1])
    code_simp+

theorem metadata_is_shared_witness:
  "oget (d_metas (after (addMetadataValue sample_opts 0 (Some ''colour'') (Some ''red'')) sample_loaded) ! 0) ''colour'' = Some ''red''"
proof -
  let ?d1 = "sample_data ''w1'' ''first''" and ?d2 = "sample_data ''w2'' ''second''"
  let ?s' = "after (addMetadataValue sample_opts 0 (Some ''colour'') (Some ''red'')) sample_loaded"
  have "o_metadata ?d1 = None" "o_metadata ?d2 = None" by code_simp+
  moreover have "registry_ok [?d1, ?d2] sample_loaded"
  proof -
    have "length (d_heap sample_loaded) = 3 \<and> d_widgets sample_loaded = [(''w1'', 0), (''w2'', 1), (''w3'', 2)] \<and>
        map w_id (d_heap sample_loaded) = [''w1'', ''w2'', ''w3''] \<and> map w_metadata (d_heap sample_loaded) = [0, 0, 0] \<and>
        length (d_metas sample_loaded) = 1" by code_simp
    then show ?thesis
      by (auto simp: registry_ok_def data_ok_def sample_data_def less_Suc_eq numeral_3_eq_3 map_eq_Cons_conv)
  qed
  moreover have "the_widget 0 sample_loaded = new_widget 7 ?d1" "the_widget 1 sample_loaded = new_widget 9 ?d2"
    by code_simp+
  ultimately have "the_widget 1 ?s' = new_widget 9 ?d2 \<and>
      oget (d_metas ?s' ! w_metadata (the_widget 1 ?s')) ''colour'' = Some ''red''"
    by (intro metadata_is_shared [of ?d1 ?d2 "[?d1, ?d2]" sample_loaded 0 7 1 9 ?s' sample_opts "''colour''" "''red''"]) simp_all
  moreover have "w_metadata (new_widget 9 ?d2) = 0" by code_simp
  ultimately show ?thesis by metis
qed

theorem getLayout_spec_witness: "getLayout sample_opts ''other'' = Some sample_layout"
proof -
  have "layouts sample_opts = Some [sample_layout]" by (simp add: sample_opts_def)
  from getLayout_spec [OF this, of "''other''"] show ?thesis by (auto simp: sample_layout_def)
qed

theorem loaded_content_not_reloaded_witness:
  "let s = after (content_loaded sample_env sample_opts 0 [8] (Some ''text'')) sample_loaded
   in loads (after (openContent sample_env sample_opts 0) s) = loads s"
proof -
  let ?s = "after (content_loaded sample_env sample_opts 0 [8] (Some ''text'')) sample_loaded"
  have "w_loaded (the_widget 0 ?s)" "0 < length (d_heap ?s)" by code_simp+
  then show ?thesis unfolding Let_def by (rule loaded_content_not_reloaded [THEN conjunct1])
qed

end
