(* ===== verification/JsRegex.thy ===== *)
theory JsRegex
  imports JsString
begin

text \<open>
  Regular expressions as ECMAScript 5 matches them: by backtracking, trying the ways in which a
  pattern can match in order of preference. The ways are a list here, best first, so that the match
  a browser reports is the first of the list. The syntax is what the routes of the application
  and the patterns of the scripts use: classes, groups, alternatives, greedy and lazy repetition.
\<close>

subsection \<open>Patterns\<close>

datatype re =
    REmpty
  | RClass "char \<Rightarrow> bool"
  | RStart
  | REnd
  | RSeq re re
  | RAlt re re
  | RStar bool re
  | ROpt bool re
  | RGroup nat re

text \<open>The groups of a pattern; each round of a repetition forgets what they held.\<close>

fun groups :: "re \<Rightarrow> nat list" where
  "groups (RSeq a b) = groups a @ groups b"
| "groups (RAlt a b) = groups a @ groups b"
| "groups (RStar g r) = groups r"
| "groups (ROpt g r) = groups r"
| "groups (RGroup i r) = i # groups r"
| "groups _ = []"

type_synonym caps = "(nat \<times> string) list"
type_synonym mstate = "nat \<times> caps"

definition forget :: "nat list \<Rightarrow> caps \<Rightarrow> caps" where
  "forget is cs = filter (\<lambda>(i, w). i \<notin> set is) cs"

definition substr :: "string \<Rightarrow> nat \<Rightarrow> nat \<Rightarrow> string" where
  "substr s i j = take (j - i) (drop i s)"

text \<open>A repetition: a round that matches nothing is not taken, so the rounds are at most
  as many as the characters left.\<close>

fun rounds :: "nat \<Rightarrow> bool \<Rightarrow> (mstate \<Rightarrow> mstate list) \<Rightarrow> mstate \<Rightarrow> mstate list" where
  "rounds 0 greedy f st = [st]"
| "rounds (Suc n) greedy f st =
     (let more = concat (map (rounds n greedy f) (filter (\<lambda>st'. fst st' > fst st) (f st)))
      in if greedy then more @ [st] else st # more)"

fun ways :: "re \<Rightarrow> string \<Rightarrow> mstate \<Rightarrow> mstate list" where
  "ways REmpty s st = [st]"
| "ways (RClass p) s (i, cs) = (if i < length s \<and> p (s ! i) then [(Suc i, cs)] else [])"
| "ways RStart s (i, cs) = (if i = 0 then [(i, cs)] else [])"
| "ways REnd s (i, cs) = (if i = length s then [(i, cs)] else [])"
| "ways (RSeq a b) s st = concat (map (ways b s) (ways a s st))"
| "ways (RAlt a b) s st = ways a s st @ ways b s st"
| "ways (RStar g r) s (i, cs) =
     rounds (length s - i) g (\<lambda>(j, ds). ways r s (j, forget (groups r) ds)) (i, cs)"
| "ways (ROpt g r) s (i, cs) = rounds 1 g (\<lambda>(j, ds). ways r s (j, forget (groups r) ds)) (i, cs)"
| "ways (RGroup n r) s (i, cs) =
     map (\<lambda>(j, ds). (j, (n, substr s i j) # forget [n] ds)) (ways r s (i, cs))"

text \<open>\<open>re.exec(s)\<close>: the first place where there is a way, and the first way there.\<close>

record re_match =
  m_from :: nat
  m_to :: nat
  m_caps :: caps

fun exec_from :: "re \<Rightarrow> string \<Rightarrow> nat \<Rightarrow> nat \<Rightarrow> re_match option" where
  "exec_from r s i 0 = None"
| "exec_from r s i (Suc n) =
     (case ways r s (i, []) of
        [] \<Rightarrow> exec_from r s (Suc i) n
      | (j, cs) # _ \<Rightarrow> Some \<lparr>m_from = i, m_to = j, m_caps = cs\<rparr>)"

definition re_exec :: "re \<Rightarrow> string \<Rightarrow> re_match option" where
  "re_exec r s = exec_from r s 0 (Suc (length s))"

definition re_test :: "re \<Rightarrow> string \<Rightarrow> bool" where
  "re_test r s \<longleftrightarrow> re_exec r s \<noteq> None"

text \<open>The groups of a match in order: \<open>undefined\<close> where a group took no part.\<close>

definition captured :: "re \<Rightarrow> re_match \<Rightarrow> string option list" where
  "captured r m = map (map_of (m_caps m)) (sort (remdups (groups r)))"

subsection \<open>What matches\<close>

text \<open>The language of a pattern on a string: \<open>r\<close> matches from \<open>i\<close> to \<open>j\<close>.\<close>

inductive spans :: "re \<Rightarrow> string \<Rightarrow> nat \<Rightarrow> nat \<Rightarrow> bool" where
  "spans REmpty s i i"
| "i < length s \<Longrightarrow> p (s ! i) \<Longrightarrow> spans (RClass p) s i (Suc i)"
| "spans RStart s 0 0"
| "spans REnd s (length s) (length s)"
| "spans a s i j \<Longrightarrow> spans b s j k \<Longrightarrow> spans (RSeq a b) s i k"
| "spans a s i j \<Longrightarrow> spans (RAlt a b) s i j"
| "spans b s i j \<Longrightarrow> spans (RAlt a b) s i j"
| "spans (RStar g r) s i i"
| "spans r s i j \<Longrightarrow> i < j \<Longrightarrow> spans (RStar g r) s j k \<Longrightarrow> spans (RStar g r) s i k"
| "spans (ROpt g r) s i i"
| "spans r s i j \<Longrightarrow> i < j \<Longrightarrow> spans (ROpt g r) s i j"
| "spans r s i j \<Longrightarrow> spans (RGroup n r) s i j"

inductive_simps spans_simps [simp]:
  "spans REmpty s i j" "spans (RClass p) s i j" "spans RStart s i j" "spans REnd s i j"
  "spans (RSeq a b) s i j" "spans (RAlt a b) s i j" "spans (ROpt g r) s i j" "spans (RGroup n r) s i j"

inductive_cases spans_star: "spans (RStar g r) s i j"

lemma spans_le: "spans r s i j \<Longrightarrow> i \<le> length s \<Longrightarrow> i \<le> j \<and> j \<le> length s"
  by (induction rule: spans.induct) auto

text \<open>The matcher finds exactly the spans, whatever the captures.\<close>

lemma rounds_spans:
  assumes step: "\<And>i cs j. i \<le> length s \<Longrightarrow> (\<exists>ds. (j, ds) \<in> set (f (i, cs))) \<longleftrightarrow> spans r s i j"
  shows "i \<le> length s \<Longrightarrow> length s - i \<le> n \<Longrightarrow>
    (\<exists>ds. (j, ds) \<in> set (rounds n g f (i, cs))) \<longleftrightarrow> spans (RStar g r) s i j"
proof (induction n arbitrary: i cs)
  case 0
  then have i: "i = length s" by simp
  show ?case
  proof
    show "\<exists>ds. (j, ds) \<in> set (rounds 0 g f (i, cs)) \<Longrightarrow> spans (RStar g r) s i j"
      by (auto intro: spans.intros)
    assume "spans (RStar g r) s i j"
    then show "\<exists>ds. (j, ds) \<in> set (rounds 0 g f (i, cs))"
      by (cases rule: spans_star) (use i spans_le in \<open>fastforce+\<close>)
  qed
next
  case (Suc n)
  have *: "(\<exists>ds. (j, ds) \<in> set (rounds (Suc n) g f (i, cs))) \<longleftrightarrow>
      j = i \<or> (\<exists>k es. (k, es) \<in> set (f (i, cs)) \<and> i < k \<and> (\<exists>ds. (j, ds) \<in> set (rounds n g f (k, es))))"
    by (cases g) (auto simp: Let_def)
  have **: "(\<exists>ds. (j, ds) \<in> set (rounds n g f (k, es))) \<longleftrightarrow> spans (RStar g r) s k j"
    if "(k, es) \<in> set (f (i, cs))" "i < k" for k es
    using Suc.IH [of k es] step [OF Suc.prems(1), of k cs] spans_le [of r s i k] that Suc.prems by force
  show ?case
  proof
    assume "\<exists>ds. (j, ds) \<in> set (rounds (Suc n) g f (i, cs))"
    then show "spans (RStar g r) s i j"
      unfolding * using ** step [OF Suc.prems(1), of _ cs] spans.intros(8,9) by metis
  next
    assume "spans (RStar g r) s i j"
    then show "\<exists>ds. (j, ds) \<in> set (rounds (Suc n) g f (i, cs))"
      unfolding * using ** step [OF Suc.prems(1), of _ cs] by (cases rule: spans_star) blast+
  qed
qed

lemma ways_spans:
  "i \<le> length s \<Longrightarrow> (\<exists>ds. (j, ds) \<in> set (ways r s (i, cs))) \<longleftrightarrow> spans r s i j"
proof (induction r arbitrary: i j cs)
  case (RSeq a b)
  have "(\<exists>ds. (j, ds) \<in> set (ways (RSeq a b) s (i, cs))) \<longleftrightarrow>
      (\<exists>k es. (k, es) \<in> set (ways a s (i, cs)) \<and> (\<exists>ds. (j, ds) \<in> set (ways b s (k, es))))"
    by auto
  also have "\<dots> \<longleftrightarrow> (\<exists>k. spans a s i k \<and> spans b s k j)"
    using RSeq.IH(1) [OF RSeq.prems] RSeq.IH(2) spans_le [of a s i] RSeq.prems by metis
  finally show ?case by simp
next
  case (RAlt a b)
  have "(\<exists>ds. (j, ds) \<in> set (ways (RAlt a b) s (i, cs))) \<longleftrightarrow>
      (\<exists>ds. (j, ds) \<in> set (ways a s (i, cs))) \<or> (\<exists>ds. (j, ds) \<in> set (ways b s (i, cs)))"
    by auto
  then show ?case using RAlt by simp
next
  case (RStar g r)
  have "(\<exists>ds. (j, ds) \<in> set (rounds (length s - i) g (\<lambda>(j, ds). ways r s (j, forget (groups r) ds)) (i, cs))) \<longleftrightarrow>
      spans (RStar g r) s i j"
    by (rule rounds_spans) (use RStar in simp_all)
  then show ?case by simp
next
  case (ROpt g r)
  let ?f = "\<lambda>(j, ds). ways r s (j, forget (groups r) ds)"
  have "(\<exists>ds. (j, ds) \<in> set (rounds 1 g ?f (i, cs))) \<longleftrightarrow> j = i \<or> (\<exists>ds. (j, ds) \<in> set (?f (i, cs)) \<and> i < j)"
    by (cases g) (auto simp: Let_def)
  then show ?case using ROpt by auto
next
  case (RGroup n r)
  have "(\<exists>ds. (j, ds) \<in> set (ways (RGroup n r) s (i, cs))) \<longleftrightarrow> (\<exists>ds. (j, ds) \<in> set (ways r s (i, cs)))"
    by force
  then show ?case using RGroup by simp
qed auto

lemma exec_from_None:
  "i + n = Suc (length s) \<Longrightarrow> exec_from r s i n = None \<longleftrightarrow> (\<forall>k j. i \<le> k \<and> k \<le> length s \<longrightarrow> \<not> spans r s k j)"
proof (induction n arbitrary: i)
  case (Suc n)
  have here: "ways r s (i, []) = [] \<longleftrightarrow> (\<forall>j. \<not> spans r s i j)"
    using ways_spans [of i s _ r "[]"] Suc.prems by (metis add_Suc_right diff_add_inverse2 ex_in_conv le_add1 list.set_intros(1) neq_Nil_conv nat.inject prod.exhaust set_empty)
  show ?case
  proof (cases "ways r s (i, [])")
    case Nil
    have "(\<forall>k j. i \<le> k \<and> k \<le> length s \<longrightarrow> \<not> spans r s k j) \<longleftrightarrow>
        (\<forall>k j. Suc i \<le> k \<and> k \<le> length s \<longrightarrow> \<not> spans r s k j)"
      using here Nil by (metis Suc_le_eq le_neq_implies_less less_imp_le_nat)
    then show ?thesis using Suc.IH [of "Suc i"] Suc.prems Nil by simp
  next
    case (Cons st sts)
    then have "\<exists>j. spans r s i j" using here by simp
    moreover have "i \<le> length s" using Suc.prems by simp
    ultimately show ?thesis using Cons by (cases st) auto
  qed
qed auto

lemma re_test_iff: "re_test r s \<longleftrightarrow> (\<exists>i j. i \<le> length s \<and> spans r s i j)"
  using exec_from_None [of 0 "Suc (length s)" s r] by (auto simp: re_test_def re_exec_def)

subsection \<open>The \<open>RegExp\<close> constructor\<close>

text \<open>
  The syntax of patterns. What is not a pattern is a \<open>SyntaxError\<close>; counted repetition,
  look-ahead, back references and the escapes for control characters and code units are not
  modelled, and give an exception of their own.
\<close>

abbreviation not_modelled :: "'a res" where
  "not_modelled \<equiv> Inl (Thrown ''pattern outside the model'')"

datatype class_item = Single char | Several "char \<Rightarrow> bool" | Dash

definition class_escape :: "char \<Rightarrow> class_item res" where
  "class_escape c =
     (if c = CHR ''w'' then Inr (Several is_word) else if c = CHR ''W'' then Inr (Several (\<lambda>x. \<not> is_word x))
      else if c = CHR ''d'' then Inr (Several is_digit) else if c = CHR ''D'' then Inr (Several (\<lambda>x. \<not> is_digit x))
      else if c = CHR ''s'' then Inr (Several is_space) else if c = CHR ''S'' then Inr (Several (\<lambda>x. \<not> is_space x))
      else if c = CHR ''t'' then Inr (Single CHR 0x09) else if c = CHR ''n'' then Inr (Single CHR 0x0A)
      else if c = CHR ''v'' then Inr (Single CHR 0x0B) else if c = CHR ''f'' then Inr (Single CHR 0x0C)
      else if c = CHR ''r'' then Inr (Single CHR 0x0D)
      else if c \<in> set ''bBcxu'' \<or> is_digit c then not_modelled
      else Inr (Single c))"

fun class_items :: "string \<Rightarrow> (class_item list \<times> string) res" where
  "class_items [] = Inl SyntaxError"
| "class_items (c # s) =
     (if c = CHR '']'' then Inr ([], s)
      else if c = CHR 0x5C then
        (case s of [] \<Rightarrow> Inl SyntaxError
         | e # t \<Rightarrow> rbind (class_escape e) (\<lambda>a. rbind (class_items t) (\<lambda>(is, u). Inr (a # is, u))))
      else rbind (class_items s) (\<lambda>(is, u). Inr ((if c = CHR ''-'' then Dash else Single c) # is, u)))"

fun item_set :: "class_item \<Rightarrow> char \<Rightarrow> bool" where
  "item_set (Single c) x = (x = c)"
| "item_set (Several p) x = p x"
| "item_set Dash x = (x = CHR ''-'')"

fun item_code :: "class_item \<Rightarrow> nat option" where
  "item_code (Single c) = Some (of_char c)"
| "item_code (Several p) = None"
| "item_code Dash = Some (of_char CHR ''-'')"

text \<open>A dash between two members is a range, unless one of them is itself a class.\<close>

fun class_ranges :: "class_item list \<Rightarrow> (char \<Rightarrow> bool) \<Rightarrow> (char \<Rightarrow> bool) res" where
  "class_ranges (a # Dash # b # is) p =
     (case (item_code a, item_code b) of
        (Some lo, Some hi) \<Rightarrow>
          if hi < lo then Inl SyntaxError
          else class_ranges is (\<lambda>y. p y \<or> (lo \<le> of_char y \<and> (of_char y :: nat) \<le> hi))
      | _ \<Rightarrow> class_ranges is (\<lambda>y. p y \<or> item_set a y \<or> y = CHR ''-'' \<or> item_set b y))"
| "class_ranges (a # is) p = class_ranges is (\<lambda>y. p y \<or> item_set a y)"
| "class_ranges [] p = Inr p"

definition class_of :: "string \<Rightarrow> (re \<times> string) res" where
  "class_of s =
     (let neg = (case s of c # _ \<Rightarrow> c = CHR ''^'' | [] \<Rightarrow> False); t = (if neg then tl s else s)
      in rbind (class_items t) (\<lambda>(is, u).
           rbind (class_ranges is (\<lambda>_. False)) (\<lambda>p. Inr (RClass (\<lambda>x. p x \<noteq> neg), u))))"

lemma class_items_length: "class_items s = Inr (is, t) \<Longrightarrow> length t < length s"
  by (induction s arbitrary: "is" t rule: class_items.induct)
    (force simp: rbind_Inr_iff split: if_splits list.splits)+

lemma class_of_length: "class_of s = Inr (r, t) \<Longrightarrow> length t < length s"
  by (auto simp: class_of_def rbind_Inr_iff Let_def dest!: class_items_length split: if_splits list.splits)

text \<open>A quantifier after an atom, greedy unless a question mark follows.\<close>

definition lazily :: "(bool \<Rightarrow> re) \<Rightarrow> string \<Rightarrow> re \<times> string" where
  "lazily f s = (case s of c # t \<Rightarrow> if c = CHR ''?'' then (f False, t) else (f True, s) | [] \<Rightarrow> (f True, s))"

definition quantified :: "re \<Rightarrow> string \<Rightarrow> (re \<times> string) res" where
  "quantified r s =
     (case s of
        [] \<Rightarrow> Inr (r, s)
      | c # t \<Rightarrow>
          if c = CHR ''*'' then Inr (lazily (\<lambda>g. RStar g r) t)
          else if c = CHR ''+'' then Inr (lazily (\<lambda>g. RSeq r (RStar g r)) t)
          else if c = CHR ''?'' then Inr (lazily (\<lambda>g. ROpt g r) t)
          else if c = CHR ''{'' then not_modelled
          else Inr (r, s))"

lemma quantified_length: "quantified r s = Inr (q, t) \<Longrightarrow> length t \<le> length s"
  by (auto simp: quantified_def lazily_def split: if_splits list.splits)

text \<open>An open group: its number if it captures, the alternatives before, and the sequence so far.\<close>

record frame =
  f_group :: "nat option"
  f_alts :: "re option"
  f_seq :: re

definition new_frame :: "nat option \<Rightarrow> frame" where
  "new_frame g = \<lparr>f_group = g, f_alts = None, f_seq = REmpty\<rparr>"

definition frame_re :: "frame \<Rightarrow> re" where
  "frame_re f =
     (let r = (case f_alts f of None \<Rightarrow> f_seq f | Some a \<Rightarrow> RAlt a (f_seq f))
      in case f_group f of None \<Rightarrow> r | Some n \<Rightarrow> RGroup n r)"

definition push_term :: "re \<Rightarrow> frame \<Rightarrow> frame" where
  "push_term r f = f\<lparr>f_seq := (case f_seq f of REmpty \<Rightarrow> r | q \<Rightarrow> RSeq q r)\<rparr>"

definition push_alt :: "frame \<Rightarrow> frame" where
  "push_alt f = f\<lparr>f_alts := Some (case f_alts f of None \<Rightarrow> f_seq f | Some a \<Rightarrow> RAlt a (f_seq f)), f_seq := REmpty\<rparr>"

text \<open>What comes next: the end of a group, a bar, a group to open, or an atom.\<close>

definition not_newline :: "char \<Rightarrow> bool" where
  "not_newline c \<longleftrightarrow> c \<noteq> CHR 0x0A \<and> c \<noteq> CHR 0x0D"

definition atom_of :: "char \<Rightarrow> string \<Rightarrow> (re \<times> string) res" where
  "atom_of c s =
     (if c = CHR ''['' then class_of s
      else if c = CHR ''.'' then Inr (RClass not_newline, s)
      else if c = CHR ''^'' then Inr (RStart, s)
      else if c = CHR ''$'' then Inr (REnd, s)
      else if c \<in> set ''*+?'' then Inl SyntaxError
      else if c = CHR 0x5C then
        (case s of [] \<Rightarrow> Inl SyntaxError | e # t \<Rightarrow> rbind (class_escape e) (\<lambda>a. Inr (RClass (item_set a), t)))
      else Inr (RClass (\<lambda>x. x = c), s))"

lemma atom_of_length: "atom_of c s = Inr (r, t) \<Longrightarrow> length t \<le> length s"
  by (auto simp: atom_of_def rbind_Inr_iff split: if_splits list.splits dest!: class_of_length)

function (sequential) re_parse :: "frame \<Rightarrow> frame list \<Rightarrow> nat \<Rightarrow> string \<Rightarrow> re res" where
  "re_parse f fs n [] = (case fs of [] \<Rightarrow> Inr (frame_re f) | _ \<Rightarrow> Inl SyntaxError)"
| "re_parse f fs n (c # s) =
     (if c = CHR '')'' then
        (case fs of [] \<Rightarrow> Inl SyntaxError
         | f' # fs' \<Rightarrow> (case quantified (frame_re f) s of Inl e \<Rightarrow> Inl e
             | Inr (r, t) \<Rightarrow> re_parse (push_term r f') fs' n t))
      else if c = CHR ''|'' then re_parse (push_alt f) fs n s
      else if c = CHR ''('' then
        (case s of
           q # t \<Rightarrow> if q = CHR ''?'' then
               (case t of
                  d # u \<Rightarrow> if d = CHR '':'' then re_parse (new_frame None) (f # fs) n u
                           else if d = CHR ''='' \<or> d = CHR ''!'' then not_modelled else Inl SyntaxError
                | [] \<Rightarrow> Inl SyntaxError)
             else re_parse (new_frame (Some (Suc n))) (f # fs) (Suc n) s
         | [] \<Rightarrow> Inl SyntaxError)
      else
        (case atom_of c s of Inl e \<Rightarrow> Inl e
         | Inr (a, t) \<Rightarrow> (case quantified a t of Inl e \<Rightarrow> Inl e | Inr (r, u) \<Rightarrow> re_parse (push_term r f) fs n u)))"
  by pat_completeness auto
termination
  by (relation "measure (\<lambda>(f, fs, n, s). length s)") (auto dest!: atom_of_length quantified_length)

definition RegExp :: "string \<Rightarrow> re res" where
  "RegExp s = re_parse (new_frame None) [] 0 s"

end
