(* ===== verification/SammyParams.thy ===== *)
theory SammyParams
  imports JsRegex
begin

text \<open>
  The strings of sammy-0.7.1.js: encoding and decoding of URI components, HTML escaping, and the
  parameters of query strings and forms.

  \<open>encodeURIComponent\<close> and \<open>decodeURIComponent\<close> are the functions of the language, with the UTF-8
  of code units below 256; a sequence that decodes to anything else is reported as such.
\<close>

subsection \<open>URI components\<close>

definition uri_unreserved :: "char \<Rightarrow> bool" where
  "uri_unreserved c \<longleftrightarrow> (is_word c \<or> c \<in> set ''-.!~*'') \<or> c = CHR 0x27 \<or> c = CHR ''('' \<or> c = CHR '')''"

definition hex_chars :: string where
  "hex_chars = ''0123456789ABCDEF''"

definition hex_char :: "nat \<Rightarrow> char" where
  "hex_char n = hex_chars ! n"

definition hex_val :: "char \<Rightarrow> nat option" where
  "hex_val c =
     (let n = (of_char c :: nat)
      in if 48 \<le> n \<and> n \<le> 57 then Some (n - 48)
         else if 65 \<le> n \<and> n \<le> 70 then Some (n - 55)
         else if 97 \<le> n \<and> n \<le> 102 then Some (n - 87) else None)"

definition percent :: "nat \<Rightarrow> string" where
  "percent b = [CHR ''%'', hex_char (b div 16), hex_char (b mod 16)]"

definition encode_char :: "char \<Rightarrow> string" where
  "encode_char c =
     (let n = (of_char c :: nat)
      in if uri_unreserved c then [c]
         else if n < 128 then percent n
         else percent (192 + n div 64) @ percent (128 + n mod 64))"

definition encodeURIComponent :: "string \<Rightarrow> string" where
  "encodeURIComponent s = concat (map encode_char s)"

text \<open>Decoding: \<open>k\<close> continuation bytes are still to come, \<open>v\<close> is the code so far, and a code
  below \<open>low\<close> would have a shorter encoding.\<close>

definition lead_byte :: "nat \<Rightarrow> (nat \<times> nat \<times> nat) option" where
  "lead_byte b =
     (if b < 128 then Some (0, b, 0)
      else if 192 \<le> b \<and> b < 224 then Some (1, b - 192, 128)
      else if 224 \<le> b \<and> b < 240 then Some (2, b - 224, 2048)
      else if 240 \<le> b \<and> b < 248 then Some (3, b - 240, 65536)
      else None)"

definition code_done :: "nat \<Rightarrow> nat \<Rightarrow> char res" where
  "code_done v low =
     (if v < low \<or> (55296 \<le> v \<and> v < 57344) \<or> 1114111 < v then Inl URIError
      else if 255 < v then Inl (Thrown ''outside Latin-1'')
      else Inr (char_of v))"

fun decode_go :: "nat \<Rightarrow> nat \<Rightarrow> nat \<Rightarrow> string \<Rightarrow> string res" where
  "decode_go k v low [] = (if k = 0 then Inr [] else Inl URIError)"
| "decode_go k v low (c # s) =
     (if c \<noteq> CHR ''%'' then
        (if k = 0 then rbind (decode_go 0 0 0 s) (\<lambda>r. Inr (c # r)) else Inl URIError)
      else case s of
          a # b # t \<Rightarrow>
            (case (hex_val a, hex_val b) of
               (Some h, Some l) \<Rightarrow>
                 (let byte = 16 * h + l
                  in if k = 0 then
                       (case lead_byte byte of
                          None \<Rightarrow> Inl URIError
                        | Some (k', v', low') \<Rightarrow>
                            if k' = 0 then rbind (code_done v' low') (\<lambda>x. rbind (decode_go 0 0 0 t) (\<lambda>r. Inr (x # r)))
                            else decode_go k' v' low' t)
                     else if 128 \<le> byte \<and> byte < 192 then
                       (let v' = 64 * v + (byte - 128)
                        in if k = 1 then rbind (code_done v' low) (\<lambda>x. rbind (decode_go 0 0 0 t) (\<lambda>r. Inr (x # r)))
                           else decode_go (k - 1) v' low t)
                     else Inl URIError)
             | _ \<Rightarrow> Inl URIError)
        | _ \<Rightarrow> Inl URIError)"

definition decodeURIComponent :: "string \<Rightarrow> string res" where
  "decodeURIComponent s = decode_go 0 0 0 s"

text \<open>\<open>_decode\<close> and \<open>_encode\<close> of the script.\<close>

definition decode :: "string option \<Rightarrow> string res" where
  "decode s = decodeURIComponent (map (\<lambda>c. if c = CHR ''+'' then CHR '' '' else c) (case s of None \<Rightarrow> '''' | Some t \<Rightarrow> t))"

definition encode :: "string \<Rightarrow> string" where
  "encode s = encodeURIComponent s"

lemma hex_val_char:
  assumes "n < 16" shows "hex_val (hex_char n) = Some n"
proof -
  have "\<forall>n \<in> set [0..<16]. hex_val (hex_char n) = Some n" by code_simp
  then show ?thesis using assms by simp
qed

lemma percent_decode:
  assumes "b < 256"
  shows "decode_go k v low (percent b @ t) =
     (if k = 0 then
        (case lead_byte b of
           None \<Rightarrow> Inl URIError
         | Some (k', v', low') \<Rightarrow>
             if k' = 0 then rbind (code_done v' low') (\<lambda>x. rbind (decode_go 0 0 0 t) (\<lambda>r. Inr (x # r)))
             else decode_go k' v' low' t)
      else if 128 \<le> b \<and> b < 192 then
        (let v' = 64 * v + (b - 128)
         in if k = 1 then rbind (code_done v' low) (\<lambda>x. rbind (decode_go 0 0 0 t) (\<lambda>r. Inr (x # r)))
            else decode_go (k - 1) v' low t)
      else Inl URIError)"
proof -
  have "b div 16 < 16" "b mod 16 < 16" using assms by auto
  then have "hex_val (hex_char (b div 16)) = Some (b div 16)" "hex_val (hex_char (b mod 16)) = Some (b mod 16)"
    by (simp_all add: hex_val_char)
  moreover have "16 * (b div 16) + b mod 16 = b" by simp
  ultimately show ?thesis by (simp add: percent_def)
qed

lemma decode_plain: "c \<noteq> CHR ''%'' \<Longrightarrow> decode_go 0 v low (c # s) = rbind (decode_go 0 0 0 s) (\<lambda>r. Inr (c # r))"
  by simp

lemma decode_encoded_char:
  "decode_go 0 v low (encode_char c @ t) = rbind (decode_go 0 0 0 t) (\<lambda>r. Inr (c # r))"
proof -
  define n where "n = (of_char c :: nat)"
  have n: "n < 256" "char_of n = c" by (simp_all add: n_def)
  consider (plain) "uri_unreserved c" | (one) "\<not> uri_unreserved c" "n < 128" | (two) "\<not> uri_unreserved c" "128 \<le> n"
    by linarith
  then show ?thesis
  proof cases
    case plain
    then have "c \<noteq> CHR ''%''" by (auto simp: uri_unreserved_def is_word_def digit_chars_def lower_chars_def upper_chars_def)
    then show ?thesis using plain by (simp add: encode_char_def decode_plain del: decode_go.simps)
  next
    case one
    then show ?thesis using n
      by (simp add: encode_char_def n_def [symmetric] percent_decode lead_byte_def code_done_def del: decode_go.simps)
  next
    case two
    have d: "n div 64 \<in> {2, 3}" using n two by auto
    have "lead_byte (192 + n div 64) = Some (1, n div 64, 128)" using n by (auto simp: lead_byte_def)
    moreover have "64 * (n div 64) + n mod 64 = n" by simp
    moreover have "code_done n 128 = Inr c" using n two by (simp add: code_done_def)
    ultimately show ?thesis using n two
      by (simp add: encode_char_def n_def [symmetric] percent_decode Let_def del: decode_go.simps)
  qed
qed

lemma decode_encode: "decodeURIComponent (encodeURIComponent s) = Inr s"
proof -
  have "decode_go 0 v low (concat (map encode_char s)) = Inr s" for v low
    by (induction s arbitrary: v low) (simp_all add: decode_encoded_char del: decode_go.simps(2))
  then show ?thesis by (simp add: decodeURIComponent_def encodeURIComponent_def)
qed

text \<open>What encoding produces contains none of the characters that separate parameters.\<close>

lemma encoded_chars:
  assumes "c \<in> set (encode s)"
  shows "uri_unreserved c \<or> c = CHR ''%''"
proof -
  have "hex_char n \<in> set hex_chars" if "n < 16" for n
    unfolding hex_char_def by (rule nth_mem) (use that in \<open>simp add: hex_chars_def\<close>)
  then have hex: "hex_char (b mod 16) \<in> set hex_chars" "b < 256 \<Longrightarrow> hex_char (b div 16) \<in> set hex_chars" for b
    by auto
  have un: "\<forall>x \<in> set hex_chars. uri_unreserved x" by code_simp
  have "\<forall>y \<in> set (encode_char x). uri_unreserved y \<or> y = CHR ''%''" for x
  proof -
    have small: "192 + n div 64 < 256" "128 + n mod 64 < 256" if "n < 256" for n :: nat using that by auto
    have p: "y \<in> set (percent b) \<Longrightarrow> b < 256 \<Longrightarrow> uri_unreserved y \<or> y = CHR ''%''" for b y
      using hex un by (auto simp: percent_def)
    have "(of_char x :: nat) < 256" by simp
    then show ?thesis using small [of "of_char x"] p by (auto simp only: encode_char_def Let_def set_append split: if_splits) auto
  qed
  then show ?thesis using assms by (auto simp: encode_def encodeURIComponent_def)
qed

lemma encoded_no_separator:
  assumes "c \<in> set (encode s)"
  shows "c \<noteq> CHR ''&''" "c \<noteq> CHR ''=''" "c \<noteq> CHR ''+''" "c \<noteq> CHR ''#''" "c \<noteq> CHR ''?''"
  using encoded_chars [OF assms]
  by (auto simp: uri_unreserved_def is_word_def digit_chars_def lower_chars_def upper_chars_def)

lemma decode_of_encode: "decode (Some (encode s)) = Inr s"
proof -
  have "map (\<lambda>c. if c = CHR ''+'' then CHR '' '' else c) (encode s) = encode s"
    using encoded_no_separator(3) by (intro map_idI) auto
  then show ?thesis by (simp add: decode_def encode_def decode_encode)
qed

subsection \<open>Parameters\<close>

text \<open>
  A parameter object is created as \<open>{}\<close>, so a name it does not have may still be one of
  \<open>Object.prototype\<close>: reading that gives a function.
\<close>

datatype pval = PStr string | PArr "pval list" | PInherited string

type_synonym params = "pval obj"

definition param :: "params \<Rightarrow> string \<Rightarrow> pval option" where
  "param ps k = (case oget ps k of Some v \<Rightarrow> Some v
     | None \<Rightarrow> if k \<in> set prototype_names then Some (PInherited k) else None)"

definition parseParamPair :: "params \<Rightarrow> string \<Rightarrow> pval \<Rightarrow> params" where
  "parseParamPair ps key v =
     (case param ps key of
        None \<Rightarrow> oset key v ps
      | Some (PArr vs) \<Rightarrow> oset key (PArr (vs @ [v])) ps
      | Some old \<Rightarrow> oset key (PArr [old, v]) ps)"

text \<open>
  \<open>/\?([^#]*)?$/\<close>: a match starts at the first question mark with no hash after it, and goes to
  the end; \<open>QUERY_STRING_MATCHER\<close> below is the pattern itself.
\<close>

fun find_query :: "string \<Rightarrow> (string \<times> string) option" where
  "find_query [] = None"
| "find_query (c # s) =
     (if c = CHR ''?'' \<and> CHR ''#'' \<notin> set s then Some ([], s)
      else map_option (\<lambda>(a, q). (c # a, q)) (find_query s))"

definition routablePath :: "string \<Rightarrow> string" where
  "routablePath path = (case find_query path of None \<Rightarrow> path | Some (a, q) \<Rightarrow> a)"

fun parse_pairs :: "string list \<Rightarrow> params \<Rightarrow> params res" where
  "parse_pairs [] ps = Inr ps"
| "parse_pairs (p # pairs) ps =
     (let pair = split_on CHR ''='' p
      in rbind (decode (aget pair 0)) (\<lambda>k.
           rbind (decode (aget pair 1)) (\<lambda>v. parse_pairs pairs (parseParamPair ps k (PStr v)))))"

definition parseQueryString :: "string \<Rightarrow> params res" where
  "parseQueryString path =
(case find_query path of
        None \<Rightarrow> Inr []
      | Some (a, q) \<Rightarrow> if q = '''' then Inr [] else parse_pairs (split_on CHR ''&'' q) [])"

text \<open>Forms, as the list of names and values that \<open>serializeArray\<close> gives.\<close>

definition encodeFormPair :: "string \<Rightarrow> string \<Rightarrow> string" where
  "encodeFormPair name v = encode name @ ''='' @ encode v"

fun serialize_rest :: "(string \<times> string) list \<Rightarrow> string \<Rightarrow> string" where
  "serialize_rest [] q = q"
| "serialize_rest ((n, v) # fs) q = serialize_rest fs (q @ ''&'' @ encodeFormPair n v)"

definition serializeFormParams :: "(string \<times> string) list \<Rightarrow> string" where
  "serializeFormParams fs =
     (case fs of [] \<Rightarrow> '''' | (n, v) # rest \<Rightarrow> serialize_rest rest (encodeFormPair n v))"

fun parse_fields :: "(string \<times> string) list \<Rightarrow> params \<Rightarrow> params" where
  "parse_fields [] ps = ps"
| "parse_fields ((n, v) # fs) ps = parse_fields fs (parseParamPair ps n (PStr v))"

definition parseFormParams :: "(string \<times> string) list \<Rightarrow> params" where
  "parseFormParams fs = parse_fields fs []"

subsection \<open>The query string of a path\<close>

lemma find_query_parts:
  "find_query s = Some (a, q) \<Longrightarrow> s = a @ CHR ''?'' # q \<and> CHR ''#'' \<notin> set q"
  by (induction s arbitrary: a) (auto split: if_splits)

lemma find_query_unique:
  "CHR ''#'' \<notin> set q \<Longrightarrow> CHR ''?'' \<notin> set a \<Longrightarrow> find_query (a @ CHR ''?'' # q) = Some (a, q)"
  by (induction a) auto

lemma spans_class_star:
  "i \<le> length s \<Longrightarrow> spans (RStar g (RClass p)) s i j \<longleftrightarrow> i \<le> j \<and> j \<le> length s \<and> (\<forall>k. i \<le> k \<and> k < j \<longrightarrow> p (s ! k))"
proof
  assume "spans (RStar g (RClass p)) s i j" "i \<le> length s"
  then show "i \<le> j \<and> j \<le> length s \<and> (\<forall>k. i \<le> k \<and> k < j \<longrightarrow> p (s ! k))"
  proof (induction "RStar g (RClass p)" s i j rule: spans.induct)
    case (9 s i j k)
    then show ?case by (auto simp: le_Suc_eq) (metis Suc_leI le_neq_implies_less)
  qed auto
next
  assume "i \<le> length s" "i \<le> j \<and> j \<le> length s \<and> (\<forall>k. i \<le> k \<and> k < j \<longrightarrow> p (s ! k))"
  then show "spans (RStar g (RClass p)) s i j"
  proof (induction "j - i" arbitrary: i)
    case 0
    then show ?case by (auto intro: spans.intros)
  next
    case (Suc n)
    have "spans (RStar g (RClass p)) s (Suc i) j"
      by (rule Suc.hyps(1)) (use Suc in auto)
    moreover have "i < length s" "p (s ! i)" using Suc.hyps(2) Suc.prems by auto
    then have "spans (RClass p) s i (Suc i)" by simp
    ultimately show ?case by (intro spans.intros(9) [of "RClass p" s i "Suc i"]) simp_all
  qed
qed

definition QUERY_STRING_MATCHER :: re where
  "QUERY_STRING_MATCHER =
     RSeq (RClass (\<lambda>c. c = CHR ''?'')) (RSeq (ROpt True (RGroup 1 (RStar True (RClass (\<lambda>c. c \<noteq> CHR ''#''))))) REnd)"

lemma query_spans:
  assumes "i < length s"
  shows "spans QUERY_STRING_MATCHER s i j \<longleftrightarrow> s ! i = CHR ''?'' \<and> CHR ''#'' \<notin> set (drop (Suc i) s) \<and> j = length s"
proof -
  have "CHR ''#'' \<in> set (drop n s) \<longleftrightarrow> (\<exists>k. n \<le> k \<and> k < length s \<and> s ! k = CHR ''#'')" for n
    by (auto simp: in_set_conv_nth) (metis add.commute add_lessD1 le_add1 less_diff_conv, metis add_diff_inverse_nat diff_less_mono le_add_diff_inverse not_less)
  then show ?thesis using assms
    by (cases "Suc i = length s") (auto simp: QUERY_STRING_MATCHER_def spans_class_star)
qed

subsection \<open>Round trips\<close>

lemma serialize_rest_eq:
  "serialize_rest fs q = q @ concat (map (\<lambda>(n, v). ''&'' @ encodeFormPair n v) fs)"
  by (induction fs arbitrary: q) auto

lemma serialize_join: "serializeFormParams fs = js_join ''&'' (map (\<lambda>(n, v). encodeFormPair n v) fs)"
proof -
  have "js_join ''&'' (w # ws) = w @ concat (map (\<lambda>x. ''&'' @ x) ws)" for w ws
    by (induction ws arbitrary: w) simp_all
  then show ?thesis
    by (auto simp: serializeFormParams_def serialize_rest_eq case_prod_unfold o_def split: list.split)
qed

lemma split_pair: "split_on CHR ''='' (encodeFormPair n v) = [encode n, encode v]"
proof -
  have "split_on CHR ''='' (encode x) = [encode x]" for x
    using encoded_no_separator(2) by (intro split_by_no_sep) auto
  then show ?thesis using encoded_no_separator(2)
    by (simp add: encodeFormPair_def split_by_append_sep)
qed

lemma parse_pairs_encoded:
  "parse_pairs (map (\<lambda>(n, v). encodeFormPair n v) fs) ps = Inr (parse_fields fs ps)"
  by (induction fs arbitrary: ps) (auto simp: split_pair aget_def decode_of_encode Let_def)

lemma serialized_chars:
  assumes "c \<in> set (serializeFormParams fs)" shows "c \<noteq> CHR ''#''" "c \<noteq> CHR ''?''"
proof -
  have "c = CHR ''&'' \<or> (\<exists>n v. c \<in> set (encodeFormPair n v))"
    using assms unfolding serialize_join
    by (induction fs rule: induct_list012) auto
  then show "c \<noteq> CHR ''#''" "c \<noteq> CHR ''?''"
    using encoded_no_separator(4,5) by (auto simp: encodeFormPair_def)
qed

text \<open>C18: what a form sends with \<open>get\<close> is what \<open>runRoute\<close> reads. The query string made from the fields of a
  form parses back to the parameters of the form, repeated names collected in arrays, whatever characters names and
  values have; and the routes see the path without it.\<close>

theorem form_query_round_trip:
  assumes "CHR ''?'' \<notin> set path" "fs \<noteq> []"
  shows "parseQueryString (path @ ''?'' @ serializeFormParams fs) = Inr (parseFormParams fs) \<and>
    routablePath (path @ ''?'' @ serializeFormParams fs) = path"
proof -
  let ?q = "serializeFormParams fs"
  have "CHR ''#'' \<notin> set ?q" using serialized_chars(1) by auto
  then have f: "find_query (path @ ''?'' @ ?q) = Some (path, ?q)"
    using find_query_unique [of ?q path] assms(1) by simp
  have "split_on CHR ''&'' ?q = map (\<lambda>(n, v). encodeFormPair n v) fs"
    unfolding serialize_join
  proof (rule split_join)
    show "\<forall>w \<in> set (map (\<lambda>(n, v). encodeFormPair n v) fs). \<forall>c \<in> set w. c \<noteq> CHR ''&''"
      using encoded_no_separator(1) by (auto simp: encodeFormPair_def)
  qed (use assms(2) in simp_all)
  moreover have "?q \<noteq> []"
    using assms(2) by (cases fs) (auto simp: serializeFormParams_def serialize_rest_eq encodeFormPair_def)
  ultimately show ?thesis using f
    by (simp add: parseQueryString_def routablePath_def parse_pairs_encoded parseFormParams_def)
qed

theorem form_query_round_trip_witness:
  "parseQueryString ''#/search?q=a%26b&q=%C3%A9'' = Inr [(''q'', PArr [PStr ''a&b'', PStr [CHR 0xE9]])]"
proof -
  let ?fs = "[(''q'', ''a&b''), (''q'', [CHR 0xE9])]"
  have "serializeFormParams ?fs = ''q=a%26b&q=%C3%A9''" by code_simp
  moreover have "parseFormParams ?fs = [(''q'', PArr [PStr ''a&b'', PStr [CHR 0xE9]])]" by code_simp
  moreover have "CHR ''?'' \<notin> set ''#/search''" "?fs \<noteq> []" by simp_all
  ultimately show ?thesis using form_query_round_trip [of "''#/search''" ?fs] by simp
qed

text \<open>Parameters named like the methods that every object inherits are not values but arrays that
  begin with that method, in forms and in query strings alike.\<close>

theorem inherited_names_are_doubled:
  "k \<in> set prototype_names \<Longrightarrow> parseFormParams [(k, v)] = [(k, PArr [PInherited k, PStr v])]"
  by (simp add: parseFormParams_def parseParamPair_def param_def)

theorem inherited_names_are_doubled_witness:
  "parseFormParams [(''constructor'', ''x'')] = [(''constructor'', PArr [PInherited ''constructor'', PStr ''x''])]"
  by (rule inherited_names_are_doubled) (simp add: prototype_names_def)

end
