(* ===== verification/SammyRoutes.thy ===== *)
theory SammyRoutes
  imports SammyParams
begin

text \<open>
  The parts of sammy-0.7.1.js that compute: \<open>Sammy.Object\<close>, the routes and how a path finds one,
  the options of the filters, and the location proxy's reading of a location.
\<close>

subsection \<open>\<open>Sammy.Object\<close>\<close>

text \<open>\<open>&\<close> stays when it begins an entity, \<open>/&(?!\w+;)/\<close>.\<close>

definition begins_entity :: "string \<Rightarrow> bool" where
  "begins_entity s \<longleftrightarrow> takeWhile is_word s \<noteq> [] \<and> (case dropWhile is_word s of c # _ \<Rightarrow> c = CHR '';'' | [] \<Rightarrow> False)"

fun escape_amp :: "string \<Rightarrow> string" where
  "escape_amp [] = []"
| "escape_amp (c # s) = (if c = CHR ''&'' \<and> \<not> begins_entity s then ''&amp;'' else [c]) @ escape_amp s"

definition replace_char :: "char \<Rightarrow> string \<Rightarrow> string \<Rightarrow> string" where
  "replace_char c r s = concat (map (\<lambda>x. if x = c then r else [x]) s)"

definition escapeHTML :: "string \<Rightarrow> string" where
  "escapeHTML s =
     replace_char CHR 0x22 ''&quot;'' (replace_char CHR ''>'' ''&gt;'' (replace_char CHR ''<'' ''&lt;'' (escape_amp s)))"

datatype attribute = AValue string | AFunction string

text \<open>\<open>for in\<close> and \<open>$.each\<close> see an object's own attributes, then those of the prototype.\<close>

definition sammy_object_methods :: "string list" where
  "sammy_object_methods = [''escapeHTML'', ''h'', ''toHash'', ''toHTML'', ''keys'', ''has'', ''join'', ''log'', ''toString'']"

definition seen_attributes :: "attribute obj \<Rightarrow> attribute obj" where
  "seen_attributes ob =
     ob @ map (\<lambda>m. (m, AFunction m)) (filter (\<lambda>m. oget ob m = None) sammy_object_methods)"

fun is_function :: "attribute \<Rightarrow> bool" where
  "is_function (AFunction _) = True"
| "is_function (AValue _) = False"

fun attribute_text :: "attribute \<Rightarrow> string" where
  "attribute_text (AFunction src) = src"
| "attribute_text (AValue v) = v"

definition toHash :: "attribute obj \<Rightarrow> attribute obj" where
  "toHash ob = fold (\<lambda>(k, v) json. if \<not> is_function v then oset k v json else json) (seen_attributes ob) []"

definition toHTML :: "attribute obj \<Rightarrow> string" where
  "toHTML ob = fold (\<lambda>(k, v) display. if \<not> is_function v
       then display @ ''<strong>'' @ k @ ''</strong> '' @ attribute_text v @ ''<br />'' else display) (seen_attributes ob) ''''"

definition object_keys :: "bool \<Rightarrow> attribute obj \<Rightarrow> string list" where
  "object_keys attributes_only ob =
     map fst (filter (\<lambda>(k, v). \<not> is_function v \<or> \<not> attributes_only) (seen_attributes ob))"

definition object_has :: "attribute obj \<Rightarrow> string \<Rightarrow> bool" where
  "object_has ob k = (case oget (seen_attributes ob) k of None \<Rightarrow> False
     | Some v \<Rightarrow> is_function v \<or> (attribute_text v \<noteq> '''' \<and> js_trim (attribute_text v) \<noteq> ''''))"

definition object_join :: "string \<Rightarrow> string list \<Rightarrow> string" where
  "object_join delimiter args = js_join delimiter args"

definition object_toString :: "bool \<Rightarrow> attribute obj \<Rightarrow> string" where
  "object_toString include_functions ob =
     ''Sammy.Object: {'' @
     js_join '','' (map (\<lambda>(k, v). [CHR 0x22] @ k @ [CHR 0x22] @ '': '' @ attribute_text v)
       (filter (\<lambda>(k, v). \<not> is_function v \<or> include_functions) (seen_attributes ob))) @ ''}''"

subsection \<open>Locations\<close>

record location =
  l_hostname :: string
  l_pathname :: string
  l_search :: string
  l_href :: string

text \<open>\<open>/^[^#]*(#.+)$/\<close>: everything from the first hash on, if anything follows it.\<close>

definition hash_of :: "string \<Rightarrow> string" where
  "hash_of href =
     (let h = dropWhile (\<lambda>c. c \<noteq> CHR ''#'') href
      in if length h \<ge> 2 \<and> (\<forall>c \<in> set (tl h). not_newline c) then h else '''')"

definition fullPath :: "location \<Rightarrow> string" where
  "fullPath l = js_join '''' [l_pathname l, l_search l, hash_of (l_href l)]"

subsection \<open>Routes\<close>

record route_entry =
  r_verb :: string
  r_path :: re
  r_callback :: "nat option"
  r_params :: "string list"

text \<open>What \<open>route\<close> is called with. A function is a number; the methods of the application
  that a callback can name are a parameter.\<close>

datatype path_arg = Path_string string | Path_RegExp re

datatype callback_arg = Function nat | Method string

definition ROUTE_VERBS :: "string list" where
  "ROUTE_VERBS = [''get'', ''post'', ''put'', ''delete'']"

text \<open>\<open>/:([\w\d]+)/g\<close>: the names in a path, and the path with each of them replaced.\<close>

function path_names :: "string \<Rightarrow> string list" where
  "path_names [] = []"
| "path_names (c # s) =
     (if c = CHR '':'' \<and> takeWhile is_word s \<noteq> [] then takeWhile is_word s # path_names (dropWhile is_word s)
      else path_names s)"
  by pat_completeness auto
termination by (relation "measure length") (auto simp: le_imp_less_Suc length_dropWhile_le)

definition PATH_REPLACER :: string where
  "PATH_REPLACER = ''([^/]+)''"

function replace_names :: "string \<Rightarrow> string" where
  "replace_names [] = []"
| "replace_names (c # s) =
     (if c = CHR '':'' \<and> takeWhile is_word s \<noteq> [] then PATH_REPLACER @ replace_names (dropWhile is_word s)
      else c # replace_names s)"
  by pat_completeness auto
termination by (relation "measure length") (auto simp: le_imp_less_Suc length_dropWhile_le)

definition compile_path :: "path_arg \<Rightarrow> (re \<times> string list) res" where
  "compile_path path =
     (case path of
        Path_RegExp r \<Rightarrow> Inr (r, [])
      | Path_string p \<Rightarrow> rbind (RegExp (replace_names p @ ''$'')) (\<lambda>r. Inr (r, path_names p)))"

definition lookup_callback :: "(string \<Rightarrow> nat option) \<Rightarrow> callback_arg \<Rightarrow> nat option" where
  "lookup_callback methods c = (case c of Function n \<Rightarrow> Some n | Method name \<Rightarrow> methods name)"

type_synonym routes = "route_entry list obj"

definition add_route :: "re \<times> string list \<Rightarrow> nat option \<Rightarrow> string \<Rightarrow> routes \<Rightarrow> routes" where
  "add_route pn callback with_verb rs =
     oset with_verb ((case oget rs with_verb of None \<Rightarrow> [] | Some l \<Rightarrow> l) @
       [\<lparr>r_verb = with_verb, r_path = fst pn, r_callback = callback, r_params = snd pn\<rparr>]) rs"

definition route :: "(string \<Rightarrow> nat option) \<Rightarrow> string \<Rightarrow> path_arg \<Rightarrow> callback_arg \<Rightarrow> routes \<Rightarrow> routes res" where
  "route methods verb path callback rs =
     rbind (compile_path path) (\<lambda>pn.
       let v = to_lower verb; cb = lookup_callback methods callback
       in Inr (if v = ''any'' then fold (add_route pn cb) ROUTE_VERBS rs else add_route pn cb v rs))"

text \<open>The call with two arguments. It means the path and the callback, but \<open>path = verb;
  callback = path;\<close> makes the path the callback too: as a string it is looked up as a method,
  as a pattern it cannot be called.\<close>

definition route_two :: "(string \<Rightarrow> nat option) \<Rightarrow> path_arg \<Rightarrow> nat \<Rightarrow> routes \<Rightarrow> routes res" where
  "route_two methods path_and_verb fn rs =
     (case path_and_verb of
        Path_string p \<Rightarrow> route methods ''any'' (Path_string p) (Method p) rs
      | Path_RegExp r \<Rightarrow> route (\<lambda>_. None) ''any'' (Path_RegExp r) (Method '''') rs)"

datatype route_args = Three string path_arg callback_arg | Two path_arg nat

definition mapRoutes :: "(string \<Rightarrow> nat option) \<Rightarrow> route_args list \<Rightarrow> routes \<Rightarrow> routes res" where
  "mapRoutes methods route_array =
     rfold (\<lambda>a. case a of Three v p c \<Rightarrow> route methods v p c | Two p n \<Rightarrow> route_two methods p n) route_array"

definition route_matches :: "string \<Rightarrow> route_entry \<Rightarrow> bool" where
  "route_matches path r = re_test (r_path r) (routablePath path)"

fun lookup_loop :: "route_entry list \<Rightarrow> string \<Rightarrow> route_entry option" where
  "lookup_loop [] path = None"
| "lookup_loop (r # rs) path = (if route_matches path r then Some r else lookup_loop rs path)"

definition lookupRoute :: "routes \<Rightarrow> string \<Rightarrow> string \<Rightarrow> route_entry option" where
  "lookupRoute rs verb path = (case oget rs verb of None \<Rightarrow> None | Some l \<Rightarrow> lookup_loop l path)"

text \<open>The parameters in a path: named ones by their names, the others in \<open>splat\<close>. A \<open>splat\<close> that came with
  the query is a string, and has no \<open>push\<close>.\<close>

definition push_splat :: "string \<Rightarrow> params \<Rightarrow> params res" where
  "push_splat v ps =
     (case oget ps ''splat'' of
        None \<Rightarrow> Inr (oset ''splat'' (PArr [PStr v]) ps)
      | Some (PArr vs) \<Rightarrow> Inr (oset ''splat'' (PArr (vs @ [PStr v])) ps)
      | Some (PStr t) \<Rightarrow> if t = '''' then Inr (oset ''splat'' (PArr [PStr v]) ps) else Inl TypeError
      | Some (PInherited n) \<Rightarrow> Inl TypeError)"

fun path_params :: "string list \<Rightarrow> string option list \<Rightarrow> params \<Rightarrow> params res" where
  "path_params names [] ps = Inr ps"
| "path_params (n # names) (v # vs) ps =
     (if n = '''' then rbind (decode v) (\<lambda>x. rbind (push_splat x ps) (path_params names vs))
      else rbind (decode v) (\<lambda>x. path_params names vs (oset n (PStr x) ps)))"
| "path_params [] (v # vs) ps = rbind (decode v) (\<lambda>x. rbind (push_splat x ps) (path_params [] vs))"

definition route_params :: "route_entry \<Rightarrow> string \<Rightarrow> params \<Rightarrow> params res" where
  "route_params r path ps =
     (case re_exec (r_path r) (routablePath path) of
        None \<Rightarrow> Inr ps | Some m \<Rightarrow> path_params (r_params r) (captured (r_path r) m) ps)"

subsection \<open>Filter options\<close>

text \<open>The options of a filter: \<open>{}\<close>, a path, a list of paths, a verb or several, and \<open>only\<close> and
  \<open>except\<close>.\<close>

datatype path_option = No_path | One_path path_arg | Paths "path_arg list"

datatype options =
    Options (o_path: path_option) (o_verb: "string list option") (o_only: "options option") (o_except: "options option")
  | Path_options path_arg

definition path_option_re :: "path_arg \<Rightarrow> re res" where
  "path_option_re p = (case p of Path_RegExp r \<Rightarrow> Inr r | Path_string s \<Rightarrow> RegExp (s @ ''$''))"

record route_context =
  c_verb :: string
  c_path :: string
  c_params :: params

text \<open>\<open>verb\<close> and \<open>path\<close> of one set of options, both of which may be missing.\<close>

definition path_matches :: "route_context \<Rightarrow> path_arg \<Rightarrow> bool res" where
  "path_matches ctx p =
     (case p of Path_string [] \<Rightarrow> Inr True | _ \<Rightarrow> rbind (path_option_re p) (\<lambda>r. Inr (re_test r (c_path ctx))))"

definition plain_match :: "route_context \<Rightarrow> path_option \<Rightarrow> string list option \<Rightarrow> bool \<Rightarrow> bool res" where
  "plain_match ctx p v positive =
     rbind (case p of One_path a \<Rightarrow> path_matches ctx a | _ \<Rightarrow> Inr True)
       (\<lambda>path_matched.
          let matched = (path_matched \<and> (case v of None \<Rightarrow> True | Some vs \<Rightarrow> c_verb ctx \<in> set vs))
          in Inr (if positive then matched else \<not> matched))"

fun contextMatchesOptions :: "route_context \<Rightarrow> options \<Rightarrow> bool \<Rightarrow> bool res" where
  "contextMatchesOptions ctx (Path_options a) positive = plain_match ctx (One_path a) None positive"
| "contextMatchesOptions ctx (Options p v oonly oexcept) positive =
     (if (case (p, v, oonly, oexcept) of (No_path, None, None, None) \<Rightarrow> True | _ \<Rightarrow> False) then Inr True
      else
        (let rest = (\<lambda>p positive. case oonly of
                 Some ob \<Rightarrow> contextMatchesOptions ctx ob True
               | None \<Rightarrow> (case oexcept of
                     Some ob \<Rightarrow> contextMatchesOptions ctx ob False
                   | None \<Rightarrow> plain_match ctx p v positive))
         in case p of
              Paths ps \<Rightarrow> rbind (rmap (\<lambda>a. rest (One_path a) True) ps)
                (\<lambda>results. Inr (if positive then True \<in> set results else True \<notin> set results))
            | _ \<Rightarrow> rest p positive))"

subsection \<open>Escaping\<close>

lemma replace_char_append [simp]: "replace_char c r (s @ t) = replace_char c r s @ replace_char c r t"
  by (simp add: replace_char_def)

lemma replace_char_id: "c \<notin> set s \<Longrightarrow> replace_char c r s = s"
  by (induction s) (auto simp: replace_char_def)

lemma replaced_char: "c \<notin> set r \<Longrightarrow> c \<notin> set (replace_char c r s)" "d \<notin> set r \<Longrightarrow> d \<notin> set s \<Longrightarrow> d \<notin> set (replace_char c r s)"
  by (auto simp: replace_char_def split: if_splits)

text \<open>Text whose ampersands all begin entities.\<close>

fun entities :: "string \<Rightarrow> bool" where
  "entities [] = True"
| "entities (c # s) \<longleftrightarrow> (c = CHR ''&'' \<longrightarrow> begins_entity s) \<and> entities s"

lemma escape_amp_id: "entities s \<Longrightarrow> escape_amp s = s"
  by (induction s) auto

lemma word_not_special [simp]:
  "\<not> is_word CHR '';''" "\<not> is_word CHR ''&''" "\<not> is_word CHR ''<''" "\<not> is_word CHR ''>''" "\<not> is_word CHR 0x22"
  "is_word CHR ''a''" "is_word CHR ''m''" "is_word CHR ''p''" "is_word CHR ''l''" "is_word CHR ''t''" "is_word CHR ''g''"
  "is_word CHR ''q''" "is_word CHR ''u''" "is_word CHR ''o''"
  by (simp_all add: is_word_def digit_chars_def lower_chars_def upper_chars_def)

text \<open>Putting an entity for a character that is not part of a word leaves the other entities.\<close>

lemma word_prefix:
  "\<forall>x \<in> set w. is_word x \<Longrightarrow> takeWhile is_word (w @ CHR '';'' # t) = w"
  "\<forall>x \<in> set w. is_word x \<Longrightarrow> dropWhile is_word (w @ CHR '';'' # t) = CHR '';'' # t"
  by (induction w) auto

lemma begins_entity_iff:
  "begins_entity s \<longleftrightarrow> (\<exists>w t. s = w @ CHR '';'' # t \<and> w \<noteq> [] \<and> (\<forall>x \<in> set w. is_word x))"
proof
  assume "begins_entity s"
  then obtain t where "dropWhile is_word s = CHR '';'' # t" "takeWhile is_word s \<noteq> []"
    by (auto simp: begins_entity_def split: list.splits)
  then have "s = takeWhile is_word s @ CHR '';'' # t" by (metis takeWhile_dropWhile_id)
  then show "\<exists>w t. s = w @ CHR '';'' # t \<and> w \<noteq> [] \<and> (\<forall>x \<in> set w. is_word x)"
    using \<open>takeWhile is_word s \<noteq> []\<close> set_takeWhileD [of _ is_word s] by blast
next
  assume "\<exists>w t. s = w @ CHR '';'' # t \<and> w \<noteq> [] \<and> (\<forall>x \<in> set w. is_word x)"
  then show "begins_entity s" by (auto simp: begins_entity_def word_prefix)
qed

lemma begins_entity_replace:
  assumes "begins_entity s" "\<not> is_word c" "c \<noteq> CHR '';''"
  shows "begins_entity (replace_char c r s)"
proof -
  obtain w t where s: "s = w @ CHR '';'' # t" "w \<noteq> []" "\<forall>x \<in> set w. is_word x"
    using assms(1) unfolding begins_entity_iff by blast
  have "c \<notin> set w" using s(3) assms(2) by auto
  moreover have "replace_char c r (CHR '';'' # t) = CHR '';'' # replace_char c r t"
    using assms(3) by (simp add: replace_char_def)
  ultimately have "replace_char c r s = w @ CHR '';'' # replace_char c r t"
    by (simp add: s(1) replace_char_id)
  then show ?thesis using s(2,3) unfolding begins_entity_iff by blast
qed

lemma entities_plain: "\<forall>x \<in> set u. x \<noteq> CHR ''&'' \<Longrightarrow> entities t \<Longrightarrow> entities (u @ t)"
  by (induction u) auto

lemma entities_replace:
  assumes "entities s" "\<not> is_word c" "c \<noteq> CHR '';''" and r: "r = CHR ''&'' # w @ '';''" "w \<noteq> []" "\<forall>x \<in> set w. is_word x"
  shows "entities (replace_char c r s)"
  using assms(1)
proof (induction s)
  case (Cons x xs)
  have here: "entities (r @ t)" if "entities t" for t
  proof -
    have "\<forall>x \<in> set (w @ '';''). x \<noteq> CHR ''&''" using r(3) by auto
    then have "entities ((w @ '';'') @ t)" using that by (rule entities_plain)
    moreover have "begins_entity ((w @ '';'') @ t)" using r unfolding begins_entity_iff by auto
    ultimately show ?thesis by (simp add: r(1))
  qed
  have IH: "entities (replace_char c r xs)" using Cons by simp
  show ?case
  proof (cases "x = c")
    case True
    then have "replace_char c r (x # xs) = r @ replace_char c r xs" by (simp add: replace_char_def)
    then show ?thesis using here [OF IH] by simp
  next
    case False
    then have "replace_char c r (x # xs) = x # replace_char c r xs" by (simp add: replace_char_def)
    then show ?thesis using Cons.prems IH begins_entity_replace [OF _ assms(2,3)] by simp
  qed
qed (simp add: replace_char_def)

lemma escape_amp_entities: "entities (escape_amp s)"
proof (induction s)
  case (Cons c s)
  have plain: "escape_amp (w @ u) = w @ escape_amp u" if "\<forall>x \<in> set w. is_word x" for w u
    using that by (induction w) auto
  have keep: "begins_entity (escape_amp s)" if b: "begins_entity s"
  proof -
    obtain w t where s: "s = w @ CHR '';'' # t" "w \<noteq> []" "\<forall>x \<in> set w. is_word x"
      using b unfolding begins_entity_iff by blast
    then have "escape_amp s = w @ CHR '';'' # escape_amp t" using plain by simp
    then show ?thesis using s(2,3) unfolding begins_entity_iff by blast
  qed
  have amp: "begins_entity (''amp;'' @ t)" for t
    unfolding begins_entity_iff by (intro exI [of _ "''amp''"] exI [of _ t]) simp
  show ?case using Cons keep amp [of "escape_amp s"] by auto
qed simp

text \<open>C19: escaped text holds no mark-up character, and escaping it again changes nothing.\<close>

theorem escapeHTML_safe_idempotent:
  "CHR ''<'' \<notin> set (escapeHTML s) \<and> CHR ''>'' \<notin> set (escapeHTML s) \<and> CHR 0x22 \<notin> set (escapeHTML s) \<and>
   escapeHTML (escapeHTML s) = escapeHTML s"
proof -
  let ?t = "escapeHTML s"
  have no: "CHR ''<'' \<notin> set ?t" "CHR ''>'' \<notin> set ?t" "CHR 0x22 \<notin> set ?t"
    unfolding escapeHTML_def by (intro replaced_char; simp)+
  have "entities ?t" unfolding escapeHTML_def
    by (intro entities_replace [where w = "''quot''"] entities_replace [where w = "''gt''"] entities_replace [where w = "''lt''"]
        escape_amp_entities) auto
  then have "escape_amp ?t = ?t" by (rule escape_amp_id)
  then have "escapeHTML ?t = ?t"
    unfolding escapeHTML_def [of ?t] using no by (simp add: replace_char_id)
  then show ?thesis using no by blast
qed

subsection \<open>What a path of text and names matches\<close>

definition meta_char :: "char \<Rightarrow> bool" where
  "meta_char c \<longleftrightarrow> c = CHR 0x5C \<or> c \<in> set ''^$.|?*+()[]{}''"

definition plain_route :: "string \<Rightarrow> bool" where
  "plain_route p \<longleftrightarrow> (\<forall>c \<in> set p. \<not> meta_char c)"

text \<open>The path with values in place of the names.\<close>

function fill :: "string \<Rightarrow> string list \<Rightarrow> string" where
  "fill [] vs = []"
| "fill (c # s) vs =
     (if c = CHR '':'' \<and> takeWhile is_word s \<noteq> [] then hd vs @ fill (dropWhile is_word s) (tl vs) else c # fill s vs)"
  by pat_completeness auto
termination by (relation "measure (\<lambda>(s, vs). length s)") (auto simp: le_imp_less_Suc length_dropWhile_le)

definition segment :: "string \<Rightarrow> bool" where
  "segment v \<longleftrightarrow> v \<noteq> [] \<and> CHR ''/'' \<notin> set v"

definition starts_quantifier :: "string \<Rightarrow> bool" where
  "starts_quantifier s \<longleftrightarrow> (case s of c # _ \<Rightarrow> c \<in> set ''*+?{'' | [] \<Rightarrow> False)"

lemma quantified_none: "\<not> starts_quantifier s \<Longrightarrow> quantified r s = Inr (r, s)"
  by (auto simp: quantified_def starts_quantifier_def split: list.split)

definition not_slash :: re where
  "not_slash = RClass (\<lambda>x. (x = CHR ''/'') \<noteq> True)"

definition segment_re :: "nat \<Rightarrow> re" where
  "segment_re n = RGroup n (RSeq not_slash (RStar True not_slash))"

lemma parse_plain:
  assumes "\<not> meta_char c" "\<not> starts_quantifier s"
  shows "re_parse f fs n (c # s) = re_parse (push_term (RClass (\<lambda>x. x = c)) f) fs n s"
  using assms by (simp add: meta_char_def atom_of_def quantified_none)

lemma parse_replacer:
  assumes "\<not> starts_quantifier s"
  shows "re_parse f fs n (PATH_REPLACER @ s) = re_parse (push_term (segment_re (Suc n)) f) fs (Suc n) s"
proof -
  have c: "class_of (CHR ''^'' # CHR ''/'' # CHR '']'' # t) = Inr (not_slash, t)" for t
    by (simp add: class_of_def not_slash_def)
  show ?thesis
    using assms by (simp add: PATH_REPLACER_def atom_of_def c quantified_def [of _ "CHR ''+'' # _"] lazily_def
        quantified_none push_term_def new_frame_def frame_re_def segment_re_def)
qed

lemma parse_end: "re_parse f [] n ''$'' = Inr (frame_re (push_term REnd f))"
  by (simp add: atom_of_def quantified_def)

lemma spans_push_term: "spans (f_seq (push_term r f)) s i j \<longleftrightarrow> (\<exists>k. spans (f_seq f) s i k \<and> spans r s k j)"
  by (cases "f_seq f") (auto simp: push_term_def)

lemma spans_segment:
  assumes "i \<le> length s"
  shows "spans (segment_re n) s i j \<longleftrightarrow> j \<le> length s \<and> i < j \<and> segment (substr s i j)"
proof -
  have sub: "set (substr s i j) = {s ! k |k. i \<le> k \<and> k < j}" if "j \<le> length s" for i j
  proof -
    have "substr s i j = map (\<lambda>k. s ! k) [i..<j]"
      unfolding substr_def using that by (intro nth_equalityI) (auto simp: nth_append)
    then show ?thesis by auto
  qed
  have "spans (segment_re n) s i j \<longleftrightarrow> i < length s \<and> s ! i \<noteq> CHR ''/'' \<and> spans (RStar True not_slash) s (Suc i) j"
    by (auto simp: segment_re_def not_slash_def)
  also have "\<dots> \<longleftrightarrow> j \<le> length s \<and> i < j \<and> (\<forall>k. i \<le> k \<and> k < j \<longrightarrow> s ! k \<noteq> CHR ''/'')"
    unfolding not_slash_def
    by (cases "i < length s") (auto simp: spans_class_star le_Suc_eq Suc_le_eq, metis le_neq_implies_less)
  also have "\<dots> \<longleftrightarrow> j \<le> length s \<and> i < j \<and> segment (substr s i j)"
  proof (cases "j \<le> length s \<and> i < j")
    case True
    have "CHR ''/'' \<in> set (substr s i j) \<longleftrightarrow> (\<exists>k. i \<le> k \<and> k < j \<and> s ! k = CHR ''/'')"
      using sub [of j i] True by auto
    moreover have "substr s i j \<noteq> []" using True by (simp add: substr_def)
    ultimately show ?thesis using True by (simp add: segment_def) blast
  qed blast
  finally show ?thesis .
qed

definition filled :: "string \<Rightarrow> string list \<Rightarrow> bool" where
  "filled p vs \<longleftrightarrow> length vs = length (path_names p) \<and> (\<forall>v \<in> set vs. segment v)"

text \<open>The compiled path matches from \<open>i\<close> exactly when what is left is the path with values in place.\<close>

lemma compiled_spans:
  assumes "plain_route p" "f_group f = None" "f_alts f = None"
  shows "\<exists>r. re_parse f [] n (replace_names p @ ''$'') = Inr r \<and>
    (\<forall>s i j. i \<le> length s \<longrightarrow> spans r s i j \<longleftrightarrow>
       j = length s \<and> (\<exists>k. spans (f_seq f) s i k \<and> (\<exists>vs. filled p vs \<and> drop k s = fill p vs)))"
  using assms
proof (induction p arbitrary: f n rule: path_names.induct)
  case 1
  have "frame_re (push_term REnd f) = f_seq (push_term REnd f)"
    using 1 by (simp add: frame_re_def push_term_def)
  moreover have "spans (f_seq f) s i k \<and> length s \<le> k \<longleftrightarrow> spans (f_seq f) s i k \<and> k = length s" if "i \<le> length s" for s i k
    using spans_le [of "f_seq f" s i k] that by auto
  ultimately show ?case
    by (auto simp: parse_end spans_push_term filled_def simp del: re_parse.simps)
next
  case (2 c p)
  let ?name = "c = CHR '':'' \<and> takeWhile is_word p \<noteq> []"
  have noq: "\<not> starts_quantifier (replace_names q @ ''$'')" if "plain_route q" for q
    using that by (cases q) (auto simp: starts_quantifier_def plain_route_def meta_char_def PATH_REPLACER_def)
  show ?case
  proof (cases ?name)
    case True
    let ?q = "dropWhile is_word p" and ?f = "push_term (segment_re (Suc n)) f"
    have q: "plain_route ?q" using 2(3) by (auto simp: plain_route_def dest: set_dropWhileD)
    obtain r where r: "re_parse ?f [] (Suc n) (replace_names ?q @ ''$'') = Inr r"
      "\<forall>s i j. i \<le> length s \<longrightarrow> spans r s i j \<longleftrightarrow>
         j = length s \<and> (\<exists>k. spans (f_seq ?f) s i k \<and> (\<exists>vs. filled ?q vs \<and> drop k s = fill ?q vs))"
      using 2(1) [OF True q, of ?f "Suc n"] 2(4,5) by (auto simp: push_term_def)
    have parse: "re_parse f [] n (replace_names (c # p) @ ''$'') = Inr r"
      using True r(1) parse_replacer [OF noq [OF q]] by (simp del: re_parse.simps)
    have step: "(\<exists>k. spans (f_seq ?f) s i k \<and> (\<exists>vs. filled ?q vs \<and> drop k s = fill ?q vs)) \<longleftrightarrow>
        (\<exists>k. spans (f_seq f) s i k \<and> (\<exists>vs. filled (c # p) vs \<and> drop k s = fill (c # p) vs))" if i: "i \<le> length s" for s i
    proof
      assume "\<exists>k. spans (f_seq ?f) s i k \<and> (\<exists>vs. filled ?q vs \<and> drop k s = fill ?q vs)"
      then obtain k l vs where kl: "spans (f_seq f) s i l" "spans (segment_re (Suc n)) s l k" "filled ?q vs" "drop k s = fill ?q vs"
        by (auto simp: spans_push_term)
      have l: "l \<le> length s" using spans_le [OF kl(1) i] by simp
      then have seg: "k \<le> length s" "l < k" "segment (substr s l k)" using kl(2) spans_segment by auto
      have "drop l s = substr s l k @ drop k s"
        using seg by (simp add: substr_def) (metis append_take_drop_id drop_drop le_add_diff_inverse2 less_imp_le_nat)
      then have "drop l s = fill (c # p) (substr s l k # vs)" "filled (c # p) (substr s l k # vs)"
        using True kl(3,4) seg(3) by (simp_all add: filled_def)
      then show "\<exists>k. spans (f_seq f) s i k \<and> (\<exists>vs. filled (c # p) vs \<and> drop k s = fill (c # p) vs)"
        using kl(1) by blast
    next
      assume "\<exists>k. spans (f_seq f) s i k \<and> (\<exists>vs. filled (c # p) vs \<and> drop k s = fill (c # p) vs)"
      then obtain l vs where l: "spans (f_seq f) s i l" "filled (c # p) vs" "drop l s = fill (c # p) vs" by blast
      obtain v vs' where vs: "vs = v # vs'" using l(2) True by (cases vs) (auto simp: filled_def)
      have v: "segment v" "filled ?q vs'" "drop l s = v @ fill ?q vs'"
        using l(2,3) True by (auto simp: vs filled_def)
      have "l \<le> length s" using spans_le [OF l(1) i] by simp
      moreover have "l + length v \<le> length s" using arg_cong [OF v(3), of length] calculation by simp
      moreover have "substr s l (l + length v) = v" "drop (l + length v) s = fill ?q vs'"
        using v(3) by (simp_all add: substr_def drop_drop [symmetric] add.commute [of l])
      ultimately have "spans (segment_re (Suc n)) s l (l + length v)"
        using v(1) spans_segment by (auto simp: segment_def)
      then show "\<exists>k. spans (f_seq ?f) s i k \<and> (\<exists>vs. filled ?q vs \<and> drop k s = fill ?q vs)"
        using l(1) v(2) \<open>drop (l + length v) s = fill ?q vs'\<close> by (auto simp: spans_push_term)
    qed
    show ?thesis
    proof (intro exI [of _ r] conjI allI impI)
      show "re_parse f [] n (replace_names (c # p) @ ''$'') = Inr r" by (rule parse)
    next
      fix s i j assume "i \<le> length (s :: string)"
      then show "spans r s i j \<longleftrightarrow> j = length s \<and>
          (\<exists>k. spans (f_seq f) s i k \<and> (\<exists>vs. filled (c # p) vs \<and> drop k s = fill (c # p) vs))"
        using r(2) step [where s = s and i = i] by (simp only: simp_thms)
    qed
  next
    case False
    let ?f = "push_term (RClass (\<lambda>x. x = c)) f"
    have q: "plain_route p" "\<not> meta_char c" using 2(3) by (auto simp: plain_route_def)
    obtain r where r: "re_parse ?f [] n (replace_names p @ ''$'') = Inr r"
      "\<forall>s i j. i \<le> length s \<longrightarrow> spans r s i j \<longleftrightarrow>
         j = length s \<and> (\<exists>k. spans (f_seq ?f) s i k \<and> (\<exists>vs. filled p vs \<and> drop k s = fill p vs))"
      using 2(2) [OF False q(1), of ?f n] 2(4,5) by (auto simp: push_term_def)
    have parse: "re_parse f [] n (replace_names (c # p) @ ''$'') = Inr r"
      using r(1) parse_plain [OF q(2) noq [OF q(1)]] by (simp only: replace_names.simps False if_False append_Cons)
    have "filled (c # p) vs \<longleftrightarrow> filled p vs" "fill (c # p) vs = c # fill p vs" for vs
      by (simp_all only: filled_def path_names.simps fill.simps False if_False)
    moreover have "drop k s = c # t \<longleftrightarrow> k < length s \<and> s ! k = c \<and> drop (Suc k) s = t" for k s t
      by (cases "k < length s") (auto simp: Cons_nth_drop_Suc [symmetric])
    ultimately have step: "(\<exists>k. spans (f_seq ?f) s i k \<and> (\<exists>vs. filled p vs \<and> drop k s = fill p vs)) \<longleftrightarrow>
        (\<exists>k. spans (f_seq f) s i k \<and> (\<exists>vs. filled (c # p) vs \<and> drop k s = fill (c # p) vs))" for s i
      by (auto simp: spans_push_term)
    show ?thesis
    proof (intro exI [of _ r] conjI allI impI)
      show "re_parse f [] n (replace_names (c # p) @ ''$'') = Inr r" by (rule parse)
    next
      fix s i j assume "i \<le> length (s :: string)"
      then show "spans r s i j \<longleftrightarrow> j = length s \<and>
          (\<exists>k. spans (f_seq f) s i k \<and> (\<exists>vs. filled (c # p) vs \<and> drop k s = fill (c # p) vs))"
        using r(2) step [where s = s and i = i] by (simp only: simp_thms)
    qed
  qed
qed

text \<open>C20: which paths a route of text and \<open>:names\<close> matches. The pattern is anchored at the end only, so these are
  the paths that end with the route, some non-empty text without slashes in place of each name; what
  stands before it does not matter.\<close>

theorem string_route_matches:
  assumes "plain_route p" "compile_path (Path_string p) = Inr (r, names)"
  shows "re_test r path \<longleftrightarrow> (\<exists>before vs. filled p vs \<and> path = before @ fill p vs)"
proof -
  obtain r' where r': "re_parse (new_frame None) [] 0 (replace_names p @ ''$'') = Inr r'"
    "\<forall>s i j. i \<le> length s \<longrightarrow> spans r' s i j \<longleftrightarrow>
       j = length s \<and> (\<exists>k. spans REmpty s i k \<and> (\<exists>vs. filled p vs \<and> drop k s = fill p vs))"
    using compiled_spans [OF assms(1), of "new_frame None" 0] by (auto simp: new_frame_def)
  have "r = r'" using assms(2) r'(1) by (simp add: compile_path_def RegExp_def)
  moreover have r2: "spans r' path i j \<longleftrightarrow> j = length path \<and> (\<exists>vs. filled p vs \<and> drop i path = fill p vs)"
    if "i \<le> length path" for i j
    using r'(2) that by simp
  ultimately have "re_test r path \<longleftrightarrow> (\<exists>i \<le> length path. \<exists>vs. filled p vs \<and> drop i path = fill p vs)"
    unfolding re_test_iff by blast
  also have "\<dots> \<longleftrightarrow> (\<exists>before vs. filled p vs \<and> path = before @ fill p vs)"
  proof
    assume "\<exists>i \<le> length path. \<exists>vs. filled p vs \<and> drop i path = fill p vs"
    then show "\<exists>before vs. filled p vs \<and> path = before @ fill p vs" by (metis append_take_drop_id)
  next
    assume "\<exists>before vs. filled p vs \<and> path = before @ fill p vs"
    then obtain before vs where "filled p vs" "path = before @ fill p vs" by blast
    then show "\<exists>i \<le> length path. \<exists>vs. filled p vs \<and> drop i path = fill p vs"
      by (intro exI [of _ "length before"]) auto
  qed
  finally show ?thesis .
qed

theorem string_route_matches_witness:
  "\<exists>r. compile_path (Path_string ''#/user/:id'') = Inr (r, [''id'']) \<and> re_test r ''/x#/y#/user/7'' \<and> \<not> re_test r ''#/user/''"
proof -
  have plain: "plain_route ''#/user/:id''" by code_simp
  obtain r where r: "compile_path (Path_string ''#/user/:id'') = Inr (r, [''id''])"
  proof -
    have "path_names ''#/user/:id'' = [''id'']" by code_simp
    moreover obtain r where "RegExp (replace_names ''#/user/:id'' @ ''$'') = Inr r"
      using compiled_spans [OF plain, of "new_frame None" 0] by (auto simp: new_frame_def RegExp_def)
    ultimately show thesis using that by (simp add: compile_path_def)
  qed
  note m = string_route_matches [OF plain r]
  have "''/x#/y#/user/7'' = ''/x#/y'' @ fill ''#/user/:id'' [''7'']" "filled ''#/user/:id'' [''7'']" by code_simp+
  then have "re_test r ''/x#/y#/user/7''" unfolding m by blast
  moreover have "\<not> re_test r ''#/user/''"
    unfolding m
  proof
    assume "\<exists>before vs. filled ''#/user/:id'' vs \<and> ''#/user/'' = before @ fill ''#/user/:id'' vs"
    then obtain before vs where v: "filled ''#/user/:id'' vs" "''#/user/'' = before @ fill ''#/user/:id'' vs" by blast
    have "path_names ''#/user/:id'' = [''id'']" by code_simp
    then obtain v where vs: "vs = [v]" "v \<noteq> []" "CHR ''/'' \<notin> set v"
      using v(1) by (cases vs) (auto simp: filled_def segment_def)
    have "fill ''#/user/:id'' [v] = ''#/user/'' @ v" by (simp add: is_word_def digit_chars_def lower_chars_def)
    then have "last (''#/user/'') = last v" using v(2) vs(1,2) by simp
    then show False using vs(2,3) last_in_set [of v] by simp
  qed
  ultimately show ?thesis using r by blast
qed

subsection \<open>Looking up\<close>

lemma lookup_find: "lookupRoute rs verb path = (case oget rs verb of None \<Rightarrow> None | Some l \<Rightarrow> find (route_matches path) l)"
proof -
  have "lookup_loop l path = find (route_matches path) l" for l by (induction l) auto
  then show ?thesis by (simp add: lookupRoute_def cong: option.case_cong)
qed

text \<open>Routes are tried in the order in which they were defined. A route found before another was added is
  found after it too; the new one is found where no earlier one matches.\<close>

theorem earlier_routes_first:
  assumes "route methods verb (Path_RegExp r) callback rs = Inr rs'" "to_lower verb = v" "v \<noteq> ''any''"
  shows "lookupRoute rs' v path =
    (case lookupRoute rs v path of
       Some old \<Rightarrow> Some old
     | None \<Rightarrow> if re_test r (routablePath path)
               then Some \<lparr>r_verb = v, r_path = r, r_callback = lookup_callback methods callback, r_params = []\<rparr> else None)"
proof -
  have "rs' = add_route (r, []) (lookup_callback methods callback) v rs"
    using assms by (simp add: route_def compile_path_def Let_def)
  moreover have "find P (l @ [x]) = (case find P l of Some y \<Rightarrow> Some y | None \<Rightarrow> if P x then Some x else None)" for P l and x :: route_entry
    by (induction l) auto
  ultimately show ?thesis
    by (simp add: lookup_find add_route_def oget_oset route_matches_def split: option.split)
qed

theorem earlier_routes_first_witness:
  "\<exists>rs. route (\<lambda>_. None) ''get'' (Path_RegExp REmpty) (Function 1) [] = Inr rs \<and>
    map_option r_callback (lookupRoute rs ''get'' ''#/'') = Some (Some 1)"
proof -
  obtain rs where rs: "route (\<lambda>_. None) ''get'' (Path_RegExp REmpty) (Function 1) [] = Inr rs"
    by (auto simp: route_def compile_path_def Let_def)
  have "to_lower ''get'' = ''get''" "re_test REmpty (routablePath ''#/'')" by code_simp+
  then show ?thesis using rs earlier_routes_first [OF rs, of "''get''" "''#/''"]
    by (simp add: lookupRoute_def lookup_callback_def)
qed

text \<open>A route defined by path and function alone never runs its function: every route that it makes has the method
  of that name for its callback, and none when the application has no such method.\<close>

theorem two_argument_route_loses_callback:
  assumes "route_two methods (Path_string p) fn [] = Inr rs" "methods p = None"
    and "lookupRoute rs verb path = Some r"
  shows "r_callback r = None"
proof -
  obtain pn where "rs = fold (add_route pn None) ROUTE_VERBS []"
    using assms(1,2) by (auto simp: route_two_def route_def lookup_callback_def rbind_Inr_iff Let_def to_lower_def to_lower_char_def)
  then have "\<forall>(v, l) \<in> set rs. \<forall>x \<in> set l. r_callback x = None"
    by (simp add: ROUTE_VERBS_def add_route_def)
  moreover have "\<exists>l. (verb, l) \<in> set rs \<and> r \<in> set l"
    using assms(3) by (fastforce simp: lookup_find find_Some_iff split: option.splits dest!: map_of_SomeD)
  ultimately show ?thesis by blast
qed

theorem two_argument_route_loses_callback_witness:
  "\<exists>rs r. route_two (\<lambda>_. None) (Path_string ''#/'') 1 [] = Inr rs \<and> lookupRoute rs ''get'' ''#/'' = Some r \<and> r_callback r = None"
proof -
  have plain: "plain_route ''#/''" by code_simp
  obtain q where q: "compile_path (Path_string ''#/'') = Inr (q, [])"
  proof -
    have "path_names ''#/'' = []" by code_simp
    moreover obtain r where "RegExp (replace_names ''#/'' @ ''$'') = Inr r"
      using compiled_spans [OF plain, of "new_frame None" 0] by (auto simp: new_frame_def RegExp_def)
    ultimately show thesis using that by (simp add: compile_path_def)
  qed
  let ?rs = "fold (add_route (q, []) None) ROUTE_VERBS []"
  have rs: "route_two (\<lambda>_. None) (Path_string ''#/'') 1 [] = Inr ?rs"
    using q by (simp add: route_two_def route_def lookup_callback_def to_lower_def to_lower_char_def)
  have "''#/'' = [] @ fill ''#/'' []" "filled ''#/'' []" by code_simp+
  then have "re_test q ''#/''" unfolding string_route_matches [OF plain q] by blast
  moreover have "routablePath ''#/'' = ''#/''" by code_simp
  ultimately have "lookupRoute ?rs ''get'' ''#/'' = Some \<lparr>r_verb = ''get'', r_path = q, r_callback = None, r_params = []\<rparr>"
    by (simp add: lookupRoute_def ROUTE_VERBS_def add_route_def route_matches_def)
  then show ?thesis using rs two_argument_route_loses_callback [OF rs] by blast
qed

subsection \<open>Filters\<close>

definition flat_options :: "options \<Rightarrow> bool" where
  "flat_options ob \<longleftrightarrow> (case ob of Path_options a \<Rightarrow> True
     | Options p v oonly oexcept \<Rightarrow> oonly = None \<and> oexcept = None \<and> \<not> (case (p, v) of (No_path, None) \<Rightarrow> True | _ \<Rightarrow> False))"

lemma rbind_map: "rbind (rbind r (\<lambda>x. Inr (f x))) g = rbind r (\<lambda>x. g (f x))"
  by (cases r) auto

text \<open>\<open>except\<close> is the complement of \<open>only\<close>, for options that name a path, paths or verbs.\<close>

theorem except_is_complement:
  assumes "flat_options ob"
  shows "contextMatchesOptions ctx (Options No_path None None (Some ob)) positive =
    rbind (contextMatchesOptions ctx (Options No_path None (Some ob) None) positive) (\<lambda>b. Inr (\<not> b))"
proof (cases ob)
  case (Options p v oonly oexcept)
  then show ?thesis using assms
    by (cases p; cases v) (auto simp: flat_options_def plain_match_def Let_def rbind_map)
next
  case (Path_options a)
  then show ?thesis by (cases "path_matches ctx a") (auto simp: plain_match_def Let_def)
qed

theorem except_is_complement_witness:
  "contextMatchesOptions \<lparr>c_verb = ''get'', c_path = ''#/'', c_params = []\<rparr>
     (Options No_path None None (Some (Options No_path (Some [''post'']) None None))) True = Inr True"
  by (subst except_is_complement) (simp_all add: flat_options_def plain_match_def)

end
