(* ===== verification/SammyApp.thy ===== *)
theory SammyApp
  imports SammyRoutes Action
begin

text \<open>
  \<open>Sammy.Application\<close> and its location proxy: events, filters, routes, forms and the life of an
  application.

  The functions an application supplies (routes, filters, listeners) are actions on the state
  of the application, numbered; an around filter gets the rest of the route as an action. What
  they do is a parameter (\<open>env\<close>). At the end of the theory such parameters are built from scripts
  of commands, which call the application back, as deep as one chooses.

  A function wrapped by an around filter is modelled for one call: called again it would find the
  before filters used up.
\<close>

subsection \<open>State\<close>

datatype rval = RUndefined | RBool bool | ROther

datatype listener = Check_location | Check_submit | Listener nat

record app =
  a_routes :: routes
  a_listeners :: "listener list obj"
  a_bound :: "(string \<times> listener) list"
  a_befores :: "(options \<times> nat) list"
  a_arounds :: "nat list"
  a_running :: bool
  a_proxies :: nat
  a_bindings :: int
  a_unloaders :: nat
  a_last_location :: "(string \<times> string) option"
  a_location :: string
  a_hashchanges :: nat
  a_polling :: bool
  a_polled :: "string option"
  a_native :: bool
  a_timeouts :: nat
  a_left :: bool
  a_events :: "string list"
  a_log :: "(string \<times> js_error) list"
  a_calls :: "nat list"

text \<open>What does not change: whether the browser has \<open>history.pushState\<close>, and the settings.\<close>

record config =
  has_history :: bool
  disable_push_state :: bool
  raise_errors :: bool

type_synonym 'a app_act = "(app, 'a) act"

record env =
  callback :: "nat \<Rightarrow> route_context \<Rightarrow> rval app_act"
  around :: "nat \<Rightarrow> route_context \<Rightarrow> rval app_act \<Rightarrow> rval app_act"

text \<open>\<open>new Sammy.Application()\<close> on a page at \<open>location\<close>. Its proxy begins to poll at once: the
  first check finds no location to compare with, so a \<open>hashchange\<close> is on its way.\<close>

definition new_app :: "string \<Rightarrow> app" where
  "new_app location =
     \<lparr>a_routes = [], a_listeners = [], a_bound = [], a_befores = [], a_arounds = [], a_running = False,
      a_proxies = 0, a_bindings = 0, a_unloaders = 0, a_last_location = None,
      a_location = location, a_hashchanges = 0, a_polling = True, a_polled = Some location, a_native = False, a_timeouts = 1, a_left = False, a_events = [], a_log = [], a_calls = []\<rparr>"

subsection \<open>Events\<close>

text \<open>Every listener runs in a context whose verb is \<open>bind\<close> and whose path is the event.\<close>

definition event_context :: "string \<Rightarrow> route_context" where
  "event_context name = \<lparr>c_verb = ''bind'', c_path = name, c_params = []\<rparr>"

definition bound_to :: "string \<Rightarrow> app \<Rightarrow> listener list" where
  "bound_to name s = map snd (filter (\<lambda>(n, l). n = name) (a_bound s))"

text \<open>
  The events of the application that no listener of its own is bound to: only \<open>location-changed\<close> and
  \<open>submit\<close> have one. The data of an event may carry the context to run in. The first listener takes
  it out of the data, which the others get too.
\<close>

fun run_listeners :: "env \<Rightarrow> string \<Rightarrow> route_context option \<Rightarrow> listener list \<Rightarrow> unit app_act" where
  "run_listeners env name ctx [] = areturn ()"
| "run_listeners env name ctx (Listener n # ls) =
     athen (callback env n (case ctx of Some c \<Rightarrow> c | None \<Rightarrow> event_context name)) (run_listeners env name None ls)"
| "run_listeners env name ctx (_ # ls) = run_listeners env name None ls"

definition notify :: "env \<Rightarrow> string \<Rightarrow> route_context option \<Rightarrow> unit app_act" where
  "notify env name ctx =
     athen (amodify (\<lambda>s. s\<lparr>a_events := a_events s @ [name]\<rparr>))
       (ado (\<lambda>s. run_listeners env name ctx (bound_to name s)))"

definition bind_event :: "string \<Rightarrow> listener \<Rightarrow> unit app_act" where
  "bind_event name l =
     aseq [amodify (\<lambda>s. s\<lparr>a_listeners := oset name
             ((case oget (a_listeners s) name of None \<Rightarrow> [] | Some ls \<Rightarrow> ls) @ [l]) (a_listeners s)\<rparr>),
           ado (\<lambda>s. awhen (a_running s) (amodify (\<lambda>s. s\<lparr>a_bound := a_bound s @ [(name, l)]\<rparr>)))]"

definition before :: "options \<Rightarrow> nat \<Rightarrow> unit app_act" where
  "before ob n = amodify (\<lambda>s. s\<lparr>a_befores := a_befores s @ [(ob, n)]\<rparr>)"

definition after_filter :: "nat \<Rightarrow> unit app_act" where
  "after_filter n = bind_event ''event-context-after'' (Listener n)"

definition around_filter :: "nat \<Rightarrow> unit app_act" where
  "around_filter n = amodify (\<lambda>s. s\<lparr>a_arounds := a_arounds s @ [n]\<rparr>)"

subsection \<open>Errors\<close>

definition app_error :: "env \<Rightarrow> config \<Rightarrow> string \<Rightarrow> js_error \<Rightarrow> unit app_act" where
  "app_error env cfg message original_error =
     athen (notify env ''error'' None)
       (if raise_errors cfg then athrow original_error else amodify (\<lambda>s. s\<lparr>a_log := a_log s @ [(message, original_error)]\<rparr>))"

definition notFound :: "env \<Rightarrow> config \<Rightarrow> string \<Rightarrow> string \<Rightarrow> rval app_act" where
  "notFound env cfg verb path =
     athen (app_error env cfg (js_join '' '' [''404 Not Found'', verb, path]) (Thrown ''Error''))
       (areturn (if verb = ''get'' then RUndefined else RBool True))"

subsection \<open>Running a route\<close>

fun run_befores :: "env \<Rightarrow> route_context \<Rightarrow> (options \<times> nat) list \<Rightarrow> rval app_act \<Rightarrow> rval app_act" where
  "run_befores env ctx [] rest = rest"
| "run_befores env ctx ((ob, n) # befores) rest =
     abind (aof (contextMatchesOptions ctx ob True)) (\<lambda>m.
       if m then abind (callback env n ctx) (\<lambda>returned.
              if returned = RBool False then areturn (RBool False) else run_befores env ctx befores rest)
       else run_befores env ctx befores rest)"

definition route_body :: "env \<Rightarrow> route_context \<Rightarrow> route_entry \<Rightarrow> rval app_act" where
  "route_body env ctx r =
     athen (notify env ''event-context-before'' (Some ctx))
       (abind (case r_callback r of None \<Rightarrow> athrow TypeError | Some n \<Rightarrow> callback env n ctx) (\<lambda>returned.
          athen (notify env ''event-context-after'' (Some ctx)) (areturn returned)))"

definition wrap_arounds :: "env \<Rightarrow> route_context \<Rightarrow> nat list \<Rightarrow> rval app_act \<Rightarrow> rval app_act" where
  "wrap_arounds env ctx arounds wrapped_route = fold (\<lambda>a w. around env a ctx w) (rev arounds) wrapped_route"

definition run_route :: "env \<Rightarrow> config \<Rightarrow> string \<Rightarrow> string \<Rightarrow> params \<Rightarrow> rval app_act" where
  "run_route env cfg verb path ps = ado (\<lambda>s.
     let found = lookupRoute (a_routes s) verb path
     in athen (notify env ''run-route'' None)
         (abind (aof (parseQueryString path)) (\<lambda>query.
            let ps1 = oextend ps query
            in case found of
                 None \<Rightarrow> notFound env cfg verb path
               | Some r \<Rightarrow>
                   athen (notify env ''route-found'' None)
                     (abind (aof (route_params r path ps1)) (\<lambda>ps2. ado (\<lambda>s.
                        let ctx = \<lparr>c_verb = verb, c_path = path, c_params = ps2\<rparr>
                        in acatch (wrap_arounds env ctx (a_arounds s) (run_befores env ctx (a_befores s) (route_body env ctx r)))
                             (\<lambda>e. athen (app_error env cfg (js_join '' '' [''500 Error'', verb, path]) e) (areturn RUndefined))))))))"

subsection \<open>Locations\<close>

definition check_location :: "env \<Rightarrow> config \<Rightarrow> rval app_act" where
  "check_location env cfg = ado (\<lambda>s.
     if a_last_location s \<noteq> Some (''get'', a_location s) then
       athen (amodify (\<lambda>s. s\<lparr>a_last_location := Some (''get'', a_location s)\<rparr>))
         (run_route env cfg ''get'' (a_location s) [])
     else areturn RUndefined)"

fun run_location_listeners :: "env \<Rightarrow> config \<Rightarrow> route_context option \<Rightarrow> listener list \<Rightarrow> unit app_act" where
  "run_location_listeners env cfg ctx [] = areturn ()"
| "run_location_listeners env cfg ctx (l # ls) =
     athen (case l of
         Listener n \<Rightarrow> athen (callback env n (case ctx of Some c \<Rightarrow> c | None \<Rightarrow> event_context ''location-changed'')) (areturn ())
       | Check_location \<Rightarrow> athen (check_location env cfg) (areturn ())
       | Check_submit \<Rightarrow> areturn ()) (run_location_listeners env cfg None ls)"

definition location_changed_in :: "env \<Rightarrow> config \<Rightarrow> route_context option \<Rightarrow> unit app_act" where
  "location_changed_in env cfg ctx =
     athen (amodify (\<lambda>s. s\<lparr>a_events := a_events s @ [''location-changed'']\<rparr>))
       (ado (\<lambda>s. run_location_listeners env cfg ctx (bound_to ''location-changed'' s)))"

definition location_changed :: "env \<Rightarrow> config \<Rightarrow> unit app_act" where
  "location_changed env cfg = location_changed_in env cfg None"

definition push_state :: "config \<Rightarrow> bool" where
  "push_state cfg \<longleftrightarrow> has_history cfg \<and> \<not> disable_push_state cfg"

definition normal_location :: "config \<Rightarrow> string \<Rightarrow> string" where
  "normal_location cfg new_location =
     (if (case new_location of [] \<Rightarrow> True | c # _ \<Rightarrow> c \<noteq> CHR ''#'' \<and> c \<noteq> CHR ''/'')
      then (if push_state cfg then ''/'' else ''#!/'') @ new_location else new_location)"

text \<open>What \<open>fullPath\<close> gives of a location written so: a hash with nothing after it is not shown.\<close>

definition full_path :: "string \<Rightarrow> string" where
  "full_path l = takeWhile (\<lambda>c. c \<noteq> CHR ''#'') l @ hash_of l"

text \<open>Assigning \<open>window.location\<close>: a hash replaces the hash, and the browser tells of the change
  later; anything else leaves the page.\<close>

definition assign_location :: "string \<Rightarrow> app \<Rightarrow> app" where
  "assign_location l s =
     (if starts_with ''#'' l
      then s\<lparr>a_location := takeWhile (\<lambda>c. c \<noteq> CHR ''#'') (a_location s) @ hash_of l, a_hashchanges := Suc (a_hashchanges s)\<rparr>
      else s\<lparr>a_location := full_path l, a_left := True\<rparr>)"

definition set_location :: "env \<Rightarrow> config \<Rightarrow> string \<Rightarrow> unit app_act" where
  "set_location env cfg new = ado (\<lambda>s.
     let l = normal_location cfg new
     in awhen (l \<noteq> a_location s)
         (if push_state cfg \<and> starts_with ''/'' l
          then athen (amodify (\<lambda>s. s\<lparr>a_location := full_path l\<rparr>)) (location_changed env cfg)
          else amodify (assign_location l)))"

definition refresh :: "env \<Rightarrow> config \<Rightarrow> unit app_act" where
  "refresh env cfg = athen (amodify (\<lambda>s. s\<lparr>a_last_location := None\<rparr>)) (location_changed env cfg)"

text \<open>The \<open>hashchange\<close> handlers of the proxy, one for each time it was bound. The first event from the
  browser itself shows that it has the event, and ends the polling.\<close>

definition hashchange_handler :: "env \<Rightarrow> config \<Rightarrow> bool \<Rightarrow> unit app_act" where
  "hashchange_handler env cfg non_native =
     athen (ado (\<lambda>s. awhen (\<not> a_native s \<and> \<not> non_native) (amodify (\<lambda>s. s\<lparr>a_native := True, a_polling := False\<rparr>))))
       (location_changed env cfg)"

definition hashchange :: "env \<Rightarrow> config \<Rightarrow> bool \<Rightarrow> unit app_act" where
  "hashchange env cfg non_native = ado (\<lambda>s. aseq (replicate (a_proxies s) (hashchange_handler env cfg non_native)))"

definition browser_hashchange :: "env \<Rightarrow> config \<Rightarrow> unit app_act" where
  "browser_hashchange env cfg = ado (\<lambda>s. awhen (0 < a_hashchanges s)
     (athen (amodify (\<lambda>s. s\<lparr>a_hashchanges := a_hashchanges s - 1\<rparr>)) (hashchange env cfg False)))"

text \<open>Polling: a check every few milliseconds, and the event that it sends by a timer.\<close>

definition hash_check :: "unit app_act" where
  "hash_check = ado (\<lambda>s. awhen (a_polling s) (amodify (\<lambda>s. s\<lparr>
     a_timeouts := a_timeouts s + (if a_polled s \<noteq> Some (a_location s) then 1 else 0),
     a_polled := Some (a_location s)\<rparr>)))"

definition poll_timeout :: "env \<Rightarrow> config \<Rightarrow> unit app_act" where
  "poll_timeout env cfg = ado (\<lambda>s. awhen (0 < a_timeouts s)
     (athen (amodify (\<lambda>s. s\<lparr>a_timeouts := a_timeouts s - 1\<rparr>)) (hashchange env cfg True)))"

definition state_popped :: "env \<Rightarrow> config \<Rightarrow> string \<Rightarrow> unit app_act" where
  "state_popped env cfg l =
     athen (amodify (\<lambda>s. s\<lparr>a_location := full_path l\<rparr>))
       (ado (\<lambda>s. awhen (push_state cfg) (aseq (replicate (a_proxies s) (location_changed env cfg)))))"

text \<open>A click on a link, with push state: routed when a route has it.\<close>

record link =
  k_path :: string
  k_same_host :: bool
  k_blank :: bool
  k_modified :: bool

definition link_clicked :: "env \<Rightarrow> config \<Rightarrow> link \<Rightarrow> bool app_act" where
  "link_clicked env cfg k = ado (\<lambda>s.
     if 0 < a_proxies s \<and> push_state cfg \<and> \<not> k_modified k \<and> k_same_host k \<and>
        \<not> Option.is_none (lookupRoute (a_routes s) ''get'' (k_path k)) \<and> \<not> k_blank k
     then athen (set_location env cfg (k_path k)) (areturn False)
     else areturn True)"

datatype redirect_arg = Part string | Query "(string \<times> string) list"

definition redirect_target :: "string \<Rightarrow> redirect_arg list \<Rightarrow> string" where
  "redirect_target to args =
     (case args of
        [] \<Rightarrow> to
      | _ \<Rightarrow>
          (let paths = to # List.map_filter (\<lambda>a. case a of Part p \<Rightarrow> Some p | Query q \<Rightarrow> None) args;
               queries = List.map_filter (\<lambda>a. case a of Part p \<Rightarrow> None | Query q \<Rightarrow> Some q) args;
               ps = fold (\<lambda>q ps. oextend ps q) queries []
           in js_join ''/'' paths @
              (if queries = [] then '''' else ''?'' @ js_join ''&'' (map (\<lambda>(k, v). encodeFormPair k v) ps))))"

definition redirect :: "env \<Rightarrow> config \<Rightarrow> route_context \<Rightarrow> string \<Rightarrow> redirect_arg list \<Rightarrow> unit app_act" where
  "redirect env cfg ctx first args = ado (\<lambda>s.
     let current_location = a_location s; to = redirect_target first args
     in aseq
      [notify env ''redirect'' (Some ctx),
       amodify (\<lambda>s. s\<lparr>a_last_location := Some (c_verb ctx, c_path ctx)\<rparr>),
       set_location env cfg to,
       abind (aof (RegExp to)) (\<lambda>r. awhen (re_test r current_location) (location_changed env cfg))])"

subsection \<open>Forms\<close>

record form =
  fm_method_field :: "string option"
  fm_method :: "string option"
  fm_action :: "string option"
  fm_fields :: "(string \<times> string) list"

definition getFormVerb :: "form \<Rightarrow> string" where
  "getFormVerb fm =
     (let truthy = (\<lambda>v. case v of None \<Rightarrow> None | Some [] \<Rightarrow> None | Some w \<Rightarrow> Some w);
          verb = (case truthy (fm_method_field fm) of
                    Some v \<Rightarrow> v
                  | None \<Rightarrow> (case truthy (fm_method fm) of Some v \<Rightarrow> v | None \<Rightarrow> ''get''))
      in js_trim (to_lower verb))"

definition check_form :: "env \<Rightarrow> config \<Rightarrow> form \<Rightarrow> rval app_act" where
  "check_form env cfg fm =
     athen (notify env ''check-form-submission'' None)
      (let path = (case fm_action fm of None \<Rightarrow> '''' | Some p \<Rightarrow> p); verb = getFormVerb fm
       in if verb = ''get'' then
            (let ps = serializeFormParams (fm_fields fm)
             in athen (set_location env cfg (if ps = '''' then path else path @ ''?'' @ ps)) (areturn (RBool False)))
          else abind (run_route env cfg verb path (parseFormParams (fm_fields fm)))
                 (\<lambda>returned. areturn (if returned = RUndefined then RBool False else returned)))"

definition submitted :: "env \<Rightarrow> config \<Rightarrow> form \<Rightarrow> unit app_act" where
  "submitted env cfg fm = ado (\<lambda>s. aeach (\<lambda>l. case l of
       Listener n \<Rightarrow> athen (callback env n (event_context ''submit'')) (areturn ())
     | Check_submit \<Rightarrow> athen (check_form env cfg fm) (areturn ())
     | Check_location \<Rightarrow> areturn ()) (bound_to ''submit'' s))"

subsection \<open>The life of an application\<close>

text \<open>\<open>/\#(.+)/\<close>: a hash with something after it.\<close>

definition has_hash :: "string \<Rightarrow> bool" where
  "has_hash l \<longleftrightarrow> (case dropWhile (\<lambda>c. c \<noteq> CHR ''#'') l of _ # c # _ \<Rightarrow> not_newline c | _ \<Rightarrow> False)"

text \<open>\<open>a_unloaders\<close> counts the handlers bound to the \<open>unload\<close> event of the window, each of which unloads the
  application; nothing unbinds them.\<close>

definition run :: "env \<Rightarrow> config \<Rightarrow> string option \<Rightarrow> unit app_act" where
  "run env cfg start_url = ado (\<lambda>s. awhen (\<not> a_running s) (aseq
     [amodify (\<lambda>s. s\<lparr>a_bound := a_bound s @ concat (map (\<lambda>(name, ls). map (\<lambda>l. (name, l)) ls) (a_listeners s))\<rparr>),
      notify env ''run'' None,
      amodify (\<lambda>s. s\<lparr>a_running := True, a_last_location := None\<rparr>),
      ado (\<lambda>s. case start_url of
          Some u \<Rightarrow> awhen (\<not> has_hash (a_location s)) (set_location env cfg u)
        | None \<Rightarrow> areturn ()),
      athen (check_location env cfg) (areturn ()),
      amodify (\<lambda>s. s\<lparr>a_proxies := Suc (a_proxies s), a_bindings := a_bindings s + 1\<rparr>),
      bind_event ''location-changed'' Check_location,
      bind_event ''submit'' Check_submit,
      amodify (\<lambda>s. s\<lparr>a_unloaders := Suc (a_unloaders s)\<rparr>),
      notify env ''changed'' None]))"

definition unbind_proxy :: "unit app_act" where
  "unbind_proxy = amodify (\<lambda>s. s\<lparr>a_proxies := 0, a_bindings := a_bindings s - 1, a_polling := a_polling s \<and> a_bindings s - 1 > 0\<rparr>)"

text \<open>Unbinding: every \<open>submit\<close> handler of the element, and every listener the application has.\<close>

definition unload :: "env \<Rightarrow> unit app_act" where
  "unload env = ado (\<lambda>s. awhen (a_running s) (aseq
     [notify env ''unload'' None,
      unbind_proxy,
      amodify (\<lambda>s. s\<lparr>a_bound := filter (\<lambda>(n, l). n \<noteq> ''submit'') (a_bound s)\<rparr>),
      amodify (\<lambda>s. s\<lparr>a_bound := filter (\<lambda>(n, l). l \<notin> set (case oget (a_listeners s) n of None \<Rightarrow> [] | Some ls \<Rightarrow> ls)) (a_bound s)\<rparr>),
      amodify (\<lambda>s. s\<lparr>a_running := False\<rparr>)]))"

text \<open>The browser leaves the page.\<close>

definition window_unload :: "env \<Rightarrow> unit app_act" where
  "window_unload env = ado (\<lambda>s. aseq (replicate (a_unloaders s) (unload env)))"

subsection \<open>Applications given by scripts\<close>

text \<open>
  A function of the application as the list of what it does, and how it ends. It may call the
  application back, whose events may run further functions: \<open>scripted d\<close> follows such calls to
  depth \<open>d\<close>; functions further down do nothing. They trigger no \<open>submit\<close>, which would need a form.
\<close>

datatype command =
    Note nat
  | Set_location string
  | Redirect string "redirect_arg list"
  | Refresh
  | Trigger string
  | Bind string nat
  | Before options nat
  | Around nat
  | Unload

datatype outcome = Returns rval | Throws js_error

type_synonym scripts = "nat \<Rightarrow> route_context \<Rightarrow> command list \<times> outcome"

text \<open>An around filter of a script runs its commands, and goes on with the route if it says so.\<close>

type_synonym around_scripts = "nat \<Rightarrow> route_context \<Rightarrow> command list \<times> bool"

fun run_command :: "env \<Rightarrow> config \<Rightarrow> route_context \<Rightarrow> command \<Rightarrow> unit app_act" where
  "run_command env cfg ctx (Note n) = amodify (\<lambda>s. s\<lparr>a_calls := a_calls s @ [n]\<rparr>)"
| "run_command env cfg ctx (Set_location l) = set_location env cfg l"
| "run_command env cfg ctx (Redirect to args) = redirect env cfg ctx to args"
| "run_command env cfg ctx Refresh = refresh env cfg"
| "run_command env cfg ctx (Trigger name) =
     (if name = ''location-changed'' then location_changed_in env cfg (Some ctx) else notify env name (Some ctx))"
| "run_command env cfg ctx (Bind name n) = bind_event name (Listener n)"
| "run_command env cfg ctx (Before ob n) = before ob n"
| "run_command env cfg ctx (Around n) = around_filter n"
| "run_command env cfg ctx Unload = unload env"

primrec scripted :: "nat \<Rightarrow> config \<Rightarrow> scripts \<Rightarrow> around_scripts \<Rightarrow> env" where
  "scripted 0 cfg sc arounds =
     \<lparr>callback = (\<lambda>n ctx. areturn RUndefined), around = (\<lambda>n ctx w. w)\<rparr>"
| "scripted (Suc d) cfg sc arounds =
     (let env = scripted d cfg sc arounds
      in \<lparr>callback = (\<lambda>n ctx. athen (aseq (map (run_command env cfg ctx) (fst (sc n ctx))))
              (case snd (sc n ctx) of Returns r \<Rightarrow> areturn r | Throws e \<Rightarrow> athrow e)),
          around = (\<lambda>n ctx w. athen (aseq (map (run_command env cfg ctx) (fst (arounds n ctx))))
              (if snd (arounds n ctx) then w else areturn RUndefined))\<rparr>)"

datatype app_call =
    Route string path_arg callback_arg
  | Route_two path_arg nat
  | Bind_event string nat
  | Before_filter options nat
  | After_filter nat
  | Around_filter nat
  | Run "string option"
  | Unload_app
  | Go string
  | Refresh_app
  | Browser_hashchange
  | Hash_check
  | Poll_timeout
  | Pop_state string
  | Click link
  | Submit form
  | Window_unload

fun run_app_call :: "env \<Rightarrow> config \<Rightarrow> (string \<Rightarrow> nat option) \<Rightarrow> app_call \<Rightarrow> unit app_act" where
  "run_app_call env cfg methods (Route v p c) =
     ado (\<lambda>s. abind (aof (route methods v p c (a_routes s))) (\<lambda>rs. amodify (\<lambda>s. s\<lparr>a_routes := rs\<rparr>)))"
| "run_app_call env cfg methods (Route_two p n) =
     ado (\<lambda>s. abind (aof (route_two methods p n (a_routes s))) (\<lambda>rs. amodify (\<lambda>s. s\<lparr>a_routes := rs\<rparr>)))"
| "run_app_call env cfg methods (Bind_event name n) = bind_event name (Listener n)"
| "run_app_call env cfg methods (Before_filter ob n) = before ob n"
| "run_app_call env cfg methods (After_filter n) = after_filter n"
| "run_app_call env cfg methods (Around_filter n) = around_filter n"
| "run_app_call env cfg methods (Run u) = run env cfg u"
| "run_app_call env cfg methods Unload_app = unload env"
| "run_app_call env cfg methods (Go l) = set_location env cfg l"
| "run_app_call env cfg methods Refresh_app = refresh env cfg"
| "run_app_call env cfg methods Browser_hashchange = browser_hashchange env cfg"
| "run_app_call env cfg methods Hash_check = hash_check"
| "run_app_call env cfg methods Poll_timeout = poll_timeout env cfg"
| "run_app_call env cfg methods (Pop_state l) = state_popped env cfg l"
| "run_app_call env cfg methods (Click k) = athen (link_clicked env cfg k) (areturn ())"
| "run_app_call env cfg methods (Submit fm) = submitted env cfg fm"
| "run_app_call env cfg methods Window_unload = window_unload env"

definition app_step :: "env \<Rightarrow> config \<Rightarrow> (string \<Rightarrow> nat option) \<Rightarrow> app_call \<Rightarrow> app \<Rightarrow> app" where
  "app_step env cfg methods c = after (run_app_call env cfg methods c)"

subsection \<open>What running an application keeps\<close>

text \<open>
  A predicate over the routes, the listeners and the running state is kept by everything an
  application does when binding, unbinding and the functions supplied keep it.
\<close>

definition same_core :: "app \<Rightarrow> app \<Rightarrow> bool" where
  "same_core s t \<longleftrightarrow> a_routes s = a_routes t \<and> a_listeners s = a_listeners t \<and> a_bound s = a_bound t \<and>
     a_running s = a_running t \<and> a_unloaders s = a_unloaders t"

definition env_keeps :: "(app \<Rightarrow> bool) \<Rightarrow> env \<Rightarrow> bool" where
  "env_keeps P env \<longleftrightarrow> (\<forall>n ctx. keeps P (callback env n ctx)) \<and>
     (\<forall>n ctx w. keeps P w \<longrightarrow> keeps P (around env n ctx w))"

locale app_predicate =
  fixes P :: "app \<Rightarrow> bool"
  assumes core: "same_core s t \<Longrightarrow> P s \<Longrightarrow> P t"
    and bind: "keeps P (bind_event name (Listener n))"
    and unbind: "P s \<Longrightarrow> P (s\<lparr>a_bound := filter f (a_bound s)\<rparr>)"
    and stop: "P s \<Longrightarrow> P (s\<lparr>a_running := False\<rparr>)"
begin

lemma touch: "(\<And>s. same_core s (f s)) \<Longrightarrow> keeps P (amodify f)"
  by (intro keeps_intros) (rule core)

lemma listeners_run: "env_keeps P env \<Longrightarrow> keeps P (run_listeners env name ctx ls)"
  by (induction env name ctx ls rule: run_listeners.induct) (auto simp: env_keeps_def intro!: keeps_intros)

lemma notified: "env_keeps P env \<Longrightarrow> keeps P (notify env name ctx)"
  unfolding notify_def by (intro keeps_intros touch listeners_run) (auto simp: same_core_def)

lemma repeated: "keeps P m \<Longrightarrow> keeps P (aseq (replicate n m))"
  by (induction n) (auto intro!: keeps_intros)

lemma failed: "env_keeps P env \<Longrightarrow> keeps P (app_error env cfg m e)" "env_keeps P env \<Longrightarrow> keeps P (notFound env cfg v p)"
  unfolding app_error_def notFound_def
  by (auto intro!: keeps_intros touch notified simp: same_core_def)

lemma befores_run: "env_keeps P env \<Longrightarrow> keeps P rest \<Longrightarrow> keeps P (run_befores env ctx bs rest)"
  by (induction bs) (auto simp: env_keeps_def intro!: keeps_intros)

lemma wrapped: "env_keeps P env \<Longrightarrow> keeps P w \<Longrightarrow> keeps P (wrap_arounds env ctx as w)"
proof -
  assume env: "env_keeps P env"
  have "keeps P w \<Longrightarrow> keeps P (fold (\<lambda>a w. around env a ctx w) as w)" for as w
    by (induction as arbitrary: w) (use env in \<open>auto simp: env_keeps_def\<close>)
  then show "keeps P w \<Longrightarrow> keeps P (wrap_arounds env ctx as w)" by (simp add: wrap_arounds_def)
qed

lemma body: "env_keeps P env \<Longrightarrow> keeps P (route_body env ctx r)"
  unfolding route_body_def by (intro keeps_intros notified) (auto simp: env_keeps_def)

lemma routed: "env_keeps P env \<Longrightarrow> keeps P (run_route env cfg v p ps)"
  unfolding run_route_def Let_def by (intro keeps_intros notified failed wrapped befores_run body)

lemma located:
  assumes "env_keeps P env"
  shows "keeps P (check_location env cfg)" "keeps P (location_changed_in env cfg x)"
    "keeps P (location_changed env cfg)" "keeps P (set_location env cfg l)"
    "keeps P (refresh env cfg)" "keeps P (hashchange env cfg b)" "keeps P (browser_hashchange env cfg)"
    "keeps P hash_check" "keeps P (poll_timeout env cfg)" "keeps P (state_popped env cfg l)" "keeps P (link_clicked env cfg k)"
proof -
  show c: "keeps P (check_location env cfg)"
    unfolding check_location_def by (intro keeps_intros touch routed assms) (auto simp: same_core_def)
  have user: "keeps P (callback env n ctx)" for n ctx using assms by (simp add: env_keeps_def)
  have ls: "keeps P (run_location_listeners env cfg x ls)" for x ls
    by (induction ls arbitrary: x) (auto split: listener.split intro!: keeps_intros user c)
  show lci: "keeps P (location_changed_in env cfg x)" for x
    unfolding location_changed_in_def by (intro keeps_intros touch ls) (auto simp: same_core_def)
  then show lc: "keeps P (location_changed env cfg)" by (simp add: location_changed_def)
  show sl: "keeps P (set_location env cfg l)" for l
    unfolding set_location_def Let_def
    by (intro keeps_intros touch lc) (auto simp: same_core_def assign_location_def)
  show "keeps P (refresh env cfg)"
    unfolding refresh_def by (intro keeps_intros touch lc) (auto simp: same_core_def)
  show h: "keeps P (hashchange env cfg b)" for b
    unfolding hashchange_def hashchange_handler_def by (intro keeps_ado repeated) (intro keeps_intros touch lc; simp add: same_core_def)
  show "keeps P (browser_hashchange env cfg)" "keeps P (poll_timeout env cfg)"
    unfolding browser_hashchange_def poll_timeout_def by (intro keeps_intros touch h; auto simp: same_core_def)+
  show "keeps P hash_check"
    unfolding hash_check_def by (intro keeps_intros touch) (auto simp: same_core_def)
  show "keeps P (state_popped env cfg l)"
    unfolding state_popped_def by (intro keeps_athen keeps_ado keeps_awhen repeated touch lc) (auto simp: same_core_def)
  show "keeps P (link_clicked env cfg k)"
    unfolding link_clicked_def by (intro keeps_intros sl)
qed

lemma redirected: "env_keeps P env \<Longrightarrow> keeps P (redirect env cfg ctx to args)"
  unfolding redirect_def Let_def by (intro keeps_intros notified touch located) (auto simp: same_core_def)

lemma filters: "keeps P (before ob n)" "keeps P (around_filter n)" "keeps P (after_filter n)"
  unfolding before_def around_filter_def after_filter_def
  by (intro touch bind; simp add: same_core_def)+

lemma formed: "env_keeps P env \<Longrightarrow> keeps P (check_form env cfg fm)" "env_keeps P env \<Longrightarrow> keeps P (submitted env cfg fm)"
proof -
  assume env: "env_keeps P env"
  show c: "keeps P (check_form env cfg fm)"
    unfolding check_form_def Let_def by (intro keeps_intros notified located routed env)
  have user: "keeps P (callback env n ctx)" for n ctx using env by (simp add: env_keeps_def)
  show "keeps P (submitted env cfg fm)"
    unfolding submitted_def by (intro keeps_intros) (auto split: listener.split intro!: keeps_intros user c)
qed

lemma unloaded: "env_keeps P env \<Longrightarrow> keeps P (unload env)"
  unfolding unload_def unbind_proxy_def by (intro keeps_intros touch notified unbind stop) (auto simp: same_core_def)

lemma window_unloaded: "env_keeps P env \<Longrightarrow> keeps P (window_unload env)"
  unfolding window_unload_def by (intro keeps_ado repeated unloaded)

lemma commands: "env_keeps P env \<Longrightarrow> keeps P (run_command env cfg ctx c)"
  by (cases c) (auto intro!: keeps_intros touch located redirected bind filters notified unloaded simp: same_core_def)

lemma scripts_keep: "env_keeps P (scripted d cfg sc arounds)"
proof (induction d)
  case 0
  then show ?case by (simp add: env_keeps_def keeps_areturn)
next
  case (Suc d)
  have seq: "keeps P (aseq (map (run_command (scripted d cfg sc arounds) cfg ctx) cs))" for ctx cs
    by (induction cs) (auto intro!: keeps_intros commands Suc)
  show ?case
    by (auto simp: env_keeps_def Let_def split: outcome.split intro!: keeps_intros seq)
qed

end

text \<open>Every bound handler is one of the application's listeners, and the application's own
  handlers are where they belong.\<close>

definition listeners_of :: "app \<Rightarrow> string \<Rightarrow> listener list" where
  "listeners_of s name = (case oget (a_listeners s) name of None \<Rightarrow> [] | Some ls \<Rightarrow> ls)"

definition app_ok :: "app \<Rightarrow> bool" where
  "app_ok s \<longleftrightarrow> (\<forall>(n, l) \<in> set (a_bound s). l \<in> set (listeners_of s n)) \<and>
     (\<forall>n. (Check_location \<in> set (listeners_of s n) \<longrightarrow> n = ''location-changed'') \<and>
          (Check_submit \<in> set (listeners_of s n) \<longrightarrow> n = ''submit'')) \<and>
     distinct (map fst (a_listeners s))"

lemma listeners_of_update:
  "listeners_of (s\<lparr>a_listeners := oset name v (a_listeners s)\<rparr>) n = (if n = name then v else listeners_of s n)"
  by (simp add: listeners_of_def oget_oset)

lemma bind_ok:
  assumes "l = Check_location \<Longrightarrow> name = ''location-changed''" "l = Check_submit \<Longrightarrow> name = ''submit''"
  shows "keeps app_ok (bind_event name l)"
proof -
  have "app_ok (snd (bind_event name l s))" if ok: "app_ok s" for s
  proof -
    let ?ls = "listeners_of s name @ [l]" and ?b = "a_bound s @ (if a_running s then [(name, l)] else [])"
    have run: "snd (bind_event name l s) = s\<lparr>a_listeners := oset name ?ls (a_listeners s), a_bound := ?b\<rparr>"
      by (auto simp: bind_event_def athen_def abind_def amodify_run ado_run awhen_run areturn_run listeners_of_def)
    have "listeners_of (s\<lparr>a_listeners := oset name ?ls (a_listeners s), a_bound := ?b\<rparr>) n =
        (if n = name then ?ls else listeners_of s n)" for n
      using listeners_of_update [where s = s and name = name and v = ?ls and n = n] by (simp add: listeners_of_def)
    then show ?thesis using ok assms unfolding run
      by (auto simp: app_ok_def distinct_oset split: if_splits)
  qed
  then show ?thesis by (simp add: keeps_def)
qed

interpretation ok: app_predicate app_ok
proof
  fix s t assume "same_core s t" "app_ok s"
  then show "app_ok t" by (auto simp: same_core_def app_ok_def listeners_of_def)
next
  show "keeps app_ok (bind_event name (Listener n))" for name n by (rule bind_ok) auto
qed (auto simp: app_ok_def listeners_of_def)

text \<open>The routes are the ones defined: nothing that runs changes them.\<close>

interpretation same_routes: app_predicate "\<lambda>s. a_routes s = rs" for rs
proof
  show "keeps (\<lambda>s. a_routes s = rs) (bind_event name (Listener n))" for name n
    unfolding bind_event_def by (intro keeps_intros) auto
qed (auto simp: same_core_def)

text \<open>Only \<open>run\<close> binds handlers to the \<open>unload\<close> event of the window.\<close>

interpretation same_unloaders: app_predicate "\<lambda>s. a_unloaders s = k" for k
proof
  show "keeps (\<lambda>s. a_unloaders s = k) (bind_event name (Listener n))" for name n
    unfolding bind_event_def by (intro keeps_intros) auto
qed (auto simp: same_core_def)

lemma run_ok: "env_keeps app_ok env \<Longrightarrow> keeps app_ok (run env cfg u)"
proof -
  assume env: "env_keeps app_ok env"
  have bound: "app_ok (s\<lparr>a_bound := a_bound s @ concat (map (\<lambda>(name, ls). map (\<lambda>l. (name, l)) ls) (a_listeners s))\<rparr>)"
    if "app_ok s" for s
    using that by (auto simp: app_ok_def listeners_of_def dest: map_of_is_SomeI)
  have running: "app_ok (s\<lparr>a_running := True, a_last_location := None\<rparr>)" if "app_ok s" for s
    using that by (auto simp: app_ok_def listeners_of_def)
  show ?thesis
    unfolding run_def
    by (intro keeps_intros bound running ok.notified ok.located bind_ok env)
      (auto simp: app_ok_def listeners_of_def split: option.split intro!: keeps_intros ok.located env)
qed

subsection \<open>Properties\<close>

interpretation sammy: machine "app_step (scripted d cfg sc arounds) cfg methods" app_ok
  for d :: nat and cfg :: config and sc :: scripts and arounds :: around_scripts and methods :: "string \<Rightarrow> nat option"
proof
  fix s c assume ok: "app_ok s"
  have env: "env_keeps app_ok (scripted d cfg sc arounds)" by (rule ok.scripts_keep)
  have listeners: "listeners_of (s\<lparr>a_routes := rs\<rparr>) n = listeners_of s n" for s rs n
    by (simp add: listeners_of_def)
  have routes: "app_ok (s\<lparr>a_routes := rs\<rparr>)" if "app_ok s" for s rs
    using that unfolding app_ok_def listeners by simp
  have "keeps app_ok (run_app_call (scripted d cfg sc arounds) cfg methods c)"
    by (cases c) (auto intro!: keeps_intros routes bind_ok ok.filters run_ok ok.unloaded ok.window_unloaded ok.located ok.formed env)
  then show "app_ok (app_step (scripted d cfg sc arounds) cfg methods c s)"
    unfolding app_step_def using ok by (rule keeps_after)
qed

lemma new_app_ok: "app_ok (new_app l)"
  by (simp add: app_ok_def new_app_def listeners_of_def)

text \<open>C21: what unloading leaves behind. Whatever the application did before, when \<open>unload\<close> of a running
  application returns, the application does not run, and no handler of it is bound to its element or watches the
  location. The handlers that \<open>run\<close> bound to the \<open>unload\<close> event of the window are all still there.\<close>

theorem unload_leaves_window_handlers:
  assumes "s = fold (app_step (scripted d cfg sc arounds) cfg methods) calls (new_app l)" "a_running s"
    and "unload (scripted d cfg sc arounds) s = (Inr (), s')"
  shows "a_bound s' = [] \<and> a_proxies s' = 0 \<and> \<not> a_running s' \<and> a_unloaders s' = a_unloaders s"
proof -
  let ?env = "scripted d cfg sc arounds"
  have ok: "app_ok s" using sammy.inv_run [OF new_app_ok, of d cfg sc arounds methods calls l] assms(1) by simp
  obtain t where t: "notify ?env ''unload'' None s = (Inr (), t)"
    using assms(2,3) by (cases "notify ?env ''unload'' None s"; cases "fst (notify ?env ''unload'' None s)")
      (auto simp: unload_def ado_run awhen_run athen_def abind_def)
  have "app_ok t" using keepsD [OF ok.notified [OF ok.scripts_keep] ok t] .
  then have bound: "l \<in> set (listeners_of t n)" if "(n, l) \<in> set (a_bound t)" for n l
    using that by (auto simp: app_ok_def)
  have same: "a_unloaders t = a_unloaders s"
    using keepsD [OF same_unloaders.notified [OF same_unloaders.scripts_keep] refl t] .
  have "s' = t\<lparr>a_proxies := 0, a_bindings := a_bindings t - 1, a_polling := a_polling t \<and> a_bindings t - 1 > 0,
      a_bound := filter (\<lambda>(n, l). l \<notin> set (listeners_of t n)) (filter (\<lambda>(n, l). n \<noteq> ''submit'') (a_bound t)),
      a_running := False\<rparr>"
    using assms(2,3) t
    by (auto simp: unload_def unbind_proxy_def ado_run awhen_run athen_def abind_def amodify_run areturn_run listeners_of_def)
  moreover have "filter (\<lambda>(n, l). l \<notin> set (listeners_of t n)) (filter (\<lambda>(n, l). n \<noteq> ''submit'') (a_bound t)) = []"
    using bound by (auto simp: filter_empty_conv)
  ultimately show ?thesis using same by simp
qed

text \<open>A before filter that returns \<open>false\<close> ends it. When the filters alone come out as \<open>false\<close>, they do so whatever
  the route is, with the same effects: the route and the filters after do not run.\<close>

theorem false_before_stops_route:
  assumes "run_befores env ctx befores (areturn RUndefined) s = (Inr (RBool False), s')"
  shows "run_befores env ctx befores (route_body env ctx r) s = (Inr (RBool False), s')"
  using assms
proof (induction befores arbitrary: s)
  case Nil
  then show ?case by (simp add: areturn_run)
next
  case (Cons b befores)
  obtain ob n where b: "b = (ob, n)" by (cases b)
  show ?case
  proof (cases "contextMatchesOptions ctx ob True")
    case (Inr m)
    then show ?thesis using Cons b
      by (auto simp: abind_def aof_run areturn_run split: prod.splits sum.splits if_splits)
  qed (use Cons b in \<open>auto simp: abind_def aof_run\<close>)
qed

text \<open>C22: a fault in a route stays inside the application. Once the parameters are read, neither a filter nor the route nor an
  around filter can make \<open>run_route\<close> throw, when errors are not to be raised and no listener of \<open>error\<close> throws.\<close>

theorem route_faults_contained:
  assumes "\<not> raise_errors cfg" "\<And>n t. \<exists>x t'. callback env n (event_context ''error'') t = (Inr x, t')"
    and "bound_to ''run-route'' s = []" "bound_to ''route-found'' s = []"
    and "lookupRoute (a_routes s) verb path = Some r" "parseQueryString path = Inr q"
    and "route_params r path (oextend ps q) = Inr ps'"
  shows "\<exists>x s'. run_route env cfg verb path ps s = (Inr x, s')"
proof -
  have each: "\<exists>t'. run_listeners env ''error'' None ls t = (Inr (), t')" for ls t
  proof (induction ls arbitrary: t)
    case (Cons l ls)
    show ?case
    proof (cases l)
      case (Listener n)
      obtain x t' where "callback env n (event_context ''error'') t = (Inr x, t')" using assms(2) by blast
      then show ?thesis using Listener Cons [of t'] by (simp add: athen_run)
    qed (use Cons in simp_all)
  qed (simp add: areturn_run)
  have error: "\<exists>t'. app_error env cfg m e t = (Inr (), t')" for m e t
  proof -
    have "\<exists>t'. notify env ''error'' None t = (Inr (), t')"
      unfolding notify_def athen_run(1) [OF amodify_run] ado_run by (rule each)
    then obtain t' where "notify env ''error'' None t = (Inr (), t')" by blast
    then show ?thesis using assms(1) by (simp add: app_error_def athen_def abind_def amodify_run)
  qed
  have quiet: "notify env name None t = (Inr (), t\<lparr>a_events := a_events t @ [name]\<rparr>)" if "bound_to name t = []" for name t
  proof -
    have "bound_to name (t\<lparr>a_events := es\<rparr>) = []" for es using that by (simp add: bound_to_def)
    then show ?thesis by (simp add: notify_def athen_def abind_def amodify_run ado_run areturn_run)
  qed
  let ?s1 = "s\<lparr>a_events := a_events s @ [''run-route'']\<rparr>"
  let ?s2 = "?s1\<lparr>a_events := a_events ?s1 @ [''route-found'']\<rparr>"
  have "bound_to ''route-found'' ?s1 = []" using assms(4) by (simp add: bound_to_def)
  note n = quiet [OF assms(3)] quiet [OF this]
  let ?ctx = "\<lparr>c_verb = verb, c_path = path, c_params = ps'\<rparr>"
  let ?body = "wrap_arounds env ?ctx (a_arounds ?s2) (run_befores env ?ctx (a_befores ?s2) (route_body env ?ctx r))"
  let ?m = "js_join '' '' [''500 Error'', verb, path]"
  have "run_route env cfg verb path ps s = acatch ?body (\<lambda>e. athen (app_error env cfg ?m e) (areturn RUndefined)) ?s2"
    using n assms(5-7) by (simp add: run_route_def Let_def ado_run athen_def abind_def aof_run del: js_join.simps)
  moreover have "\<exists>x s'. acatch ?body (\<lambda>e. athen (app_error env cfg ?m e) (areturn RUndefined)) ?s2 = (Inr x, s')"
  proof (cases "?body ?s2")
    case (Pair v t)
    show ?thesis
    proof (cases v)
      case (Inl e)
      obtain t' where "app_error env cfg ?m e t = (Inr (), t')" using error by blast
      then show ?thesis using Pair Inl by (simp add: acatch_def athen_def abind_def areturn_run del: js_join.simps)
    qed (use Pair in \<open>simp add: acatch_def\<close>)
  qed
  ultimately show ?thesis by simp
qed

text \<open>A malformed escape in the query of a location is thrown at whoever changed the location, not
  handled as an error of the application: the parameters are read before anything is caught.\<close>

theorem malformed_query_escapes:
  assumes "parseQueryString path = Inl e" "bound_to ''run-route'' s = []"
  shows "fst (run_route env cfg verb path ps s) = Inl e"
proof -
  have "bound_to ''run-route'' (s\<lparr>a_events := es\<rparr>) = []" for es using assms(2) by (simp add: bound_to_def)
  then show ?thesis using assms(1)
    by (simp add: run_route_def Let_def ado_run athen_def abind_def notify_def amodify_run areturn_run aof_run)
qed

subsection \<open>A sample application\<close>

text \<open>Function 1 is noted when it runs, 2 ends its chain, 3 throws in a route.\<close>

definition note_scripts :: scripts where
  "note_scripts n ctx = ([Note n], if n = 2 then Returns (RBool False) else if n = 3 \<and> c_verb ctx \<noteq> ''bind'' then Throws TypeError else Returns RUndefined)"

definition plain_config :: config where
  "plain_config = \<lparr>has_history = False, disable_push_state = False, raise_errors = False\<rparr>"

definition note_env :: env where
  "note_env = scripted 2 plain_config note_scripts (\<lambda>n ctx. ([], True))"

definition note_calls :: "app_call list \<Rightarrow> app" where
  "note_calls calls = fold (app_step note_env plain_config (\<lambda>_. None)) calls (new_app ''/'')"

definition comment_form :: form where
  "comment_form = \<lparr>fm_method_field = None, fm_method = Some ''POST'', fm_action = Some ''#/comments'', fm_fields = [(''text'', ''ok'')]\<rparr>"

text \<open>Notes 0 when it runs in the context of an event, and its number in that of a route.\<close>

definition context_env :: env where
  "context_env = scripted 2 plain_config
     (\<lambda>n ctx. ([Note (if c_verb ctx = ''bind'' then 0 else n)], Returns RUndefined)) (\<lambda>n ctx. ([], True))"

text \<open>Only the first filter after a route runs in its context. Of two functions given to \<open>after\<close>, the second
  gets a fresh context with none of the route's parameters, since the first has taken the context out of the data of the event.\<close>

theorem second_after_filter_loses_context:
  "a_calls (fold (app_step context_env plain_config (\<lambda>_. None))
     [Route ''get'' (Path_RegExp REmpty) (Function 1), After_filter 2, After_filter 3, Run None] (new_app ''/'')) = [1, 2, 0]"
  by code_simp

text \<open>An application that is run again handles each submission twice. \<open>run\<close> adds the handlers of forms and locations to
  the listeners of the application, which \<open>unload\<close> keeps; the second \<open>run\<close> binds those and adds them again.\<close>

theorem second_run_doubles_submissions:
  "a_calls (note_calls [Route ''post'' (Path_RegExp REmpty) (Function 1), Run None, Submit comment_form]) = [1] \<and>
   a_calls (note_calls [Route ''post'' (Path_RegExp REmpty) (Function 1), Run None, Unload_app, Run None, Submit comment_form]) = [1, 1]"
  by code_simp

subsection \<open>The properties on the sample\<close>

text \<open>An application that is run, unloaded and run again has two handlers on the window.\<close>

theorem unload_leaves_window_handlers_witness:
  "let s = note_calls [Bind_event ''changed'' 1, Run None, Unload_app, Run None]
   in length (a_bound s) = 5 \<and> a_unloaders s = 2 \<and> a_bound (after (unload note_env) s) = [] \<and>
     a_unloaders (after (unload note_env) s) = 2"
proof -
  let ?calls = "[Bind_event ''changed'' 1, Run None, Unload_app, Run None]"
  have five: "length (a_bound (note_calls ?calls)) = 5 \<and> a_unloaders (note_calls ?calls) = 2" by code_simp
  have running: "a_running (note_calls ?calls)" by code_simp
  have "fst (unload note_env (note_calls ?calls)) = Inr ()" by code_simp
  then obtain t where t: "unload note_env (note_calls ?calls) = (Inr (), t)"
    by (cases "unload note_env (note_calls ?calls)") auto
  have "a_bound t = [] \<and> a_unloaders t = a_unloaders (note_calls ?calls)"
    using unload_leaves_window_handlers [OF note_calls_def [unfolded note_env_def] running t [unfolded note_env_def]] by blast
  then show ?thesis using five t by (simp add: Let_def after_def)
qed

theorem false_before_stops_route_witness:
  "fst (run_befores note_env (event_context ''#/'') [(Path_options (Path_RegExp REmpty), 2)]
     (route_body note_env (event_context ''#/'') \<lparr>r_verb = ''get'', r_path = REmpty, r_callback = Some 1, r_params = []\<rparr>)
     (new_app ''/'')) = Inr (RBool False)"
proof -
  let ?fs = "[(Path_options (Path_RegExp REmpty), 2 :: nat)]" and ?c = "event_context ''#/''"
  have "fst (run_befores note_env ?c ?fs (areturn RUndefined) (new_app ''/'')) = Inr (RBool False)" by code_simp
  then obtain t where "run_befores note_env ?c ?fs (areturn RUndefined) (new_app ''/'') = (Inr (RBool False), t)"
    by (cases "run_befores note_env ?c ?fs (areturn RUndefined) (new_app ''/'')") auto
  from false_before_stops_route [OF this] show ?thesis by simp
qed

theorem route_faults_contained_witness:
  "\<exists>x t. run_route note_env plain_config ''get'' ''#/'' []
     (note_calls [Route ''get'' (Path_RegExp REmpty) (Function 3)]) = (Inr x, t)"
proof (rule route_faults_contained)
  show "\<not> raise_errors plain_config" by (simp add: plain_config_def)
  let ?s = "note_calls [Route ''get'' (Path_RegExp REmpty) (Function 3)]"
  show "bound_to ''run-route'' ?s = []" "bound_to ''route-found'' ?s = []" by code_simp+
  show "parseQueryString ''#/'' = Inr []" by code_simp
  show "lookupRoute (a_routes ?s) ''get'' ''#/'' = Some \<lparr>r_verb = ''get'', r_path = REmpty, r_callback = Some 3, r_params = []\<rparr>"
    by code_simp
  show "route_params \<lparr>r_verb = ''get'', r_path = REmpty, r_callback = Some 3, r_params = []\<rparr> ''#/'' (oextend [] []) = Inr []"
    by code_simp
qed (simp add: note_env_def note_scripts_def event_context_def numeral_2_eq_2 act_simps athen_def abind_def)

theorem malformed_query_escapes_witness:
  "fst (run_route note_env plain_config ''get'' ''#/?q=%zz'' [] (new_app ''/'')) = Inl URIError"
proof (rule malformed_query_escapes)
  show "parseQueryString ''#/?q=%zz'' = Inl URIError" by code_simp
  show "bound_to ''run-route'' (new_app ''/'') = []" by code_simp
qed

end
