(* ===== verification/JsValue.thy ===== *)
theory JsValue
  imports JsString
begin

text \<open>
  JavaScript values as the scripts handle them: numbers are whole, functions and DOM nodes are known by
  number and name, an object is its own properties in their order. Objects are copied here, not
  shared: a theory that depends on sharing has a store of its own.
\<close>

datatype jsval =
    VUndefined
  | VNull
  | VBool bool
  | VNum int
  | VString string
  | VArray "jsval list"
  | VObject "jsval obj"
  | VFunction nat
  | VNode string
  | VNodes "string list"

fun truthy :: "jsval \<Rightarrow> bool" where
  "truthy VUndefined = False"
| "truthy VNull = False"
| "truthy (VBool b) = b"
| "truthy (VNum n) = (n \<noteq> 0)"
| "truthy (VString s) = (s \<noteq> [])"
| "truthy _ = True"

definition int_text :: "int \<Rightarrow> string" where
  "int_text n = (if n < 0 then ''-'' @ nat_str (nat (- n)) else nat_str (nat n))"

text \<open>\<open>String(v)\<close>. The items of an array are joined by commas, where null and undefined are empty. The
  text of a function is its source, which is not modelled.\<close>

fun to_text :: "jsval \<Rightarrow> string" where
  "to_text VUndefined = ''undefined''"
| "to_text VNull = ''null''"
| "to_text (VBool b) = (if b then ''true'' else ''false'')"
| "to_text (VNum n) = int_text n"
| "to_text (VString s) = s"
| "to_text (VArray vs) = js_join '','' (map (\<lambda>v. case v of VUndefined \<Rightarrow> '''' | VNull \<Rightarrow> '''' | _ \<Rightarrow> to_text v) vs)"
| "to_text (VObject m) = ''[object Object]''"
| "to_text (VFunction n) = ''function''"
| "to_text (VNode n) = ''[object HTMLElement]''"
| "to_text (VNodes ns) = ''[object Object]''"

definition joined_text :: "jsval \<Rightarrow> string" where
  "joined_text v = (case v of VUndefined \<Rightarrow> '''' | VNull \<Rightarrow> '''' | _ \<Rightarrow> to_text v)"

text \<open>\<open>vs.join(sep)\<close>\<close>

definition array_join :: "string \<Rightarrow> jsval list \<Rightarrow> string" where
  "array_join sep vs = js_join sep (map joined_text vs)"

lemma to_text_array: "to_text (VArray vs) = array_join '','' vs"
  by (simp add: array_join_def joined_text_def [abs_def])

text \<open>\<open>a + b\<close> for numbers, and for operands one of which is text.\<close>

fun js_plus :: "jsval \<Rightarrow> jsval \<Rightarrow> jsval" where
  "js_plus (VNum a) (VNum b) = VNum (a + b)"
| "js_plus a b = VString (to_text a @ to_text b)"

text \<open>The property \<open>v[k]\<close>: an error on null and undefined.\<close>

fun property :: "jsval \<Rightarrow> string \<Rightarrow> jsval res" where
  "property VUndefined k = Inl TypeError"
| "property VNull k = Inl TypeError"
| "property (VObject m) k = Inr (case oget m k of None \<Rightarrow> VUndefined | Some v \<Rightarrow> v)"
| "property _ k = Inr VUndefined"

text \<open>The pairs that \<open>$.each\<close> passes to its callback: the characters of a string, the items of an array,
  the properties of an object.\<close>

fun each_items :: "jsval \<Rightarrow> (jsval \<times> jsval) list res" where
  "each_items VUndefined = Inl TypeError"
| "each_items VNull = Inl TypeError"
| "each_items (VString s) = Inr (map (\<lambda>(i, c). (VNum (int i), VString [c])) (enumerate 0 s))"
| "each_items (VArray vs) = Inr (map (\<lambda>(i, v). (VNum (int i), v)) (enumerate 0 vs))"
| "each_items (VNodes ns) = Inr (map (\<lambda>(i, n). (VNum (int i), VNode n)) (enumerate 0 ns))"
| "each_items (VObject m) = Inr (map (\<lambda>(k, v). (VString k, v)) m)"
| "each_items _ = Inr []"

end
