(* ===== verification/SammyRender.thy ===== *)
theory SammyRender
  imports JsValue Action "HOL-Library.Sublist"
begin

text \<open>
  \<open>Sammy.RenderContext\<close>: a queue of functions, each run by a timer with what the one before it
  returned, and the operations built on it (templates loaded, interpolated, put in the page).

  One context is modelled, with the template cache of its application, its timers and its
  requests. The functions that the application supplies are scripts of commands on the context.
  The helpers of the event context and the template functions are parameters.
\<close>

subsection \<open>State\<close>

text \<open>Template functions: helpers of the event context, functions of the application, and the one that
  returns its content. An engine is given by such a function or by a name.\<close>

datatype found_engine = Context_helper string | Given_function nat | Same_content

datatype engine = Engine_function found_engine | Engine_name string

datatype template_location =
    Url string
  | Element string
  | Selection "string list" "string option"
  | Computed nat

record load_options =
  lo_cache :: "bool option"
  lo_json :: bool
  lo_engine :: "engine option"
  lo_clone :: "bool option"

definition no_options :: load_options where
  "no_options = \<lparr>lo_cache = None, lo_json = False, lo_engine = None, lo_clone = None\<rparr>"

text \<open>The functions that the queue holds, by what they do. \<open>Call\<close> is one of the application, \<open>Helper\<close> one
  that \<open>then\<close> was given by the name of an attribute of the event context.\<close>

datatype callback =
    Call nat
  | Helper string
  | Load template_location load_options "callback option"
  | Store_partial string
  | Send nat
  | Collect "jsval option" nat
  | Render_each template_location "string option" jsval "nat option"
  | Interpolate jsval "engine option" bool
  | Swap "nat option"
  | Append_to string
  | Prepend_to string
  | Replace string
  | Trigger_event string "jsval option"

datatype page_op =
    Html_element jsval
  | Html string jsval
  | Append string jsval
  | Prepend string jsval
  | Remove "string list"

record rcontext =
  rc_callbacks :: "callback list"
  rc_previous :: jsval
  rc_content :: jsval
  rc_next_engine :: "engine option"
  rc_waiting :: bool
  rc_partials :: "jsval obj option"
  rc_timers :: "callback list"
  rc_requests :: "(string \<times> bool) list"
  rc_cache :: "jsval obj"
  rc_page :: "page_op list"
  rc_events :: "(string \<times> jsval) list"
  rc_notes :: "nat list"

type_synonym 'a render_act = "(rcontext, 'a) act"

definition new_render :: "jsval obj \<Rightarrow> rcontext" where
  "new_render cache =
     \<lparr>rc_callbacks = [], rc_previous = VNull, rc_content = VNull, rc_next_engine = None, rc_waiting = False,
      rc_partials = None, rc_timers = [], rc_requests = [], rc_cache = cache, rc_page = [], rc_events = [], rc_notes = []\<rparr>"

text \<open>What a function of the application does with the context it runs in, and how it ends.\<close>

datatype render_command =
    Then callback
  | Wait
  | Next jsval
  | Note nat

record render_env =
  is_attribute :: "string \<Rightarrow> bool"
  is_helper :: "string \<Rightarrow> bool"
  template_engine :: "engine option"
  template :: "found_engine \<Rightarrow> jsval \<Rightarrow> jsval \<Rightarrow> jsval obj option \<Rightarrow> jsval res"
  script :: "nat \<Rightarrow> jsval list \<Rightarrow> render_command list \<times> jsval res"
  helper_script :: "string \<Rightarrow> jsval list \<Rightarrow> render_command list \<times> jsval res"

subsection \<open>The queue\<close>

text \<open>\<open>then\<close> of a function. The timers of a context run in the order they were set.\<close>

definition rthen :: "callback \<Rightarrow> unit render_act" where
  "rthen cb = amodify (\<lambda>s.
     if rc_waiting s then s\<lparr>rc_callbacks := rc_callbacks s @ [cb]\<rparr>
     else s\<lparr>rc_waiting := True, rc_timers := rc_timers s @ [cb]\<rparr>)"

text \<open>Any argument of \<open>then\<close>: an attribute of the event context by its name, and nothing at all else.\<close>

datatype then_arg = Then_function callback | Then_name string | Then_other

definition then_any :: "render_env \<Rightarrow> then_arg \<Rightarrow> unit render_act" where
  "then_any env arg =
     (case arg of
        Then_function cb \<Rightarrow> rthen cb
      | Then_name n \<Rightarrow> if is_attribute env n then rthen (Helper n) else areturn ()
      | Then_other \<Rightarrow> areturn ())"

definition wait :: "unit render_act" where
  "wait = amodify (\<lambda>s. s\<lparr>rc_waiting := True\<rparr>)"

definition next_content :: "jsval \<Rightarrow> unit render_act" where
  "next_content content =
     aseq [amodify (\<lambda>s. s\<lparr>rc_waiting := False\<rparr>),
           awhen (content \<noteq> VUndefined) (amodify (\<lambda>s. s\<lparr>rc_previous := rc_content s, rc_content := content\<rparr>)),
           ado (\<lambda>s. case rc_callbacks s of
               [] \<Rightarrow> areturn ()
             | cb # cbs \<Rightarrow> athen (amodify (\<lambda>s. s\<lparr>rc_callbacks := cbs\<rparr>)) (rthen cb))]"

fun run_render_command :: "render_command \<Rightarrow> unit render_act" where
  "run_render_command (Then cb) = rthen cb"
| "run_render_command Wait = wait"
| "run_render_command (Next v) = next_content v"
| "run_render_command (Note n) = amodify (\<lambda>s. s\<lparr>rc_notes := rc_notes s @ [n]\<rparr>)"

definition aseq_return :: "unit render_act list \<Rightarrow> 'a \<Rightarrow> 'a render_act" where
  "aseq_return ms x = athen (aseq ms) (areturn x)"

definition run_script :: "render_command list \<times> jsval res \<Rightarrow> jsval render_act" where
  "run_script sc = athen (aseq (map run_render_command (fst sc))) (aof (snd sc))"

subsection \<open>Template engines\<close>

text \<open>\<open>/\.([^\.\?\#]+)$/\<close>: what follows the last dot of a name, if it is neither empty nor a query or hash.\<close>

definition extension :: "string \<Rightarrow> string" where
  "extension e =
     (let x = rev (takeWhile (\<lambda>c. c \<noteq> CHR ''.'') (rev e))
      in if CHR ''.'' \<in> set e \<and> x \<noteq> [] \<and> CHR ''?'' \<notin> set x \<and> CHR ''#'' \<notin> set x then x else e)"

text \<open>
  \<open>engineFor\<close> looks up the engine of the application when a name is no helper, by calling itself.
  When that engine is named, and its name is no helper either, it does not return. The text of a
  function, which it searches for an extension when no engine is given, names no helper.
\<close>

partial_function (option) engineFor ::
  "(string \<Rightarrow> bool) \<Rightarrow> engine option \<Rightarrow> engine option \<Rightarrow> found_engine res option" where
  "engineFor helper app_engine engine =
     (case engine of
        Some (Engine_function f) \<Rightarrow> Some (Inr f)
      | _ \<Rightarrow>
          (let named = (case engine of Some (Engine_name []) \<Rightarrow> app_engine | None \<Rightarrow> app_engine | _ \<Rightarrow> engine)
           in case named of
                None \<Rightarrow> Some (Inl TypeError)
              | Some (Engine_function f) \<Rightarrow> engineFor helper app_engine named
              | Some (Engine_name e) \<Rightarrow>
                  if extension e \<noteq> [] \<and> helper (extension e) then Some (Inr (Context_helper (extension e)))
                  else (case app_engine of
                      None \<Rightarrow> Some (Inr Same_content)
                    | Some (Engine_name []) \<Rightarrow> Some (Inr Same_content)
                    | _ \<Rightarrow> engineFor helper app_engine app_engine)))"

declare engineFor.simps [code]

text \<open>Endless recursion ends with an exception.\<close>

definition interpolate :: "render_env \<Rightarrow> jsval \<Rightarrow> jsval \<Rightarrow> engine option \<Rightarrow> jsval obj option \<Rightarrow> jsval res" where
  "interpolate env content data engine partials =
     (case engineFor (is_helper env) (template_engine env) engine of
        None \<Rightarrow> Inl RangeError
      | Some r \<Rightarrow> rbind r (\<lambda>f. if f = Same_content then Inr content else template env f content data partials))"

subsection \<open>The functions of the queue\<close>

definition falsy :: "jsval \<Rightarrow> bool" where
  "falsy v \<longleftrightarrow> \<not> truthy v"

text \<open>Storing in \<open>partials\<close> of a context that has none, as a bare \<open>load\<close> has, is an error.\<close>

definition store_partial :: "string \<Rightarrow> jsval \<Rightarrow> jsval render_act" where
  "store_partial name content = ado (\<lambda>s. case rc_partials s of
       None \<Rightarrow> athrow TypeError
     | Some ps \<Rightarrow> athen (amodify (\<lambda>s. s\<lparr>rc_partials := Some (oset name content ps)\<rparr>)) (areturn VUndefined))"

text \<open>The function that \<open>load\<close> queues.\<close>

definition is_json :: "string \<Rightarrow> load_options \<Rightarrow> bool" where
  "is_json location options \<longleftrightarrow> ends_with ''.json'' location \<or> lo_json options"

definition should_cache :: "string \<Rightarrow> load_options \<Rightarrow> bool" where
  "should_cache location options \<longleftrightarrow>
     (if is_json location options then lo_cache options = Some True else lo_cache options \<noteq> Some False)"

definition run_load_url :: "render_env \<Rightarrow> string \<Rightarrow> load_options \<Rightarrow> jsval render_act" where
  "run_load_url env location options =
     (case engineFor (is_helper env) (template_engine env) (Some (Engine_name location)) of
        None \<Rightarrow> athrow RangeError
      | Some r \<Rightarrow> abind (aof r) (\<lambda>found.
          athen (amodify (\<lambda>s. s\<lparr>rc_next_engine := (case lo_engine options of Some e \<Rightarrow> Some e | None \<Rightarrow> Some (Engine_function found))\<rparr>))
            (ado (\<lambda>s.
               let cached = (case oget (rc_cache s) location of None \<Rightarrow> VUndefined | Some v \<Rightarrow> v)
               in if should_cache location options \<and> truthy cached then areturn cached
                  else athen wait
                    (athen (amodify (\<lambda>s. s\<lparr>rc_requests := rc_requests s @ [(location, should_cache location options)]\<rparr>))
                       (areturn (VBool False)))))))"

definition run_load :: "render_env \<Rightarrow> template_location \<Rightarrow> load_options \<Rightarrow> callback option \<Rightarrow> jsval render_act" where
  "run_load env location options cb =
     athen (case cb of None \<Rightarrow> areturn () | Some f \<Rightarrow> rthen f)
       (case location of
          Url l \<Rightarrow> run_load_url env l options
        | Element html \<Rightarrow> areturn (VString html)
        | Computed n \<Rightarrow> areturn VUndefined
        | Selection htmls data_engine \<Rightarrow>
            athen (amodify (\<lambda>s. s\<lparr>rc_next_engine := map_option Engine_name data_engine\<rparr>))
              (athen (awhen (lo_clone options = Some False) (amodify (\<lambda>s. s\<lparr>rc_page := rc_page s @ [Remove htmls]\<rparr>)))
                (case htmls of [] \<Rightarrow> athrow TypeError | html # _ \<Rightarrow> areturn (VString html))))"

text \<open>\<open>$.each\<close> with a callback that can stop it by returning \<open>false\<close>, over items fixed in advance. What the
  callbacks returned is collected, the \<open>false\<close> included.\<close>

fun collect_items :: "(jsval \<times> jsval \<Rightarrow> jsval render_act) \<Rightarrow> (jsval \<times> jsval) list \<Rightarrow> jsval list render_act" where
  "collect_items f [] = areturn []"
| "collect_items f (x # xs) =
     abind (f x) (\<lambda>v. if v = VBool False then areturn [v]
        else abind (collect_items f xs) (\<lambda>vs. areturn (v # vs)))"

text \<open>A set of one node counts as the node. Null and undefined have no \<open>jquery\<close> to look at.\<close>

definition unwrap_node :: "jsval \<Rightarrow> jsval res" where
  "unwrap_node v =
     (case v of VUndefined \<Rightarrow> Inl TypeError | VNull \<Rightarrow> Inl TypeError | VNodes [n] \<Rightarrow> Inr (VNode n) | _ \<Rightarrow> Inr v)"

definition is_node :: "jsval \<Rightarrow> bool" where
  "is_node v \<longleftrightarrow> (case v of VNodes [n] \<Rightarrow> True | _ \<Rightarrow> False)"

definition run_collect :: "jsval \<Rightarrow> (jsval \<times> jsval \<Rightarrow> jsval render_act) \<Rightarrow> jsval render_act" where
  "run_collect items f =
     abind (aof (each_items items)) (\<lambda>xs.
       abind (collect_items (\<lambda>x. abind (f x) (\<lambda>v. athen (aof (unwrap_node v)) (areturn v))) xs) (\<lambda>vs.
         abind (aof (rmap unwrap_node vs)) (\<lambda>contents.
           areturn (if list_ex is_node vs then VArray contents else VString (array_join '''' contents)))))"

text \<open>The engine of \<open>renderEach\<close>: the text of its location, for a location that is no string.\<close>

definition location_engine :: "template_location \<Rightarrow> engine option" where
  "location_engine location =
     (case location of Url l \<Rightarrow> Some (Engine_name l)
      | Computed n \<Rightarrow> Some (Engine_function (Given_function n))
      | Element _ \<Rightarrow> Some (Engine_name ''[object HTMLElement]'')
      | Selection _ _ \<Rightarrow> Some (Engine_name ''[object Object]''))"

text \<open>With a callback, \<open>this\<close> of the loop is the item, whose property \<open>next_engine\<close> is taken for that of the context.\<close>

definition item_engine :: "jsval \<Rightarrow> template_location \<Rightarrow> engine option" where
  "item_engine v location =
     (case v of VObject m \<Rightarrow>
        (case oget m ''next_engine'' of
           Some e \<Rightarrow> if truthy e then Some (Engine_name (to_text e)) else location_engine location
         | None \<Rightarrow> location_engine location)
      | _ \<Rightarrow> location_engine location)"

definition named_item :: "string option \<Rightarrow> jsval \<Rightarrow> jsval" where
  "named_item name v = (case name of Some (c # cs) \<Rightarrow> VObject [(c # cs, v)] | _ \<Rightarrow> v)"

definition run_render_each ::
  "render_env \<Rightarrow> template_location \<Rightarrow> string option \<Rightarrow> jsval \<Rightarrow> nat option \<Rightarrow> jsval \<Rightarrow> jsval render_act" where
  "run_render_each env location name data cb content = ado (\<lambda>s.
     let items = (if truthy data then data else case rc_previous s of VArray vs \<Rightarrow> VArray vs | _ \<Rightarrow> VArray [])
     in case cb of
          Some n \<Rightarrow> abind (aof (each_items items)) (\<lambda>xs.
            athen (aeach (\<lambda>(i, v). abind (aof (interpolate env content (named_item name v) (item_engine v location) None))
                    (\<lambda>r. athen (run_script (script env n [v, r])) (areturn ()))) xs)
              (areturn VUndefined))
        | None \<Rightarrow> run_collect items (\<lambda>(i, v). ado (\<lambda>s.
            aof (interpolate env content (named_item name v)
              (case rc_next_engine s of Some (Engine_name []) \<Rightarrow> location_engine location | None \<Rightarrow> location_engine location
               | e \<Rightarrow> e) None))))"

definition run_interpolate :: "render_env \<Rightarrow> jsval \<Rightarrow> engine option \<Rightarrow> bool \<Rightarrow> jsval \<Rightarrow> jsval \<Rightarrow> jsval render_act" where
  "run_interpolate env data engine retain content prev = ado (\<lambda>s.
     let d = (if \<not> truthy data \<and> truthy prev then prev else data);
         own = (case rc_next_engine s of Some (Engine_name []) \<Rightarrow> None | e \<Rightarrow> e)
     in athen (awhen (own \<noteq> None) (amodify (\<lambda>s. s\<lparr>rc_next_engine := None\<rparr>)))
          (abind (aof (interpolate env content d (if own \<noteq> None then own else engine) (rc_partials s)))
             (\<lambda>rendered. areturn (if retain then js_plus prev rendered else rendered))))"

definition page :: "page_op \<Rightarrow> unit render_act" where
  "page p = amodify (\<lambda>s. s\<lparr>rc_page := rc_page s @ [p]\<rparr>)"

fun run_callback :: "render_env \<Rightarrow> callback \<Rightarrow> jsval \<Rightarrow> jsval \<Rightarrow> jsval render_act" where
  "run_callback env (Call n) content prev = run_script (script env n [content, prev])"
| "run_callback env (Helper n) content prev =
     (if is_helper env n then run_script (helper_script env n [content]) else athrow TypeError)"
| "run_callback env (Load location options cb) content prev = run_load env location options cb"
| "run_callback env (Store_partial name) content prev = store_partial name content"
| "run_callback env (Send n) content prev =
     athen wait (athen (aseq (map run_render_command (fst (script env n []))))
       (athen (aof (snd (script env n []))) (areturn (VBool False))))"
| "run_callback env (Collect items n) content prev =
     run_collect (case items of Some v \<Rightarrow> v | None \<Rightarrow> content) (\<lambda>(i, v). run_script (script env n [i, v]))"
| "run_callback env (Render_each location name data cb) content prev = run_render_each env location name data cb content"
| "run_callback env (Interpolate data engine retain) content prev = run_interpolate env data engine retain content prev"
| "run_callback env (Swap cb) content prev =
     aseq_return [page (Html_element content),
        (case cb of None \<Rightarrow> areturn () | Some n \<Rightarrow> athen (run_script (script env n [content])) (areturn ()))] content"
| "run_callback env (Append_to selector) content prev = aseq_return [page (Append selector content)] VUndefined"
| "run_callback env (Prepend_to selector) content prev = aseq_return [page (Prepend selector content)] VUndefined"
| "run_callback env (Replace selector) content prev = aseq_return [page (Html selector content)] VUndefined"
| "run_callback env (Trigger_event name data) content prev =
     aseq_return [amodify (\<lambda>s. s\<lparr>rc_events := rc_events s @
        [(name, case data of None \<Rightarrow> VObject [(''content'', content)] | Some d \<Rightarrow> d)]\<rparr>)] content"

text \<open>The timer set by \<open>then\<close>. An exception in it is not caught.\<close>

definition fire :: "render_env \<Rightarrow> unit render_act" where
  "fire env = ado (\<lambda>s. case rc_timers s of
       [] \<Rightarrow> areturn ()
     | cb # cbs \<Rightarrow>
         athen (amodify (\<lambda>s. s\<lparr>rc_timers := cbs\<rparr>))
           (ado (\<lambda>s. abind (run_callback env cb (rc_content s) (rc_previous s))
              (\<lambda>returned. awhen (returned \<noteq> VBool False) (next_content returned)))))"

text \<open>A request that succeeds, and one that fails: nothing is called then.\<close>

definition respond :: "nat \<Rightarrow> jsval \<Rightarrow> unit render_act" where
  "respond i data = ado (\<lambda>s. case aget (rc_requests s) i of
       None \<Rightarrow> areturn ()
     | Some (location, cached) \<Rightarrow> aseq
        [amodify (\<lambda>s. s\<lparr>rc_requests := remove_at i (rc_requests s)\<rparr>),
         awhen (cached \<and> data \<noteq> VUndefined) (amodify (\<lambda>s. s\<lparr>rc_cache := oset location data (rc_cache s)\<rparr>)),
         next_content data])"

definition fail :: "nat \<Rightarrow> unit render_act" where
  "fail i = amodify (\<lambda>s. s\<lparr>rc_requests := remove_at i (rc_requests s)\<rparr>)"

subsection \<open>The methods of the context\<close>

definition load :: "template_location \<Rightarrow> load_options \<Rightarrow> callback option \<Rightarrow> unit render_act" where
  "load location options cb = rthen (Load location options cb)"

definition loadPartials :: "(string \<times> template_location) list option \<Rightarrow> unit render_act" where
  "loadPartials partials =
     (case partials of
        None \<Rightarrow> areturn ()
      | Some ps \<Rightarrow>
          athen (amodify (\<lambda>s. s\<lparr>rc_partials := Some (case rc_partials s of None \<Rightarrow> [] | Some m \<Rightarrow> m)\<rparr>))
            (aeach (\<lambda>(name, location). athen (load location no_options None) (rthen (Store_partial name))) ps))"

text \<open>The optional arguments of \<open>render\<close> and \<open>partial\<close>: functions, data and partials are told apart by what they are.
  Data are not given where partials are expected, nor partials for data.\<close>

datatype render_arg =
    Missing
  | Function nat
  | Data jsval
  | Partials "(string \<times> template_location) list"

definition given :: "render_arg \<Rightarrow> bool" where
  "given a \<longleftrightarrow> (case a of Missing \<Rightarrow> False | Data v \<Rightarrow> truthy v | _ \<Rightarrow> True)"

definition arg_data :: "render_arg \<Rightarrow> jsval" where
  "arg_data a = (case a of Data v \<Rightarrow> v | _ \<Rightarrow> VUndefined)"

definition arg_partials :: "render_arg \<Rightarrow> (string \<times> template_location) list option" where
  "arg_partials a = (case a of Partials ps \<Rightarrow> Some ps | _ \<Rightarrow> None)"

definition is_fun_arg :: "render_arg \<Rightarrow> bool" where
  "is_fun_arg a \<longleftrightarrow> (case a of Function _ \<Rightarrow> True | _ \<Rightarrow> False)"

definition then_if :: "render_arg \<Rightarrow> unit render_act" where
  "then_if a = (case a of Function n \<Rightarrow> rthen (Call n) | _ \<Rightarrow> areturn ())"

definition interpolate_later :: "jsval \<Rightarrow> engine option \<Rightarrow> bool \<Rightarrow> unit render_act" where
  "interpolate_later data engine retain = rthen (Interpolate data engine retain)"

definition render :: "template_location \<Rightarrow> render_arg \<Rightarrow> render_arg \<Rightarrow> render_arg \<Rightarrow> unit render_act" where
  "render location data cb partials =
     (case (location, given data) of
        (Computed n, False) \<Rightarrow> rthen (Call n)
      | _ \<Rightarrow>
          (let (data1, cb1, partials1) =
             (if is_fun_arg data then (Data VNull, data, cb)
              else if given cb \<and> \<not> is_fun_arg cb then (data, Missing, cb)
              else (data, cb, partials))
           in aseq [loadPartials (arg_partials partials1), load location no_options None,
                interpolate_later (arg_data data1) (location_engine location) False, then_if cb1]))"

definition trigger_later :: "string \<Rightarrow> jsval option \<Rightarrow> unit render_act" where
  "trigger_later name data = rthen (Trigger_event name data)"

definition swap_later :: "nat option \<Rightarrow> unit render_act" where
  "swap_later cb = aseq [rthen (Swap cb), trigger_later ''changed'' (Some (VObject []))]"

definition partial :: "template_location \<Rightarrow> render_arg \<Rightarrow> render_arg \<Rightarrow> render_arg \<Rightarrow> unit render_act" where
  "partial location data cb partials =
     (case cb of
        Function n \<Rightarrow> aseq [render location data partials Missing, swap_later (Some n)]
      | _ \<Rightarrow> (case data of
            Function n \<Rightarrow> aseq [render location (Data (VObject [])) cb Missing, swap_later (Some n)]
          | _ \<Rightarrow> aseq [render location data cb Missing, swap_later None]))"

definition send :: "nat \<Rightarrow> unit render_act" where
  "send n = rthen (Send n)"

definition collect_later :: "jsval option \<Rightarrow> nat \<Rightarrow> unit render_act" where
  "collect_later items n = rthen (Collect items n)"

definition renderEach :: "template_location \<Rightarrow> string option \<Rightarrow> jsval \<Rightarrow> nat option \<Rightarrow> unit render_act" where
  "renderEach location name data cb =
     aseq [load location no_options None, rthen (Render_each location name data cb)]"

definition appendTo :: "string \<Rightarrow> unit render_act" where
  "appendTo selector = aseq [rthen (Append_to selector), trigger_later ''changed'' (Some (VObject []))]"

definition prependTo :: "string \<Rightarrow> unit render_act" where
  "prependTo selector = aseq [rthen (Prepend_to selector), trigger_later ''changed'' (Some (VObject []))]"

definition replace :: "string \<Rightarrow> unit render_act" where
  "replace selector = aseq [rthen (Replace selector), trigger_later ''changed'' (Some (VObject []))]"

text \<open>What happens to a context: calls of its methods, its timer, the answers to its requests, and calls of
  \<open>wait\<close> and \<open>next\<close> from outside.\<close>

datatype render_call =
    Do_then then_arg
  | Do_load template_location load_options "callback option"
  | Do_load_partials "(string \<times> template_location) list option"
  | Do_render template_location render_arg render_arg render_arg
  | Do_partial template_location render_arg render_arg render_arg
  | Do_send nat
  | Do_collect "jsval option" nat
  | Do_render_each template_location "string option" jsval "nat option"
  | Do_interpolate jsval "engine option" bool
  | Do_swap "nat option"
  | Do_append string
  | Do_prepend string
  | Do_replace string
  | Do_trigger string "jsval option"
  | Do_wait
  | Do_next jsval
  | Fire
  | Respond nat jsval
  | Fail nat

fun run_render_call :: "render_env \<Rightarrow> render_call \<Rightarrow> unit render_act" where
  "run_render_call env (Do_then arg) = then_any env arg"
| "run_render_call env (Do_load l options cb) = load l options cb"
| "run_render_call env (Do_load_partials ps) = loadPartials ps"
| "run_render_call env (Do_render l data cb ps) = render l data cb ps"
| "run_render_call env (Do_partial l data cb ps) = partial l data cb ps"
| "run_render_call env (Do_send n) = send n"
| "run_render_call env (Do_collect items n) = collect_later items n"
| "run_render_call env (Do_render_each l name data cb) = renderEach l name data cb"
| "run_render_call env (Do_interpolate data e retain) = interpolate_later data e retain"
| "run_render_call env (Do_swap cb) = swap_later cb"
| "run_render_call env (Do_append sel) = appendTo sel"
| "run_render_call env (Do_prepend sel) = prependTo sel"
| "run_render_call env (Do_replace sel) = replace sel"
| "run_render_call env (Do_trigger name data) = trigger_later name data"
| "run_render_call env Do_wait = wait"
| "run_render_call env (Do_next v) = next_content v"
| "run_render_call env Fire = fire env"
| "run_render_call env (Respond i data) = respond i data"
| "run_render_call env (Fail i) = fail i"

definition render_step :: "render_env \<Rightarrow> render_call \<Rightarrow> rcontext \<Rightarrow> rcontext" where
  "render_step env c = after (run_render_call env c)"

subsection \<open>The queue as a queue\<close>

text \<open>
  A context that only its own timer and requests drive has at most one of them at a time, and runs
  its functions in the order they were queued. What is abstracted is the list of functions still
  to run.
\<close>

definition pending :: "rcontext \<Rightarrow> callback list" where
  "pending s = rc_timers s @ rc_callbacks s"

definition queue_ok :: "rcontext \<Rightarrow> bool" where
  "queue_ok s \<longleftrightarrow> length (rc_timers s) + length (rc_requests s) \<le> 1 \<and>
     (\<not> rc_waiting s \<longrightarrow> pending s = [] \<and> rc_requests s = [])"

text \<open>Functions of the application that leave \<open>next\<close> to the context.\<close>

definition polite :: "render_env \<Rightarrow> bool" where
  "polite env \<longleftrightarrow> (\<forall>n args v. Next v \<notin> set (fst (script env n args))) \<and> (\<forall>n args v. Next v \<notin> set (fst (helper_script env n args)))"

text \<open>Calls from outside that do not interfere: \<open>next\<close> only ends a wait.\<close>

definition orderly :: "rcontext \<Rightarrow> render_call \<Rightarrow> bool" where
  "orderly s c \<longleftrightarrow> (case c of Do_next v \<Rightarrow> rc_timers s = [] \<and> rc_requests s = [] | _ \<Rightarrow> True)"

definition queued :: "callback list \<Rightarrow> rcontext \<Rightarrow> bool" where
  "queued p s \<longleftrightarrow> queue_ok s \<and> prefix p (pending s)"

lemma prefix_more: "prefix p (a @ b) \<Longrightarrow> prefix p (a @ b @ c)"
  using prefix_prefix [of p "a @ b" c] by simp

text \<open>What queueing keeps, the methods of a context keep.\<close>

definition is_method :: "render_call \<Rightarrow> bool" where
  "is_method c \<longleftrightarrow> (case c of Do_wait \<Rightarrow> False | Do_next _ \<Rightarrow> False | Fire \<Rightarrow> False | Respond _ _ \<Rightarrow> False | Fail _ \<Rightarrow> False | _ \<Rightarrow> True)"

locale kept_by_queueing =
  fixes P :: "rcontext \<Rightarrow> bool"
  assumes kept_rthen: "keeps P (rthen cb)"
    and kept_partials: "P s \<Longrightarrow> P (s\<lparr>rc_partials := ps\<rparr>)"
begin

lemma partials_loaded: "keeps P (loadPartials ps)"
  unfolding loadPartials_def load_def
  by (cases ps) (auto intro!: keeps_areturn keeps_athen keeps_aeach kept_rthen keeps_amodify kept_partials)

lemma rendered: "keeps P (render l data cb ps)"
  unfolding render_def load_def interpolate_later_def then_if_def
  by (auto simp: Let_def split: template_location.split bool.split render_arg.split
      intro!: keeps_athen keeps_areturn kept_rthen partials_loaded)

lemma swapped: "keeps P (swap_later n)"
  unfolding swap_later_def trigger_later_def by (intro keeps_aseq kept_rthen)

lemma partially_rendered: "keeps P (partial l data cb ps)"
  unfolding partial_def by (auto split: render_arg.split intro!: keeps_athen keeps_areturn rendered swapped)

lemma methods: "is_method c \<Longrightarrow> keeps P (run_render_call env c)"
  by (cases c) (auto simp: is_method_def load_def send_def collect_later_def renderEach_def interpolate_later_def trigger_later_def
      appendTo_def prependTo_def replace_def then_any_def split: then_arg.split
      intro!: keeps_athen keeps_areturn kept_rthen partials_loaded rendered swapped partially_rendered)

end

interpretation queued: kept_by_queueing "queued p" for p
  by unfold_locales (auto intro: prefix_more simp: keeps_def rthen_def amodify_def queued_def queue_ok_def pending_def)

text \<open>While a function of the queue runs, nothing is set going; it may queue more.\<close>

definition running :: "callback list \<Rightarrow> rcontext \<Rightarrow> bool" where
  "running q s \<longleftrightarrow> rc_waiting s \<and> rc_timers s = [] \<and> rc_requests s = [] \<and> prefix q (rc_callbacks s)"

lemma running_rthen [keeps_intros]: "keeps (running q) (rthen cb)"
  by (auto simp: keeps_def rthen_def amodify_def running_def)

lemma running_wait [keeps_intros]: "keeps (running q) wait"
  by (auto simp: keeps_def wait_def amodify_def running_def)

lemma running_modify:
  assumes "\<And>s. rc_waiting (f s) = rc_waiting s \<and> rc_timers (f s) = rc_timers s \<and>
      rc_requests (f s) = rc_requests s \<and> rc_callbacks (f s) = rc_callbacks s"
  shows "keeps (running q) (amodify f)"
  by (intro keeps_amodify) (simp add: running_def assms)

lemma running_scripts:
  assumes "polite env"
  shows "keeps (running q) (aseq (map run_render_command (fst (script env n args))))"
    "keeps (running q) (run_script (script env n args))" "keeps (running q) (run_script (helper_script env m args))"
proof -
  have cs: "keeps (running q) (aseq (map run_render_command cs))" if "\<forall>v. Next v \<notin> set cs" for cs
    using that
  proof (induction cs)
    case (Cons c cs)
    have "keeps (running q) (run_render_command c)"
      using Cons.prems by (cases c) (auto intro!: running_rthen running_wait running_modify)
    then show ?case using Cons by (simp add: keeps_athen)
  qed (simp add: keeps_areturn)
  show c: "keeps (running q) (aseq (map run_render_command (fst (script env n args))))"
    using assms by (intro cs) (simp add: polite_def)
  have h: "keeps (running q) (aseq (map run_render_command (fst (helper_script env m args))))"
    using assms by (intro cs) (simp add: polite_def)
  show "keeps (running q) (run_script (script env n args))" "keeps (running q) (run_script (helper_script env m args))"
    unfolding run_script_def by (intro keeps_intros c h)+
qed

lemma running_collect: "(\<And>x. keeps (running q) (f x)) \<Longrightarrow> keeps (running q) (run_collect v f)"
proof -
  assume f: "\<And>x. keeps (running q) (f x)"
  have "keeps (running q) (collect_items (\<lambda>x. abind (f x) (\<lambda>v. athen (aof (unwrap_node v)) (areturn v))) xs)" for xs
    by (induction xs) (auto intro!: keeps_intros f)
  then show ?thesis unfolding run_collect_def by (intro keeps_intros)
qed

lemma running_callback:
  assumes "polite env" "\<And>l options f. cb \<noteq> Load l options f"
  shows "keeps (running q) (run_callback env cb content prev)"
proof -
  note scripts = running_scripts [OF assms(1)]
  have page: "keeps (running q) (page p)" for p unfolding page_def by (rule running_modify) simp
  have each: "keeps (running q) (run_render_each env l name data f content)" for l name data f
    unfolding run_render_each_def Let_def
    by (intro keeps_ado) (auto split: option.split intro!: keeps_abind keeps_aof keeps_athen keeps_aeach keeps_areturn scripts running_collect keeps_ado)
  have interpolated: "keeps (running q) (run_interpolate env d e b content prev)" for d e b
    unfolding run_interpolate_def Let_def
    by (intro keeps_ado keeps_athen keeps_awhen keeps_abind keeps_aof keeps_areturn running_modify) simp
  have stored: "keeps (running q) (store_partial name content)" for name
    unfolding store_partial_def
    by (intro keeps_ado) (auto split: option.split intro!: keeps_athrow keeps_athen keeps_areturn running_modify)
  show ?thesis
    by (cases cb) (use assms(2) in \<open>auto simp: aseq_return_def split: option.split prod.split
         intro!: keeps_athen keeps_aseq keeps_areturn keeps_athrow keeps_aof each interpolated stored page scripts
           running_wait running_collect running_modify\<close>)
qed

lemma running_load:
  assumes "running q s" "run_load env l options f s = (r, t)"
  shows "rc_waiting t \<and> rc_timers t = [] \<and> prefix q (rc_callbacks t) \<and> length (rc_requests t) \<le> 1 \<and>
    (rc_requests t \<noteq> [] \<longrightarrow> r = Inr (VBool False))"
proof -
  have f: "keeps (running q) (case f of None \<Rightarrow> areturn () | Some g \<Rightarrow> rthen g)"
    by (auto split: option.split intro!: keeps_intros)
  obtain u where u: "(case f of None \<Rightarrow> areturn () | Some g \<Rightarrow> rthen g) s = (Inr (), u)"
    by (cases f) (auto simp: areturn_run rthen_def amodify_run)
  have ok: "running q u" using keepsD [OF f assms(1) u] .
  have run: "run_load env l options f s =
      (case l of Url w \<Rightarrow> run_load_url env w options
        | Element html \<Rightarrow> areturn (VString html)
        | Computed n \<Rightarrow> areturn VUndefined
        | Selection htmls e \<Rightarrow>
            athen (amodify (\<lambda>s. s\<lparr>rc_next_engine := map_option Engine_name e\<rparr>))
              (athen (awhen (lo_clone options = Some False) (amodify (\<lambda>s. s\<lparr>rc_page := rc_page s @ [Remove htmls]\<rparr>)))
                (case htmls of [] \<Rightarrow> athrow TypeError | html # _ \<Rightarrow> areturn (VString html)))) u"
    unfolding run_load_def by (rule athen_run(1)) (rule u)
  show ?thesis
  proof (cases l)
    case (Url w)
    then show ?thesis using ok assms(2) unfolding run
      by (auto simp: run_load_url_def running_def athen_def abind_def ado_run aof_run amodify_run wait_def areturn_run athrow_run Let_def
          split: option.splits sum.splits if_splits)
  next
    case (Selection htmls e)
    then show ?thesis using ok assms(2) unfolding run
      by (auto simp: running_def athen_def abind_def awhen_run amodify_run areturn_run athrow_run split: list.splits if_splits)
  qed (use ok assms(2) run in \<open>auto simp: running_def areturn_run\<close>)
qed

lemma next_run:
  assumes "rc_timers t = []" "rc_requests t = []"
  shows "\<exists>t'. next_content v t = (Inr (), t') \<and> queue_ok t' \<and> pending t' = rc_callbacks t"
  using assms
  by (auto simp: next_content_def athen_def abind_def awhen_run amodify_run ado_run areturn_run rthen_def queue_ok_def pending_def
      split: list.split)

lemma callback_ran:
  assumes "polite env" "queue_ok s" "rc_timers s = [cb]"
    and "run_callback env cb (rc_content s) (rc_previous s) (s\<lparr>rc_timers := []\<rparr>) = (r, t)"
  shows "rc_waiting t \<and> rc_timers t = [] \<and> prefix (rc_callbacks s) (rc_callbacks t) \<and> length (rc_requests t) \<le> 1 \<and>
    (rc_requests t \<noteq> [] \<longrightarrow> r = Inr (VBool False))"
proof -
  have start: "running (rc_callbacks s) (s\<lparr>rc_timers := []\<rparr>)"
    using assms(2,3) by (auto simp: running_def queue_ok_def pending_def)
  show ?thesis
  proof (cases "\<exists>l options f. cb = Load l options f")
    case True
    then show ?thesis using assms(4) running_load [OF start] by auto
  next
    case False
    then have "keeps (running (rc_callbacks s)) (run_callback env cb (rc_content s) (rc_previous s))"
      using running_callback [OF assms(1)] by blast
    from keepsD [OF this start assms(4)] show ?thesis by (simp add: running_def)
  qed
qed

lemma fire_head:
  assumes "polite env" "queue_ok s" "rc_timers s = [cb]"
  shows "queue_ok (after (fire env) s) \<and> prefix (rc_callbacks s) (pending (after (fire env) s))"
proof -
  let ?s = "s\<lparr>rc_timers := []\<rparr>"
  obtain r t where t: "run_callback env cb (rc_content s) (rc_previous s) ?s = (r, t)"
    by (cases "run_callback env cb (rc_content s) (rc_previous s) ?s")
  note ran = callback_ran [OF assms t]
  have fired: "fire env s = (case r of Inl e \<Rightarrow> (Inl e, t) | Inr v \<Rightarrow> awhen (v \<noteq> VBool False) (next_content v) t)"
    using assms(3) t by (cases r) (simp_all add: fire_def ado_run athen_def abind_def amodify_run)
  show ?thesis
  proof (cases "\<exists>v. r = Inr v \<and> v \<noteq> VBool False")
    case True
    then obtain v where v: "r = Inr v" "v \<noteq> VBool False" by blast
    then have "rc_requests t = []" using ran by auto
    then obtain t' where "next_content v t = (Inr (), t')" "queue_ok t'" "pending t' = rc_callbacks t"
      using next_run ran by blast
    then show ?thesis using v fired ran by (simp add: after_def awhen_run)
  next
    case False
    then have "after (fire env) s = t" using fired by (cases r) (auto simp: after_def awhen_run)
    then show ?thesis using ran by (auto simp: queue_ok_def pending_def)
  qed
qed

lemma queued_calls:
  assumes "case c of Fire \<Rightarrow> False | Respond _ _ \<Rightarrow> False | Do_next _ \<Rightarrow> False | _ \<Rightarrow> True"
  shows "keeps (queued p) (run_render_call env c)"
proof -
  have w: "keeps (queued p) wait"
    by (auto simp: wait_def keeps_def amodify_def queued_def queue_ok_def pending_def)
  have f: "keeps (queued p) (fail i)" for i
    by (auto simp: fail_def keeps_def amodify_def queued_def queue_ok_def pending_def remove_at_def)
  show ?thesis
    using assms queued.methods [of c p env] w f by (cases c) (auto simp: is_method_def)
qed

text \<open>C23: a context refines a queue. Every call keeps one timer or request at most and adds functions at the end
  of those to run; only the timer takes one off, the first.\<close>

theorem context_refines_queue:
  assumes "polite env" "queue_ok s" "orderly s c"
  shows "queue_ok (render_step env c s) \<and>
    (prefix (pending s) (pending (render_step env c s)) \<or> c = Fire \<and> prefix (tl (pending s)) (pending (render_step env c s)))"
proof (cases "case c of Fire \<Rightarrow> False | Respond _ _ \<Rightarrow> False | Do_next _ \<Rightarrow> False | _ \<Rightarrow> True")
  case True
  have "queued (pending s) s" using assms(2) by (simp add: queued_def)
  then show ?thesis using keeps_after [OF queued_calls [OF True]] by (auto simp: render_step_def queued_def)
next
  case False
  then consider "c = Fire" | i v where "c = Respond i v" | v where "c = Do_next v"
    by (cases c) auto
  then show ?thesis
  proof cases
    case 1
    consider "rc_timers s = []" | cb where "rc_timers s = [cb]"
      using assms(2) by (cases "rc_timers s") (auto simp: queue_ok_def)
    then show ?thesis
    proof cases
      case a: 1
      then show ?thesis using 1 assms(2) by (simp add: render_step_def after_def fire_def ado_run areturn_run)
    next
      case (2 cb)
      then show ?thesis using 1 fire_head [OF assms(1,2) 2] by (simp add: render_step_def pending_def)
    qed
  next
    case (2 i v)
    show ?thesis
    proof (cases "aget (rc_requests s) i")
      case None
      then show ?thesis using 2 assms(2) by (simp add: render_step_def after_def respond_def ado_run areturn_run)
    next
      case (Some r)
      obtain location cached where r: "r = (location, cached)" by (cases r)
      have i: "i < length (rc_requests s)" using Some by (simp add: aget_def split: if_splits)
      then have "length (rc_requests s) = 1" "rc_timers s = []"
        using assms(2) by (auto simp: queue_ok_def) (cases "rc_timers s"; cases "rc_requests s"; simp)+
      then have q: "rc_timers s = []" "remove_at i (rc_requests s) = []"
        using i by (simp_all add: remove_at_def)
      let ?t = "if cached \<and> v \<noteq> VUndefined then s\<lparr>rc_requests := [], rc_cache := oset location v (rc_cache s)\<rparr>
          else s\<lparr>rc_requests := []\<rparr>"
      obtain t' where t': "next_content v ?t = (Inr (), t')" "queue_ok t'" "pending t' = rc_callbacks ?t"
        using next_run [of ?t v] q by auto
      have "respond i v s = (Inr (), t')"
        using Some r q t'(1)
        by (cases cached; cases "v = VUndefined"; simp add: respond_def ado_run athen_def abind_def amodify_run awhen_run areturn_run)
      then show ?thesis using 2 t' q by (simp add: render_step_def after_def pending_def split: if_splits)
    qed
  next
    case (3 v)
    then have "rc_timers s = []" "rc_requests s = []" using assms(3) by (auto simp: orderly_def)
    from next_run [OF this, of v] 3 this show ?thesis by (auto simp: render_step_def after_def pending_def)
  qed
qed

subsection \<open>Engines\<close>

lemma extension_nonempty: "e \<noteq> [] \<Longrightarrow> extension e \<noteq> []"
  by (simp add: extension_def Let_def)

definition names_helper :: "(string \<Rightarrow> bool) \<Rightarrow> engine option \<Rightarrow> bool" where
  "names_helper helper engine \<longleftrightarrow> (case engine of
     None \<Rightarrow> False | Some (Engine_function _) \<Rightarrow> True | Some (Engine_name e) \<Rightarrow> e \<noteq> [] \<and> helper (extension e))"

definition endless :: "(string \<Rightarrow> bool) \<Rightarrow> engine option \<Rightarrow> engine option \<Rightarrow> bool" where
  "endless helper app_engine engine \<longleftrightarrow>
     (\<exists>e. app_engine = Some (Engine_name e) \<and> e \<noteq> []) \<and> \<not> names_helper helper app_engine \<and> \<not> names_helper helper engine"

lemma engineFor_endless:
  assumes "engineFor helper app_engine engine = Some r"
  shows "\<not> endless helper app_engine engine"
proof (rule engineFor.raw_induct [where P = "\<lambda>helper app_engine engine r. \<not> endless helper app_engine engine", OF _ assms])
  fix rec :: "(string \<Rightarrow> bool) \<Rightarrow> engine option \<Rightarrow> engine option \<Rightarrow> found_engine res option"
  fix helper app_engine engine r
  assume ih: "\<And>helper app_engine engine r. rec helper app_engine engine = Some r \<Longrightarrow> \<not> endless helper app_engine engine"
    and step: "(case engine of Some (Engine_function f) \<Rightarrow> Some (Inr f)
      | _ \<Rightarrow> (let named = (case engine of Some (Engine_name []) \<Rightarrow> app_engine | None \<Rightarrow> app_engine | _ \<Rightarrow> engine)
           in case named of None \<Rightarrow> Some (Inl TypeError)
              | Some (Engine_function f) \<Rightarrow> rec helper app_engine named
              | Some (Engine_name e) \<Rightarrow>
                  if extension e \<noteq> [] \<and> helper (extension e) then Some (Inr (Context_helper (extension e)))
                  else (case app_engine of None \<Rightarrow> Some (Inr Same_content) | Some (Engine_name []) \<Rightarrow> Some (Inr Same_content)
                    | _ \<Rightarrow> rec helper app_engine app_engine))) = Some r"
  show "\<not> endless helper app_engine engine"
  proof
    assume endless: "endless helper app_engine engine"
    then obtain c cs where app: "app_engine = Some (Engine_name (c # cs))" "\<not> helper (extension (c # cs))"
      by (auto simp: endless_def names_helper_def neq_Nil_conv)
    then have again: "\<not> endless helper app_engine app_engine \<Longrightarrow> False"
      by (simp add: endless_def names_helper_def)
    from endless consider "engine = None" | "engine = Some (Engine_name [])"
      | d ds where "engine = Some (Engine_name (d # ds))" "\<not> helper (extension (d # ds))"
      unfolding endless_def names_helper_def
      by (cases engine; cases "the engine"; cases "case the engine of Engine_name x \<Rightarrow> x | _ \<Rightarrow> []") auto
    then have "rec helper app_engine app_engine = Some r"
      by cases (use step app in \<open>simp_all add: Let_def\<close>)
    from again [OF ih [OF this]] show False .
  qed
qed

text \<open>C24: \<open>engineFor\<close> returns exactly when the engine it is given, or that of the application, can be resolved; an
  application whose engine is the name of no helper makes it call itself for ever on any name of no helper.\<close>

theorem engineFor_returns:
  "(\<exists>r. engineFor helper app_engine engine = Some r) = (\<not> endless helper app_engine engine)"
proof
  show "\<exists>r. engineFor helper app_engine engine = Some r \<Longrightarrow> \<not> endless helper app_engine engine"
    using engineFor_endless by blast
next
  assume fine: "\<not> endless helper app_engine engine"
  have app: "\<exists>r. engineFor helper app_engine app_engine = Some r" if "names_helper helper app_engine"
    using that by (subst engineFor.simps) (auto simp: names_helper_def extension_nonempty Let_def split: option.splits engine.splits list.splits)
  then show "\<exists>r. engineFor helper app_engine engine = Some r"
    using fine by (subst engineFor.simps)
      (auto simp: endless_def names_helper_def Let_def extension_nonempty split: option.split engine.split list.split)
qed

subsection \<open>Progress\<close>

text \<open>C25: every queued function runs, in the order of the queue. Functions that note that they run and return
  anything but \<open>false\<close> are all run by as many timers.\<close>

theorem queued_functions_all_run:
  assumes "rc_waiting s" "pending s = map Call ns" "length (rc_timers s) = 1"
    and "\<And>n args. n \<in> set ns \<Longrightarrow> \<exists>v. script env n args = ([Note n], Inr v) \<and> v \<noteq> VBool False"
  shows "pending ((render_step env Fire ^^ length ns) s) = [] \<and> rc_notes ((render_step env Fire ^^ length ns) s) = rc_notes s @ ns \<and>
    \<not> rc_waiting ((render_step env Fire ^^ length ns) s)"
  using assms
proof (induction ns arbitrary: s)
  case Nil
  then show ?case by (simp add: pending_def)
next
  case (Cons n ns)
  have s: "rc_timers s = [Call n]" "rc_callbacks s = map Call ns"
    using Cons.prems(2,3) by (cases "rc_timers s"; simp add: pending_def)+
  obtain v where v: "script env n [rc_content s, rc_previous s] = ([Note n], Inr v)" "v \<noteq> VBool False"
    using Cons.prems(4) [of n] by auto
  let ?t = "render_step env Fire s"
  have t: "rc_notes ?t = rc_notes s @ [n] \<and> pending ?t = map Call ns \<and>
      (if ns = [] then \<not> rc_waiting ?t else rc_waiting ?t \<and> length (rc_timers ?t) = 1)"
    using s v by (cases ns)
      (auto simp: render_step_def after_def fire_def ado_run athen_def abind_def amodify_run awhen_run areturn_run aof_run
        run_script_def next_content_def rthen_def pending_def)
  show ?case
  proof (cases "ns = []")
    case True
    then show ?thesis using t by simp
  next
    case False
    then have "pending ((render_step env Fire ^^ length ns) ?t) = [] \<and> rc_notes ((render_step env Fire ^^ length ns) ?t) = rc_notes ?t @ ns \<and>
        \<not> rc_waiting ((render_step env Fire ^^ length ns) ?t)"
      using t Cons.prems(4) by (intro Cons.IH) auto
    then show ?thesis using t by (simp add: funpow_swap1)
  qed
qed

text \<open>\<open>wait\<close> in a function of the queue does not wait, unless the function returns \<open>false\<close>: when it returns
  nothing the next function is set going at once, as it is without the call.\<close>

theorem wait_is_undone:
  assumes "script env n = (\<lambda>_. ([Wait], Inr VUndefined))" "script env m = (\<lambda>_. ([], Inr VUndefined))"
    and "rc_waiting s"
  shows "render_step env Fire (s\<lparr>rc_timers := [Call n]\<rparr>) = render_step env Fire (s\<lparr>rc_timers := [Call m]\<rparr>) \<and>
    rc_timers (render_step env Fire (s\<lparr>rc_timers := [Call n]\<rparr>)) = take 1 (rc_callbacks s)"
proof -
  have same: "s\<lparr>rc_timers := [], rc_waiting := True\<rparr> = s\<lparr>rc_timers := []\<rparr>" using assms(3) by (cases s) simp
  show ?thesis
    using assms by (cases "rc_callbacks s")
      (simp_all add: render_step_def after_def fire_def ado_run athen_def abind_def amodify_run awhen_run areturn_run aof_run
        run_script_def next_content_def rthen_def wait_def same)
qed

subsection \<open>Stalling\<close>

text \<open>A context that waits with neither a timer nor a request.\<close>

definition stalled :: "rcontext \<Rightarrow> bool" where
  "stalled s \<longleftrightarrow> rc_waiting s \<and> rc_timers s = [] \<and> rc_requests s = []"

definition stalled_as :: "nat list \<Rightarrow> page_op list \<Rightarrow> rcontext \<Rightarrow> bool" where
  "stalled_as ns p s \<longleftrightarrow> stalled s \<and> rc_notes s = ns \<and> rc_page s = p"

interpretation stalled: kept_by_queueing "stalled_as ns p" for ns p
  by unfold_locales (auto simp: keeps_def rthen_def amodify_def stalled_as_def stalled_def)

lemma stalled_call:
  assumes "\<forall>v. c \<noteq> Do_next v"
  shows "keeps (stalled_as ns p) (run_render_call env c)"
proof (cases "is_method c")
  case True
  then show ?thesis by (rule stalled.methods)
next
  case False
  then show ?thesis using assms
    by (cases c) (auto simp: is_method_def keeps_def wait_def fire_def respond_def fail_def amodify_run ado_run areturn_run
        stalled_as_def stalled_def remove_at_def aget_def)
qed

text \<open>C26: a request that fails stalls its context, and so does a queued function that throws. Nothing that is called
  later runs a function of the queue or changes the page, short of \<open>next\<close> from outside.\<close>

theorem failure_stalls:
  assumes "polite env" "queue_ok s"
    and "c = Fail 0 \<and> rc_requests s \<noteq> [] \<or> c = Fire \<and> fst (fire env s) = Inl e"
    and "\<forall>d \<in> set calls. \<forall>v. d \<noteq> Do_next v"
  shows "rc_notes (fold (render_step env) calls (render_step env c s)) = rc_notes (render_step env c s) \<and>
    rc_page (fold (render_step env) calls (render_step env c s)) = rc_page (render_step env c s)"
proof -
  let ?t = "render_step env c s"
  have "stalled ?t"
    using assms(3)
  proof
    assume f: "c = Fail 0 \<and> rc_requests s \<noteq> []"
    then have "length (rc_requests s) = 1" "rc_timers s = []" "rc_waiting s"
      using assms(2) by (auto simp: queue_ok_def) (cases "rc_timers s"; cases "rc_requests s"; simp)+
    then show ?thesis using f
      by (simp add: stalled_def render_step_def after_def fail_def amodify_run remove_at_def)
  next
    assume f: "c = Fire \<and> fst (fire env s) = Inl e"
    obtain cb where cb: "rc_timers s = [cb]"
      using assms(2) f by (cases "rc_timers s") (auto simp: queue_ok_def fire_def ado_run areturn_run)
    let ?s = "s\<lparr>rc_timers := []\<rparr>"
    obtain r t where t: "run_callback env cb (rc_content s) (rc_previous s) ?s = (r, t)"
      by (cases "run_callback env cb (rc_content s) (rc_previous s) ?s")
    note ran = callback_ran [OF assms(1,2) cb t]
    show ?thesis
    proof (cases r)
      case (Inl e')
      then have "fire env s = (Inl e', t)"
        using cb t by (simp add: fire_def ado_run athen_def abind_def amodify_run)
      then show ?thesis using f ran Inl by (auto simp: stalled_def render_step_def after_def)
    next
      case (Inr v)
      have "fire env s = awhen (v \<noteq> VBool False) (next_content v) t"
        using cb t Inr by (simp add: fire_def ado_run athen_def abind_def amodify_run)
      moreover have "fst (next_content v t) = Inr ()"
        by (simp add: next_content_def athen_def abind_def awhen_run amodify_run ado_run areturn_run rthen_def split: list.split)
      ultimately show ?thesis using f by (simp add: awhen_run split: if_splits)
    qed
  qed
  then have "stalled_as (rc_notes ?t) (rc_page ?t) ?t" by (simp add: stalled_as_def)
  then have "stalled_as (rc_notes ?t) (rc_page ?t) (fold (render_step env) calls ?t)"
    using assms(4)
  proof (induction calls arbitrary: s c rule: rev_induct)
    case (snoc d ds)
    then show ?case using keeps_after [OF stalled_call [of d]] by (simp add: render_step_def)
  qed simp
  then show ?thesis by (simp add: stalled_as_def)
qed

subsection \<open>A sample environment\<close>

text \<open>Every function notes its number and returns nothing, but 0 returns nothing without a note and 3
  throws. A template puts its helper's name, or its content, before the data.\<close>

definition sample_env :: render_env where
  "sample_env =
     \<lparr>is_attribute = (\<lambda>n. False), is_helper = (\<lambda>n. n = ''mustache''), template_engine = None,
      template = (\<lambda>f content data ps. Inr (VString ((case f of Context_helper n \<Rightarrow> n | _ \<Rightarrow> '''') @ to_text content @ to_text data))),
      script = (\<lambda>n args. (if n = 0 then [] else if n = 4 then [Wait] else [Note n], if n = 3 then Inl TypeError else Inr VUndefined)),
      helper_script = (\<lambda>n args. ([], Inr VUndefined))\<rparr>"

definition after_calls :: "render_call list \<Rightarrow> rcontext" where
  "after_calls calls = fold (render_step sample_env) calls (new_render [(''row.mustache'', VString ''<li>'')])"

lemma sample_polite: "polite sample_env"
  by (simp add: polite_def sample_env_def)

theorem context_refines_queue_witness:
  "let s = after_calls [Do_then (Then_function (Call 1)), Do_then (Then_function (Call 2))]
   in pending s = [Call 1, Call 2] \<and> queue_ok (render_step sample_env Fire s)"
proof -
  have "pending (after_calls [Do_then (Then_function (Call 1)), Do_then (Then_function (Call 2))]) = [Call 1, Call 2]"
    by code_simp
  moreover have "queue_ok (after_calls [Do_then (Then_function (Call 1)), Do_then (Then_function (Call 2))])" by code_simp
  ultimately show ?thesis
    using context_refines_queue [OF sample_polite, of "after_calls [Do_then (Then_function (Call 1)), Do_then (Then_function (Call 2))]" Fire]
    by (simp add: Let_def orderly_def)
qed

theorem queued_functions_all_run_witness:
  "rc_notes ((render_step sample_env Fire ^^ length [1 :: nat, 2]) (after_calls [Do_then (Then_function (Call 1)), Do_then (Then_function (Call 2))]))
     = [1, 2]"
proof -
  let ?s = "after_calls [Do_then (Then_function (Call 1)), Do_then (Then_function (Call 2))]"
  have w: "rc_waiting ?s" and p: "pending ?s = map Call [1, 2]" and t: "length (rc_timers ?s) = 1" by code_simp+
  have n: "rc_notes ?s = []" by code_simp
  have scripts: "\<exists>v. script sample_env m args = ([Note m], Inr v) \<and> v \<noteq> VBool False" if "m \<in> set [1, 2]" for m args
    using that by (auto simp: sample_env_def)
  have "rc_notes ((render_step sample_env Fire ^^ length [1 :: nat, 2]) ?s) = rc_notes ?s @ [1, 2]"
    by (rule queued_functions_all_run [OF w p t, THEN conjunct2, THEN conjunct1]) (rule scripts)
  then show ?thesis by (simp only: n append_Nil)
qed

theorem wait_is_undone_witness:
  "rc_timers (render_step sample_env Fire (after_calls [Do_wait, Do_then (Then_function (Call 1))]\<lparr>rc_timers := [Call 4]\<rparr>)) = [Call 1]"
proof -
  have w: "rc_waiting (after_calls [Do_wait, Do_then (Then_function (Call 1))])" by code_simp
  have c: "rc_callbacks (after_calls [Do_wait, Do_then (Then_function (Call 1))]) = [Call 1]" by code_simp
  have "script sample_env 4 = (\<lambda>_. ([Wait], Inr VUndefined))" "script sample_env 0 = (\<lambda>_. ([], Inr VUndefined))"
    by (simp_all add: sample_env_def)
  from wait_is_undone [OF this w] c show ?thesis by (metis One_nat_def take_Suc_Cons take0 take_0)
qed

theorem failure_stalls_witness:
  "rc_notes (fold (render_step sample_env) [Fire, Do_then (Then_function (Call 2)), Fire]
     (render_step sample_env Fire (after_calls [Do_then (Then_function (Call 3)), Do_then (Then_function (Call 1))]))) = [3]"
proof -
  let ?s = "after_calls [Do_then (Then_function (Call 3)), Do_then (Then_function (Call 1))]"
  have q: "queue_ok ?s" by code_simp
  have f: "Fire = Fail 0 \<and> rc_requests ?s \<noteq> [] \<or> Fire = Fire \<and> fst (fire sample_env ?s) = Inl TypeError" by code_simp
  have "rc_notes (render_step sample_env Fire ?s) = [3]" by code_simp
  then show ?thesis
    using failure_stalls [OF sample_polite q f, of "[Fire, Do_then (Then_function (Call 2)), Fire]"] by simp
qed

text \<open>The function given to \<open>load\<close> runs after the functions queued behind the load, not after the load.\<close>

theorem load_callback_runs_last:
  "rc_notes (after_calls [Do_load (Element ''<p>'') no_options (Some (Call 1)), Do_then (Then_function (Call 2)), Fire, Fire, Fire]) = [2, 1]"
  by code_simp

text \<open>The sample with templates that throw.\<close>

definition broken_env :: render_env where
  "broken_env = sample_env\<lparr>template := \<lambda>f content data ps. Inl TypeError\<rparr>"

text \<open>\<open>renderEach\<close> with a function for each item does not use the engine that the template names, though it
  does without one: the engine is looked up in the item, so a template that would throw is never run.\<close>

theorem renderEach_function_ignores_engine:
  "rc_notes (fold (render_step broken_env)
     [Do_render_each (Selection [''t''] (Some ''mustache'')) None (VArray [VString ''x'']) (Some 1), Fire, Fire, Do_then (Then_function (Call 2)), Fire]
     (new_render [])) = [1, 2] \<and>
   rc_notes (fold (render_step broken_env)
     [Do_render_each (Selection [''t''] (Some ''mustache'')) None (VArray [VString ''x'']) None, Fire, Fire, Do_then (Then_function (Call 2)), Fire]
     (new_render [])) = []"
  by code_simp

text \<open>C27: \<open>partial\<close> with a template in the cache puts what the template makes of the data into the page, and
  announces the change.\<close>

theorem partial_renders_cached_template:
  assumes "oget cache location = Some t" "truthy t" "\<not> is_json location no_options"
    and "engineFor (is_helper env) (template_engine env) (Some (Engine_name location)) = Some (Inr f)" "f \<noteq> Same_content"
    and "template env f t d None = Inr r" "truthy d" "truthy r"
  shows "let s = (render_step env Fire ^^ 4) (render_step env (Do_partial (Url location) (Data d) Missing Missing) (new_render cache))
    in rc_page s = [Html_element r] \<and> rc_events s = [(''changed'', VObject [])] \<and> rc_content s = r \<and> pending s = []"
proof -
  have found: "engineFor (is_helper env) (template_engine env) (Some (Engine_function f)) = Some (Inr f)"
    by (subst engineFor.simps) simp
  have not_false: "t \<noteq> VBool False" "r \<noteq> VBool False" "t \<noteq> VUndefined" "r \<noteq> VUndefined" using assms(2,8) by auto
  have cached: "should_cache location no_options" using assms(3) by (simp add: should_cache_def no_options_def)
  note run = athen_def abind_def awhen_run amodify_run ado_run areturn_run aof_run
  have four: "(F ^^ 4) x = F (F (F (F x)))" for F :: "rcontext \<Rightarrow> rcontext" and x
    by (simp add: eval_nat_numeral)
  let ?s0 = "(new_render cache)\<lparr>rc_waiting := True, rc_timers := [Load (Url location) no_options None],
     rc_callbacks := [Interpolate d (Some (Engine_name location)) False, Swap None, Trigger_event ''changed'' (Some (VObject []))]\<rparr>"
  have s0: "render_step env (Do_partial (Url location) (Data d) Missing Missing) (new_render cache) = ?s0"
    by (simp add: render_step_def after_def partial_def render_def is_fun_arg_def given_def loadPartials_def arg_partials_def load_def
        interpolate_later_def arg_data_def location_engine_def then_if_def swap_later_def trigger_later_def rthen_def new_render_def run)
  let ?s1 = "?s0\<lparr>rc_next_engine := Some (Engine_function f), rc_content := t, rc_timers := [Interpolate d (Some (Engine_name location)) False],
     rc_callbacks := [Swap None, Trigger_event ''changed'' (Some (VObject []))]\<rparr>"
  have s1: "render_step env Fire ?s0 = ?s1"
    using assms(1,2,4) cached not_false
    by (simp add: render_step_def after_def fire_def run_load_def run_load_url_def next_content_def rthen_def new_render_def run
        no_options_def Let_def)
  let ?s2 = "?s1\<lparr>rc_next_engine := None, rc_previous := t, rc_content := r, rc_timers := [Swap None],
     rc_callbacks := [Trigger_event ''changed'' (Some (VObject []))]\<rparr>"
  have s2: "render_step env Fire ?s1 = ?s2"
    using assms(5-7) found not_false
    by (simp add: render_step_def after_def fire_def run_interpolate_def interpolate_def next_content_def rthen_def new_render_def run Let_def)
  let ?s3 = "?s2\<lparr>rc_page := [Html_element r], rc_previous := r, rc_timers := [Trigger_event ''changed'' (Some (VObject []))], rc_callbacks := []\<rparr>"
  have s3: "render_step env Fire ?s2 = ?s3"
    using not_false
    by (simp add: render_step_def after_def fire_def aseq_return_def page_def next_content_def rthen_def new_render_def run)
  have s4: "render_step env Fire ?s3 = ?s3\<lparr>rc_events := [(''changed'', VObject [])], rc_timers := [], rc_waiting := False\<rparr>"
    using not_false
    by (simp add: render_step_def after_def fire_def aseq_return_def next_content_def new_render_def run)
  show ?thesis
    unfolding s0 four s1 s2 s3 s4 Let_def by (simp add: pending_def new_render_def)
qed

theorem partial_renders_cached_template_witness:
  "rc_page ((render_step sample_env Fire ^^ 4) (render_step sample_env (Do_partial (Url ''row.mustache'') (Data (VString ''x'')) Missing Missing)
     (new_render [(''row.mustache'', VString ''<li>'')]))) = [Html_element (VString ''mustache<li>x'')]"
proof -
  have cached: "oget [(''row.mustache'', VString ''<li>'')] ''row.mustache'' = Some (VString ''<li>'')" by simp
  have html: "\<not> is_json ''row.mustache'' no_options" by code_simp
  have found: "engineFor (is_helper sample_env) (template_engine sample_env) (Some (Engine_name ''row.mustache'')) =
      Some (Inr (Context_helper ''mustache''))" by code_simp
  have made: "template sample_env (Context_helper ''mustache'') (VString ''<li>'') (VString ''x'') None = Inr (VString ''mustache<li>x'')"
    by code_simp
  show ?thesis
    using partial_renders_cached_template [OF cached _ html found _ made] by (simp add: Let_def)
qed

end
