(* ===== verification/JqCallbacks.thy ===== *)
theory JqCallbacks
  imports JsString
begin

text \<open>
  \<open>jQuery.Callbacks\<close>, \<open>jQuery.Deferred\<close> and \<open>jQuery.when\<close>. A callback may call back any list while it
  is fired, so the model is a machine: the calls in progress are a stack of frames, a step runs
  the top one. Functions of the application are scripts of commands.

  A list is known by what it is for: one of its own (\<open>Plain\<close>), or one of the three of a deferred. The
  arrays of contexts that \<open>when\<close> passes on are values here; the code passes the array itself.
\<close>

subsection \<open>State\<close>

datatype lid = Plain nat | Done nat | Fail nat | Progress nat

datatype jval = JUndefined | JBool bool | JNum nat | JPromise nat | JArray "jval list"

datatype jctx = Ctx_undefined | Ctx nat | Ctx_deferred nat | Ctx_array "jctx list"

type_synonym data = "jctx \<times> jval list"

datatype settled = Pending | Resolved | Rejected

text \<open>
  The functions in a list: of the application, those a deferred puts first in its lists, \<open>fire\<close> of another
  list, the one that \<open>then\<close> makes of a function of the application, and the one \<open>when\<close> makes.
\<close>

datatype jcb =
    User nat
  | Set_state nat settled
  | Disable_list lid
  | Lock_list lid
  | Forward lid
  | Handler nat nat nat nat
  | Update nat nat bool

record flags =
  f_once :: bool
  f_memory :: bool
  f_unique :: bool
  f_stopOnFalse :: bool

record clist =
  c_memory :: "data option"
  c_fired :: bool
  c_firing :: bool
  c_firingStart :: nat
  c_firingLength :: int
  c_firingIndex :: int
  c_list :: "jcb list option"
  c_stack :: "data list option"

record when_state =
  wh_master :: nat
  wh_remaining :: int
  wh_values :: "jval list"
  wh_contexts :: "jctx list"
  wh_progress_values :: "jval list"
  wh_progress_contexts :: "jctx list"

text \<open>Arguments of \<open>add\<close> and \<open>done\<close>: functions, arrays of them, anything else.\<close>

datatype add_arg = Fn nat | Fns "add_arg list" | Not_fn

datatype cmd =
    Add lid "add_arg list"
  | Remove nat "nat list"
  | Empty nat
  | Disable nat
  | Lock nat
  | Fire_with lid jctx "jval list"
  | New_deferred "nat option"
  | Then nat "nat option" "nat option" "nat option"
  | Always nat "add_arg list"
  | When "jval list"

datatype frame =
    Loop lid data
  | Check lid data
  | Adds "(lid \<times> jcb list) list"
  | Commands "cmd list" "jval res"
  | Return jval
  | Handled nat nat nat data
  | When_next nat nat

record world =
  w_unused :: "lid \<Rightarrow> clist"
  w_table :: "(lid \<times> clist) list"
  w_states :: "nat \<Rightarrow> settled"
  w_next :: nat
  w_whens :: "when_state list"
  w_stack :: "frame list"
  w_ret :: jval
  w_log :: "(nat \<times> data) list"
  w_thrown :: "js_error list"

text \<open>What a program brings along: its functions, and the flags of its own lists.\<close>

record program =
  p_script :: "nat \<Rightarrow> data \<Rightarrow> cmd list \<times> jval res"
  p_flags :: "nat \<Rightarrow> flags"

text \<open>The options of a list as a text of words.\<close>

definition createOptions :: "string \<Rightarrow> flags" where
  "createOptions options =
     (let words = runs (\<lambda>c. \<not> is_space c) options
      in \<lparr>f_once = ''once'' \<in> set words, f_memory = ''memory'' \<in> set words, f_unique = ''unique'' \<in> set words,
          f_stopOnFalse = ''stopOnFalse'' \<in> set words\<rparr>)"

definition list_flags :: "program \<Rightarrow> lid \<Rightarrow> flags" where
  "list_flags p l =
     (case l of
        Plain n \<Rightarrow> p_flags p n
      | Progress _ \<Rightarrow> \<lparr>f_once = False, f_memory = True, f_unique = False, f_stopOnFalse = False\<rparr>
      | _ \<Rightarrow> \<lparr>f_once = True, f_memory = True, f_unique = False, f_stopOnFalse = False\<rparr>)"

lemma deferred_flags:
  "list_flags p (Done d) = createOptions ''once memory''" "list_flags p (Fail d) = createOptions ''once memory''"
  "list_flags p (Progress d) = createOptions ''memory''"
proof -
  have "createOptions ''once memory'' = \<lparr>f_once = True, f_memory = True, f_unique = False, f_stopOnFalse = False\<rparr>"
    "createOptions ''memory'' = \<lparr>f_once = False, f_memory = True, f_unique = False, f_stopOnFalse = False\<rparr>" by code_simp+
  then show "list_flags p (Done d) = createOptions ''once memory''" "list_flags p (Fail d) = createOptions ''once memory''"
    "list_flags p (Progress d) = createOptions ''memory''" by (simp_all add: list_flags_def)
qed

definition new_list :: "flags \<Rightarrow> clist" where
  "new_list fl =
     \<lparr>c_memory = None, c_fired = False, c_firing = False, c_firingStart = 0, c_firingLength = 0, c_firingIndex = 0,
      c_list = Some [], c_stack = (if f_once fl then None else Some [])\<rparr>"

definition new_world :: "program \<Rightarrow> world" where
  "new_world p =
     \<lparr>w_unused = (\<lambda>l. new_list (list_flags p l)), w_table = [], w_states = (\<lambda>d. Pending), w_next = 0, w_whens = [], w_stack = [],
      w_ret = JUndefined, w_log = [], w_thrown = []\<rparr>"

text \<open>The lists as they are now: those in use are in a table, the others as they were made.\<close>

definition w_lists :: "world \<Rightarrow> lid \<Rightarrow> clist" where
  "w_lists w l = (case map_of (w_table w) l of Some c \<Rightarrow> c | None \<Rightarrow> w_unused w l)"

definition set_list :: "lid \<Rightarrow> clist \<Rightarrow> world \<Rightarrow> world" where
  "set_list l c w = w\<lparr>w_table := AList.update l c (w_table w)\<rparr>"

lemma w_lists_set [simp]: "w_lists (set_list l c w) = (w_lists w)(l := c)"
  by (rule ext) (simp add: w_lists_def set_list_def update_conv' split: option.split)

lemma w_lists_same [simp]:
  "w_lists (w\<lparr>w_states := x1\<rparr>) = w_lists w" "w_lists (w\<lparr>w_next := x2\<rparr>) = w_lists w" "w_lists (w\<lparr>w_whens := x3\<rparr>) = w_lists w"
  "w_lists (w\<lparr>w_stack := x4\<rparr>) = w_lists w" "w_lists (w\<lparr>w_ret := x5\<rparr>) = w_lists w" "w_lists (w\<lparr>w_log := x6\<rparr>) = w_lists w"
  "w_lists (w\<lparr>w_thrown := x7\<rparr>) = w_lists w"
  by (rule ext, simp add: w_lists_def split: option.split)+

definition push :: "frame \<Rightarrow> world \<Rightarrow> world" where
  "push f w = w\<lparr>w_stack := f # w_stack w\<rparr>"

text \<open>Nothing catches an exception: every call in progress ends.\<close>

definition throw :: "js_error \<Rightarrow> world \<Rightarrow> world" where
  "throw e w = w\<lparr>w_stack := [], w_thrown := w_thrown w @ [e]\<rparr>"

subsection \<open>Lists\<close>

text \<open>The start of \<open>fire\<close>, up to its loop.\<close>

definition start_fire :: "flags \<Rightarrow> data \<Rightarrow> clist \<Rightarrow> clist" where
  "start_fire fl d c = c\<lparr>
     c_memory := (if f_memory fl then Some d else None), c_fired := True, c_firingIndex := int (c_firingStart c), c_firingStart := 0,
     c_firingLength := (case c_list c of None \<Rightarrow> 0 | Some xs \<Rightarrow> int (length xs)), c_firing := True\<rparr>"

definition begin_fire :: "program \<Rightarrow> lid \<Rightarrow> data \<Rightarrow> world \<Rightarrow> world" where
  "begin_fire p l d w = push (Loop l d) (set_list l (start_fire (list_flags p l) d (w_lists w l)) w)"

definition disable_list :: "clist \<Rightarrow> clist" where
  "disable_list c = c\<lparr>c_list := None, c_stack := None, c_memory := None\<rparr>"

definition lock_list :: "clist \<Rightarrow> clist" where
  "lock_list c = (let c' = c\<lparr>c_stack := None\<rparr> in if c_memory c = None then disable_list c' else c')"

definition empty_list :: "clist \<Rightarrow> clist" where
  "empty_list c = c\<lparr>c_list := Some []\<rparr>"

definition has :: "clist \<Rightarrow> jcb \<Rightarrow> bool" where
  "has c f \<longleftrightarrow> (case c_list c of None \<Rightarrow> False | Some xs \<Rightarrow> f \<in> set xs)"

definition disabled :: "clist \<Rightarrow> bool" where
  "disabled c \<longleftrightarrow> c_list c = None"

definition locked :: "clist \<Rightarrow> bool" where
  "locked c \<longleftrightarrow> c_stack c = None"

definition fired :: "clist \<Rightarrow> bool" where
  "fired c \<longleftrightarrow> c_fired c"

fun add_each :: "bool \<Rightarrow> jcb list \<Rightarrow> jcb list \<Rightarrow> jcb list" where
  "add_each unique [] xs = xs"
| "add_each unique (f # fs) xs = add_each unique fs (if unique \<and> f \<in> set xs then xs else xs @ [f])"

text \<open>The lists that exist: those of a deferred come with it, and nothing can name them before.\<close>

definition known :: "lid \<Rightarrow> world \<Rightarrow> bool" where
  "known l w \<longleftrightarrow> (case l of Plain n \<Rightarrow> True | Done d \<Rightarrow> d < w_next w | Fail d \<Rightarrow> d < w_next w | Progress d \<Rightarrow> d < w_next w)"

definition add :: "program \<Rightarrow> lid \<Rightarrow> jcb list \<Rightarrow> world \<Rightarrow> world" where
  "add p l fs w =
     (let c = w_lists w l
      in case (if known l w then c_list c else None) of
           None \<Rightarrow> w
         | Some xs \<Rightarrow>
             (let ys = add_each (f_unique (list_flags p l)) fs xs; c' = c\<lparr>c_list := Some ys\<rparr>
              in if c_firing c then set_list l (c'\<lparr>c_firingLength := int (length ys)\<rparr>) w
                 else case c_memory c of
                     None \<Rightarrow> set_list l c' w
                   | Some m \<Rightarrow> begin_fire p l m (set_list l (c'\<lparr>c_firingStart := length xs\<rparr>) w)))"

text \<open>The functions among the arguments of \<open>add\<close>, in order.\<close>

fun flat_args :: "add_arg list \<Rightarrow> jcb list" where
  "flat_args [] = []"
| "flat_args (Fn n # as) = User n # flat_args as"
| "flat_args (Fns bs # as) = flat_args bs @ flat_args as"
| "flat_args (Not_fn # as) = flat_args as"

text \<open>\<open>inArray(f, list, index)\<close>, and the loop of \<open>remove\<close>: each search goes on where the last one ended.\<close>

definition index_from :: "nat \<Rightarrow> jcb \<Rightarrow> jcb list \<Rightarrow> nat option" where
  "index_from i f xs = find (\<lambda>j. xs ! j = f) [i ..< length xs]"

lemma index_fromD: "index_from i f xs = Some j \<Longrightarrow> i \<le> j \<and> j < length xs \<and> xs ! j = f"
  by (auto simp: index_from_def find_Some_iff)

function remove_loop :: "jcb \<Rightarrow> nat \<Rightarrow> clist \<Rightarrow> clist" where
  "remove_loop f i c =
     (case c_list c of
        None \<Rightarrow> c
      | Some xs \<Rightarrow> (case index_from i f xs of
            None \<Rightarrow> c
          | Some j \<Rightarrow>
              remove_loop f j (c\<lparr>c_list := Some (remove_at j xs),
                c_firingLength := c_firingLength c - (if c_firing c \<and> int j \<le> c_firingLength c then 1 else 0),
                c_firingIndex := c_firingIndex c - (if c_firing c \<and> int j \<le> c_firingIndex c then 1 else 0)\<rparr>)))"
  by pat_completeness auto
termination
  by (relation "measure (\<lambda>(f, i, c). length (case c_list c of None \<Rightarrow> [] | Some xs \<Rightarrow> xs))")
    (auto simp: length_remove_at dest!: index_fromD)

declare remove_loop.simps [simp del]

definition remove :: "jcb list \<Rightarrow> clist \<Rightarrow> clist" where
  "remove fs c = fold (\<lambda>f c. remove_loop f 0 c) fs c"

definition fireWith :: "program \<Rightarrow> lid \<Rightarrow> data \<Rightarrow> world \<Rightarrow> world" where
  "fireWith p l d w =
     (let c = w_lists w l
      in if known l w \<and> c_list c \<noteq> None \<and> (\<not> c_fired c \<or> c_stack c \<noteq> None)
         then (if c_firing c
               then (case c_stack c of None \<Rightarrow> throw TypeError w | Some st \<Rightarrow> set_list l (c\<lparr>c_stack := Some (st @ [d])\<rparr>) w)
               else begin_fire p l d w)
         else w)"

text \<open>The end of \<open>fire\<close>, after its loop.\<close>

definition end_fire :: "program \<Rightarrow> lid \<Rightarrow> world \<Rightarrow> world" where
  "end_fire p l w =
     (let c = (w_lists w l)\<lparr>c_firing := False\<rparr>; w' = set_list l c w
      in if c_list c = None then w'
         else case c_stack c of
             Some (d # st) \<Rightarrow> begin_fire p l d (set_list l (c\<lparr>c_stack := Some st\<rparr>) w')
           | Some [] \<Rightarrow> w'
           | None \<Rightarrow> (if c_memory c \<noteq> None then set_list l (c\<lparr>c_list := Some []\<rparr>) w' else set_list l (disable_list c) w'))"

subsection \<open>Deferreds\<close>

definition tuple_list :: "nat \<Rightarrow> nat \<Rightarrow> lid" where
  "tuple_list i d = (if i = 0 then Done d else if i = 1 then Fail d else Progress d)"

text \<open>A new deferred: its lists of done and fail functions start with those that keep its state.\<close>

definition Deferred :: "program \<Rightarrow> world \<Rightarrow> nat \<times> world" where
  "Deferred p w =
     (let d = w_next w
      in (d, add p (Fail d) [Set_state d Rejected, Disable_list (Done d), Lock_list (Progress d)]
           (add p (Done d) [Set_state d Resolved, Disable_list (Fail d), Lock_list (Progress d)] (w\<lparr>w_next := Suc d\<rparr>))))"

definition promise_of :: "jval \<Rightarrow> nat option" where
  "promise_of v = (case v of JPromise d \<Rightarrow> Some d | _ \<Rightarrow> None)"

definition then_cb :: "nat \<Rightarrow> nat \<Rightarrow> nat \<Rightarrow> nat option \<Rightarrow> jcb" where
  "then_cb i d new fn = (case fn of Some n \<Rightarrow> Handler n i d new | None \<Rightarrow> Forward (tuple_list i new))"

definition then_on :: "program \<Rightarrow> nat \<Rightarrow> nat option \<Rightarrow> nat option \<Rightarrow> nat option \<Rightarrow> world \<Rightarrow> world" where
  "then_on p d fnDone fnFail fnProgress w =
     (let (new, w') = Deferred p w
      in push (Adds [(Done d, [then_cb 0 d new fnDone]), (Fail d, [then_cb 1 d new fnFail]), (Progress d, [then_cb 2 d new fnProgress])])
           (push (Return (JPromise new)) w'))"

text \<open>\<open>when\<close>: one promise is its own result. The others are watched by a new deferred.\<close>

definition all_when :: "program \<Rightarrow> jval list \<Rightarrow> world \<Rightarrow> world" where
  "all_when p vs w =
     (case vs of
        [JPromise d] \<Rightarrow> w\<lparr>w_ret := JPromise d\<rparr>
      | _ \<Rightarrow>
          (let (m, w') = Deferred p w; n = length vs
           in push (When_next (length (w_whens w)) 0) (push (Return (JPromise m)) (w'\<lparr>w_whens := w_whens w' @
                [\<lparr>wh_master = m, wh_remaining = (if n = 1 then 0 else int n), wh_values = vs,
                  wh_contexts = (if 1 < n then replicate n Ctx_undefined else []),
                  wh_progress_values = replicate n JUndefined, wh_progress_contexts = replicate n Ctx_undefined\<rparr>]\<rparr>))))"

definition array_ctx :: "jctx list \<Rightarrow> jctx" where
  "array_ctx cs = (if cs = [] then Ctx_undefined else Ctx_array cs)"

definition when_next :: "program \<Rightarrow> nat \<Rightarrow> nat \<Rightarrow> world \<Rightarrow> world" where
  "when_next p k i w =
     (let h = w_whens w ! k; n = length (wh_values h); m = wh_master h
      in if 1 < n \<and> i < n then
           (case wh_values h ! i of
              JPromise s \<Rightarrow> push (Adds [(Done s, [Update k i False]), (Fail s, [Forward (Fail m)]), (Progress s, [Update k i True])])
                (push (When_next k (Suc i)) w)
            | _ \<Rightarrow> push (When_next k (Suc i)) (w\<lparr>w_whens := (w_whens w)[k := h\<lparr>wh_remaining := wh_remaining h - 1\<rparr>]\<rparr>))
         else if wh_remaining h = 0 then fireWith p (Done m) (array_ctx (wh_contexts h), wh_values h) w
         else w)"

definition update :: "program \<Rightarrow> nat \<Rightarrow> nat \<Rightarrow> bool \<Rightarrow> data \<Rightarrow> world \<Rightarrow> world" where
  "update p k i progress d w =
     (let h = w_whens w ! k; v = (case snd d of [] \<Rightarrow> JUndefined | [x] \<Rightarrow> x | xs \<Rightarrow> JArray xs)
      in if progress then
           (let h' = h\<lparr>wh_progress_contexts := (wh_progress_contexts h)[i := fst d], wh_progress_values := (wh_progress_values h)[i := v]\<rparr>
            in fireWith p (Progress (wh_master h)) (Ctx_array (wh_progress_contexts h'), wh_progress_values h')
                 (w\<lparr>w_whens := (w_whens w)[k := h']\<rparr>))
         else
           (let h' = h\<lparr>wh_contexts := (wh_contexts h)[i := fst d], wh_values := (wh_values h)[i := v], wh_remaining := wh_remaining h - 1\<rparr>;
                w' = w\<lparr>w_whens := (w_whens w)[k := h']\<rparr>
            in if wh_remaining h' = 0 then fireWith p (Done (wh_master h)) (Ctx_array (wh_contexts h'), wh_values h') w' else w'))"

subsection \<open>Steps\<close>

definition call_user :: "program \<Rightarrow> nat \<Rightarrow> data \<Rightarrow> world \<Rightarrow> world" where
  "call_user p n d w =
     push (Commands (fst (p_script p n d)) (snd (p_script p n d))) (w\<lparr>w_log := w_log w @ [(n, d)]\<rparr>)"

text \<open>A function of a list is called.\<close>

fun run_cb :: "program \<Rightarrow> jcb \<Rightarrow> data \<Rightarrow> world \<Rightarrow> world" where
  "run_cb p (User n) d w = call_user p n d w"
| "run_cb p (Set_state e s) d w = w\<lparr>w_states := (w_states w)(e := s), w_ret := JUndefined\<rparr>"
| "run_cb p (Disable_list l) d w = (set_list l (disable_list (w_lists w l)) w)\<lparr>w_ret := JUndefined\<rparr>"
| "run_cb p (Lock_list l) d w = (set_list l (lock_list (w_lists w l)) w)\<lparr>w_ret := JUndefined\<rparr>"
| "run_cb p (Forward l) d w = fireWith p l d (push (Return JUndefined) w)"
| "run_cb p (Handler n i e new) d w = call_user p n d (push (Handled i e new d) w)"
| "run_cb p (Update k i progress) d w = update p k i progress d (push (Return JUndefined) w)"

fun do_cmd :: "program \<Rightarrow> cmd \<Rightarrow> world \<Rightarrow> world" where
  "do_cmd p (Add l as) w = add p l (flat_args as) w"
| "do_cmd p (Remove n fs) w = set_list (Plain n) (remove (map User fs) (w_lists w (Plain n))) w"
| "do_cmd p (Empty n) w = set_list (Plain n) (empty_list (w_lists w (Plain n))) w"
| "do_cmd p (Disable n) w = set_list (Plain n) (disable_list (w_lists w (Plain n))) w"
| "do_cmd p (Lock n) w = set_list (Plain n) (lock_list (w_lists w (Plain n))) w"
| "do_cmd p (Fire_with l c args) w = fireWith p l (c, args) w"
| "do_cmd p (New_deferred fn) w =
     (let (d, w') = Deferred p w
      in case fn of None \<Rightarrow> w' | Some n \<Rightarrow> call_user p n (Ctx_deferred d, [JPromise d]) w')"
| "do_cmd p (Then d f g h) w = then_on p d f g h w"
| "do_cmd p (Always d as) w = push (Adds [(Done d, flat_args as), (Fail d, flat_args as)]) w"
| "do_cmd p (When vs) w = all_when p vs w"

definition run_loop :: "program \<Rightarrow> lid \<Rightarrow> data \<Rightarrow> world \<Rightarrow> world" where
  "run_loop p l d w =
     (let c = w_lists w l
      in case c_list c of
           None \<Rightarrow> end_fire p l w
         | Some xs \<Rightarrow>
             if c_firingIndex c < c_firingLength c
             then (case aget xs (nat (c_firingIndex c)) of
                 None \<Rightarrow> throw TypeError w
               | Some f \<Rightarrow> run_cb p f d (push (Check l d) w))
             else end_fire p l w)"

definition check_returned :: "program \<Rightarrow> lid \<Rightarrow> data \<Rightarrow> world \<Rightarrow> world" where
  "check_returned p l d w =
     (let c = w_lists w l
      in if w_ret w = JBool False \<and> f_stopOnFalse (list_flags p l) then end_fire p l (set_list l (c\<lparr>c_memory := None\<rparr>) w)
         else push (Loop l d) (set_list l (c\<lparr>c_firingIndex := c_firingIndex c + 1\<rparr>) w))"

definition handled :: "program \<Rightarrow> nat \<Rightarrow> nat \<Rightarrow> nat \<Rightarrow> data \<Rightarrow> world \<Rightarrow> world" where
  "handled p i e new d w =
     (case promise_of (w_ret w) of
        Some q \<Rightarrow> push (Adds [(Done q, [Forward (Done new)]), (Fail q, [Forward (Fail new)]), (Progress q, [Forward (Progress new)])])
          (push (Return JUndefined) w)
      | None \<Rightarrow> fireWith p (tuple_list i new) (if fst d = Ctx_deferred e then Ctx_deferred new else fst d, [w_ret w])
          (push (Return JUndefined) w))"

fun run_frame :: "program \<Rightarrow> frame \<Rightarrow> world \<Rightarrow> world" where
  "run_frame p (Loop l d) w = run_loop p l d w"
| "run_frame p (Check l d) w = check_returned p l d w"
| "run_frame p (Adds []) w = w"
| "run_frame p (Adds ((l, fs) # as)) w = add p l fs (push (Adds as) w)"
| "run_frame p (Commands [] r) w = (case r of Inl e \<Rightarrow> throw e w | Inr v \<Rightarrow> w\<lparr>w_ret := v\<rparr>)"
| "run_frame p (Commands (c # cs) r) w = do_cmd p c (push (Commands cs r) w)"
| "run_frame p (Return v) w = w\<lparr>w_ret := v\<rparr>"
| "run_frame p (Handled i e new d) w = handled p i e new d w"
| "run_frame p (When_next k i) w = when_next p k i w"

definition step :: "program \<Rightarrow> world \<Rightarrow> world" where
  "step p w = (case w_stack w of [] \<Rightarrow> w | f # st \<Rightarrow> run_frame p f (w\<lparr>w_stack := st\<rparr>))"

text \<open>What happens: the application calls in when nothing is in progress, and what is in progress takes a step.\<close>

datatype jq_event = Call cmd | Step

definition advance :: "program \<Rightarrow> jq_event \<Rightarrow> world \<Rightarrow> world" where
  "advance p e w =
     (case e of
        Step \<Rightarrow> step p w
      | Call c \<Rightarrow> if w_stack w = [] then push (Commands [c] (Inr JUndefined)) w else w)"

text \<open>At most \<open>n\<close> steps of what is in progress, and a call with so many.\<close>

fun steps :: "program \<Rightarrow> nat \<Rightarrow> world \<Rightarrow> world" where
  "steps p 0 w = w"
| "steps p (Suc n) w = (if w_stack w = [] then w else steps p n (step p w))"

definition call_for :: "program \<Rightarrow> nat \<Rightarrow> cmd \<Rightarrow> world \<Rightarrow> world" where
  "call_for p n c w = steps p n (advance p (Call c) w)"

end
