(* ===== verification/JqProps.thy ===== *)
theory JqProps
  imports JqCallbacks
begin

text \<open>What holds of \<open>jQuery.Callbacks\<close> and \<open>jQuery.Deferred\<close>.\<close>

subsection \<open>Removing a function while the list is fired\<close>

text \<open>The list in two parts: the functions up to the one that is called now, and those that are still to
  be called.\<close>

definition parted :: "jcb list \<Rightarrow> jcb list \<Rightarrow> clist \<Rightarrow> bool" where
  "parted xs ys c \<longleftrightarrow> c_list c = Some (xs @ ys) \<and> c_firing c \<and>
     c_firingIndex c = int (length xs) - 1 \<and> c_firingLength c = int (length xs + length ys)"

lemma index_from_None: "index_from i f zs = None \<longleftrightarrow> f \<notin> set (drop i zs)"
proof -
  have "drop i zs = map (\<lambda>j. zs ! j) [i ..< length zs]" by (simp add: list_eq_iff_nth_eq)
  then show ?thesis by (auto simp: index_from_def find_None_iff)
qed

lemma index_from_first: "index_from i f zs = Some j \<Longrightarrow> i \<le> j \<and> j < length zs \<and> zs ! j = f \<and> f \<notin> set (take (j - i) (drop i zs))"
proof -
  assume a: "index_from i f zs = Some j"
  then have *: "i \<le> j" "j < length zs" "zs ! j = f" using index_fromD by blast+
  have "f \<notin> set (take (j - i) (drop i zs))"
  proof
    assume "f \<in> set (take (j - i) (drop i zs))"
    then obtain k where k: "k < j - i" "zs ! (i + k) = f" using * by (auto simp: in_set_conv_nth)
    from a obtain m where m: "m < length [i ..< length zs]" "[i ..< length zs] ! m = j" "\<forall>n < m. zs ! ([i ..< length zs] ! n) \<noteq> f"
      by (auto simp: index_from_def find_Some_iff)
    then have "m = j - i" by auto
    then show False using m k * by auto
  qed
  then show ?thesis using * by blast
qed

lemma remove_parted:
  assumes "parted xs ys c" "f \<notin> set (take i (xs @ ys))"
  shows "parted (filter (\<lambda>g. g \<noteq> f) xs) (filter (\<lambda>g. g \<noteq> f) ys) (remove_loop f i c)"
  using assms
proof (induction "length (xs @ ys)" arbitrary: xs ys i c rule: less_induct)
  case less
  let ?zs = "xs @ ys"
  have list: "c_list c = Some ?zs" using less.prems(1) by (simp add: parted_def)
  show ?case
  proof (cases "index_from i f ?zs")
    case None
    then have "f \<notin> set (drop i ?zs)" by (simp add: index_from_None)
    then have "f \<notin> set ?zs" using less.prems(2) by (metis Un_iff append_take_drop_id set_append)
    then have "filter (\<lambda>g. g \<noteq> f) xs = xs" "filter (\<lambda>g. g \<noteq> f) ys = ys" by (auto simp: filter_id_conv)
    moreover have "remove_loop f i c = c" using list None by (subst remove_loop.simps) simp
    ultimately show ?thesis using less.prems(1) by simp
  next
    case (Some j)
    note j = index_from_first [OF Some]
    have before: "f \<notin> set (take j ?zs)"
    proof -
      have "take j ?zs = take i ?zs @ take (j - i) (drop i ?zs)"
        using j by (metis le_add_diff_inverse take_add)
      then show ?thesis using less.prems(2) j by simp
    qed
    let ?c = "c\<lparr>c_list := Some (remove_at j ?zs),
      c_firingLength := c_firingLength c - (if c_firing c \<and> int j \<le> c_firingLength c then 1 else 0),
      c_firingIndex := c_firingIndex c - (if c_firing c \<and> int j \<le> c_firingIndex c then 1 else 0)\<rparr>"
    have run: "remove_loop f i c = remove_loop f j ?c" using list Some by (subst remove_loop.simps) simp
    show ?thesis
    proof (cases "j < length xs")
      case True
      let ?xs = "remove_at j xs"
      have "xs ! j = f" using j True by (simp add: nth_append)
      then have xs: "xs = take j xs @ f # drop (Suc j) xs" using id_take_nth_drop [OF True] by simp
      have "parted ?xs ys ?c"
        using less.prems(1) True by (auto simp: parted_def remove_at_def)
      moreover have "f \<notin> set (take j (?xs @ ys))"
        using before True by (simp add: remove_at_def)
      ultimately have "parted (filter (\<lambda>g. g \<noteq> f) ?xs) (filter (\<lambda>g. g \<noteq> f) ys) (remove_loop f j ?c)"
        using True by (intro less.hyps) (auto simp: remove_at_def)
      moreover have "filter (\<lambda>g. g \<noteq> f) ?xs = filter (\<lambda>g. g \<noteq> f) xs"
        by (subst (2) xs) (simp add: remove_at_def)
      ultimately show ?thesis using run by simp
    next
      case False
      let ?k = "j - length xs" let ?ys = "remove_at ?k ys"
      have k: "?k < length ys" "ys ! ?k = f" using j False by (auto simp: nth_append)
      then have ys: "ys = take ?k ys @ f # drop (Suc ?k) ys" using id_take_nth_drop [OF k(1)] by simp
      have "parted xs ?ys ?c"
        using less.prems(1) False k by (auto simp: parted_def remove_at_def Suc_diff_le)
      moreover have "f \<notin> set (take j (xs @ ?ys))"
        using before False k by (simp add: remove_at_def min_def)
      ultimately have "parted (filter (\<lambda>g. g \<noteq> f) xs) (filter (\<lambda>g. g \<noteq> f) ?ys) (remove_loop f j ?c)"
        using k by (intro less.hyps) (auto simp: remove_at_def)
      moreover have "filter (\<lambda>g. g \<noteq> f) ?ys = filter (\<lambda>g. g \<noteq> f) ys"
        by (subst (2) ys) (simp add: remove_at_def)
      ultimately show ?thesis using run by simp
    qed
  qed
qed

text \<open>C30: removing functions from a list that is being fired neither skips nor repeats another one. What is still
  to be called is what was, without the functions removed, whichever they are.\<close>

theorem remove_while_firing:
  assumes "parted xs ys c"
  shows "parted (filter (\<lambda>g. g \<notin> set fs) xs) (filter (\<lambda>g. g \<notin> set fs) ys) (remove fs c)"
  using assms
proof (induction fs arbitrary: xs ys c)
  case Nil
  then show ?case by (simp add: remove_def)
next
  case (Cons f fs)
  have "parted (filter (\<lambda>g. g \<noteq> f) xs) (filter (\<lambda>g. g \<noteq> f) ys) (remove_loop f 0 c)"
    using remove_parted [OF Cons.prems, of f 0] by simp
  from Cons.IH [OF this] show ?case
    by (simp add: remove_def conj_commute)
qed

subsection \<open>What leaves a list, and a deferred, alone\<close>

lemma push_simps [simp]:
  "w_lists (push f w) = w_lists w" "w_states (push f w) = w_states w" "w_next (push f w) = w_next w"
  "w_stack (push f w) = f # w_stack w" "w_whens (push f w) = w_whens w" "w_log (push f w) = w_log w"
  by (simp_all add: push_def)

lemma set_list_simps [simp]:
  "w_states (set_list l c w) = w_states w" "w_next (set_list l c w) = w_next w"
  "w_stack (set_list l c w) = w_stack w" "w_whens (set_list l c w) = w_whens w"
  "w_log (set_list l c w) = w_log w"
  by (simp_all add: set_list_def)

lemma throw_simps [simp]:
  "w_lists (throw e w) = w_lists w" "w_states (throw e w) = w_states w" "w_next (throw e w) = w_next w" "w_stack (throw e w) = []"
  by (simp_all add: throw_def)

definition in_progress :: "lid \<Rightarrow> world \<Rightarrow> bool" where
  "in_progress l w \<longleftrightarrow> (\<exists>d. Loop l d \<in> set (w_stack w) \<or> Check l d \<in> set (w_stack w))"

text \<open>A list that counts as being fired, though no call in progress fires it.\<close>

definition stuck :: "lid \<Rightarrow> world \<Rightarrow> bool" where
  "stuck l w \<longleftrightarrow> c_firing (w_lists w l) \<and> \<not> in_progress l w"

lemma stuck_firing: "stuck l w \<Longrightarrow> c_firing (w_lists w l)"
  by (simp add: stuck_def)

lemma stuck_push [simp]: "stuck l (push f w) \<longleftrightarrow> stuck l w \<and> (\<forall>d. f \<noteq> Loop l d \<and> f \<noteq> Check l d)"
  by (auto simp: stuck_def in_progress_def)

lemma stuck_other: "stuck l w \<Longrightarrow> c_firing c \<or> l' \<noteq> l \<Longrightarrow> stuck l (set_list l' c w)"
  by (auto simp: stuck_def in_progress_def)

lemma stuck_same [simp]:
  "stuck l (w\<lparr>w_ret := v\<rparr>) = stuck l w" "stuck l (w\<lparr>w_states := st\<rparr>) = stuck l w" "stuck l (w\<lparr>w_whens := ws\<rparr>) = stuck l w"
  "stuck l (w\<lparr>w_log := lg\<rparr>) = stuck l w" "stuck l (w\<lparr>w_next := n\<rparr>) = stuck l w"
  by (simp_all add: stuck_def in_progress_def)

lemma stuck_throw: "stuck l w \<Longrightarrow> stuck l (throw e w)"
  by (simp add: stuck_def in_progress_def)

lemma stuck_begin: "stuck l w \<Longrightarrow> l' \<noteq> l \<Longrightarrow> stuck l (begin_fire p l' d w)"
  by (simp add: begin_fire_def stuck_other)

lemma stuck_fire: "stuck l w \<Longrightarrow> stuck l (fireWith p l' d w)"
  using stuck_firing [of l w]
  by (cases "l' = l") (auto simp: fireWith_def Let_def stuck_begin stuck_other stuck_throw split: option.split)

lemma stuck_add: "stuck l w \<Longrightarrow> stuck l (add p l' fs w)"
proof (cases "l' = l")
  case True
  then show "stuck l w \<Longrightarrow> stuck l (add p l' fs w)"
    using stuck_firing [of l w] by (auto simp: add_def Let_def stuck_other split: option.split)
next
  case False
  then show "stuck l w \<Longrightarrow> stuck l (add p l' fs w)"
    by (auto simp: add_def Let_def stuck_begin stuck_other split: option.split)
qed

lemma stuck_end: "stuck l w \<Longrightarrow> l' \<noteq> l \<Longrightarrow> stuck l (end_fire p l' w)"
  by (auto simp: end_fire_def Let_def stuck_begin stuck_other split: option.split list.split)

lemma stuck_Deferred: "stuck l w \<Longrightarrow> stuck l (snd (Deferred p w))"
  by (simp add: Deferred_def Let_def stuck_add)

lemma remove_loop_firing: "c_firing (remove_loop f i c) = c_firing c"
  by (induction f i c rule: remove_loop.induct) (subst remove_loop.simps, simp split: option.split)

lemma remove_firing: "c_firing (remove fs c) = c_firing c"
  unfolding remove_def by (induction fs arbitrary: c) (simp_all add: remove_loop_firing)

lemma stuck_update: "stuck l w \<Longrightarrow> stuck l (update p k i progress d w)"
  by (simp add: update_def Let_def stuck_fire)

lemma stuck_run_cb: "stuck l w \<Longrightarrow> stuck l (run_cb p f d w)"
proof -
  have l: "c_firing (disable_list c) = c_firing c" "c_firing (lock_list c) = c_firing c" for c
    by (simp_all add: disable_list_def lock_list_def Let_def)
  show "stuck l w \<Longrightarrow> stuck l (run_cb p f d w)"
    using stuck_firing [of l w]
    by (cases f) (auto simp: call_user_def stuck_fire stuck_update l intro: stuck_other)
qed

lemma stuck_do_cmd: "stuck l w \<Longrightarrow> stuck l (do_cmd p c w)"
proof (cases c)
  case (New_deferred fn)
  then show "stuck l w \<Longrightarrow> stuck l (do_cmd p c w)"
    using stuck_Deferred [of l w p] by (auto simp: call_user_def split: prod.split option.split)
next
  case (Then d f g h)
  then show "stuck l w \<Longrightarrow> stuck l (do_cmd p c w)"
    using stuck_Deferred [of l w p] by (auto simp: then_on_def split: prod.split)
next
  case (When vs)
  then show "stuck l w \<Longrightarrow> stuck l (do_cmd p c w)"
    using stuck_Deferred [of l w p] by (auto simp: all_when_def Let_def split: prod.split list.split jval.split)
qed (use stuck_firing [of l w] in \<open>auto simp: stuck_add stuck_fire remove_firing empty_list_def disable_list_def lock_list_def Let_def
      intro: stuck_other\<close>)

lemma stuck_frame:
  assumes "stuck l w" "\<And>d. f \<noteq> Loop l d" "\<And>d. f \<noteq> Check l d"
  shows "stuck l (run_frame p f w)"
proof (cases f)
  case (Loop l' d)
  then have "l' \<noteq> l" using assms(2) by blast
  then show ?thesis using assms(1) Loop
    by (auto simp: run_loop_def Let_def stuck_end stuck_throw split: option.split intro!: stuck_run_cb)
next
  case (Check l' d)
  then have "l' \<noteq> l" using assms(3) by blast
  then show ?thesis using assms(1) Check by (auto simp: check_returned_def Let_def stuck_end stuck_other)
next
  case (Adds as)
  then show ?thesis using assms by (cases as) (auto simp: stuck_add)
next
  case (Commands cs r)
  then show ?thesis using assms by (cases cs) (auto simp: stuck_throw stuck_do_cmd split: sum.split)
next
  case (Handled i e new d)
  then show ?thesis using assms by (auto simp: handled_def stuck_fire split: option.split)
next
  case (When_next k i)
  then show ?thesis using assms by (auto simp: when_next_def Let_def stuck_fire split: jval.split)
qed (use assms in simp_all)

interpretation stuck: machine "advance p" "stuck l" for p l
proof
  fix w e assume s: "stuck l w"
  show "stuck l (advance p e w)"
  proof (cases e)
    case (Call c)
    then show ?thesis using s by (simp add: advance_def)
  next
    case Step
    show ?thesis
    proof (cases "w_stack w")
      case (Cons f st)
      then have "stuck l (w\<lparr>w_stack := st\<rparr>)" "\<And>d. f \<noteq> Loop l d" "\<And>d. f \<noteq> Check l d"
        using s by (auto simp: stuck_def in_progress_def)
      then show ?thesis using Step Cons stuck_frame by (simp add: advance_def step_def)
    qed (use s Step in \<open>simp add: advance_def step_def\<close>)
  qed
qed

text \<open>C31: an exception in a function of a list ends the list. When a function that the list is calling throws,
  whatever is called later, no function of the list is called again: it counts as being fired for ever.\<close>

theorem exception_ends_list:
  assumes "in_progress l w" "c_firing (w_lists w l)" "w_stack w = Commands [] (Inl e) # st"
  shows "\<not> in_progress l (fold (advance p) events (step p w))"
proof -
  have "stuck l (step p w)" using assms by (simp add: step_def stuck_def in_progress_def)
  from stuck.inv_run [OF this] show ?thesis by (simp add: stuck_def)
qed

subsection \<open>Firing\<close>

lemma step_empty: "w_stack w = [] \<Longrightarrow> step p w = w"
  by (simp add: step_def)

lemma steps_funpow: "steps p n w = (step p ^^ n) w"
proof (induction n arbitrary: w)
  case (Suc n)
  have "(step p ^^ n) w = w" if "w_stack w = []" by (induction n) (simp_all add: step_empty that)
  then show ?case using Suc by (simp add: funpow_swap1 step_empty)
qed simp

text \<open>One function of a list: it is called, it returns, the loop goes on.\<close>

lemma call_one:
  assumes "w_stack w = Loop l d # st" "c_list (w_lists w l) = Some (map User ns)" "i < length ns"
    and "c_firingIndex (w_lists w l) = int i" "c_firingLength (w_lists w l) = int (length ns)"
    and "p_script p (ns ! i) d = ([], Inr v)" "v \<noteq> JBool False"
  shows "(step p ^^ 3) w = push (Loop l d) (set_list l ((w_lists w l)\<lparr>c_firingIndex := int i + 1\<rparr>)
    (w\<lparr>w_log := w_log w @ [(ns ! i, d)], w_ret := v, w_stack := st\<rparr>))"
proof -
  let ?w1 = "push (Commands [] (Inr v)) (push (Check l d) (w\<lparr>w_log := w_log w @ [(ns ! i, d)], w_stack := st\<rparr>))"
  have 1: "step p w = ?w1"
    using assms by (simp add: step_def run_loop_def Let_def aget_def call_user_def push_def)
  let ?w2 = "push (Check l d) (w\<lparr>w_log := w_log w @ [(ns ! i, d)], w_ret := v, w_stack := st\<rparr>)"
  have 2: "step p ?w1 = ?w2" by (simp add: step_def push_def)
  have 3: "step p ?w2 = push (Loop l d) (set_list l ((w_lists w l)\<lparr>c_firingIndex := int i + 1\<rparr>)
    (w\<lparr>w_log := w_log w @ [(ns ! i, d)], w_ret := v, w_stack := st\<rparr>))"
    using assms(4,7) by (simp add: step_def push_def check_returned_def Let_def)
  show ?thesis by (simp add: eval_nat_numeral 1 2 3)
qed

lemma loop_calls_all:
  assumes "w_stack w = Loop l d # st" "c_list (w_lists w l) = Some (map User ns)" "i \<le> length ns"
    and "c_firingIndex (w_lists w l) = int i" "c_firingLength (w_lists w l) = int (length ns)"
    and "\<And>n. n \<in> set ns \<Longrightarrow> \<exists>v. p_script p n d = ([], Inr v) \<and> v \<noteq> JBool False"
  shows "\<exists>w'. (step p ^^ (3 * (length ns - i))) w = w' \<and> w_stack w' = Loop l d # st \<and>
    w_log w' = w_log w @ map (\<lambda>n. (n, d)) (drop i ns) \<and> w_lists w' l = (w_lists w l)\<lparr>c_firingIndex := int (length ns)\<rparr>"
  using assms
proof (induction "length ns - i" arbitrary: w i)
  case 0
  then show ?case by simp
next
  case (Suc k)
  then have i: "i < length ns" by simp
  obtain v where v: "p_script p (ns ! i) d = ([], Inr v)" "v \<noteq> JBool False" using Suc.prems(6) i by (meson nth_mem)
  let ?v = "push (Loop l d) (set_list l ((w_lists w l)\<lparr>c_firingIndex := int i + 1\<rparr>)
    (w\<lparr>w_log := w_log w @ [(ns ! i, d)], w_ret := v, w_stack := st\<rparr>))"
  have one: "(step p ^^ 3) w = ?v" using call_one [OF Suc.prems(1,2) i Suc.prems(4,5) v] .
  have "\<exists>w'. (step p ^^ (3 * (length ns - Suc i))) ?v = w' \<and> w_stack w' = Loop l d # st \<and>
    w_log w' = w_log ?v @ map (\<lambda>n. (n, d)) (drop (Suc i) ns) \<and> w_lists w' l = (w_lists ?v l)\<lparr>c_firingIndex := int (length ns)\<rparr>"
    using Suc.hyps(2) Suc.prems i by (intro Suc.hyps(1)) (simp_all add: add.commute)
  moreover have "3 * (length ns - i) = 3 * (length ns - Suc i) + 3" using i by simp
  then have "(step p ^^ (3 * (length ns - i))) w = (step p ^^ (3 * (length ns - Suc i))) ?v"
    by (simp only: funpow_add o_apply one)
  moreover have "w_log ?v = w_log w @ [(ns ! i, d)]" by simp
  moreover have "drop i ns = ns ! i # drop (Suc i) ns" using i by (simp add: Cons_nth_drop_Suc)
  ultimately show ?case by auto
qed

text \<open>C29: firing a list returns and calls each function once, in order, with the arguments given, when the functions
  only return and none returns \<open>false\<close>; then the list is not being fired any more.\<close>

theorem fire_calls_each_in_order:
  assumes "w_stack w = []" "known l w" "c_list (w_lists w l) = Some (map User ns)"
    and "\<not> c_firing (w_lists w l)" "c_firingStart (w_lists w l) = 0"
    and "\<not> c_fired (w_lists w l) \<and> c_stack (w_lists w l) = None \<or> c_stack (w_lists w l) = Some []"
    and "\<And>n. n \<in> set ns \<Longrightarrow> \<exists>v. p_script p n (c, args) = ([], Inr v) \<and> v \<noteq> JBool False"
  shows "w_stack (call_for p (3 * length ns + 3) (Fire_with l c args) w) = [] \<and>
    w_log (call_for p (3 * length ns + 3) (Fire_with l c args) w) = w_log w @ map (\<lambda>n. (n, (c, args))) ns \<and>
    \<not> c_firing (w_lists (call_for p (3 * length ns + 3) (Fire_with l c args) w) l)"
proof -
  let ?d = "(c, args)" and ?F = "step p"
  let ?w0 = "advance p (Call (Fire_with l c args)) w"
  let ?w1 = "begin_fire p l ?d (push (Commands [] (Inr JUndefined)) w)"
  have w0: "?w0 = push (Commands [Fire_with l c args] (Inr JUndefined)) w" using assms(1) by (simp add: advance_def)
  have same: "w\<lparr>w_stack := []\<rparr> = w" using assms(1) by (cases w) simp
  have w1: "?F ?w0 = ?w1"
    unfolding w0 using assms same by (auto simp: step_def fireWith_def Let_def push_def known_def split: lid.splits)
  have st: "w_stack ?w1 = Loop l ?d # [Commands [] (Inr JUndefined)]" "w_log ?w1 = w_log w"
    using assms(1) by (simp_all add: begin_fire_def)
  have l1: "w_lists ?w1 l = start_fire (list_flags p l) ?d (w_lists w l)" by (simp add: begin_fire_def)
  have "\<exists>w'. (?F ^^ (3 * (length ns - 0))) ?w1 = w' \<and> w_stack w' = Loop l ?d # [Commands [] (Inr JUndefined)] \<and>
      w_log w' = w_log ?w1 @ map (\<lambda>n. (n, ?d)) (drop 0 ns) \<and> w_lists w' l = (w_lists ?w1 l)\<lparr>c_firingIndex := int (length ns)\<rparr>"
    using assms by (intro loop_calls_all st) (simp_all add: l1 start_fire_def)
  then obtain w2 where w2: "(?F ^^ (3 * length ns)) ?w1 = w2" "w_stack w2 = Loop l ?d # [Commands [] (Inr JUndefined)]"
      "w_log w2 = w_log w @ map (\<lambda>n. (n, ?d)) ns" "w_lists w2 l = (w_lists ?w1 l)\<lparr>c_firingIndex := int (length ns)\<rparr>"
    using st by auto
  let ?w3 = "?F w2"
  have w3: "w_stack ?w3 = [Commands [] (Inr JUndefined)] \<and> w_log ?w3 = w_log w @ map (\<lambda>n. (n, ?d)) ns \<and> \<not> c_firing (w_lists ?w3 l)"
    using w2 assms(3,6)
    by (auto simp: step_def run_loop_def Let_def end_fire_def l1 start_fire_def disable_list_def)
  have w4: "w_stack (?F ?w3) = [] \<and> w_log (?F ?w3) = w_log ?w3 \<and> w_lists (?F ?w3) l = w_lists ?w3 l"
    using w3 by (simp add: step_def)
  have "call_for p (3 * length ns + 3) (Fire_with l c args) w = ?F ?w3"
  proof -
    have "3 * length ns + 3 = Suc (Suc (3 * length ns + Suc 0))" by simp
    then have "(?F ^^ (3 * length ns + 3)) ?w0 = ?F (?F ((?F ^^ (3 * length ns)) (?F ?w0)))"
      by (simp only: funpow.simps(2) o_apply funpow_add funpow_0)
    then show ?thesis unfolding call_for_def steps_funpow using w1 w2(1) by simp
  qed
  then show ?thesis using w3 w4 by simp
qed

end
