(* ===== verification/JqDeferred.thy ===== *)
theory JqDeferred
  imports JqProps
begin

text \<open>
  A deferred settles at most once. Its lists start with functions that note the state and disable
  the list of the other outcome; the invariant follows the few steps in which they run.
\<close>

subsection \<open>The lists of a deferred\<close>

definition own :: "bool \<Rightarrow> nat \<Rightarrow> lid" where
  "own b d = (if b then Done d else Fail d)"

definition outcome :: "bool \<Rightarrow> settled" where
  "outcome b = (if b then Resolved else Rejected)"

definition internal :: "lid \<Rightarrow> jcb list" where
  "internal l =
     (case l of
        Done d \<Rightarrow> [Set_state d Resolved, Disable_list (Fail d), Lock_list (Progress d)]
      | Fail d \<Rightarrow> [Set_state d Rejected, Disable_list (Done d), Lock_list (Progress d)]
      | _ \<Rightarrow> [])"

fun external :: "jcb \<Rightarrow> bool" where
  "external (Set_state d s) = False"
| "external (Disable_list l) = False"
| "external (Lock_list l) = False"
| "external _ = True"

lemma own_simps [simp]:
  "own b d = own b' d' \<longleftrightarrow> b = b' \<and> d = d'" "own b d \<noteq> Plain n" "own b d \<noteq> Progress n"
  "Plain n \<noteq> own b d" "Progress n \<noteq> own b d"
  by (auto simp: own_def)

lemma outcome_simps [simp]: "outcome b \<noteq> Pending" "outcome b = outcome b' \<longleftrightarrow> b = b'"
  by (auto simp: outcome_def)

lemma internal_own: "internal (own b d) = [Set_state d (outcome b), Disable_list (own (\<not> b) d), Lock_list (Progress d)]"
  by (simp add: own_def outcome_def internal_def)

lemma own_flags [simp]:
  "f_unique (list_flags p (own b d)) = False" "f_stopOnFalse (list_flags p (own b d)) = False"
  by (simp_all add: own_def list_flags_def)

lemma own_cases: "(\<exists>b d. l = own b d) \<or> internal l = []"
  unfolding own_def internal_def by (cases l) (auto intro: exI [of _ True] exI [of _ False])

lemma known_own [simp]: "known (own b d) w \<longleftrightarrow> d < w_next w"
  by (simp add: known_def own_def)

lemma known_same [simp]:
  "known l (push f w) = known l w" "known l (set_list l' c w) = known l w" "known l (w\<lparr>w_ret := v\<rparr>) = known l w"
  "known l (w\<lparr>w_whens := ws\<rparr>) = known l w" "known l (w\<lparr>w_log := lg\<rparr>) = known l w" "known l (w\<lparr>w_stack := st\<rparr>) = known l w"
  "known l (w\<lparr>w_states := ss\<rparr>) = known l w" "known l (throw e w) = known l w"
  by (simp_all add: known_def split: lid.split)

definition unfired :: "clist \<Rightarrow> bool" where
  "unfired c \<longleftrightarrow> \<not> c_fired c \<and> \<not> c_firing c \<and> c_memory c = None \<and> c_firingStart c = 0"

definition list_sound :: "lid \<Rightarrow> clist \<Rightarrow> bool" where
  "list_sound l c \<longleftrightarrow> (case c_list c of None \<Rightarrow> True | Some xs \<Rightarrow> \<forall>f \<in> set xs. external f \<or> f \<in> set (internal l))"

definition frame_sound :: "world \<Rightarrow> frame \<Rightarrow> bool" where
  "frame_sound w f \<longleftrightarrow>
     (case f of
        Loop l d \<Rightarrow> c_fired (w_lists w l)
      | Check l d \<Rightarrow> c_fired (w_lists w l)
      | Adds as \<Rightarrow> \<forall>(l, fs) \<in> set as. \<forall>g \<in> set fs. external g
      | _ \<Rightarrow> True)"

definition sound :: "world \<Rightarrow> bool" where
  "sound w \<longleftrightarrow> (\<forall>l. list_sound l (w_lists w l)) \<and> (\<forall>f \<in> set (w_stack w). frame_sound w f) \<and>
     (\<forall>l. \<not> known l w \<longrightarrow> unfired (w_lists w l) \<and> c_list (w_lists w l) = Some []) \<and>
     (\<forall>d \<ge> w_next w. w_states w d = Pending)"

text \<open>Not settled; settled; and between the two, when the first functions of a list run.\<close>

definition fresh :: "lid \<Rightarrow> world \<Rightarrow> bool" where
  "fresh l w \<longleftrightarrow> unfired (w_lists w l) \<and> (\<exists>xs. c_list (w_lists w l) = Some (internal l @ xs))"

definition unsettled :: "nat \<Rightarrow> world \<Rightarrow> bool" where
  "unsettled d w \<longleftrightarrow> w_states w d = Pending \<and> (\<forall>b. fresh (own b d) w)"

definition settled :: "bool \<Rightarrow> nat \<Rightarrow> world \<Rightarrow> bool" where
  "settled b d w \<longleftrightarrow> w_states w d = outcome b \<and> c_list (w_lists w (own (\<not> b) d)) = None"

definition turning :: "bool \<Rightarrow> nat \<Rightarrow> world \<Rightarrow> bool" where
  "turning b d w \<longleftrightarrow> (\<exists>data st xs. c_list (w_lists w (own b d)) = Some (internal (own b d) @ xs) \<and>
     c_firingLength (w_lists w (own b d)) = 3 + int (length xs) \<and>
     (w_stack w = Loop (own b d) data # st \<and> c_firingIndex (w_lists w (own b d)) = 0 \<and> w_states w d = Pending \<or>
      w_stack w = Check (own b d) data # st \<and> c_firingIndex (w_lists w (own b d)) = 0 \<and> w_states w d = outcome b \<or>
      w_stack w = Loop (own b d) data # st \<and> c_firingIndex (w_lists w (own b d)) = 1 \<and> w_states w d = outcome b))"

definition calm :: "nat \<Rightarrow> world \<Rightarrow> bool" where
  "calm d w \<longleftrightarrow> unsettled d w \<or> (\<exists>b. settled b d w)"

definition all_calm :: "world \<Rightarrow> bool" where
  "all_calm w \<longleftrightarrow> sound w \<and> (\<forall>d < w_next w. calm d w)"

definition phases :: "world \<Rightarrow> bool" where
  "phases w \<longleftrightarrow> sound w \<and> (\<forall>d < w_next w. calm d w \<or> (\<exists>b. turning b d w))"

lemma all_calm_phases: "all_calm w \<Longrightarrow> phases w"
  by (auto simp: all_calm_def phases_def)

subsection \<open>What operations do to it\<close>

lemma calm_cong:
  "w_states w d = w_states w' d \<Longrightarrow> (\<And>b. w_lists w (own b d) = w_lists w' (own b d)) \<Longrightarrow> calm d w = calm d w'"
  by (simp add: calm_def unsettled_def settled_def fresh_def)

lemma sound_push: "sound w \<Longrightarrow> frame_sound w f \<Longrightarrow> sound (push f w)"
  by (auto simp: sound_def frame_sound_def split: frame.splits)

lemma frame_sound_lists: "w_lists w = w_lists w' \<Longrightarrow> frame_sound w f = frame_sound w' f"
  by (cases f) (simp_all add: frame_sound_def)

lemma all_calm_push: "all_calm w \<Longrightarrow> frame_sound w f \<Longrightarrow> all_calm (push f w)"
  using calm_cong [of "push f w" _ w] by (simp add: all_calm_def sound_push)

lemma all_calm_same:
  assumes "all_calm w" "w_lists w' = w_lists w" "w_states w' = w_states w" "w_next w' = w_next w" "set (w_stack w') \<subseteq> set (w_stack w)"
  shows "all_calm w'"
proof -
  have "known l w' = known l w" for l using assms(4) by (simp add: known_def split: lid.split)
  moreover have "calm d w' = calm d w" for d using assms by (intro calm_cong) simp_all
  ultimately show ?thesis
    using assms frame_sound_lists [OF assms(2)] by (auto simp: all_calm_def sound_def)
qed

text \<open>A list that changes: its functions are those allowed, it stays fired, and a deferred's list that is not
  settled keeps its first functions.\<close>

lemma sound_set:
  assumes "sound w" "known l w" "list_sound l c" "c_fired (w_lists w l) \<Longrightarrow> c_fired c"
  shows "sound (set_list l c w)"
proof -
  have "frame_sound (set_list l c w) f" if "frame_sound w f" for f
    using that assms(4) by (auto simp: frame_sound_def split: frame.splits)
  then show ?thesis using assms by (auto simp: sound_def)
qed

lemma all_calm_set:
  assumes "all_calm w" "known l w" "list_sound l c" "c_fired (w_lists w l) \<Longrightarrow> c_fired c"
    and "c_list (w_lists w l) = None \<Longrightarrow> c_list c = None"
    and "\<And>b d. fresh l w \<Longrightarrow> l = own b d \<Longrightarrow> unfired c \<and> (\<exists>xs. c_list c = Some (internal l @ xs))"
  shows "all_calm (set_list l c w)"
proof -
  have "calm d (set_list l c w)" if "d < w_next w" for d
  proof -
    have "calm d w" using assms(1) that by (simp add: all_calm_def)
    then consider "unsettled d w" | b where "settled b d w" by (auto simp: calm_def)
    then show ?thesis
    proof cases
      case 1
      then have "fresh (own b d) (set_list l c w)" for b
        using assms(6) by (auto simp: unsettled_def fresh_def)
      then show ?thesis using 1 by (simp add: calm_def unsettled_def)
    next
      case (2 b)
      then have "settled b d (set_list l c w)" using assms(5) by (auto simp: settled_def)
      then show ?thesis by (auto simp: calm_def)
    qed
  qed
  then show ?thesis using assms by (auto simp: all_calm_def sound_set)
qed

text \<open>Firing a list: a deferred that is not settled turns.\<close>

lemma begin_phases:
  assumes "all_calm w" "known l w" "c_list (w_lists w l) \<noteq> None"
  shows "phases (begin_fire p l dat w)"
proof -
  let ?c = "start_fire (list_flags p l) dat (w_lists w l)" and ?w = "begin_fire p l dat w"
  have c: "c_list ?c = c_list (w_lists w l)" "c_fired ?c" by (simp_all add: start_fire_def)
  have "list_sound l (w_lists w l)" using assms(1) by (simp add: all_calm_def sound_def)
  then have "sound (set_list l ?c w)"
    using assms(1,2) c by (intro sound_set) (simp_all add: all_calm_def list_sound_def)
  then have sound: "sound ?w"
    unfolding begin_fire_def using c(2) by (intro sound_push) (simp_all add: frame_sound_def)
  have "calm d ?w \<or> (\<exists>b. turning b d ?w)" if d: "d < w_next w" for d
  proof -
    have "calm d w" using assms(1) d by (simp add: all_calm_def)
    then consider b where "unsettled d w" "l = own b d" | "unsettled d w" "\<forall>b. l \<noteq> own b d" | b where "settled b d w"
      by (auto simp: calm_def)
    then show ?thesis
    proof cases
      case (1 b)
      then obtain xs where "c_list (w_lists w l) = Some (internal l @ xs)" "c_firingStart (w_lists w l) = 0" "w_states w d = Pending"
        by (auto simp: unsettled_def fresh_def unfired_def)
      then have "turning b d ?w"
        using 1(2) by (auto simp: turning_def begin_fire_def start_fire_def internal_own)
      then show ?thesis by blast
    next
      case 2
      then have "unsettled d ?w" by (auto simp: unsettled_def fresh_def begin_fire_def)
      then show ?thesis by (simp add: calm_def)
    next
      case (3 b)
      then have "settled b d ?w" using c(1) assms(3) by (auto simp: settled_def begin_fire_def)
      then show ?thesis by (auto simp: calm_def)
    qed
  qed
  then show ?thesis using sound by (simp add: phases_def begin_fire_def)
qed

lemma all_calm_throw: "all_calm w \<Longrightarrow> all_calm (throw e w)"
  by (rule all_calm_same) simp_all

lemma fresh_unfired: "fresh l w \<Longrightarrow> unfired (w_lists w l)"
  by (simp add: fresh_def)

lemma list_sound_list: "all_calm w \<Longrightarrow> list_sound l (w_lists w l)"
  by (simp add: all_calm_def sound_def)

lemma fireWith_phases:
  assumes "all_calm w"
  shows "phases (fireWith p l dat w)"
proof (cases "known l w \<and> c_list (w_lists w l) \<noteq> None \<and> (\<not> c_fired (w_lists w l) \<or> c_stack (w_lists w l) \<noteq> None)")
  case fires: True
  show ?thesis
  proof (cases "c_firing (w_lists w l)")
    case True
    have "all_calm (set_list l (w_lists w l\<lparr>c_stack := Some st\<rparr>) w)" for st
      using fires True list_sound_list [OF assms, of l]
      by (intro all_calm_set assms) (auto simp: list_sound_def fresh_def unfired_def)
    then show ?thesis
      using fires True all_calm_throw [OF assms]
      by (auto simp: fireWith_def Let_def split: option.split intro: all_calm_phases)
  next
    case False
    then show ?thesis using fires begin_phases [OF assms] by (simp add: fireWith_def Let_def)
  qed
next
  case False
  then show ?thesis using assms by (auto simp: fireWith_def Let_def intro: all_calm_phases)
qed

lemma add_each_plain: "add_each False fs xs = xs @ fs"
  by (induction fs arbitrary: xs) simp_all

lemma set_add_each: "set (add_each u fs xs) \<subseteq> set xs \<union> set fs"
proof (induction fs arbitrary: xs)
  case (Cons f fs)
  from this [of "if u \<and> f \<in> set xs then xs else xs @ [f]"] show ?case by (auto split: if_splits)
qed simp

text \<open>Adding: the functions given are none of a deferred's own.\<close>

lemma add_phases:
  assumes "all_calm w" "\<forall>f \<in> set fs. external f"
  shows "phases (add p l fs w)"
proof (cases "if known l w then c_list (w_lists w l) else None")
  case None
  then show ?thesis using assms(1) by (auto simp: add_def Let_def intro: all_calm_phases)
next
  case (Some xs)
  then have k: "known l w" "c_list (w_lists w l) = Some xs" by (simp_all split: if_splits)
  let ?ys = "add_each (f_unique (list_flags p l)) fs xs"
  have ys: "\<forall>f \<in> set ?ys. external f \<or> f \<in> set (internal l)"
    using set_add_each [of "f_unique (list_flags p l)" fs xs] assms(2) list_sound_list [OF assms(1), of l] k
    by (auto simp: list_sound_def)
  have front: "\<exists>zs. ?ys = internal l @ zs" if "xs = internal l @ us" for us
    using own_cases [of l] that by (auto simp: add_each_plain)
  have calm: "all_calm (set_list l c w)"
    if "c_list c = Some ?ys" "c_fired c = c_fired (w_lists w l)" "unfired (w_lists w l) \<Longrightarrow> unfired c" for c
    using k ys front that by (intro all_calm_set assms(1)) (auto simp: list_sound_def fresh_def)
  have Some': "(if known l w then c_list (w_lists w l) else None) = Some xs" using k by simp
  show ?thesis
  proof (cases "c_firing (w_lists w l)")
    case True
    then have "phases (set_list l (w_lists w l\<lparr>c_list := Some ?ys, c_firingLength := int (length ?ys)\<rparr>) w)"
      by (intro all_calm_phases calm) (simp_all add: unfired_def)
    then show ?thesis using True unfolding add_def Let_def Some' option.case by simp
  next
    case False
    show ?thesis
    proof (cases "c_memory (w_lists w l)")
      case None
      have "phases (set_list l (w_lists w l\<lparr>c_list := Some ?ys\<rparr>) w)"
        by (intro all_calm_phases calm) (simp_all add: unfired_def)
      then show ?thesis using None False unfolding add_def Let_def Some' option.case by simp
    next
      case (Some m)
      have "phases (begin_fire p l m (set_list l (w_lists w l\<lparr>c_list := Some ?ys, c_firingStart := length xs\<rparr>) w))"
        using k Some by (intro begin_phases calm) (simp_all add: unfired_def)
      then show ?thesis
        using False Some unfolding add_def Let_def Some' option.case by simp
    qed
  qed
qed

text \<open>The end of firing a list that was fired.\<close>

lemma end_fire_phases:
  assumes "all_calm w" "c_fired (w_lists w l)"
  shows "phases (end_fire p l w)"
proof -
  have known: "known l w" using assms by (auto simp: all_calm_def sound_def unfired_def)
  have unfresh: "\<not> fresh l w" using assms(2) by (simp add: fresh_def unfired_def)
  have calm: "all_calm (set_list l c w)"
    if "c_fired c" "list_sound l c" "c_list (w_lists w l) = None \<Longrightarrow> c_list c = None" for c
    using known unfresh that by (intro all_calm_set assms(1)) simp_all
  have ls: "list_sound l (w_lists w l)" by (rule list_sound_list [OF assms(1)])
  let ?c = "(w_lists w l)\<lparr>c_firing := False\<rparr>"
  have again: "set_list l c (set_list l c' w) = set_list l c w" for c c' by (simp add: set_list_def)
  have c: "all_calm (set_list l ?c w)" using ls assms(2) by (intro calm) (simp_all add: list_sound_def)
  show ?thesis
  proof (cases "c_list ?c")
    case None
    then show ?thesis using c by (simp add: end_fire_def Let_def all_calm_phases)
  next
    case (Some xs)
    have fires_next: "phases (begin_fire p l d (set_list l (?c\<lparr>c_stack := Some st\<rparr>) w))" for d st
      using ls assms(2) Some known by (intro begin_phases calm) (simp_all add: list_sound_def)
    have emptied: "phases (set_list l (?c\<lparr>c_list := Some []\<rparr>) w)"
      using assms(2) Some by (intro all_calm_phases calm) (simp_all add: list_sound_def)
    have disabled: "phases (set_list l (disable_list ?c) w)"
      using assms(2) by (intro all_calm_phases calm) (simp_all add: list_sound_def disable_list_def)
    show ?thesis
    proof (cases "c_stack ?c")
      case None
      then show ?thesis using Some emptied disabled by (simp add: end_fire_def Let_def again)
    next
      case st: (Some st)
      then show ?thesis
        using Some fires_next c by (cases st) (auto simp: end_fire_def Let_def again all_calm_phases)
    qed
  qed
qed

subsection \<open>Steps\<close>

lemma Deferred_calm:
  assumes "all_calm w"
  shows "all_calm (snd (Deferred p w)) \<and> w_next (snd (Deferred p w)) = Suc (w_next w)"
proof -
  let ?d = "w_next w" and ?w = "w\<lparr>w_next := Suc (w_next w)\<rparr>"
  have new: "unfired (w_lists w (own b ?d))" "c_list (w_lists w (own b ?d)) = Some []" for b
    using assms by (simp_all add: all_calm_def sound_def)
  let ?c = "\<lambda>b. (w_lists w (own b ?d))\<lparr>c_list := Some (internal (own b ?d))\<rparr>"
  have added: "add p (own b ?d) (internal (own b ?d)) v = set_list (own b ?d) ((w_lists v (own b ?d))\<lparr>c_list := Some (internal (own b ?d))\<rparr>) v"
    if "w_lists v (own b ?d) = w_lists w (own b ?d)" "w_next v = Suc ?d" for v b
    using new [of b] that by (simp add: add_def Let_def add_each_plain unfired_def)
  have own: "Done ?d = own True ?d" "Fail ?d = own False ?d" by (simp_all add: own_def)
  have internals: "[Set_state ?d Rejected, Disable_list (Done ?d), Lock_list (Progress ?d)] = internal (Fail ?d)"
    "[Set_state ?d Resolved, Disable_list (Fail ?d), Lock_list (Progress ?d)] = internal (Done ?d)" by (simp_all add: internal_def)
  have run: "snd (Deferred p w) = set_list (own False ?d) (?c False) (set_list (own True ?d) (?c True) ?w)"
    unfolding Deferred_def Let_def snd_conv internals unfolding own by (simp add: added)
  have known: "known l w \<Longrightarrow> known l (w\<lparr>w_next := Suc ?d\<rparr>)" for l by (auto simp: known_def split: lid.splits)
  have "frame_sound ?w f = frame_sound w f" for f by (rule frame_sound_lists) simp
  moreover have "unfired (w_lists w l) \<and> c_list (w_lists w l) = Some []" if "\<not> known l ?w" for l
  proof -
    have "\<not> known l w" using that known by blast
    then show ?thesis using assms unfolding all_calm_def sound_def by blast
  qed
  ultimately have "sound ?w"
    using assms by (simp add: all_calm_def sound_def)
  then have sound: "sound (snd (Deferred p w))"
    unfolding run using new by (intro sound_set) (auto simp: list_sound_def)
  have "calm d (snd (Deferred p w))" if "d < Suc ?d" for d
  proof (cases "d = ?d")
    case True
    have "w_states w ?d = Pending" using assms by (simp add: all_calm_def sound_def)
    moreover have "fresh (own b ?d) (snd (Deferred p w))" for b
      using new unfolding run by (cases b) (auto simp: fresh_def unfired_def)
    ultimately show ?thesis using True by (simp add: calm_def unsettled_def run)
  next
    case False
    have "calm d (snd (Deferred p w)) = calm d w" unfolding run using False by (intro calm_cong) simp_all
    then show ?thesis using assms that False by (simp add: all_calm_def)
  qed
  then show ?thesis using sound by (simp add: all_calm_def run)
qed

lemma fired_known: "all_calm w \<Longrightarrow> c_fired (w_lists w l) \<Longrightarrow> known l w"
  unfolding all_calm_def sound_def unfired_def by blast

lemma call_user_calm: "all_calm w \<Longrightarrow> all_calm (call_user p n d w)"
  unfolding call_user_def by (intro all_calm_push; (rule all_calm_same, assumption)?) (simp_all add: frame_sound_def)

lemma update_phases:
  assumes "all_calm w"
  shows "phases (update p k i progress d w)"
proof -
  have same: "all_calm (w\<lparr>w_whens := ws\<rparr>)" for ws by (rule all_calm_same [OF assms]) simp_all
  have both: "phases x \<Longrightarrow> phases y \<Longrightarrow> phases (if b then x else y)" for b x y by simp
  show ?thesis
    unfolding update_def Let_def by (intro both fireWith_phases all_calm_phases same)
qed

text \<open>Calling a function of a list that is being fired, while no deferred turns.\<close>

lemma run_cb_phases:
  assumes "all_calm w" "c_fired (w_lists w l)" "c_list (w_lists w l) \<noteq> None" "external f \<or> f \<in> set (internal l)"
  shows "phases (run_cb p f d w)"
proof (cases "external f")
  case True
  have pushed: "all_calm (push (Return JUndefined) w)" by (intro all_calm_push assms(1)) (simp add: frame_sound_def)
  show ?thesis
  proof (cases f)
    case (User n)
    then show ?thesis using call_user_calm [OF assms(1)] by (simp add: all_calm_phases)
  next
    case (Handler n i e new)
    then show ?thesis
      using call_user_calm [OF all_calm_push [OF assms(1)]] by (simp add: all_calm_phases frame_sound_def)
  qed (use True pushed in \<open>simp_all add: fireWith_phases update_phases\<close>)
next
  case False
  then obtain b e where l: "l = own b e" "f \<in> set (internal (own b e))"
    using own_cases [of l] assms(4) by auto
  have known: "e < w_next w" using fired_known [OF assms(1,2)] l by simp
  moreover have "\<not> unsettled e w" using assms(2) l by (auto simp: unsettled_def fresh_def unfired_def)
  ultimately obtain c where "settled c e w" using assms(1) by (auto simp: all_calm_def calm_def)
  moreover from this have "c = b" using assms(3) l by (cases "c = b") (auto simp: settled_def)
  ultimately have s: "w_states w e = outcome b" "c_list (w_lists w (own (\<not> b) e)) = None" by (simp_all add: settled_def)
  have ret: "all_calm (v\<lparr>w_ret := JUndefined\<rparr>)" if "all_calm v" for v
    by (rule all_calm_same [OF that]) simp_all
  have dis: "all_calm (set_list (own (\<not> b) e) (disable_list (w_lists w (own (\<not> b) e))) w)"
    using s(2) known by (intro all_calm_set assms(1)) (auto simp: disable_list_def list_sound_def fresh_def)
  have lock: "all_calm (set_list (Progress e) (lock_list (w_lists w (Progress e))) w)"
    using known list_sound_list [OF assms(1), of "Progress e"]
    by (intro all_calm_set assms(1)) (auto simp: lock_list_def Let_def disable_list_def list_sound_def known_def)
  from l(2) consider "f = Set_state e (outcome b)" | "f = Disable_list (own (\<not> b) e)" | "f = Lock_list (Progress e)"
    by (auto simp: internal_own)
  then show ?thesis
  proof cases
    case 1
    have "all_calm (w\<lparr>w_states := (w_states w)(e := outcome b), w_ret := JUndefined\<rparr>)"
      using s(1) by (intro all_calm_same [OF assms(1)]) (simp_all add: fun_upd_idem)
    then show ?thesis using 1 by (simp add: all_calm_phases)
  next
    case 2
    then show ?thesis using ret [OF dis] by (simp add: all_calm_phases)
  next
    case 3
    then show ?thesis using ret [OF lock] by (simp add: all_calm_phases)
  qed
qed

lemma external_args: "f \<in> set (flat_args as) \<Longrightarrow> external f"
  by (induction as rule: flat_args.induct) auto

lemma then_cb_external: "external (then_cb i d new fn)"
  by (simp add: then_cb_def split: option.split)

lemma all_calm_set_plain:
  assumes "all_calm w" "c_fired c = c_fired (w_lists w (Plain n))" "list_sound (Plain n) c"
    "c_list (w_lists w (Plain n)) = None \<Longrightarrow> c_list c = None"
  shows "all_calm (set_list (Plain n) c w)"
  using assms by (intro all_calm_set) (simp_all add: known_def)

text \<open>Emptying brings a disabled list back, which only a list of its own can be.\<close>

lemma all_calm_empty: "all_calm w \<Longrightarrow> all_calm (set_list (Plain n) (empty_list c) w)" if "c = w_lists w (Plain n)"
proof -
  assume w: "all_calm w"
  have "calm d (set_list (Plain n) (empty_list c) w) = calm d w" for d by (intro calm_cong) simp_all
  moreover have "sound (set_list (Plain n) (empty_list c) w)"
    using w that by (intro sound_set) (simp_all add: all_calm_def known_def list_sound_def empty_list_def)
  ultimately show "all_calm (set_list (Plain n) (empty_list c) w)" using w by (simp add: all_calm_def)
qed

lemma remove_loop_sub:
  "c_fired (remove_loop f i c) = c_fired c \<and>
   (case c_list (remove_loop f i c) of None \<Rightarrow> c_list c = None | Some ys \<Rightarrow> \<exists>xs. c_list c = Some xs \<and> set ys \<subseteq> set xs)"
proof (induction f i c rule: remove_loop.induct)
  case (1 f i c)
  show ?case
  proof (cases "c_list c = None \<or> (\<exists>xs. c_list c = Some xs \<and> index_from i f xs = None)")
    case True
    then have "remove_loop f i c = c" by (subst remove_loop.simps) auto
    then show ?thesis by (simp split: option.split)
  next
    case False
    then obtain xs j where xs: "c_list c = Some xs" "index_from i f xs = Some j" by auto
    let ?c = "c\<lparr>c_list := Some (remove_at j xs),
      c_firingLength := c_firingLength c - (if c_firing c \<and> int j \<le> c_firingLength c then 1 else 0),
      c_firingIndex := c_firingIndex c - (if c_firing c \<and> int j \<le> c_firingIndex c then 1 else 0)\<rparr>"
    have run: "remove_loop f i c = remove_loop f j ?c" using xs by (subst remove_loop.simps) simp
    have sub: "set (remove_at j xs) \<subseteq> set xs" by (auto simp: remove_at_def dest: in_set_takeD in_set_dropD)
    obtain r where r: "remove_loop f j ?c = r" by blast
    show ?thesis using 1 [OF xs] xs sub unfolding run r by (cases "c_list r") auto
  qed
qed

lemma remove_sub:
  "c_fired (remove fs c) = c_fired c \<and>
   (case c_list (remove fs c) of None \<Rightarrow> c_list c = None | Some ys \<Rightarrow> \<exists>xs. c_list c = Some xs \<and> set ys \<subseteq> set xs)"
  unfolding remove_def
proof (induction fs arbitrary: c)
  case (Cons f fs)
  have "c_fired (fold (\<lambda>f c. remove_loop f 0 c) fs (remove_loop f 0 c)) = c_fired (remove_loop f 0 c)"
    using Cons by blast
  then show ?case
    using Cons [of "remove_loop f 0 c"] remove_loop_sub [of f 0 c] by (fastforce split: option.splits)
qed (simp split: option.split)

lemma do_cmd_phases:
  assumes "all_calm w"
  shows "phases (do_cmd p c w)"
proof (cases c)
  case (Add l as)
  then show ?thesis using add_phases [OF assms] external_args by simp
next
  case (Remove n fs)
  have "all_calm (set_list (Plain n) (remove (map User fs) (w_lists w (Plain n))) w)"
    using remove_sub [of "map User fs" "w_lists w (Plain n)"] list_sound_list [OF assms, of "Plain n"]
    by (intro all_calm_set_plain assms) (auto simp: list_sound_def split: option.splits)
  then show ?thesis using Remove by (simp add: all_calm_phases)
next
  case (Empty n)
  then show ?thesis using all_calm_empty [OF refl assms] by (simp add: all_calm_phases)
next
  case (Disable n)
  have "all_calm (set_list (Plain n) (disable_list (w_lists w (Plain n))) w)"
    by (intro all_calm_set_plain assms) (simp_all add: disable_list_def list_sound_def)
  then show ?thesis using Disable by (simp add: all_calm_phases)
next
  case (Lock n)
  have "all_calm (set_list (Plain n) (lock_list (w_lists w (Plain n))) w)"
    using list_sound_list [OF assms, of "Plain n"]
    by (intro all_calm_set_plain assms) (simp_all add: disable_list_def lock_list_def Let_def list_sound_def)
  then show ?thesis using Lock by (simp add: all_calm_phases)
next
  case (Fire_with l x args)
  then show ?thesis using fireWith_phases [OF assms] by simp
next
  case (New_deferred fn)
  then show ?thesis
    using Deferred_calm [OF assms, of p] call_user_calm
    by (auto simp: all_calm_phases split: prod.split option.split)
next
  case (Then d f g h)
  then show ?thesis
    using Deferred_calm [OF assms, of p]
    by (auto simp: then_on_def frame_sound_def then_cb_external split: prod.split intro!: all_calm_phases all_calm_push)
next
  case (Always d as)
  have "frame_sound w (Adds [(Done d, flat_args as), (Fail d, flat_args as)])"
    using external_args by (simp add: frame_sound_def)
  then show ?thesis using Always all_calm_push [OF assms] by (simp add: all_calm_phases)
next
  case (When vs)
  have one: "all_calm (w\<lparr>w_ret := v\<rparr>)" for v by (rule all_calm_same [OF assms]) simp_all
  obtain m w' where d: "Deferred p w = (m, w')" by (cases "Deferred p w")
  have "all_calm w'" using Deferred_calm [OF assms, of p] d by simp
  then have "all_calm (w'\<lparr>w_whens := hs\<rparr>)" for hs by (rule all_calm_same) simp_all
  then have "all_calm (push (When_next k i) (push (Return v) (w'\<lparr>w_whens := hs\<rparr>)))" for k i v hs
    by (intro all_calm_push) (simp_all add: frame_sound_def)
  then show ?thesis
    using When one d by (auto simp: all_when_def Let_def all_calm_phases split: list.split jval.split)
qed

lemma handled_phases: "all_calm w \<Longrightarrow> phases (handled p i e new d w)"
  unfolding handled_def
  by (cases "promise_of (w_ret w)")
    (auto simp: frame_sound_def intro!: fireWith_phases all_calm_push intro: all_calm_phases)

lemma when_next_phases:
  assumes "all_calm w"
  shows "phases (when_next p k i w)"
proof -
  have one: "phases (push (When_next k i) (w\<lparr>w_whens := hs\<rparr>))" for i hs
    by (intro all_calm_phases all_calm_push all_calm_same [OF assms]) (simp_all add: frame_sound_def)
  have two: "phases (push (Adds [(Done s, [Update k i False]), (Fail s, [Forward (Fail m)]), (Progress s, [Update k i True])])
      (push (When_next k (Suc i)) w))" for s m
    by (intro all_calm_phases all_calm_push assms) (simp_all add: frame_sound_def)
  show ?thesis
    using one two fireWith_phases [OF assms] all_calm_phases [OF assms]
    by (simp add: when_next_def Let_def split: jval.split)
qed

lemma sound_pop: "sound w \<Longrightarrow> w_stack w = f # st \<Longrightarrow> sound (w\<lparr>w_stack := st\<rparr>) \<and> frame_sound (w\<lparr>w_stack := st\<rparr>) f"
  using frame_sound_lists [of "w\<lparr>w_stack := st\<rparr>" w] by (simp add: sound_def)

lemma run_frame_phases:
  assumes w: "all_calm w" and f: "frame_sound w f"
  shows "phases (run_frame p f w)"
proof (cases f)
  case (Loop l d)
  then have fired: "c_fired (w_lists w l)" using f by (simp add: frame_sound_def)
  have check: "all_calm (push (Check l d) w)" using fired by (intro all_calm_push w) (simp add: frame_sound_def)
  have "phases (run_cb p g d (push (Check l d) w))" if "c_list (w_lists w l) = Some xs" "g \<in> set xs" for xs g
    using that list_sound_list [OF w, of l] fired by (intro run_cb_phases [OF check, of l]) (auto simp: list_sound_def)
  then show ?thesis
    using Loop end_fire_phases [OF w fired] all_calm_phases [OF all_calm_throw [OF w]]
    by (auto simp: run_loop_def Let_def aget_def split: option.split)
next
  case (Check l d)
  then have fired: "c_fired (w_lists w l)" using f by (simp add: frame_sound_def)
  have set: "all_calm (set_list l c w)" if "c_fired c" "c_list c = c_list (w_lists w l)" for c
    using that fired list_sound_list [OF w, of l] fired_known [OF w fired]
    by (intro all_calm_set w) (auto simp: list_sound_def fresh_def unfired_def)
  let ?c = "w_lists w l"
  have a: "phases (end_fire p l (set_list l (?c\<lparr>c_memory := None\<rparr>) w))"
    using fired by (intro end_fire_phases set) simp_all
  have b: "phases (push (Loop l d) (set_list l (?c\<lparr>c_firingIndex := c_firingIndex ?c + 1\<rparr>) w))"
    using fired by (intro all_calm_phases all_calm_push set) (simp_all add: frame_sound_def)
  show ?thesis using Check a b by (simp add: check_returned_def Let_def)
next
  case (Adds as)
  show ?thesis
  proof (cases as)
    case Nil
    then show ?thesis using Adds w by (simp add: all_calm_phases)
  next
    case (Cons a as')
    obtain l fs where a: "a = (l, fs)" by (cases a)
    have "all_calm (push (Adds as') w)" using f Adds Cons by (intro all_calm_push w) (simp add: frame_sound_def)
    then have "phases (add p l fs (push (Adds as') w))" using f Adds Cons a by (intro add_phases) (simp_all add: frame_sound_def)
    then show ?thesis using Adds Cons a by simp
  qed
next
  case (Commands cs r)
  have ret: "all_calm (w\<lparr>w_ret := v\<rparr>)" for v by (rule all_calm_same [OF w]) simp_all
  have "phases (do_cmd p c (push (Commands cs' r) w))" for c cs'
    by (intro do_cmd_phases all_calm_push w) (simp add: frame_sound_def)
  then show ?thesis
    using Commands ret all_calm_throw [OF w] by (cases cs) (auto simp: all_calm_phases split: sum.split)
next
  case (Return v)
  have "all_calm (w\<lparr>w_ret := v\<rparr>)" by (rule all_calm_same [OF w]) simp_all
  then show ?thesis using Return by (simp add: all_calm_phases)
next
  case (Handled i e new d)
  then show ?thesis using handled_phases [OF w] by simp
next
  case (When_next k i)
  then show ?thesis using when_next_phases [OF w] by simp
qed

text \<open>While a deferred turns, the steps run the first functions of its list.\<close>

lemma turning_step:
  assumes "phases w" "turning b d w" "d < w_next w"
  shows "phases (step p w)"
proof -
  let ?l = "own b d"
  have others: "calm e w" if "e < w_next w" "e \<noteq> d" for e
    using assms that by (auto simp: phases_def turning_def)
  have sound: "sound w" using assms(1) by (simp add: phases_def)
  obtain data st xs where l: "c_list (w_lists w ?l) = Some (internal ?l @ xs)" "c_firingLength (w_lists w ?l) = 3 + int (length xs)"
    and cases: "w_stack w = Loop ?l data # st \<and> c_firingIndex (w_lists w ?l) = 0 \<and> w_states w d = Pending \<or>
      w_stack w = Check ?l data # st \<and> c_firingIndex (w_lists w ?l) = 0 \<and> w_states w d = outcome b \<or>
      w_stack w = Loop ?l data # st \<and> c_firingIndex (w_lists w ?l) = 1 \<and> w_states w d = outcome b"
    using assms(2) unfolding turning_def by blast
  let ?w = "w\<lparr>w_stack := st\<rparr>"
  have st: "sound ?w" "c_fired (w_lists w ?l)"
    using cases sound sound_pop [OF sound] by (auto simp: frame_sound_def)
  from cases show ?thesis
  proof (elim disjE conjE)
    assume s: "w_stack w = Loop ?l data # st" "c_firingIndex (w_lists w ?l) = 0" "w_states w d = Pending"
    let ?t = "(push (Check ?l data) ?w)\<lparr>w_states := (w_states w)(d := outcome b), w_ret := JUndefined\<rparr>"
    have run: "step p w = ?t"
      using s l by (simp add: step_def run_loop_def Let_def aget_def internal_own)
    have "sound (push (Check ?l data) ?w)" using st by (intro sound_push) (simp_all add: frame_sound_def)
    then have "sound ?t"
      using assms(3) frame_sound_lists [of ?t "push (Check ?l data) ?w"] by (auto simp: sound_def)
    moreover have "turning b d ?t" using s l by (simp add: turning_def)
    moreover have "calm e ?t" if "e < w_next w" "e \<noteq> d" for e
      using others [OF that] calm_cong [of ?t e w] that by simp
    moreover have "w_next ?t = w_next w" by simp
    ultimately show ?thesis unfolding run phases_def by metis
  next
    assume s: "w_stack w = Check ?l data # st" "c_firingIndex (w_lists w ?l) = 0" "w_states w d = outcome b"
    let ?c = "(w_lists w ?l)\<lparr>c_firingIndex := 1\<rparr>"
    let ?t = "push (Loop ?l data) (set_list ?l ?c ?w)"
    have run: "step p w = ?t"
      using s l by (simp add: step_def check_returned_def Let_def)
    have "sound (set_list ?l ?c ?w)"
      using st assms(3) sound by (intro sound_set) (simp_all add: sound_def list_sound_def)
    then have "sound ?t" using st by (intro sound_push) (simp_all add: frame_sound_def)
    moreover have "turning b d ?t" using s l by (simp add: turning_def)
    moreover have "calm e ?t" if "e < w_next w" "e \<noteq> d" for e
      using others [OF that] calm_cong [of ?t e w] that by simp
    moreover have "w_next ?t = w_next w" by simp
    ultimately show ?thesis unfolding run phases_def by metis
  next
    assume s: "w_stack w = Loop ?l data # st" "c_firingIndex (w_lists w ?l) = 1" "w_states w d = outcome b"
    let ?m = "own (\<not> b) d"
    let ?t = "(set_list ?m (disable_list (w_lists w ?m)) (push (Check ?l data) ?w))\<lparr>w_ret := JUndefined\<rparr>"
    have run: "step p w = ?t"
      using s l by (simp add: step_def run_loop_def Let_def aget_def internal_own)
    have "sound (push (Check ?l data) ?w)" using st by (intro sound_push) (simp_all add: frame_sound_def)
    then have "sound (set_list ?m (disable_list (w_lists w ?m)) (push (Check ?l data) ?w))"
      using assms(3) by (intro sound_set) (simp_all add: list_sound_def disable_list_def)
    then have "sound ?t"
      using frame_sound_lists [of ?t "set_list ?m (disable_list (w_lists w ?m)) (push (Check ?l data) ?w)"] by (simp add: sound_def)
    moreover have "calm d ?t" using s by (auto simp: calm_def settled_def disable_list_def)
    moreover have "calm e ?t" if "e < w_next w" "e \<noteq> d" for e
      using others [OF that] calm_cong [of ?t e w] that by simp
    moreover have "w_next ?t = w_next w" by simp
    ultimately show ?thesis unfolding run phases_def by metis
  qed
qed

lemma phases_step: "phases w \<Longrightarrow> phases (step p w)"
proof (cases "\<exists>b. \<exists>d < w_next w. turning b d w")
  case True
  then show "phases w \<Longrightarrow> phases (step p w)" using turning_step by blast
next
  case False
  assume w: "phases w"
  then have calm: "all_calm w" using False by (auto simp: phases_def all_calm_def)
  show "phases (step p w)"
  proof (cases "w_stack w")
    case Nil
    then show ?thesis using w by (simp add: step_def)
  next
    case (Cons f st)
    have "all_calm (w\<lparr>w_stack := st\<rparr>)" using Cons by (intro all_calm_same [OF calm]) auto
    moreover have "frame_sound (w\<lparr>w_stack := st\<rparr>) f" using sound_pop [OF _ Cons] w by (simp add: phases_def)
    ultimately show ?thesis using Cons run_frame_phases by (simp add: step_def)
  qed
qed

interpretation deferreds: machine "advance p" phases for p
proof
  fix w e assume w: "phases w"
  have "all_calm w" if "w_stack w = []" using w that by (auto simp: phases_def all_calm_def turning_def)
  then have "phases (push (Commands [c] r) w)" if "w_stack w = []" for c r
    using that by (intro all_calm_phases all_calm_push) (simp_all add: frame_sound_def)
  then show "phases (advance p e w)"
    using w phases_step by (cases e) (simp_all add: advance_def)
qed

lemma phases_new: "phases (new_world p)"
  by (simp add: phases_def sound_def new_world_def w_lists_def list_sound_def new_list_def unfired_def)

subsection \<open>A deferred settles once\<close>

lemma states_kept [simp]:
  "w_states (begin_fire p l d w) = w_states w" "w_states (fireWith p l d w) = w_states w"
  "w_states (add p l fs w) = w_states w" "w_states (end_fire p l w) = w_states w"
  "w_states (snd (Deferred p w)) = w_states w" "w_states (call_user p n d w) = w_states w"
proof -
  show b: "w_states (begin_fire p l d w) = w_states w" for l d w by (simp add: begin_fire_def)
  show "w_states (fireWith p l d w) = w_states w" by (simp add: fireWith_def Let_def b split: option.split)
  show a: "w_states (add p l fs w) = w_states w" for l fs w by (simp add: add_def Let_def b split: option.split)
  show "w_states (end_fire p l w) = w_states w" by (simp add: end_fire_def Let_def b split: option.split list.split)
  show "w_states (snd (Deferred p w)) = w_states w" by (simp add: Deferred_def Let_def a)
  show "w_states (call_user p n d w) = w_states w" by (simp add: call_user_def)
qed

lemma update_states [simp]: "w_states (update p k i progress d w) = w_states w"
  by (simp add: update_def Let_def)

lemma do_cmd_states [simp]: "w_states (do_cmd p c w) = w_states w"
proof -
  obtain m w' where d: "Deferred p w = (m, w')" by (cases "Deferred p w")
  then have "w_states w' = w_states w" using states_kept(5) [of p w] by simp
  then show ?thesis
    using d by (cases c) (auto simp: then_on_def all_when_def Let_def split: option.split list.split jval.split)
qed

lemma run_cb_states: "w_states (run_cb p f d w) = (case f of Set_state e s \<Rightarrow> (w_states w)(e := s) | _ \<Rightarrow> w_states w)"
  by (cases f) simp_all

lemma frame_states:
  assumes "\<And>l d xs e s. f = Loop l d \<Longrightarrow> c_list (w_lists w l) = Some xs \<Longrightarrow> Set_state e s \<in> set xs \<Longrightarrow> P e s"
  shows "w_states (run_frame p f w) = w_states w \<or> (\<exists>e s. P e s \<and> w_states (run_frame p f w) = (w_states w)(e := s))"
proof (cases f)
  case (Loop l d)
  then show ?thesis
    using assms [OF Loop]
    by (auto simp: run_loop_def Let_def aget_def run_cb_states split: option.split jcb.split) (metis nth_mem)
next
  case (Adds as)
  then show ?thesis by (cases as) auto
next
  case (Commands cs r)
  then show ?thesis by (cases cs) (auto split: sum.split)
next
  case (Handled i e new d)
  then show ?thesis by (auto simp: handled_def split: option.split)
next
  case (When_next k i)
  then show ?thesis by (simp add: when_next_def Let_def split: jval.split)
qed (simp_all add: check_returned_def Let_def)

lemma step_settled:
  assumes "phases w" "w_states w d \<noteq> Pending"
  shows "w_states (step p w) d = w_states w d"
proof (cases "w_stack w")
  case (Cons f st)
  have sound: "sound w" using assms(1) by (simp add: phases_def)
  then have d: "d < w_next w" using assms(2) by (metis linorder_not_less sound_def)
  have same: "s = w_states w d" if "f = Loop l dat" "c_list (w_lists w l) = Some xs" "Set_state d s \<in> set xs" for l dat xs s
  proof -
    have "list_sound l (w_lists w l)" using sound by (simp add: sound_def)
    then have "Set_state d s \<in> set (internal l)" using that by (auto simp: list_sound_def)
    then obtain b where b: "l = own b d" "s = outcome b"
      using own_cases [of l] by (auto simp: internal_own)
    consider "unsettled d w" | c where "settled c d w" | c where "turning c d w"
      using assms(1) d by (auto simp: phases_def calm_def)
    then show ?thesis
    proof cases
      case 1
      then show ?thesis using assms(2) by (simp add: unsettled_def)
    next
      case (2 c)
      then have "c = b" using that b by (cases "c = b") (auto simp: settled_def)
      then show ?thesis using 2 b by (simp add: settled_def)
    next
      case (3 c)
      then have "w_states w d = outcome c" "c = b" using assms(2) that(1) b Cons by (auto simp: turning_def)
      then show ?thesis using b by simp
    qed
  qed
  let ?P = "\<lambda>e s. e = d \<longrightarrow> s = w_states w d"
  have "w_states (run_frame p f (w\<lparr>w_stack := st\<rparr>)) = w_states (w\<lparr>w_stack := st\<rparr>) \<or>
    (\<exists>e s. ?P e s \<and> w_states (run_frame p f (w\<lparr>w_stack := st\<rparr>)) = (w_states (w\<lparr>w_stack := st\<rparr>))(e := s))"
    using same by (intro frame_states) auto
  then show ?thesis using Cons by (auto simp: step_def)
qed (simp add: step_def)

text \<open>C28: a deferred settles at most once. Whatever its functions and other deferreds do, once it is resolved or
  rejected it stays so; and whenever no call is in progress, the list of the other outcome is disabled.\<close>

theorem deferred_settles_once:
  assumes "w = fold (advance p) before (new_world p)" "w_states w d = outcome b" "w' = fold (advance p) later w"
  shows "w_states w' d = outcome b \<and> (w_stack w' = [] \<longrightarrow> c_list (w_lists w' (own (\<not> b) d)) = None)"
proof -
  have start: "phases w" unfolding assms(1) by (rule deferreds.inv_run [OF phases_new])
  have "phases (fold (advance p) later w) \<and> w_states (fold (advance p) later w) d = outcome b"
  proof (induction later rule: rev_induct)
    case Nil
    then show ?case using start assms(2) by simp
  next
    case (snoc e es)
    let ?v = "fold (advance p) es w"
    have v: "phases ?v" "w_states ?v d = outcome b" using snoc by simp_all
    have "phases (advance p e ?v)" by (rule deferreds.inv_step [OF v(1)])
    moreover have "w_states (advance p e ?v) d = outcome b"
      using v step_settled [OF v(1), of d p] by (cases e) (auto simp: advance_def)
    ultimately show ?case by simp
  qed
  then have w': "phases w'" "w_states w' d = outcome b" unfolding assms(3) by simp_all
  moreover have "c_list (w_lists w' (own (\<not> b) d)) = None" if "w_stack w' = []"
  proof -
    have "w_states w' d \<noteq> Pending" using w' by simp
    moreover have "sound w'" using w'(1) by (simp add: phases_def)
    ultimately have "d < w_next w'" by (metis linorder_not_less sound_def)
    moreover have "\<not> turning c d w'" for c using that by (simp add: turning_def)
    ultimately consider "unsettled d w'" | c where "settled c d w'"
      using w'(1) unfolding phases_def calm_def by blast
    then show ?thesis using w'(2) by cases (auto simp: unsettled_def settled_def)
  qed
  ultimately show ?thesis by blast
qed

subsection \<open>Samples\<close>

text \<open>
  Function 0 does nothing, 1 returns a number, 2 throws, 3 empties the list of its own numbered 0, 4 returns
  the promise of deferred 0, 5 removes itself and function 0 from that list, 6 fires it again once.
\<close>

definition sample :: program where
  "sample =
     \<lparr>p_script = (\<lambda>n d.
        if n = 1 then ([], Inr (JNum 7)) else if n = 2 then ([], Inl (Thrown ''bad'')) else if n = 3 then ([Empty 0], Inr JUndefined)
        else if n = 4 then ([], Inr (JPromise 0)) else if n = 5 then ([Remove 0 [5, 0]], Inr JUndefined)
        else if n = 6 \<and> snd d = [] then ([Fire_with (Plain 0) Ctx_undefined [JNum 1]], Inr JUndefined) else ([], Inr JUndefined)),
      p_flags = (\<lambda>n. \<lparr>f_once = False, f_memory = (n = 1), f_unique = False, f_stopOnFalse = (n = 2)\<rparr>)\<rparr>"

definition calls :: "cmd list \<Rightarrow> world" where
  "calls cs = fold (call_for sample 60) cs (new_world sample)"

theorem remove_while_firing_witness:
  "parted [User 1] [User 4] (remove [User 2, User 3]
     \<lparr>c_memory = None, c_fired = True, c_firing = True, c_firingStart = 0, c_firingLength = 4, c_firingIndex = 1,
      c_list = Some [User 1, User 2, User 3, User 4], c_stack = None\<rparr>)"
proof -
  let ?c = "\<lparr>c_memory = None, c_fired = True, c_firing = True, c_firingStart = 0, c_firingLength = 4, c_firingIndex = 1,
      c_list = Some [User 1, User 2, User 3, User 4], c_stack = None\<rparr>"
  have "parted [User 1, User 2] [User 3, User 4] ?c" by (simp add: parted_def)
  from remove_while_firing [OF this, of "[User 2, User 3]"] show ?thesis by simp
qed

theorem exception_ends_list_witness:
  "let w = steps sample 2 (advance sample (Call (Fire_with (Plain 0) Ctx_undefined [])) (calls [Add (Plain 0) [Fn 2, Fn 0]]))
   in in_progress (Plain 0) w \<and> \<not> in_progress (Plain 0) (fold (advance sample) [Call (Fire_with (Plain 0) Ctx_undefined []), Step, Step]
        (step sample w))"
proof -
  let ?w = "steps sample 2 (advance sample (Call (Fire_with (Plain 0) Ctx_undefined [])) (calls [Add (Plain 0) [Fn 2, Fn 0]]))"
  have s: "w_stack ?w = Commands [] (Inl (Thrown ''bad'')) # [Check (Plain 0) (Ctx_undefined, []), Commands [] (Inr JUndefined)]"
    by code_simp
  have f: "c_firing (w_lists ?w (Plain 0))" by code_simp
  have p: "in_progress (Plain 0) ?w" by (auto simp: in_progress_def s)
  show ?thesis unfolding Let_def by (intro conjI p exception_ends_list [OF p f s])
qed

theorem fire_calls_each_in_order_witness:
  "w_log (call_for sample 9 (Fire_with (Plain 0) (Ctx 3) [JNum 2]) (calls [Add (Plain 0) [Fn 0, Fn 1]])) =
     [(0, (Ctx 3, [JNum 2])), (1, (Ctx 3, [JNum 2]))]"
proof -
  let ?w = "calls [Add (Plain 0) [Fn 0, Fn 1]]"
  have a: "w_stack ?w = []" "c_list (w_lists ?w (Plain 0)) = Some (map User [0, 1])" "\<not> c_firing (w_lists ?w (Plain 0))"
    "c_firingStart (w_lists ?w (Plain 0)) = 0" "c_stack (w_lists ?w (Plain 0)) = Some []" "w_log ?w = []"
    by code_simp+
  have k: "known (Plain 0) ?w" by (simp add: known_def)
  have r: "\<exists>v. p_script sample n (Ctx 3, [JNum 2]) = ([], Inr v) \<and> v \<noteq> JBool False" if "n \<in> set [0, 1]" for n
    using that by (auto simp: sample_def)
  have "w_log (call_for sample (3 * length [0 :: nat, 1] + 3) (Fire_with (Plain 0) (Ctx 3) [JNum 2]) ?w) =
      w_log ?w @ map (\<lambda>n. (n, (Ctx 3, [JNum 2]))) [0, 1]"
    using fire_calls_each_in_order [OF a(1) k a(2-4) disjI2 [OF a(5)] r] by blast
  then show ?thesis using a(6) by simp
qed

theorem deferred_settles_once_witness:
  "w_states (fold (advance sample) ([Call (Fire_with (Fail 0) Ctx_undefined [])] @ replicate 9 Step)
     (fold (advance sample) ([Call (New_deferred None), Step, Step, Call (Fire_with (Done 0) Ctx_undefined [])] @ replicate 9 Step)
       (new_world sample))) 0 = Resolved"
proof -
  let ?w = "fold (advance sample) ([Call (New_deferred None), Step, Step, Call (Fire_with (Done 0) Ctx_undefined [])] @ replicate 9 Step)
       (new_world sample)"
  have "w_states ?w 0 = Resolved" by code_simp
  then have "w_states ?w 0 = outcome True" by (simp only: outcome_def if_True)
  from deferred_settles_once [OF refl this refl] show ?thesis by (simp only: outcome_def if_True)
qed

text \<open>Emptying a list while it is fired makes the loop go on to functions that are gone.\<close>

theorem emptying_while_firing_throws:
  "w_thrown (calls [Add (Plain 0) [Fn 3, Fn 0], Fire_with (Plain 0) Ctx_undefined []]) = [TypeError]"
  by code_simp

text \<open>A list that a function fires again while it is fired goes through all of it first.\<close>

theorem nested_fire_comes_after:
  "map fst (w_log (calls [Add (Plain 0) [Fn 6, Fn 0], Fire_with (Plain 0) Ctx_undefined []])) = [6, 0, 6, 0]"
  by code_simp

text \<open>\<open>when\<close> passes the results in the order of its arguments, whatever the order they come in.\<close>

theorem when_keeps_the_order:
  "w_log (calls [New_deferred None, New_deferred None, When [JPromise 0, JNum 5, JPromise 1], Add (Done 2) [Fn 0],
     Fire_with (Done 1) (Ctx 1) [JNum 8], Fire_with (Done 0) (Ctx 0) [JNum 9, JNum 10]]) =
   [(0, (Ctx_array [Ctx 0, Ctx_undefined, Ctx 1], [JArray [JNum 9, JNum 10], JNum 5, JNum 8]))]"
  by code_simp

text \<open>\<open>then\<close> passes on what its function returns, and waits for a promise that it returns.\<close>

theorem then_passes_on:
  "w_log (calls [New_deferred None, New_deferred None, Then 1 (Some 4) None None, Add (Done 2) [Fn 0],
      Fire_with (Done 1) (Ctx 1) [], Fire_with (Done 0) (Ctx 0) [JNum 3]]) = [(4, (Ctx 1, [])), (0, (Ctx 0, [JNum 3]))] \<and>
   w_log (calls [New_deferred None, Then 0 (Some 1) None None, Add (Done 1) [Fn 0], Fire_with (Done 0) (Ctx_deferred 0) []]) =
     [(1, (Ctx_deferred 0, [])), (0, (Ctx_deferred 1, [JNum 7]))]"
  by code_simp

end
