(* ===== verification/JsNumber.thy ===== *)
theory JsNumber
  imports JsString
begin

text \<open>
  Numbers of the JavaScript standard library where fractions matter: what \<open>Number(text)\<close> reads, how
  numbers compare, and the text of a number. A number is the decimal \<open>m * 10 ^ e\<close> that was written; the
  rounding of a decimal with more than fifteen digits to the nearest double is not modelled.
\<close>

datatype jsnum =
    NaN
  | Infinite bool
  | Dec int int

abbreviation whole :: "int \<Rightarrow> jsnum" where
  "whole n \<equiv> Dec n 0"

subsection \<open>Comparison\<close>

text \<open>\<open>a <= b\<close>: false when one of them is not a number.\<close>

fun num_le :: "jsnum \<Rightarrow> jsnum \<Rightarrow> bool" where
  "num_le NaN b = False"
| "num_le a NaN = False"
| "num_le (Infinite pos) b = (if pos then b = Infinite True else True)"
| "num_le a (Infinite pos) = pos"
| "num_le (Dec a e) (Dec b f) =
     (if e \<le> f then a \<le> b * 10 ^ nat (f - e) else a * 10 ^ nat (e - f) \<le> b)"

instantiation jsnum :: ord
begin

definition less_eq_jsnum :: "jsnum \<Rightarrow> jsnum \<Rightarrow> bool" where
  "a \<le> b \<longleftrightarrow> num_le a b"

definition less_jsnum :: "jsnum \<Rightarrow> jsnum \<Rightarrow> bool" where
  "a < b \<longleftrightarrow> num_le a b \<and> \<not> num_le b a"

instance ..

end

lemma NaN_le [simp]: "\<not> NaN \<le> b" "\<not> a \<le> NaN"
  by (cases a; simp add: less_eq_jsnum_def)+

lemma whole_le [simp]: "whole a \<le> whole b \<longleftrightarrow> a \<le> b"
  by (simp add: less_eq_jsnum_def)

lemma num_le_refl: "a \<noteq> NaN \<Longrightarrow> (a :: jsnum) \<le> a"
  by (cases a) (simp_all add: less_eq_jsnum_def)

lemma Dec_le_scaled:
  assumes "k \<le> e" "k \<le> f"
  shows "Dec a e \<le> Dec b f \<longleftrightarrow> a * 10 ^ nat (e - k) \<le> b * 10 ^ nat (f - k)"
proof (cases "e \<le> f")
  case True
  then have "nat (f - k) = nat (f - e) + nat (e - k)" using assms by simp
  then show ?thesis using True
    by (simp add: less_eq_jsnum_def power_add mult.assoc [symmetric])
next
  case False
  then have "nat (e - k) = nat (e - f) + nat (f - k)" using assms by simp
  then show ?thesis using False
    by (simp add: less_eq_jsnum_def power_add mult.assoc [symmetric])
qed

lemma num_le_trans: "(a :: jsnum) \<le> b \<Longrightarrow> b \<le> c \<Longrightarrow> a \<le> c"
proof (cases "\<exists>m e n f p g. a = Dec m e \<and> b = Dec n f \<and> c = Dec p g")
  case True
  then obtain m e n f p g where d: "a = Dec m e" "b = Dec n f" "c = Dec p g" by blast
  let ?k = "min e (min f g)"
  have k: "?k \<le> e" "?k \<le> f" "?k \<le> g" by simp_all
  assume "a \<le> b" "b \<le> c"
  then show ?thesis
    unfolding d Dec_le_scaled [OF k(1,2)] Dec_le_scaled [OF k(2,3)] Dec_le_scaled [OF k(1,3)]
    by (rule order_trans)
next
  case False
  assume "a \<le> b" "b \<le> c"
  then show ?thesis using False
    by (cases a; cases b; cases c) (auto simp: less_eq_jsnum_def split: if_splits)
qed

lemma num_le_total: "a \<noteq> NaN \<Longrightarrow> b \<noteq> NaN \<Longrightarrow> (a :: jsnum) \<le> b \<or> b \<le> a"
  by (cases a; cases b) (auto simp: less_eq_jsnum_def)

definition num_truthy :: "jsnum \<Rightarrow> bool" where
  "num_truthy n = (case n of NaN \<Rightarrow> False | Infinite _ \<Rightarrow> True | Dec m _ \<Rightarrow> m \<noteq> 0)"

subsection \<open>Text to number\<close>

definition exponent_part :: "string \<Rightarrow> int option" where
  "exponent_part s =
     (case s of
        [] \<Rightarrow> Some 0
      | c # t \<Rightarrow>
          if c = CHR ''e'' \<or> c = CHR ''E'' then
            let neg = t \<noteq> [] \<and> hd t = CHR ''-'';
                ds = (if t \<noteq> [] \<and> (hd t = CHR ''-'' \<or> hd t = CHR ''+'') then tl t else t)
            in if ds \<noteq> [] \<and> list_all is_digit ds
               then Some ((if neg then -1 else 1) * int (digits_val 0 ds))
               else None
          else None)"

definition unsigned_number :: "string \<Rightarrow> jsnum" where
  "unsigned_number s =
     (if s = ''Infinity'' then Infinite True
      else
        let whole_part = takeWhile is_digit s;
            rest = dropWhile is_digit s;
            point = rest \<noteq> [] \<and> hd rest = CHR ''.'';
            fraction = (if point then takeWhile is_digit (tl rest) else []);
            rest' = (if point then dropWhile is_digit (tl rest) else rest)
        in if whole_part @ fraction = [] then NaN
           else case exponent_part rest' of
               None \<Rightarrow> NaN
             | Some e \<Rightarrow> Dec (int (digits_val 0 (whole_part @ fraction))) (e - int (length fraction)))"

fun negated :: "jsnum \<Rightarrow> jsnum" where
  "negated NaN = NaN"
| "negated (Infinite pos) = Infinite (\<not> pos)"
| "negated (Dec m e) = Dec (- m) e"

definition hex_chars :: string where
  "hex_chars = ''0123456789abcdef''"

definition hex_val :: "string \<Rightarrow> nat option" where
  "hex_val s =
     (if s = [] then None
      else fold (\<lambda>c acc. case (acc, map_of (zip hex_chars [0..<16]) (to_lower_char c)) of
                   (Some a, Some d) \<Rightarrow> Some (16 * a + d) | _ \<Rightarrow> None) s (Some 0))"

text \<open>\<open>Number(s)\<close>\<close>

definition text_number :: "string \<Rightarrow> jsnum" where
  "text_number s =
     (let t = js_trim s
      in if t = [] then whole 0
         else if starts_with ''0x'' t \<or> starts_with ''0X'' t
           then (case hex_val (drop 2 t) of None \<Rightarrow> NaN | Some n \<Rightarrow> whole (int n))
         else if hd t = CHR ''-'' then negated (unsigned_number (tl t))
         else if hd t = CHR ''+'' then unsigned_number (tl t)
         else unsigned_number t)"

subsection \<open>Number to text\<close>

text \<open>\<open>String(n)\<close>: the shortest digits, placed by the position of the point.\<close>

definition digits_text :: "string \<Rightarrow> int \<Rightarrow> string" where
  "digits_text ds n =
     (let k = int (length ds)
      in if k \<le> n \<and> n \<le> 21 then ds @ replicate (nat (n - k)) CHR ''0''
         else if 0 < n \<and> n \<le> 21 then take (nat n) ds @ ''.'' @ drop (nat n) ds
         else if - 6 < n \<and> n \<le> 0 then ''0.'' @ replicate (nat (- n)) CHR ''0'' @ ds
         else
           take 1 ds @ (if k = 1 then [] else ''.'' @ drop 1 ds) @ ''e'' @
             (if n - 1 < 0 then ''-'' else ''+'') @ nat_str (nat (abs (n - 1))))"

definition dec_text :: "nat \<Rightarrow> int \<Rightarrow> string" where
  "dec_text m e =
     (let all = nat_str m;
          ds = rev (dropWhile (\<lambda>c. c = CHR ''0'') (rev all))
      in digits_text ds (int (length all) + e))"

definition num_text :: "jsnum \<Rightarrow> string" where
  "num_text n =
     (case n of
        NaN \<Rightarrow> ''NaN''
      | Infinite pos \<Rightarrow> (if pos then ''Infinity'' else ''-Infinity'')
      | Dec m e \<Rightarrow>
          if m = 0 then ''0''
          else if m < 0 then ''-'' @ dec_text (nat (- m)) e
          else dec_text (nat m) e)"

subsection \<open>Reading back\<close>

lemma takeWhile_digits [simp]: "\<forall>c \<in> set s. is_digit c \<Longrightarrow> takeWhile is_digit s = s"
  and dropWhile_digits [simp]: "\<forall>c \<in> set s. is_digit c \<Longrightarrow> dropWhile is_digit s = []"
  by (simp_all add: takeWhile_eq_all_conv)

lemma is_digit_code: "is_digit c \<Longrightarrow> 48 \<le> (of_char c :: nat) \<and> (of_char c :: nat) \<le> 57"
  by (auto simp: is_digit_def digit_chars_def)

lemma digit_not_space: "is_digit c \<Longrightarrow> \<not> is_space c"
  by (auto simp: is_digit_def digit_chars_def is_space_def space_chars_def)

lemma js_trim_digits:
  assumes "\<forall>c \<in> set s. is_digit c"
  shows "js_trim s = s"
proof (cases "s = []")
  case False
  then have "hd s \<in> set s" "last s \<in> set s" by simp_all
  then show ?thesis unfolding js_trim_def
    using assms digit_not_space by (intro trim_with_id) blast
qed (simp add: js_trim_def trim_with_def)

lemma text_number_digits:
  assumes d: "\<forall>c \<in> set s. is_digit c" and ne: "s \<noteq> []"
  shows "text_number s = whole (int (digits_val 0 s))"
proof -
  have c: "\<And>c. c \<in> set s \<Longrightarrow> 48 \<le> (of_char c :: nat) \<and> (of_char c :: nat) \<le> 57"
    using d is_digit_code by blast
  have notx: "\<not> starts_with ''0x'' s" "\<not> starts_with ''0X'' s"
    using c [of "CHR ''x''"] c [of "CHR ''X''"] by (auto simp: starts_with_iff)
  have h: "hd s \<noteq> CHR ''-''" "hd s \<noteq> CHR ''+''"
    using c [of "hd s"] ne by auto
  have ni: "s \<noteq> ''Infinity''" using c [of "CHR ''I''"] by auto
  show ?thesis
    using d ne notx h ni
    by (simp add: text_number_def js_trim_digits unsigned_number_def exponent_part_def Let_def)
qed

lemma text_number_nat: "text_number (nat_str n) = whole (int n)"
  by (simp add: text_number_digits nat_str_digits nat_str_nonempty digits_val_nat_str)

end
