(* ===== verification/ValRules.thy ===== *)
theory ValRules
  imports JsNumber Action
begin

text \<open>
  The rules of a form control in \<open>jquery.validate.js\<close>: where they come from (the classes of the
  control, its attributes, the options of the form), how they are merged and normalised, and how
  \<open>rules("add")\<close> and \<open>rules("remove")\<close> change the options. The metadata plugin is not part of the
  repository, so \<open>metadataRules\<close> gives the empty object.

  What the page supplies is a parameter (\<open>hooks\<close>): what a selector of the options finds in the form
  (\<open>h_finds\<close>) and among the controls of the page (\<open>h_page\<close>), what a
  function of the options returns for a control, what the methods the page adds answer, and how the
  browser reads a date.
\<close>

subsection \<open>Parameters of rules\<close>

datatype param =
    PUndefined
  | PNull
  | PBool bool
  | PNum jsnum
  | PText string
  | PFun nat
  | PArr "param list"
  | PObj "param obj"

type_synonym rules = "param obj"

fun param_truthy :: "param \<Rightarrow> bool" where
  "param_truthy PUndefined = False"
| "param_truthy PNull = False"
| "param_truthy (PBool b) = b"
| "param_truthy (PNum n) = num_truthy n"
| "param_truthy (PText s) = (s \<noteq> [])"
| "param_truthy _ = True"

fun param_text :: "param \<Rightarrow> string" where
  "param_text PUndefined = ''undefined''"
| "param_text PNull = ''null''"
| "param_text (PBool b) = (if b then ''true'' else ''false'')"
| "param_text (PNum n) = num_text n"
| "param_text (PText s) = s"
| "param_text (PFun n) = ''function''"
| "param_text (PArr ps) =
     js_join '','' (map (\<lambda>p. case p of PUndefined \<Rightarrow> [] | PNull \<Rightarrow> [] | _ \<Rightarrow> param_text p) ps)"
| "param_text (PObj m) = ''[object Object]''"

text \<open>\<open>Number(p)\<close>\<close>

fun param_number :: "param \<Rightarrow> jsnum" where
  "param_number PUndefined = NaN"
| "param_number PNull = whole 0"
| "param_number (PBool b) = whole (if b then 1 else 0)"
| "param_number (PNum n) = n"
| "param_number (PText s) = text_number s"
| "param_number (PFun n) = NaN"
| "param_number (PArr ps) = text_number (param_text (PArr ps))"
| "param_number (PObj m) = NaN"

text \<open>\<open>p[i]\<close> for a number \<open>i\<close>\<close>

fun param_index :: "param \<Rightarrow> nat \<Rightarrow> param res" where
  "param_index PUndefined i = Inl TypeError"
| "param_index PNull i = Inl TypeError"
| "param_index (PText s) i = Inr (if i < length s then PText [s ! i] else PUndefined)"
| "param_index (PArr ps) i = Inr (if i < length ps then ps ! i else PUndefined)"
| "param_index (PObj m) i = Inr (case oget m (nat_str i) of None \<Rightarrow> PUndefined | Some p \<Rightarrow> p)"
| "param_index _ i = Inr PUndefined"

text \<open>\<open>p.k\<close> for the own properties of an object.\<close>

fun param_field :: "param \<Rightarrow> string \<Rightarrow> param res" where
  "param_field PUndefined k = Inl TypeError"
| "param_field PNull k = Inl TypeError"
| "param_field (PObj m) k = Inr (case oget m k of None \<Rightarrow> PUndefined | Some p \<Rightarrow> p)"
| "param_field _ k = Inr PUndefined"

text \<open>\<open>$.extend(target, source)\<close>: undefined properties are not copied.\<close>

definition extend_defined :: "rules \<Rightarrow> rules \<Rightarrow> rules" where
  "extend_defined target source = oextend target (filter (\<lambda>(k, v). v \<noteq> PUndefined) source)"

subsection \<open>Controls\<close>

record control =
  c_node :: string
  c_type :: string
  c_id :: string
  c_name :: string
  c_title :: string
  c_classes :: "string list"
  c_attrs :: "string obj"
  c_value :: string
  c_checked :: bool
  c_options :: "(string \<times> bool) list"
  c_in_form :: bool
  c_disabled :: bool
  c_hidden :: bool

text \<open>What \<open>val()\<close> can give, and what a method answers: a truthy value, a falsy one,
  \<open>"dependency-mismatch"\<close> or \<open>"pending"\<close>.\<close>

datatype fvalue = FText string | FList "string list" | FNull | FUndefined

datatype mresult = Passed | Failed | Mismatch | Pending

record hooks =
  h_finds :: "string \<Rightarrow> nat list"
  h_page :: "string \<Rightarrow> nat list"
  h_apply :: "nat \<Rightarrow> nat \<Rightarrow> param res"
  h_method :: "string \<Rightarrow> fvalue \<Rightarrow> nat \<Rightarrow> param \<Rightarrow> mresult res"
  h_date :: "string \<Rightarrow> string"

subsection \<open>Where rules come from\<close>

text \<open>The words of a text: \<open>data.split(/\s/)\<close>.\<close>

definition words :: "string \<Rightarrow> string list" where
  "words s = split_by is_space s"

definition normalizeRule :: "param \<Rightarrow> param" where
  "normalizeRule data =
     (case data of
        PText s \<Rightarrow> PObj (fold (\<lambda>w m. oset w (PBool True) m) (words s) [])
      | _ \<Rightarrow> data)"

definition classRuleSettings :: "rules obj" where
  "classRuleSettings =
     map (\<lambda>n. (n, [(n, PBool True)]))
       [''required'', ''email'', ''url'', ''date'', ''dateISO'', ''number'', ''digits'', ''creditcard'']"

definition addClassRules :: "string + rules obj \<Rightarrow> rules \<Rightarrow> rules obj \<Rightarrow> rules obj" where
  "addClassRules className rs settings =
     (case className of Inl n \<Rightarrow> oset n rs settings | Inr all \<Rightarrow> oextend settings all)"

text \<open>The inherited names are \<open>in\<close> the settings too; their functions have no properties to copy.\<close>

definition classRules :: "rules obj \<Rightarrow> control \<Rightarrow> rules" where
  "classRules settings c =
     fold (\<lambda>cl rs. case oget settings cl of Some r \<Rightarrow> extend_defined rs r | None \<Rightarrow> rs) (c_classes c) []"

definition method_names :: "string list" where
  "method_names =
     [''required'', ''remote'', ''minlength'', ''maxlength'', ''rangelength'', ''min'', ''max'', ''range'',
      ''email'', ''url'', ''date'', ''dateISO'', ''number'', ''digits'', ''creditcard'', ''equalTo'']"

definition attribute_rule :: "control \<Rightarrow> string \<Rightarrow> rules \<Rightarrow> rules" where
  "attribute_rule c m rs =
     (let attr = oget (c_attrs c) (to_lower m);
          value =
            (if m = ''required'' then (if attr = None then None else Some (PBool True))
             else case attr of Some s \<Rightarrow> (if s = [] then None else Some (PText s)) | None \<Rightarrow> None)
      in case value of
           Some v \<Rightarrow> oset m v rs
         | None \<Rightarrow> if oget (c_attrs c) ''type'' = Some m then oset m (PBool True) rs else rs)"

text \<open>The lengths that some browsers report when there is no attribute.\<close>

definition occurs_in :: "string \<Rightarrow> string \<Rightarrow> bool" where
  "occurs_in pat s \<longleftrightarrow> str_index s pat \<noteq> None"

definition browser_default_length :: "param \<Rightarrow> bool" where
  "browser_default_length p \<longleftrightarrow>
     param_truthy p \<and> (\<exists>pat \<in> set [''-1'', ''2147483647'', ''524288'']. occurs_in pat (param_text p))"

definition attributeRules :: "string list \<Rightarrow> control \<Rightarrow> rules" where
  "attributeRules methods c =
     (let rs = fold (attribute_rule c) methods []
      in case oget rs ''maxlength'' of
           Some p \<Rightarrow> if browser_default_length p then odel ''maxlength'' rs else rs
         | None \<Rightarrow> rs)"

definition staticRules :: "rules obj \<Rightarrow> control \<Rightarrow> rules" where
  "staticRules settings c = (case oget settings (c_name c) of Some rs \<Rightarrow> rs | None \<Rightarrow> [])"

subsection \<open>Normalising\<close>

text \<open>\<open>required: false\<close> drops a rule; \<open>{param: .., depends: ..}\<close> keeps it only when its condition holds.\<close>

definition rule_applies :: "hooks \<Rightarrow> nat \<Rightarrow> param \<Rightarrow> bool res" where
  "rule_applies h el dep =
     (case dep of
        PText sel \<Rightarrow> Inr (h_finds h sel \<noteq> [])
      | PFun f \<Rightarrow> rbind (h_apply h f el) (\<lambda>p. Inr (param_truthy p))
      | _ \<Rightarrow> Inr True)"

definition check_dependency :: "hooks \<Rightarrow> nat \<Rightarrow> string \<times> param \<Rightarrow> rules res" where
  "check_dependency h el = (\<lambda>(name, val).
     if val = PBool False then Inr []
     else rbind (param_field val ''param'') (\<lambda>p. rbind (param_field val ''depends'') (\<lambda>d.
       if param_truthy p \<or> param_truthy d
       then rbind (rule_applies h el d) (\<lambda>keep.
         Inr (if keep then [(name, if p \<noteq> PUndefined then p else PBool True)] else []))
       else Inr [(name, val)])))"

definition evaluate_parameter :: "hooks \<Rightarrow> nat \<Rightarrow> string \<times> param \<Rightarrow> (string \<times> param) res" where
  "evaluate_parameter h el = (\<lambda>(name, val).
     case val of PFun f \<Rightarrow> rbind (h_apply h f el) (\<lambda>p. Inr (name, p)) | _ \<Rightarrow> Inr (name, val))"

definition number_names :: "string list" where
  "number_names = [''minlength'', ''maxlength'', ''min'', ''max'']"

definition pair_names :: "string list" where
  "pair_names = [''rangelength'', ''range'']"

definition clean_number :: "string \<times> param \<Rightarrow> (string \<times> param) res" where
  "clean_number = (\<lambda>(name, val).
     if name \<in> set number_names \<and> param_truthy val then Inr (name, PNum (param_number val))
     else if name \<in> set pair_names \<and> param_truthy val then
       rbind (param_index val 0) (\<lambda>a. rbind (param_index val 1) (\<lambda>b.
         Inr (name, PArr [PNum (param_number a), PNum (param_number b)])))
     else Inr (name, val))"

definition rule_value :: "rules \<Rightarrow> string \<Rightarrow> param" where
  "rule_value rs k = (case oget rs k of Some p \<Rightarrow> p | None \<Rightarrow> PUndefined)"

definition join_range :: "string \<Rightarrow> string \<Rightarrow> string \<Rightarrow> rules \<Rightarrow> rules" where
  "join_range lo hi both rs =
     (if param_truthy (rule_value rs lo) \<and> param_truthy (rule_value rs hi)
      then odel hi (odel lo (oset both (PArr [rule_value rs lo, rule_value rs hi]) rs))
      else rs)"

definition normalizeRules :: "hooks \<Rightarrow> bool \<Rightarrow> nat \<Rightarrow> rules \<Rightarrow> rules res" where
  "normalizeRules h autoCreateRanges el rs =
     rbind (rmap (check_dependency h el) rs) (\<lambda>kept.
     rbind (rmap (evaluate_parameter h el) (concat kept)) (\<lambda>values.
     rbind (rmap clean_number values) (\<lambda>cleaned.
       let ranged = (if autoCreateRanges
             then join_range ''minlength'' ''maxlength'' ''rangelength''
                    (join_range ''min'' ''max'' ''range'' cleaned)
             else cleaned)
       in Inr (if param_truthy (rule_value ranged ''messages'') then odel ''messages'' ranged else ranged))))"

text \<open>\<open>$(element).rules()\<close>\<close>

definition merged_rules :: "rules obj \<Rightarrow> string list \<Rightarrow> rules obj \<Rightarrow> control \<Rightarrow> rules" where
  "merged_rules classSettings methods settings c =
     extend_defined (extend_defined (extend_defined [] (classRules classSettings c)) (attributeRules methods c))
       (staticRules settings c)"

definition required_first :: "rules \<Rightarrow> rules" where
  "required_first data =
     (if param_truthy (rule_value data ''required'')
      then extend_defined [(''required'', rule_value data ''required'')] (odel ''required'' data)
      else data)"

record rule_sources =
  s_classes :: "rules obj"
  s_methods :: "string list"
  s_auto :: bool

definition rules_of :: "hooks \<Rightarrow> rule_sources \<Rightarrow> rules obj \<Rightarrow> nat \<Rightarrow> control \<Rightarrow> rules res" where
  "rules_of h src settings el c =
     rbind (normalizeRules h (s_auto src) el (merged_rules (s_classes src) (s_methods src) settings c))
       (\<lambda>data. Inr (required_first data))"

subsection \<open>Changing the options\<close>

text \<open>\<open>rules("add", argument)\<close> and \<open>rules("remove", argument)\<close>: the options after the call and, for
  \<open>remove\<close>, what it returns. The messages that an added rule brings are merged by the caller.\<close>

definition rules_add :: "param \<Rightarrow> control \<Rightarrow> rules obj \<Rightarrow> rules obj" where
  "rules_add argument c settings =
     oset (c_name c)
       (extend_defined (staticRules settings c) (case normalizeRule argument of PObj m \<Rightarrow> m | _ \<Rightarrow> [])) settings"

definition remove_rule :: "string \<Rightarrow> rules \<times> rules \<Rightarrow> rules \<times> rules" where
  "remove_rule m = (\<lambda>(filtered, existing). (oset m (rule_value existing m) filtered, odel m existing))"

definition rules_remove :: "string option \<Rightarrow> control \<Rightarrow> rules obj \<Rightarrow> rules \<times> rules obj" where
  "rules_remove argument c settings =
     (case argument of
        None \<Rightarrow> (staticRules settings c, odel (c_name c) settings)
      | Some s \<Rightarrow>
          if s = [] then (staticRules settings c, odel (c_name c) settings)
          else
            let (filtered, existing) = fold remove_rule (words s) ([], staticRules settings c)
            in (filtered,
                if oget settings (c_name c) = None then settings else oset (c_name c) existing settings))"

end
