(* ===== verification/ValMethods.thy ===== *)
theory ValMethods
  imports ValRules JsRegex
begin

text \<open>
  The validation methods of \<open>jquery.validate.js\<close> that only look at the page: the value of a control,
  what is empty, lengths and ranges, the regular expressions, the check digit of card numbers, and the
  filling of message templates. Every control is taken to have a name; a name in a selector has no
  quotes.
\<close>

subsection \<open>Values of controls\<close>

definition checkable :: "control \<Rightarrow> bool" where
  "checkable c \<longleftrightarrow> occurs_in ''radio'' (to_lower (c_type c)) \<or> occurs_in ''checkbox'' (to_lower (c_type c))"

definition findByName :: "control list \<Rightarrow> string \<Rightarrow> nat list" where
  "findByName cs name = filter (\<lambda>i. c_in_form (cs ! i) \<and> c_name (cs ! i) = name) [0..<length cs]"

definition without_returns :: "string \<Rightarrow> string" where
  "without_returns s = filter (\<lambda>c. c \<noteq> CHR 0x0D) s"

definition selected_options :: "control \<Rightarrow> string list" where
  "selected_options c = map fst (filter snd (c_options c))"

text \<open>\<open>$(element).val()\<close>; the options of a select are not disabled.\<close>

definition control_val :: "control \<Rightarrow> fvalue" where
  "control_val c =
     (if c_node c = ''select'' then
        (case selected_options c of
           [] \<Rightarrow> FNull
         | v # vs \<Rightarrow> if c_type c = ''select-one'' then FText v else FList (v # vs))
      else FText (without_returns (c_value c)))"

text \<open>The checked control of a group is looked for in the whole document.\<close>

definition elementValue :: "control list \<Rightarrow> nat \<Rightarrow> fvalue" where
  "elementValue cs el =
     (let c = cs ! el; type = oget (c_attrs c) ''type''
      in if type = Some ''radio'' \<or> type = Some ''checkbox'' then
           (case filter (\<lambda>d. c_node d = ''input'' \<and> c_name d = c_name c \<and> c_checked d) cs of
              [] \<Rightarrow> FUndefined
            | d # _ \<Rightarrow> control_val d)
         else case control_val c of FText s \<Rightarrow> FText (without_returns s) | v \<Rightarrow> v)"

text \<open>The text of a value as \<open>$.trim\<close> and as a regular expression see it.\<close>

definition trimmed :: "fvalue \<Rightarrow> string" where
  "trimmed v = (case v of FText s \<Rightarrow> js_trim s | FList vs \<Rightarrow> js_trim (js_join '','' vs) | _ \<Rightarrow> [])"

definition value_text :: "fvalue \<Rightarrow> string" where
  "value_text v = (case v of FText s \<Rightarrow> s | FList vs \<Rightarrow> js_join '','' vs | FNull \<Rightarrow> ''null'' | FUndefined \<Rightarrow> ''undefined'')"

definition getLength :: "control list \<Rightarrow> string \<Rightarrow> nat \<Rightarrow> nat" where
  "getLength cs value el =
     (let c = cs ! el
      in if c_node c = ''select'' then length (selected_options c)
         else if c_node c = ''input'' \<and> checkable c
         then length (filter (\<lambda>i. c_checked (cs ! i)) (findByName cs (c_name c)))
         else length value)"

subsection \<open>Required and optional\<close>

definition depend :: "hooks \<Rightarrow> param \<Rightarrow> nat \<Rightarrow> bool res" where
  "depend h p el =
     (case p of
        PBool b \<Rightarrow> Inr b
      | PText sel \<Rightarrow> Inr (h_finds h sel \<noteq> [])
      | PFun f \<Rightarrow> rbind (h_apply h f el) (\<lambda>r. Inr (param_truthy r))
      | _ \<Rightarrow> Inr True)"

definition filled :: "control list \<Rightarrow> fvalue \<Rightarrow> nat \<Rightarrow> bool" where
  "filled cs value el =
     (let c = cs ! el
      in if c_node c = ''select'' then
           (case control_val c of FText s \<Rightarrow> s \<noteq> [] | FList vs \<Rightarrow> vs \<noteq> [] | _ \<Rightarrow> False)
         else if checkable c then
           getLength cs (case value of FText s \<Rightarrow> s | _ \<Rightarrow> []) el > 0
         else trimmed value \<noteq> [])"

definition answer :: "bool \<Rightarrow> mresult" where
  "answer b = (if b then Passed else Failed)"

definition required :: "hooks \<Rightarrow> control list \<Rightarrow> fvalue \<Rightarrow> nat \<Rightarrow> param \<Rightarrow> mresult res" where
  "required h cs value el p =
     rbind (depend h p el) (\<lambda>b. Inr (if \<not> b then Mismatch else answer (filled cs value el)))"

text \<open>\<open>optional\<close> asks \<open>required\<close> with no parameter: the condition of the rule plays no part.\<close>

definition is_blank :: "control list \<Rightarrow> nat \<Rightarrow> bool" where
  "is_blank cs el \<longleftrightarrow> \<not> filled cs (elementValue cs el) el"

definition unless_blank :: "control list \<Rightarrow> nat \<Rightarrow> bool res \<Rightarrow> mresult res" where
  "unless_blank cs el r = (if is_blank cs el then Inr Mismatch else rbind r (\<lambda>b. Inr (answer b)))"

subsection \<open>Lengths and ranges\<close>

definition value_length :: "control list \<Rightarrow> fvalue \<Rightarrow> nat \<Rightarrow> nat" where
  "value_length cs value el =
     (case value of FList vs \<Rightarrow> length vs | _ \<Rightarrow> getLength cs (trimmed value) el)"

text \<open>The operands of \<open><=\<close>: two texts are compared as texts, anything else as numbers.\<close>

datatype prim = PrText string | PrNum jsnum

definition param_prim :: "param \<Rightarrow> prim" where
  "param_prim p = (case p of PText s \<Rightarrow> PrText s | PArr ps \<Rightarrow> PrText (param_text p) | PObj m \<Rightarrow> PrText (param_text p)
     | PFun f \<Rightarrow> PrText (param_text p) | _ \<Rightarrow> PrNum (param_number p))"

definition value_prim :: "fvalue \<Rightarrow> prim" where
  "value_prim v = (case v of FText s \<Rightarrow> PrText s | FList vs \<Rightarrow> PrText (js_join '','' vs)
     | FNull \<Rightarrow> PrNum (whole 0) | FUndefined \<Rightarrow> PrNum NaN)"

fun prim_number :: "prim \<Rightarrow> jsnum" where
  "prim_number (PrText s) = text_number s"
| "prim_number (PrNum n) = n"

fun prim_le :: "prim \<Rightarrow> prim \<Rightarrow> bool" where
  "prim_le (PrText s) (PrText t) = text_le s t"
| "prim_le a b = (prim_number a \<le> prim_number b)"

definition minlength :: "control list \<Rightarrow> fvalue \<Rightarrow> nat \<Rightarrow> param \<Rightarrow> mresult res" where
  "minlength cs value el p =
     unless_blank cs el (Inr (prim_le (param_prim p) (PrNum (whole (int (value_length cs value el))))))"

definition maxlength :: "control list \<Rightarrow> fvalue \<Rightarrow> nat \<Rightarrow> param \<Rightarrow> mresult res" where
  "maxlength cs value el p =
     unless_blank cs el (Inr (prim_le (PrNum (whole (int (value_length cs value el)))) (param_prim p)))"

text \<open>\<open>x >= p[0] && x <= p[1]\<close>\<close>

definition between :: "prim \<Rightarrow> param \<Rightarrow> bool res" where
  "between x p =
     rbind (param_index p 0) (\<lambda>a.
       if prim_le (param_prim a) x then rbind (param_index p 1) (\<lambda>b. Inr (prim_le x (param_prim b)))
       else Inr False)"

definition rangelength :: "control list \<Rightarrow> fvalue \<Rightarrow> nat \<Rightarrow> param \<Rightarrow> mresult res" where
  "rangelength cs value el p =
     unless_blank cs el (between (PrNum (whole (int (value_length cs value el)))) p)"

definition min_value :: "control list \<Rightarrow> fvalue \<Rightarrow> nat \<Rightarrow> param \<Rightarrow> mresult res" where
  "min_value cs value el p = unless_blank cs el (Inr (prim_le (param_prim p) (value_prim value)))"

definition max_value :: "control list \<Rightarrow> fvalue \<Rightarrow> nat \<Rightarrow> param \<Rightarrow> mresult res" where
  "max_value cs value el p = unless_blank cs el (Inr (prim_le (value_prim value) (param_prim p)))"

definition range_value :: "control list \<Rightarrow> fvalue \<Rightarrow> nat \<Rightarrow> param \<Rightarrow> mresult res" where
  "range_value cs value el p = unless_blank cs el (between (value_prim value) p)"

subsection \<open>Regular expressions\<close>

definition plus :: "re \<Rightarrow> re" where
  "plus r = RSeq r (RStar True r)"

definition many :: "re \<Rightarrow> re" where
  "many r = RStar True r"

definition opt :: "re \<Rightarrow> re" where
  "opt r = ROpt True r"

definition ch :: "char \<Rightarrow> re" where
  "ch c = RClass (\<lambda>d. d = c)"

fun seqs :: "re list \<Rightarrow> re" where
  "seqs [] = REmpty"
| "seqs (r # rs) = RSeq r (seqs rs)"

fun alts :: "re list \<Rightarrow> re" where
  "alts [] = RClass (\<lambda>c. False)"
| "alts [r] = r"
| "alts (r # rs) = RAlt r (alts rs)"

definition anchored :: "re list \<Rightarrow> re" where
  "anchored rs = RSeq RStart (RSeq (seqs rs) REnd)"

definition digit_re :: re where
  "digit_re = RClass is_digit"

definition text_re :: "string \<Rightarrow> re" where
  "text_re s = seqs (map ch s)"

text \<open>With the flag \<open>i\<close>.\<close>

definition text_re_i :: "string \<Rightarrow> re" where
  "text_re_i s = seqs (map (\<lambda>c. RClass (\<lambda>d. to_lower_char d = to_lower_char c)) s)"

definition dateISO_re :: re where
  "dateISO_re =
     anchored [digit_re, digit_re, digit_re, digit_re, RClass (\<lambda>c. c \<in> set ''/-''),
       digit_re, opt digit_re, RClass (\<lambda>c. c \<in> set ''/-''), digit_re, opt digit_re]"

definition number_re :: re where
  "number_re =
     anchored [opt (ch CHR ''-''),
       opt (RAlt (plus digit_re)
         (seqs [digit_re, opt digit_re, opt digit_re, plus (seqs [ch CHR '','', digit_re, digit_re, digit_re])])),
       opt (seqs [ch CHR ''.'', plus digit_re])]"

definition digits_re :: re where
  "digits_re = anchored [plus digit_re]"

definition is_letter :: "char \<Rightarrow> bool" where
  "is_letter c \<longleftrightarrow> c \<in> set lower_chars \<or> c \<in> set upper_chars"

text \<open>The ranges from \<open>\u00A0\<close> on, below 256.\<close>

definition is_high :: "char \<Rightarrow> bool" where
  "is_high c \<longleftrightarrow> 160 \<le> (of_char c :: nat)"

definition code_in :: "nat \<Rightarrow> nat \<Rightarrow> char \<Rightarrow> bool" where
  "code_in a b c \<longleftrightarrow> a \<le> of_char c \<and> of_char c \<le> b"

definition email_atom :: re where
  "email_atom = plus (RClass (\<lambda>c. is_letter c \<or> is_digit c \<or> is_high c \<or>
     c \<in> set [CHR 0x21, CHR 0x23, CHR 0x24, CHR 0x25, CHR 0x26, CHR 0x27, CHR 0x2A, CHR 0x2B, CHR 0x2D, CHR 0x2F,
       CHR 0x3D, CHR 0x3F, CHR 0x5E, CHR 0x5F, CHR 0x60, CHR 0x7B, CHR 0x7C, CHR 0x7D, CHR 0x7E]))"

definition quoted_space :: re where
  "quoted_space =
     (let blank = RClass (\<lambda>c. c = CHR 0x20 \<or> c = CHR 0x09)
      in opt (seqs [opt (seqs [many blank, ch CHR 0x0D, ch CHR 0x0A]), plus blank]))"

definition quoted_char :: re where
  "quoted_char =
     RAlt (RClass (\<lambda>c. code_in 0x01 0x08 c \<or> c = CHR 0x0B \<or> c = CHR 0x0C \<or> code_in 0x0E 0x1F c \<or> c = CHR 0x7F
         \<or> c = CHR 0x21 \<or> code_in 0x23 0x5B c \<or> code_in 0x5D 0x7E c \<or> is_high c))
       (seqs [ch CHR 0x5C, RClass (\<lambda>c. code_in 0x01 0x09 c \<or> c = CHR 0x0B \<or> c = CHR 0x0C
         \<or> code_in 0x0D 0x7F c \<or> is_high c)])"

text \<open>A label of a domain: its first and last characters are of one class, those between may also be \<open>-._~\<close>.\<close>

definition label_re :: "(char \<Rightarrow> bool) \<Rightarrow> re" where
  "label_re p =
     RAlt (RClass p)
       (seqs [RClass p, many (RClass (\<lambda>c. is_letter c \<or> is_digit c \<or> is_high c \<or> c \<in> set ''-._~'')), RClass p])"

definition domain_re :: re where
  "domain_re =
     RSeq (plus (seqs [label_re (\<lambda>c. is_letter c \<or> is_digit c \<or> is_high c), ch CHR ''.'']))
       (label_re (\<lambda>c. is_letter c \<or> is_high c))"

definition email_re :: re where
  "email_re =
     anchored [
       RAlt (RSeq email_atom (many (seqs [ch CHR ''.'', email_atom])))
         (seqs [ch CHR 0x22, many (seqs [quoted_space, quoted_char]), quoted_space, ch CHR 0x22]),
       ch CHR 0x40,
       domain_re]"

definition octet_re :: re where
  "octet_re =
     alts [digit_re,
       seqs [RClass (code_in 0x31 0x39), digit_re],
       seqs [ch CHR ''1'', digit_re, digit_re],
       seqs [ch CHR ''2'', RClass (code_in 0x30 0x34), digit_re],
       seqs [ch CHR ''2'', ch CHR ''5'', RClass (code_in 0x30 0x35)]]"

definition url_char :: "string \<Rightarrow> re" where
  "url_char extra =
     RAlt (RClass (\<lambda>c. is_letter c \<or> is_digit c \<or> is_high c \<or> c \<in> set ''-._~'' \<or>
         c \<in> set [CHR 0x21, CHR 0x24, CHR 0x26, CHR 0x27, CHR 0x28, CHR 0x29, CHR 0x2A, CHR 0x2B, CHR 0x2C, CHR 0x3B, CHR 0x3D] \<or>
         c \<in> set extra))
       (seqs [ch CHR ''%'', RClass (\<lambda>c. to_lower_char c \<in> set hex_chars), RClass (\<lambda>c. to_lower_char c \<in> set hex_chars)])"

definition url_re :: re where
  "url_re =
     anchored [
       RAlt (seqs [text_re_i ''http'', opt (text_re_i ''s'')]) (text_re_i ''ftp''),
       text_re ''://'',
       opt (seqs [many (url_char '':''), ch CHR 0x40]),
       RAlt (seqs [octet_re, ch CHR ''.'', octet_re, ch CHR ''.'', octet_re, ch CHR ''.'', octet_re])
         (seqs [domain_re, opt (ch CHR ''.'')]),
       opt (seqs [ch CHR '':'', many digit_re]),
       opt (seqs [ch CHR ''/'', opt (seqs [plus (url_char [CHR 0x3A, CHR 0x40]),
         many (seqs [ch CHR ''/'', many (url_char [CHR 0x3A, CHR 0x40])])])]),
       opt (seqs [ch CHR ''?'', many (url_char [CHR 0x3A, CHR 0x40, CHR 0x2F, CHR 0x3F])]),
       opt (seqs [ch CHR ''#'', many (url_char [CHR 0x3A, CHR 0x40, CHR 0x2F, CHR 0x3F])])]"

definition matches :: "control list \<Rightarrow> fvalue \<Rightarrow> nat \<Rightarrow> re \<Rightarrow> mresult res" where
  "matches cs value el r = unless_blank cs el (Inr (re_test r (value_text value)))"

text \<open>\<open>!/Invalid|NaN/.test(new Date(value))\<close>\<close>

definition date_ok :: "hooks \<Rightarrow> fvalue \<Rightarrow> bool" where
  "date_ok h value \<longleftrightarrow>
     \<not> occurs_in ''Invalid'' (h_date h (value_text value)) \<and> \<not> occurs_in ''NaN'' (h_date h (value_text value))"

subsection \<open>Card numbers\<close>

text \<open>The loop from the last digit to the first: every second digit counts double.\<close>

fun luhn_loop :: "string \<Rightarrow> bool \<Rightarrow> int \<Rightarrow> int" where
  "luhn_loop [] bEven nCheck = nCheck"
| "luhn_loop (cDigit # rest) bEven nCheck =
     (let nDigit = int (digit_val cDigit);
          nDigit = (if bEven then (if nDigit * 2 > 9 then nDigit * 2 - 9 else nDigit * 2) else nDigit)
      in luhn_loop rest (\<not> bEven) (nCheck + nDigit))"

definition card_ok :: "string \<Rightarrow> bool" where
  "card_ok value \<longleftrightarrow>
     list_all (\<lambda>c. is_digit c \<or> c = CHR '' '' \<or> c = CHR ''-'') value \<and>
     luhn_loop (rev (filter is_digit value)) False 0 mod 10 = 0"

definition creditcard :: "control list \<Rightarrow> fvalue \<Rightarrow> nat \<Rightarrow> mresult res" where
  "creditcard cs value el =
     (if is_blank cs el then Inr Mismatch
      else if list_all (\<lambda>c. is_digit c \<or> c = CHR '' '' \<or> c = CHR ''-'') (value_text value)
      then (case value of
              FText s \<Rightarrow> Inr (answer (card_ok s))
            | _ \<Rightarrow> Inl TypeError)
      else Inr Failed)"

subsection \<open>Message templates\<close>

text \<open>The text that \<open>replace\<close> puts in for a match: \<open>$$\<close>, \<open>$&\<close>, and what is before and behind.\<close>

fun expand :: "string \<Rightarrow> string \<Rightarrow> string \<Rightarrow> string \<Rightarrow> string" where
  "expand [] before matched behind = []"
| "expand [c] before matched behind = [c]"
| "expand (c # d # repl) before matched behind =
     (if c = CHR ''$'' \<and> d = CHR ''$'' then CHR ''$'' # expand repl before matched behind
      else if c = CHR ''$'' \<and> d = CHR 0x26 then matched @ expand repl before matched behind
      else if c = CHR ''$'' \<and> d = CHR 0x60 then before @ expand repl before matched behind
      else if c = CHR ''$'' \<and> d = CHR 0x27 then behind @ expand repl before matched behind
      else c # expand (d # repl) before matched behind)"

text \<open>\<open>source.replace(/pat/g, repl)\<close> for a fixed text \<open>pat\<close>; \<open>seen\<close> is what has been passed.\<close>

function replace_from :: "string \<Rightarrow> string \<Rightarrow> string \<Rightarrow> string \<Rightarrow> string" where
  "replace_from pat repl seen [] = []"
| "replace_from pat repl seen (c # s) =
     (if pat \<noteq> [] \<and> starts_with pat (c # s)
      then expand repl seen pat (drop (length pat) (c # s)) @
             replace_from pat repl (seen @ pat) (drop (length pat) (c # s))
      else c # replace_from pat repl (seen @ [c]) s)"
  by pat_completeness auto
termination
  by (relation "measure (\<lambda>(pat, repl, seen, s). length s)") auto

definition placeholder :: "nat \<Rightarrow> string" where
  "placeholder i = ''{'' @ nat_str i @ ''}''"

fun fill_from :: "nat \<Rightarrow> string list \<Rightarrow> string \<Rightarrow> string" where
  "fill_from i [] source = source"
| "fill_from i (n # ns) source = fill_from (Suc i) ns (replace_from (placeholder i) n [] source)"

text \<open>\<open>$.validator.format(source, params)\<close>: null and undefined have no \<open>constructor\<close>.\<close>

definition format :: "string \<Rightarrow> param \<Rightarrow> string res" where
  "format source params =
     (case params of
        PUndefined \<Rightarrow> Inl TypeError
      | PNull \<Rightarrow> Inl TypeError
      | PArr ps \<Rightarrow> Inr (fill_from 0 (map param_text ps) source)
      | p \<Rightarrow> Inr (fill_from 0 [param_text p] source))"

text \<open>The function that \<open>format(source)\<close> returns, called with the parameters and the control.\<close>

definition element_text :: "control \<Rightarrow> string" where
  "element_text c =
     ''[object HTML'' @ (if c_node c = ''select'' then ''Select'' else if c_node c = ''textarea'' then ''TextArea'' else ''Input'') @
     ''Element]''"

definition format_call :: "string \<Rightarrow> param \<Rightarrow> control \<Rightarrow> string res" where
  "format_call source params c =
     (case params of
        PUndefined \<Rightarrow> Inl TypeError
      | PNull \<Rightarrow> Inl TypeError
      | PArr ps \<Rightarrow> Inr (fill_from 0 (map param_text ps) source)
      | p \<Rightarrow> Inr (fill_from 0 [param_text p, element_text c] source))"

text \<open>\<open>message.replace(/\$?\{(\d+)\}/g, '{$1}')\<close>, and whether there is anything to replace.\<close>

definition hole_length :: "string \<Rightarrow> nat option" where
  "hole_length s =
     (case s of
        [] \<Rightarrow> None
      | c # t \<Rightarrow>
          if c = CHR 0x7B \<and> takeWhile is_digit t \<noteq> [] \<and> starts_with [CHR 0x7D] (dropWhile is_digit t)
          then Some (length (takeWhile is_digit t) + 2) else None)"

function plain_holes :: "string \<Rightarrow> string" where
  "plain_holes [] = []"
| "plain_holes (c # s) =
     (if c = CHR ''$'' \<and> hole_length s \<noteq> None
      then take (the (hole_length s)) s @ plain_holes (drop (the (hole_length s)) s)
      else c # plain_holes s)"
  by pat_completeness auto
termination
  by (relation "measure length") auto

fun has_hole :: "string \<Rightarrow> bool" where
  "has_hole [] = False"
| "has_hole (c # s) = (hole_length (c # s) \<noteq> None \<or> has_hole s)"

subsection \<open>Selectors and attributes\<close>

text \<open>The selectors \<open>:blank\<close>, \<open>:filled\<close> and \<open>:unchecked\<close>.\<close>

definition blank_selector :: "control \<Rightarrow> bool" where
  "blank_selector c \<longleftrightarrow> js_trim (c_value c) = []"

definition filled_selector :: "control \<Rightarrow> bool" where
  "filled_selector c \<longleftrightarrow> js_trim (c_value c) \<noteq> []"

definition unchecked_selector :: "control \<Rightarrow> bool" where
  "unchecked_selector c \<longleftrightarrow> \<not> c_checked c"

text \<open>\<open>removeAttrs(attributes)\<close>: the attributes that were there and the control without them.\<close>

definition removeAttrs :: "string \<Rightarrow> control \<Rightarrow> string option obj \<times> control" where
  "removeAttrs attributes c =
     fold (\<lambda>a (result, c). (oset a (oget (c_attrs c) (to_lower a)) result,
                            c\<lparr>c_attrs := odel (to_lower a) (c_attrs c)\<rparr>))
       (words attributes) ([], c)"

end
