(* ===== verification/Validator.thy ===== *)
theory Validator
  imports ValMethods
begin

text \<open>
  The validator object of \<open>jquery.validate.js\<close> on one form: checking controls, the error lists and
  labels, remote checks with their requests, and the handlers of the form's events.

  The \<open>previousValue\<close> objects of remote checks are kept on a heap, since a request under way holds the
  object that the control may have lost by \<open>resetForm\<close>. The options that are functions
  (\<open>showErrors\<close>, \<open>errorPlacement\<close>, \<open>invalidHandler\<close>) and \<open>wrapper\<close> are not set; \<open>highlight\<close> and
  \<open>unhighlight\<close> are the defaults; error and success classes are single names. Calls of
  \<open>submitHandler\<close>, submissions and \<open>invalid-form\<close> events are recorded. The message of a remote check is kept
  with the messages of the validator also when the control has a name that every object inherits; the code
  writes it to the inherited function then.
\<close>

subsection \<open>State\<close>

text \<open>A message is a text or the function that \<open>format\<close> makes of a template.\<close>

datatype message = MText string | MFormat string

datatype custom = CText string | CMethods "message obj"

record config =
  u_hooks :: hooks
  u_sources :: rule_sources
  u_messages :: "message obj"
  u_groups :: "string obj"
  u_ignored :: "control \<Rightarrow> bool"
  u_ignoreTitle :: bool
  u_errorClass :: string
  u_validClass :: string
  u_success :: "string option"
  u_onfocusout :: bool
  u_focusInvalid :: bool
  u_focusCleanup :: bool
  u_submitHandler :: bool

record label =
  l_for :: string
  l_generated :: bool
  l_classes :: "string list"
  l_text :: string
  l_hidden :: bool

datatype target = TLabel nat | TContainers

record previous =
  p_old :: fvalue
  p_valid :: bool
  p_message :: message
  p_original :: "message option"

record request =
  q_id :: nat
  q_element :: nat
  q_name :: string
  q_value :: fvalue
  q_previous :: nat
  q_param :: param

datatype vevent = InvalidForm | Submitted | HandlerCalled "string option"

record vstate =
  v_controls :: "control list"
  v_labels :: "label list"
  v_containers :: bool
  v_rules :: "rules obj"
  v_messages :: "custom obj"
  v_submitted :: "string obj"
  v_invalid :: "string list"
  v_errorMap :: "string obj"
  v_errorList :: "(nat \<times> string) list"
  v_successList :: "nat list"
  v_toShow :: "target list"
  v_toHide :: "target list"
  v_currentElements :: "nat list"
  v_pendingRequest :: int
  v_pending :: "string list"
  v_previous :: "(nat \<times> nat) list"
  v_heap :: "previous list"
  v_requests :: "request list"
  v_next :: nat
  v_formSubmitted :: bool
  v_cancelSubmit :: bool
  v_submitButton :: "string option"
  v_lastActive :: "nat option"
  v_blur :: "(nat \<times> nat) list"
  v_log :: "vevent list"

type_synonym 'a vact = "(vstate, 'a) act"

definition control_of :: "vstate \<Rightarrow> nat \<Rightarrow> control" where
  "control_of s el = v_controls s ! el"

definition name_of :: "vstate \<Rightarrow> nat \<Rightarrow> string" where
  "name_of s el = c_name (control_of s el)"

definition union_list :: "'x list \<Rightarrow> 'x list \<Rightarrow> 'x list" where
  "union_list xs ys = xs @ filter (\<lambda>y. y \<notin> set xs) ys"

definition minus_list :: "'x list \<Rightarrow> 'x list \<Rightarrow> 'x list" where
  "minus_list xs ys = filter (\<lambda>x. x \<notin> set ys) xs"

definition in_object :: "string \<Rightarrow> 'v obj \<Rightarrow> bool" where
  "in_object k m \<longleftrightarrow> k \<in> fst ` set m \<or> k \<in> set prototype_names"

definition record_event :: "vevent \<Rightarrow> unit vact" where
  "record_event e = amodify (\<lambda>s. s\<lparr>v_log := v_log s @ [e]\<rparr>)"

subsection \<open>The constructor\<close>

definition groups_of :: "string obj \<Rightarrow> string obj" where
  "groups_of gs = fold (\<lambda>(key, value) m. fold (\<lambda>name m. oset name key m) (words value) m) gs []"

definition init_rules :: "param obj \<Rightarrow> rules obj" where
  "init_rules rs = map (\<lambda>(k, v). (k, case normalizeRule v of PObj m \<Rightarrow> m | _ \<Rightarrow> [])) rs"

definition init_validator :: "control list \<Rightarrow> label list \<Rightarrow> param obj \<Rightarrow> custom obj \<Rightarrow> vstate" where
  "init_validator cs ls rs ms =
     \<lparr>v_controls = cs, v_labels = ls, v_containers = False, v_rules = init_rules rs, v_messages = ms,
      v_submitted = [], v_invalid = [], v_errorMap = [], v_errorList = [], v_successList = [],
      v_toShow = [], v_toHide = [], v_currentElements = [], v_pendingRequest = 0, v_pending = [],
      v_previous = [], v_heap = [], v_requests = [], v_next = 0, v_formSubmitted = False,
      v_cancelSubmit = False, v_submitButton = None, v_lastActive = None, v_blur = [], v_log = []\<rparr>"

definition default_messages :: "message obj" where
  "default_messages =
     [(''required'', MText ''This field is required.''),
      (''remote'', MText ''Please fix this field.''),
      (''email'', MText ''Please enter a valid email address.''),
      (''url'', MText ''Please enter a valid URL.''),
      (''date'', MText ''Please enter a valid date.''),
      (''dateISO'', MText ''Please enter a valid date (ISO).''),
      (''number'', MText ''Please enter a valid number.''),
      (''digits'', MText ''Please enter only digits.''),
      (''creditcard'', MText ''Please enter a valid credit card number.''),
      (''equalTo'', MText ''Please enter the same value again.''),
      (''maxlength'', MFormat ''Please enter no more than {0} characters.''),
      (''minlength'', MFormat ''Please enter at least {0} characters.''),
      (''rangelength'', MFormat ''Please enter a value between {0} and {1} characters long.''),
      (''range'', MFormat ''Please enter a value between {0} and {1}.''),
      (''max'', MFormat ''Please enter a value less than or equal to {0}.''),
      (''min'', MFormat ''Please enter a value greater than or equal to {0}.'')]"

text \<open>\<open>$.validator.addMethod(name, method, message)\<close>: the name of the method is registered, its code is
  \<open>h_method\<close>; a method of fewer than three parameters becomes a class rule too.\<close>

definition addMethod :: "string \<Rightarrow> nat \<Rightarrow> message option \<Rightarrow> config \<Rightarrow> config" where
  "addMethod name arity msg u =
     (let src = u_sources u;
          src = src\<lparr>s_methods := (if name \<in> set (s_methods src) then s_methods src else s_methods src @ [name])\<rparr>;
          src = (if arity < 3
                 then src\<lparr>s_classes := addClassRules (Inl name)
                        (case normalizeRule (PText name) of PObj m \<Rightarrow> m | _ \<Rightarrow> []) (s_classes src)\<rparr>
                 else src)
      in u\<lparr>u_sources := src,
           u_messages := (case msg of Some m \<Rightarrow> oset name m (u_messages u) | None \<Rightarrow> u_messages u)\<rparr>)"

subsection \<open>Labels\<close>

definition idOrName :: "config \<Rightarrow> vstate \<Rightarrow> nat \<Rightarrow> string" where
  "idOrName u s el =
     (let c = control_of s el
      in case oget (u_groups u) (c_name c) of
           Some g \<Rightarrow> if g \<noteq> [] then g else if checkable c then c_name c else if c_id c \<noteq> [] then c_id c else c_name c
         | None \<Rightarrow> if checkable c then c_name c else if c_id c \<noteq> [] then c_id c else c_name c)"

definition errors :: "config \<Rightarrow> vstate \<Rightarrow> nat list" where
  "errors u s = filter (\<lambda>i. u_errorClass u \<in> set (l_classes (v_labels s ! i))) [0..<length (v_labels s)]"

definition errorsFor :: "config \<Rightarrow> vstate \<Rightarrow> nat \<Rightarrow> nat list" where
  "errorsFor u s el = filter (\<lambda>i. l_for (v_labels s ! i) = idOrName u s el) (errors u s)"

definition update_labels :: "nat list \<Rightarrow> (label \<Rightarrow> label) \<Rightarrow> vstate \<Rightarrow> vstate" where
  "update_labels is f s =
     s\<lparr>v_labels := map (\<lambda>(i, l). if i \<in> set is then f l else l) (enumerate 0 (v_labels s))\<rparr>"

definition update_controls :: "nat list \<Rightarrow> (control \<Rightarrow> control) \<Rightarrow> vstate \<Rightarrow> vstate" where
  "update_controls is f s =
     s\<lparr>v_controls := map (\<lambda>(i, c). if i \<in> set is then f c else c) (enumerate 0 (v_controls s))\<rparr>"

definition add_class :: "string \<Rightarrow> string list \<Rightarrow> string list" where
  "add_class c cs = (if c \<in> set cs then cs else cs @ [c])"

definition remove_class :: "string \<Rightarrow> string list \<Rightarrow> string list" where
  "remove_class c cs = filter (\<lambda>d. d \<noteq> c) cs"

text \<open>Showing and hiding the elements of a collection.\<close>

definition set_visible :: "bool \<Rightarrow> target list \<Rightarrow> vstate \<Rightarrow> vstate" where
  "set_visible b ts s =
     (let s = update_labels (concat (map (\<lambda>t. case t of TLabel i \<Rightarrow> [i] | TContainers \<Rightarrow> []) ts)) (\<lambda>l. l\<lparr>l_hidden := \<not> b\<rparr>) s
      in if TContainers \<in> set ts then s\<lparr>v_containers := b\<rparr> else s)"

text \<open>The elements that \<open>highlight\<close> and \<open>unhighlight\<close> mark: all radio buttons of the name.\<close>

definition marked :: "vstate \<Rightarrow> nat \<Rightarrow> nat list" where
  "marked s el = (if c_type (control_of s el) = ''radio'' then findByName (v_controls s) (name_of s el) else [el])"

definition highlight :: "config \<Rightarrow> nat \<Rightarrow> vstate \<Rightarrow> vstate" where
  "highlight u el s =
     update_controls (marked s el)
       (\<lambda>c. c\<lparr>c_classes := remove_class (u_validClass u) (add_class (u_errorClass u) (c_classes c))\<rparr>) s"

definition unhighlight :: "config \<Rightarrow> nat \<Rightarrow> vstate \<Rightarrow> vstate" where
  "unhighlight u el s =
     update_controls (marked s el)
       (\<lambda>c. c\<lparr>c_classes := add_class (u_validClass u) (remove_class (u_errorClass u) (c_classes c))\<rparr>) s"

definition showLabel :: "config \<Rightarrow> nat \<Rightarrow> string option \<Rightarrow> vstate \<Rightarrow> vstate" where
  "showLabel u el msg s =
     (let found = errorsFor u s el;
          generated = (case found of [] \<Rightarrow> False | i # _ \<Rightarrow> l_generated (v_labels s ! i));
          s' = (if found \<noteq> [] then
                  update_labels found
                    (\<lambda>l. let l = l\<lparr>l_classes := add_class (u_errorClass u) (remove_class (u_validClass u) (l_classes l))\<rparr>
                          in case msg of Some m \<Rightarrow> if generated then l\<lparr>l_text := m\<rparr> else l | None \<Rightarrow> l) s
                else
                  s\<lparr>v_labels := v_labels s @
                      [\<lparr>l_for = idOrName u s el, l_generated = True, l_classes = [u_errorClass u],
                        l_text = (case msg of Some m \<Rightarrow> m | None \<Rightarrow> []), l_hidden = False\<rparr>]\<rparr>);
          lab = (if found \<noteq> [] then found else [length (v_labels s)]);
          s'' = (case u_success u of
                   Some cl \<Rightarrow>
                     if msg = None \<or> msg = Some []
                     then update_labels lab (\<lambda>l. l\<lparr>l_classes := add_class cl (l_classes l), l_text := []\<rparr>) s'
                     else s'
                 | None \<Rightarrow> s')
      in s''\<lparr>v_toShow := union_list (v_toShow s'') (map TLabel lab)\<rparr>)"

definition invalidElements :: "vstate \<Rightarrow> nat list" where
  "invalidElements s = map fst (v_errorList s)"

definition validElements :: "vstate \<Rightarrow> nat list" where
  "validElements s = minus_list (v_currentElements s) (invalidElements s)"

definition hideErrors :: "vstate \<Rightarrow> vstate" where
  "hideErrors s = set_visible False (v_toHide s) s"

definition defaultShowErrors :: "config \<Rightarrow> vstate \<Rightarrow> vstate" where
  "defaultShowErrors u s =
     (let s = fold (\<lambda>(el, msg) s. showLabel u el (Some msg) (highlight u el s)) (v_errorList s) s;
          s = (if v_errorList s \<noteq> [] then s\<lparr>v_toShow := union_list (v_toShow s) [TContainers]\<rparr> else s);
          s = (if u_success u \<noteq> None then fold (\<lambda>el. showLabel u el None) (v_successList s) s else s);
          s = fold (unhighlight u) (validElements s) s;
          s = s\<lparr>v_toHide := minus_list (v_toHide s) (v_toShow s)\<rparr>
      in set_visible True (v_toShow s) (hideErrors s))"

text \<open>\<open>showErrors()\<close> without errors is the empty list here; the names of the errors are those of controls
  of the form.\<close>

definition showErrors :: "config \<Rightarrow> string obj \<Rightarrow> vstate \<Rightarrow> vstate" where
  "showErrors u errs s =
     defaultShowErrors u
       (if errs = [] then s
        else s\<lparr>v_errorMap := oextend (v_errorMap s) errs,
               v_errorList := concat (map (\<lambda>(name, msg).
                  case findByName (v_controls s) name of el # _ \<Rightarrow> [(el, msg)] | [] \<Rightarrow> []) errs),
               v_successList := filter (\<lambda>el. \<not> in_object (name_of s el) errs) (v_successList s)\<rparr>)"

subsection \<open>Messages\<close>

definition customMessage :: "vstate \<Rightarrow> string \<Rightarrow> string \<Rightarrow> message option" where
  "customMessage s name m =
     (case oget (v_messages s) name of
        Some (CText t) \<Rightarrow> Some (MText t)
      | Some (CMethods ms) \<Rightarrow> oget ms m
      | None \<Rightarrow> None)"

definition customDataMessage :: "control \<Rightarrow> string \<Rightarrow> message option" where
  "customDataMessage c m = map_option MText (oget (c_attrs c) (''data-msg-'' @ to_lower m))"

fun findDefined :: "'x option list \<Rightarrow> 'x option" where
  "findDefined [] = None"
| "findDefined (Some x # xs) = Some x"
| "findDefined (None # xs) = findDefined xs"

definition defaultMessage :: "config \<Rightarrow> vstate \<Rightarrow> nat \<Rightarrow> string \<Rightarrow> message" where
  "defaultMessage u s el m =
     (let c = control_of s el
      in case findDefined
           [customMessage s (c_name c) m,
            customDataMessage c m,
            (if \<not> u_ignoreTitle u \<and> c_title c \<noteq> [] then Some (MText (c_title c)) else None),
            oget (u_messages u) m] of
           Some msg \<Rightarrow> msg
         | None \<Rightarrow> MText (''<strong>Warning: No message defined for '' @ c_name c @ ''</strong>''))"

definition message_text :: "message \<Rightarrow> param \<Rightarrow> control \<Rightarrow> string res" where
  "message_text msg p c =
     (case msg of
        MFormat source \<Rightarrow> format_call source p c
      | MText t \<Rightarrow> if has_hole t then format (plain_holes t) p else Inr t)"

definition formatAndAdd :: "config \<Rightarrow> nat \<Rightarrow> string \<Rightarrow> param \<Rightarrow> unit vact" where
  "formatAndAdd u el m p = ado (\<lambda>s.
     abind (aof (message_text (defaultMessage u s el m) p (control_of s el))) (\<lambda>t.
       amodify (\<lambda>s. s\<lparr>v_errorList := v_errorList s @ [(el, t)],
                      v_errorMap := oset (name_of s el) t (v_errorMap s),
                      v_submitted := oset (name_of s el) t (v_submitted s)\<rparr>)))"

subsection \<open>Lists of the current check\<close>

definition reset_lists :: "vstate \<Rightarrow> vstate" where
  "reset_lists s =
     s\<lparr>v_successList := [], v_errorList := [], v_errorMap := [], v_toShow := [], v_toHide := [],
       v_currentElements := []\<rparr>"

definition prepareForm :: "config \<Rightarrow> vstate \<Rightarrow> vstate" where
  "prepareForm u s =
     (let s = reset_lists s in s\<lparr>v_toHide := union_list (map TLabel (errors u s)) [TContainers]\<rparr>)"

definition prepareElement :: "config \<Rightarrow> nat \<Rightarrow> vstate \<Rightarrow> vstate" where
  "prepareElement u el s =
     (let s = reset_lists s in s\<lparr>v_toHide := map TLabel (errorsFor u s el)\<rparr>)"

definition valid :: "vstate \<Rightarrow> bool" where
  "valid s \<longleftrightarrow> length (v_errorList s) = 0"

definition validationTargetFor :: "config \<Rightarrow> vstate \<Rightarrow> nat \<Rightarrow> nat option" where
  "validationTargetFor u s el =
     (if checkable (control_of s el)
      then (case filter (\<lambda>i. \<not> u_ignored u (control_of s i)) (findByName (v_controls s) (name_of s el)) of
              i # _ \<Rightarrow> Some i | [] \<Rightarrow> None)
      else Some el)"

definition element_rules :: "config \<Rightarrow> vstate \<Rightarrow> nat \<Rightarrow> rules res" where
  "element_rules u s el = rules_of (u_hooks u) (u_sources u) (v_rules s) el (control_of s el)"

text \<open>The controls to check: the first of every name that has rules. The names seen are the keys of an
  object, so a name of \<open>Object.prototype\<close> counts as seen.\<close>

fun first_of_names :: "config \<Rightarrow> vstate \<Rightarrow> string list \<Rightarrow> nat list \<Rightarrow> nat list res" where
  "first_of_names u s rulesCache [] = Inr []"
| "first_of_names u s rulesCache (el # els) =
     (if name_of s el \<in> set rulesCache \<or> name_of s el \<in> set prototype_names
      then first_of_names u s rulesCache els
      else rbind (element_rules u s el) (\<lambda>rs.
        if length rs = 0 then first_of_names u s rulesCache els
        else rbind (first_of_names u s (name_of s el # rulesCache) els) (\<lambda>r. Inr (el # r))))"

definition form_controls :: "config \<Rightarrow> vstate \<Rightarrow> nat list" where
  "form_controls u s =
     filter (\<lambda>i. let c = control_of s i
                 in c_in_form c \<and> c_type c \<notin> set [''submit'', ''reset'', ''image''] \<and> \<not> c_disabled c \<and>
                    \<not> u_ignored u c) [0..<length (v_controls s)]"

definition elements :: "config \<Rightarrow> vstate \<Rightarrow> nat list res" where
  "elements u s = first_of_names u s [] (form_controls u s)"

subsection \<open>Remote checks and equal values\<close>

definition strict_eq :: "fvalue \<Rightarrow> fvalue \<Rightarrow> bool" where
  "strict_eq a b \<longleftrightarrow> a = b \<and> (case a of FList _ \<Rightarrow> False | _ \<Rightarrow> True)"

definition previousValue :: "config \<Rightarrow> nat \<Rightarrow> nat vact" where
  "previousValue u el = ado (\<lambda>s.
     case map_of (v_previous s) el of
       Some p \<Rightarrow> areturn p
     | None \<Rightarrow>
         athen (amodify (\<lambda>s. s\<lparr>v_previous := AList.update el (length (v_heap s)) (v_previous s),
                  v_heap := v_heap s @ [\<lparr>p_old = FNull, p_valid = True,
                    p_message = defaultMessage u s el ''remote'', p_original = None\<rparr>]\<rparr>))
           (areturn (length (v_heap s))))"

definition update_previous :: "nat \<Rightarrow> (previous \<Rightarrow> previous) \<Rightarrow> vstate \<Rightarrow> vstate" where
  "update_previous p f s = s\<lparr>v_heap := (v_heap s)[p := f (v_heap s ! p)]\<rparr>"

text \<open>\<open>settings.messages[name].remote\<close>, read and set; on a text, setting a property has no effect.\<close>

definition remote_message :: "vstate \<Rightarrow> string \<Rightarrow> message option" where
  "remote_message s name =
     (case oget (v_messages s) name of Some (CMethods ms) \<Rightarrow> oget ms ''remote'' | _ \<Rightarrow> None)"

definition set_remote_message :: "string \<Rightarrow> message option \<Rightarrow> vstate \<Rightarrow> vstate" where
  "set_remote_message name msg s =
     (case oget (v_messages s) name of
        Some (CMethods ms) \<Rightarrow>
          s\<lparr>v_messages := oset name
              (CMethods (case msg of Some m \<Rightarrow> oset ''remote'' m ms | None \<Rightarrow> odel ''remote'' ms)) (v_messages s)\<rparr>
      | _ \<Rightarrow> s)"

definition ensure_messages :: "string \<Rightarrow> vstate \<Rightarrow> vstate" where
  "ensure_messages name s =
     (case oget (v_messages s) name of
        None \<Rightarrow> s\<lparr>v_messages := oset name (CMethods []) (v_messages s)\<rparr>
      | Some (CText []) \<Rightarrow> s\<lparr>v_messages := oset name (CMethods []) (v_messages s)\<rparr>
      | _ \<Rightarrow> s)"

text \<open>\<open>this.pending[name]\<close> is true for the names every object has, too: no request is sent for them.\<close>

definition is_pending :: "vstate \<Rightarrow> string \<Rightarrow> bool" where
  "is_pending s name \<longleftrightarrow> name \<in> set (v_pending s) \<or> name \<in> set prototype_names"

definition startRequest :: "nat \<Rightarrow> vstate \<Rightarrow> vstate" where
  "startRequest el s =
     (if is_pending s (name_of s el) then s
      else s\<lparr>v_pendingRequest := v_pendingRequest s + 1, v_pending := v_pending s @ [name_of s el]\<rparr>)"

text \<open>\<open>$.ajax\<close> with \<open>mode: "abort"\<close>: the request under way on the port of the name is aborted.\<close>

definition send_request :: "nat \<Rightarrow> fvalue \<Rightarrow> nat \<Rightarrow> param \<Rightarrow> vstate \<Rightarrow> vstate" where
  "send_request el value p par s =
     s\<lparr>v_requests := filter (\<lambda>q. q_name q \<noteq> name_of s el) (v_requests s) @
         [\<lparr>q_id = v_next s, q_element = el, q_name = name_of s el, q_value = value, q_previous = p, q_param = par\<rparr>],
       v_next := v_next s + 1\<rparr>"

definition remote :: "config \<Rightarrow> fvalue \<Rightarrow> nat \<Rightarrow> param \<Rightarrow> mresult vact" where
  "remote u value el par = ado (\<lambda>s.
     if is_blank (v_controls s) el then areturn Mismatch
     else abind (previousValue u el) (\<lambda>p.
       athen (amodify (ensure_messages (name_of s el)))
       (athen (amodify (\<lambda>s. update_previous p (\<lambda>r. r\<lparr>p_original := remote_message s (name_of s el)\<rparr>) s))
       (athen (amodify (\<lambda>s. set_remote_message (name_of s el) (Some (p_message (v_heap s ! p))) s))
       (ado (\<lambda>s.
         if is_pending s (name_of s el) then areturn Pending
         else if strict_eq (p_old (v_heap s ! p)) value then areturn (answer (p_valid (v_heap s ! p)))
         else
           athen (amodify (update_previous p (\<lambda>r. r\<lparr>p_old := value\<rparr>)))
           (athen (amodify (startRequest el))
           (athen (amodify (send_request el value p par))
           (areturn Pending)))))))))"

text \<open>The target is checked again when it loses focus: one control per target, the last that was bound.\<close>

definition equalTo :: "config \<Rightarrow> fvalue \<Rightarrow> nat \<Rightarrow> param \<Rightarrow> mresult vact" where
  "equalTo u value el par = ado (\<lambda>s.
     let targets = (case par of PText sel \<Rightarrow> h_page (u_hooks u) sel | _ \<Rightarrow> []);
         target_value = (case targets of [] \<Rightarrow> FUndefined | t # _ \<Rightarrow> control_val (control_of s t))
     in athen (awhen (u_onfocusout u) (amodify (\<lambda>s. s\<lparr>v_blur :=
           filter (\<lambda>(t, _). t \<notin> set targets) (v_blur s) @ map (\<lambda>t. (t, el)) targets\<rparr>)))
         (areturn (answer (strict_eq value target_value))))"

text \<open>The methods by name: those of the page come from \<open>h_method\<close>, an unknown name has no \<open>call\<close>.\<close>

definition plain_method :: "config \<Rightarrow> control list \<Rightarrow> string \<Rightarrow> fvalue \<Rightarrow> nat \<Rightarrow> param \<Rightarrow> mresult res" where
  "plain_method u cs m value el p =
     (if m = ''required'' then required (u_hooks u) cs value el p
      else if m = ''minlength'' then minlength cs value el p
      else if m = ''maxlength'' then maxlength cs value el p
      else if m = ''rangelength'' then rangelength cs value el p
      else if m = ''min'' then min_value cs value el p
      else if m = ''max'' then max_value cs value el p
      else if m = ''range'' then range_value cs value el p
      else if m = ''email'' then matches cs value el email_re
      else if m = ''url'' then matches cs value el url_re
      else if m = ''date'' then unless_blank cs el (Inr (date_ok (u_hooks u) value))
      else if m = ''dateISO'' then matches cs value el dateISO_re
      else if m = ''number'' then matches cs value el number_re
      else if m = ''digits'' then matches cs value el digits_re
      else if m = ''creditcard'' then creditcard cs value el
      else if m \<in> set (s_methods (u_sources u)) then h_method (u_hooks u) m value el p
      else Inl TypeError)"

definition run_method :: "config \<Rightarrow> string \<Rightarrow> fvalue \<Rightarrow> nat \<Rightarrow> param \<Rightarrow> mresult vact" where
  "run_method u m value el p =
     (if m = ''remote'' then remote u value el p
      else if m = ''equalTo'' then equalTo u value el p
      else ado (\<lambda>s. aof (plain_method u (v_controls s) m value el p)))"

subsection \<open>Checking\<close>

text \<open>\<open>check\<close> returns true, false or undefined (a rule is pending, or no rule but an optional one applied).\<close>

datatype verdict = Valid | Invalid | Undecided

fun check_rules :: "config \<Rightarrow> nat \<Rightarrow> fvalue \<Rightarrow> rules \<Rightarrow> bool \<Rightarrow> verdict vact" where
  "check_rules u el val [] dependencyMismatch = areturn (if dependencyMismatch then Undecided else Valid)"
| "check_rules u el val ((m, p) # rs) dependencyMismatch =
     abind (run_method u m val el p) (\<lambda>result.
       case result of
         Mismatch \<Rightarrow> check_rules u el val rs True
       | Pending \<Rightarrow>
           athen (amodify (\<lambda>s. s\<lparr>v_toHide := minus_list (v_toHide s) (map TLabel (errorsFor u s el))\<rparr>))
             (areturn Undecided)
       | Failed \<Rightarrow> athen (formatAndAdd u el m p) (areturn Invalid)
       | Passed \<Rightarrow> check_rules u el val rs False)"

definition check :: "config \<Rightarrow> nat \<Rightarrow> verdict vact" where
  "check u el = ado (\<lambda>s.
     case validationTargetFor u s el of
       None \<Rightarrow> athrow TypeError
     | Some el \<Rightarrow>
         abind (aof (element_rules u s el)) (\<lambda>rs.
         abind (check_rules u el (elementValue (v_controls s) el) rs False) (\<lambda>v.
           athen (awhen (v = Valid \<and> length rs > 0)
                   (amodify (\<lambda>s. s\<lparr>v_successList := v_successList s @ [el]\<rparr>)))
             (areturn v))))"

definition checkForm :: "config \<Rightarrow> bool vact" where
  "checkForm u =
     athen (amodify (prepareForm u))
     (ado (\<lambda>s. abind (aof (elements u s)) (\<lambda>els.
       athen (amodify (\<lambda>s. s\<lparr>v_currentElements := els\<rparr>))
       (athen (aeach (\<lambda>el. athen (check u el) (areturn ())) els)
       (aget_state valid)))))"

text \<open>\<open>form()\<close>; \<open>invalid\<close> is the list of its keys.\<close>

definition vform :: "config \<Rightarrow> bool vact" where
  "vform u =
     athen (checkForm u)
     (athen (amodify (\<lambda>s. s\<lparr>v_submitted := oextend (v_submitted s) (v_errorMap s), v_invalid := map fst (v_errorMap s)\<rparr>))
     (athen (ado (\<lambda>s. awhen (\<not> valid s) (record_event InvalidForm)))
     (athen (amodify (showErrors u []))
     (aget_state valid))))"

definition element :: "config \<Rightarrow> nat \<Rightarrow> bool vact" where
  "element u el = ado (\<lambda>s.
     case validationTargetFor u s el of
       None \<Rightarrow> athrow TypeError
     | Some el \<Rightarrow>
         athen (amodify (\<lambda>s. (prepareElement u el s)\<lparr>v_currentElements := [el]\<rparr>))
         (abind (check u el) (\<lambda>v.
           athen (amodify (\<lambda>s. s\<lparr>v_invalid :=
               (if v \<noteq> Invalid then filter (\<lambda>n. n \<noteq> name_of s el) (v_invalid s)
                else union_list (v_invalid s) [name_of s el])\<rparr>))
           (athen (amodify (\<lambda>s. if length (v_invalid s) = 0
               then s\<lparr>v_toHide := union_list (v_toHide s) [TContainers]\<rparr> else s))
           (athen (amodify (showErrors u []))
           (areturn (v \<noteq> Invalid)))))))"

text \<open>\<open>$(elements).valid()\<close> on controls.\<close>

fun valid_all :: "config \<Rightarrow> nat list \<Rightarrow> bool \<Rightarrow> bool vact" where
  "valid_all u [] ok = areturn ok"
| "valid_all u (el # els) ok = abind (element u el) (\<lambda>b. valid_all u els (ok \<and> b))"

definition resetForm :: "config \<Rightarrow> unit vact" where
  "resetForm u =
     athen (amodify (\<lambda>s. hideErrors (prepareForm u (s\<lparr>v_submitted := []\<rparr>))))
     (ado (\<lambda>s. abind (aof (elements u s)) (\<lambda>els.
       amodify (\<lambda>s. (update_controls els (\<lambda>c. c\<lparr>c_classes := remove_class (u_errorClass u) (c_classes c)\<rparr>) s)
         \<lparr>v_previous := filter (\<lambda>(el, _). el \<notin> set els) (v_previous s)\<rparr>))))"

subsection \<open>Submitting\<close>

definition findLastActive :: "vstate \<Rightarrow> nat option" where
  "findLastActive s =
     (case v_lastActive s of
        None \<Rightarrow> None
      | Some a \<Rightarrow> if length (filter (\<lambda>(el, _). name_of s el = name_of s a) (v_errorList s)) = 1 then Some a else None)"

definition text_types :: "string list" where
  "text_types = [''text'', ''password'', ''file'', ''number'', ''search'', ''tel'', ''url'', ''email'', ''datetime'', ''date'',
     ''month'', ''week'', ''time'', ''datetime-local'', ''range'', ''color'']"

definition text_like :: "control \<Rightarrow> bool" where
  "text_like c \<longleftrightarrow> c_node c \<in> set [''select'', ''textarea''] \<or> c_type c \<in> set text_types"

definition onfocusin :: "config \<Rightarrow> nat \<Rightarrow> vstate \<Rightarrow> vstate" where
  "onfocusin u el s =
     (let s = s\<lparr>v_lastActive := Some el\<rparr>
      in if u_focusCleanup u
         then (let s = unhighlight u el s in set_visible False (map TLabel (errorsFor u s el)) s)
         else s)"

definition focusInvalid :: "config \<Rightarrow> vstate \<Rightarrow> vstate" where
  "focusInvalid u s =
     (if \<not> u_focusInvalid u then s
      else case (case findLastActive s of Some a \<Rightarrow> Some a
                 | None \<Rightarrow> (case v_errorList s of [] \<Rightarrow> None | (el, _) # _ \<Rightarrow> Some el)) of
             None \<Rightarrow> s
           | Some el \<Rightarrow>
               if c_hidden (control_of s el) \<or> \<not> text_like (control_of s el) then s else onfocusin u el s)"

definition clickSubmit :: "config \<Rightarrow> string \<Rightarrow> bool \<Rightarrow> vstate \<Rightarrow> vstate" where
  "clickSubmit u button cancel s =
     (let s = (if u_submitHandler u then s\<lparr>v_submitButton := Some button\<rparr> else s)
      in if cancel then s\<lparr>v_cancelSubmit := True\<rparr> else s)"

definition handle :: "config \<Rightarrow> bool vact" where
  "handle u =
     (if u_submitHandler u
      then ado (\<lambda>s. athen (record_event (HandlerCalled (v_submitButton s))) (areturn False))
      else areturn True)"

text \<open>The handler of the \<open>submit\<close> event: false prevents the submission.\<close>

definition submit_handler :: "config \<Rightarrow> bool vact" where
  "submit_handler u = ado (\<lambda>s.
     if v_cancelSubmit s
     then athen (amodify (\<lambda>s. s\<lparr>v_cancelSubmit := False\<rparr>)) (handle u)
     else abind (vform u) (\<lambda>ok.
       if ok then ado (\<lambda>s.
         if v_pendingRequest s \<noteq> 0
         then athen (amodify (\<lambda>s. s\<lparr>v_formSubmitted := True\<rparr>)) (areturn False)
         else handle u)
       else athen (amodify (focusInvalid u)) (areturn False)))"

definition submit_form :: "config \<Rightarrow> unit vact" where
  "submit_form u = abind (submit_handler u) (\<lambda>go. awhen go (record_event Submitted))"

definition forget_request :: "nat \<Rightarrow> vstate \<Rightarrow> vstate" where
  "forget_request el s =
     s\<lparr>v_pendingRequest := (if v_pendingRequest s - 1 < 0 then 0 else v_pendingRequest s - 1),
       v_pending := filter (\<lambda>n. n \<noteq> name_of s el) (v_pending s)\<rparr>"

definition clear_submitted :: "vstate \<Rightarrow> vstate" where
  "clear_submitted s = s\<lparr>v_formSubmitted := False\<rparr>"

definition stopRequest :: "config \<Rightarrow> nat \<Rightarrow> bool \<Rightarrow> unit vact" where
  "stopRequest u el ok =
     athen (amodify (forget_request el))
     (ado (\<lambda>s.
       if ok \<and> v_pendingRequest s = 0 \<and> v_formSubmitted s then
         abind (vform u) (\<lambda>b. awhen b (athen (submit_form u) (amodify clear_submitted)))
       else if \<not> ok \<and> v_pendingRequest s = 0 \<and> v_formSubmitted s then
         athen (record_event InvalidForm) (amodify clear_submitted)
       else areturn ()))"

subsection \<open>Answers of remote checks\<close>

definition value_param :: "fvalue \<Rightarrow> param" where
  "value_param v =
     (case v of FText s \<Rightarrow> PText s | FList vs \<Rightarrow> PArr (map PText vs) | FNull \<Rightarrow> PNull | FUndefined \<Rightarrow> PUndefined)"

definition rejection_text :: "config \<Rightarrow> request \<Rightarrow> param \<Rightarrow> vstate \<Rightarrow> string res" where
  "rejection_text u q response s =
     (if param_truthy response then Inr (param_text response)
      else case defaultMessage u s (q_element q) ''remote'' of
             MText t \<Rightarrow> Inr t
           | MFormat source \<Rightarrow> format source (value_param (q_value q)))"

definition remote_success :: "config \<Rightarrow> request \<Rightarrow> param \<Rightarrow> unit vact" where
  "remote_success u q response =
     athen (amodify (\<lambda>s. set_remote_message (q_name q) (p_original (v_heap s ! q_previous q)) s))
     (let ok = (response = PBool True \<or> response = PText ''true'');
          el = q_element q
      in athen
           (if ok then
              amodify (\<lambda>s.
                let s = prepareElement u el s;
                    s = s\<lparr>v_successList := v_successList s @ [el], v_invalid := filter (\<lambda>n. n \<noteq> q_name q) (v_invalid s)\<rparr>
                in showErrors u [] s)
            else ado (\<lambda>s. abind (aof (rejection_text u q response s)) (\<lambda>t.
              amodify (\<lambda>s.
                let s = update_previous (q_previous q) (\<lambda>r. r\<lparr>p_message := MText t\<rparr>) s;
                    s = s\<lparr>v_invalid := union_list (v_invalid s) [q_name q]\<rparr>
                in showErrors u [(q_name q, t)] s))))
         (athen (amodify (update_previous (q_previous q) (\<lambda>r. r\<lparr>p_valid := ok\<rparr>)))
         (stopRequest u el ok)))"

definition take_request :: "nat \<Rightarrow> vstate \<Rightarrow> vstate" where
  "take_request i s = s\<lparr>v_requests := filter (\<lambda>q. q_id q \<noteq> i) (v_requests s)\<rparr>"

definition respond :: "config \<Rightarrow> nat \<Rightarrow> param \<Rightarrow> unit vact" where
  "respond u i response = ado (\<lambda>s.
     case find (\<lambda>q. q_id q = i) (v_requests s) of
       None \<Rightarrow> areturn ()
     | Some q \<Rightarrow> athen (amodify (take_request i)) (remote_success u q response))"

text \<open>The request has no \<open>error\<close> function: a request that fails leaves no other trace.\<close>

definition fail_request :: "nat \<Rightarrow> unit vact" where
  "fail_request i = amodify (take_request i)"

subsection \<open>The events of the form\<close>

definition onfocusout :: "config \<Rightarrow> nat \<Rightarrow> unit vact" where
  "onfocusout u el = ado (\<lambda>s.
     awhen (\<not> checkable (control_of s el) \<and>
            (in_object (name_of s el) (v_submitted s) \<or> \<not> is_blank (v_controls s) el))
       (athen (element u el) (areturn ())))"

definition onkeyup :: "config \<Rightarrow> nat \<Rightarrow> bool \<Rightarrow> unit vact" where
  "onkeyup u el tab = ado (\<lambda>s.
     if tab \<and> elementValue (v_controls s) el = FText [] then areturn ()
     else awhen (in_object (name_of s el) (v_submitted s) \<or> v_lastActive s = Some el)
       (athen (element u el) (areturn ())))"

text \<open>A click on an option of a select is handled as one on the select, by the second branch of the code; the
  parent of a control itself has no name that was submitted.\<close>

definition onclick :: "config \<Rightarrow> nat \<Rightarrow> unit vact" where
  "onclick u el = ado (\<lambda>s.
     awhen (in_object (name_of s el) (v_submitted s)) (athen (element u el) (areturn ())))"

text \<open>The blur handlers that \<open>equalTo\<close> binds.\<close>

definition onblur :: "config \<Rightarrow> nat \<Rightarrow> unit vact" where
  "onblur u t = ado (\<lambda>s.
     aeach (\<lambda>(_, el). athen (element u el) (areturn ())) (filter (\<lambda>(t', _). t' = t) (v_blur s)))"

text \<open>\<open>rules("add")\<close> and \<open>rules("remove")\<close> on a control, with the messages that come with a rule.\<close>

definition messages_of :: "param \<Rightarrow> message obj" where
  "messages_of argument =
     (case argument of
        PObj m \<Rightarrow> (case oget m ''messages'' of
                     Some (PObj ms) \<Rightarrow> map (\<lambda>(k, v). (k, MText (param_text v))) ms
                   | _ \<Rightarrow> [])
      | _ \<Rightarrow> [])"

definition add_rules :: "param \<Rightarrow> nat \<Rightarrow> vstate \<Rightarrow> vstate" where
  "add_rules argument el s =
     (let s = s\<lparr>v_rules := rules_add argument (control_of s el) (v_rules s)\<rparr>;
          ms = messages_of argument;
          old = (case oget (v_messages s) (name_of s el) of Some (CMethods m) \<Rightarrow> m | _ \<Rightarrow> [])
      in if ms = [] then s
         else s\<lparr>v_messages := oset (name_of s el) (CMethods (oextend old ms)) (v_messages s)\<rparr>)"

definition remove_rules :: "string option \<Rightarrow> nat \<Rightarrow> vstate \<Rightarrow> vstate" where
  "remove_rules argument el s =
     s\<lparr>v_rules := snd (rules_remove argument (control_of s el) (v_rules s))\<rparr>"

text \<open>What can happen to a form: events, answers, calls of the page. \<open>AChange\<close> is the user's input.\<close>

datatype action =
    ASubmit
  | AClickSubmit string bool
  | AFocusin nat
  | AFocusout nat
  | AKeyup nat bool
  | AClick nat
  | ABlur nat
  | ARespond nat param
  | AFail nat
  | AChange nat string bool "(string \<times> bool) list"
  | AValid "nat list"
  | AForm
  | AReset
  | AAddRules param nat
  | ARemoveRules "string option" nat

definition change_control :: "nat \<Rightarrow> string \<Rightarrow> bool \<Rightarrow> (string \<times> bool) list \<Rightarrow> vstate \<Rightarrow> vstate" where
  "change_control el v b os = update_controls [el] (\<lambda>c. c\<lparr>c_value := v, c_checked := b, c_options := os\<rparr>)"

fun perform :: "config \<Rightarrow> action \<Rightarrow> unit vact" where
  "perform u ASubmit = submit_form u"
| "perform u (AClickSubmit button cancel) = amodify (clickSubmit u button cancel)"
| "perform u (AFocusin el) = ado (\<lambda>s. awhen (text_like (control_of s el)) (amodify (onfocusin u el)))"
| "perform u (AFocusout el) = ado (\<lambda>s. awhen (text_like (control_of s el)) (onfocusout u el))"
| "perform u (AKeyup el tab) = ado (\<lambda>s. awhen (text_like (control_of s el)) (onkeyup u el tab))"
| "perform u (AClick el) = onclick u el"
| "perform u (ABlur el) = onblur u el"
| "perform u (ARespond i response) = respond u i response"
| "perform u (AFail i) = fail_request i"
| "perform u (AChange el v b os) = amodify (change_control el v b os)"
| "perform u (AValid els) = athen (valid_all u els True) (areturn ())"
| "perform u AForm = athen (vform u) (areturn ())"
| "perform u AReset = resetForm u"
| "perform u (AAddRules p el) = amodify (add_rules p el)"
| "perform u (ARemoveRules arg el) = amodify (remove_rules arg el)"

text \<open>The controls that an event is about; an event of a control that the page does not have cannot happen.\<close>

fun targets :: "action \<Rightarrow> nat list" where
  "targets (AFocusin el) = [el]"
| "targets (AFocusout el) = [el]"
| "targets (AKeyup el tab) = [el]"
| "targets (AClick el) = [el]"
| "targets (ABlur el) = [el]"
| "targets (AChange el v b os) = [el]"
| "targets (AValid els) = els"
| "targets (AAddRules p el) = [el]"
| "targets (ARemoveRules arg el) = [el]"
| "targets _ = []"

definition vstep :: "config \<Rightarrow> action \<Rightarrow> vstate \<Rightarrow> vstate" where
  "vstep u a s =
     (if \<forall>el \<in> set (targets a). el < length (v_controls s) then after (perform u a) s else s)"

definition vrun :: "config \<Rightarrow> action list \<Rightarrow> vstate \<Rightarrow> vstate" where
  "vrun u as s = fold (vstep u) as s"

end
