(* ===== verification/ValCheck.thy ===== *)
theory ValCheck
  imports ValMethods
begin

text \<open>
  What the rules and methods of \<open>jquery.validate.js\<close> guarantee: the check digit of card numbers catches
  a wrong or two swapped digits, templates are filled as if all holes were filled at once, normalised
  rules have the parameters the methods expect, and lengths from the page are enforced.
\<close>

subsection \<open>Card numbers\<close>

definition luhn_weight :: "bool \<Rightarrow> nat \<Rightarrow> nat" where
  "luhn_weight bEven d = (if bEven then (if d * 2 > 9 then d * 2 - 9 else d * 2) else d)"

text \<open>The sum of the definition of the check: digits at odd places from the right count double, and a
  double of two digits counts the sum of them.\<close>

definition luhn_sum :: "nat list \<Rightarrow> nat" where
  "luhn_sum ds = (\<Sum>i < length ds. luhn_weight (odd i) (ds ! i))"

fun luhn_rec :: "nat list \<Rightarrow> bool \<Rightarrow> nat" where
  "luhn_rec [] e = 0"
| "luhn_rec (d # ds) e = luhn_weight e d + luhn_rec ds (\<not> e)"

lemma luhn_loop_rec: "luhn_loop s e n = n + int (luhn_rec (map digit_val s) e)"
  by (induction s arbitrary: e n) (simp_all add: luhn_weight_def Let_def of_nat_diff)

lemma luhn_rec_sum: "luhn_rec ds e = (\<Sum>i < length ds. luhn_weight (odd i \<noteq> e) (ds ! i))"
proof (induction ds arbitrary: e)
  case (Cons d ds)
  show ?case
    unfolding length_Cons sum.lessThan_Suc_shift by (simp add: Cons)
qed simp

lemma luhn_rec_append:
  "luhn_rec (xs @ ys) e = luhn_rec xs e + luhn_rec ys (if even (length xs) then e else \<not> e)"
  by (induction xs arbitrary: e) auto

lemma card_ok_sum:
  "card_ok s \<longleftrightarrow>
     list_all (\<lambda>c. is_digit c \<or> c = CHR '' '' \<or> c = CHR ''-'') s \<and>
     luhn_sum (map digit_val (rev (filter is_digit s))) mod 10 = 0"
proof -
  have "luhn_loop t False 0 mod 10 = 0 \<longleftrightarrow> luhn_sum (map digit_val t) mod 10 = 0" for t
  proof -
    have "luhn_sum (map digit_val t) = luhn_rec (map digit_val t) False"
      by (simp add: luhn_rec_sum luhn_sum_def)
    moreover have "int k mod 10 = 0 \<longleftrightarrow> k mod 10 = 0" for k by presburger
    ultimately show ?thesis by (simp add: luhn_loop_rec)
  qed
  then show ?thesis by (simp add: card_ok_def)
qed

lemma digit_facts: "is_digit c \<Longrightarrow> digit_val c < 10 \<and> digit_char (digit_val c) = c"
proof -
  have "\<forall>c \<in> set digit_chars. digit_val c < 10 \<and> digit_char (digit_val c) = c" by code_simp
  then show "is_digit c \<Longrightarrow> digit_val c < 10 \<and> digit_char (digit_val c) = c"
    by (simp add: is_digit_def)
qed

lemma digit_val_less: "is_digit c \<Longrightarrow> digit_val c < 10"
  by (simp add: digit_facts)

lemma digit_val_inj: "is_digit c \<Longrightarrow> is_digit d \<Longrightarrow> digit_val c = digit_val d \<Longrightarrow> c = d"
  by (metis digit_facts)

lemma weight_inj: "a < 10 \<Longrightarrow> b < 10 \<Longrightarrow> luhn_weight e a = luhn_weight e b \<Longrightarrow> a = b"
  by (simp add: luhn_weight_def split: if_splits; presburger)

lemma weight_less: "a < 10 \<Longrightarrow> luhn_weight e a < 10"
  by (auto simp: luhn_weight_def)

text \<open>Swapped neighbours change the sum unless they are 0 and 9.\<close>

lemma weight_swap:
  assumes "a < 10" "b < 10" "a \<noteq> b" "{a, b} \<noteq> {0, 9}"
  shows "(luhn_weight e a + luhn_weight (\<not> e) b) mod 10 \<noteq> (luhn_weight e b + luhn_weight (\<not> e) a) mod 10"
proof -
  have "\<forall>a \<in> set [0..<10]. \<forall>b \<in> set [0..<10]. \<forall>e \<in> {True, False}. a = b \<or> (a = 0 \<and> b = 9) \<or> (a = 9 \<and> b = 0) \<or>
      (luhn_weight e a + luhn_weight (\<not> e) b) mod 10 \<noteq> (luhn_weight e b + luhn_weight (\<not> e) a) mod 10"
    by code_simp
  from bspec [OF bspec [OF bspec [OF this, of a], of b], of e]
  have "a = b \<or> (a = 0 \<and> b = 9) \<or> (a = 9 \<and> b = 0) \<or> ?thesis" using assms(1,2) by simp
  then show ?thesis using assms(3,4) by auto
qed

lemma cancel_mod: "(p + x + q) mod m = (p + y + q) mod m \<longleftrightarrow> x mod m = y mod (m :: nat)"
proof -
  have "int ((p + x + q) mod m) = int ((p + y + q) mod m) \<longleftrightarrow> int (x mod m) = int (y mod m)"
    unfolding of_nat_mod of_nat_add by (simp add: mod_eq_dvd_iff)
  then show ?thesis by (metis of_nat_eq_iff)
qed

text \<open>The sum around one or two digits in the middle.\<close>

lemma luhn_rec_middle:
  "luhn_rec (xs @ m @ ys) e =
     luhn_rec xs e + luhn_rec m (if even (length xs) then e else \<not> e) +
     luhn_rec ys (if even (length xs + length m) then e else \<not> e)"
  by (simp add: luhn_rec_append)

lemma card_digits:
  "card_ok (xs @ m @ ys) \<Longrightarrow> list_all is_digit m \<Longrightarrow>
     luhn_rec (map digit_val (rev (filter is_digit (xs @ m @ ys)))) False mod 10 = 0"
  by (simp add: card_ok_sum luhn_sum_def luhn_rec_sum del: rev_append filter_append map_append)

lemma filter_digits: "list_all is_digit m \<Longrightarrow> filter is_digit m = m"
  by (simp add: filter_id_conv list_all_iff)

text \<open>Two texts that differ in a run of digits are both card numbers only if the runs have the same sum.\<close>

lemma same_sum:
  assumes a: "card_ok (xs @ m @ ys)" and b: "card_ok (xs @ n @ ys)"
    and dm: "list_all is_digit m" and dn: "list_all is_digit n" and len: "length m = length n"
  shows "\<exists>e. luhn_rec (map digit_val (rev m)) e mod 10 = luhn_rec (map digit_val (rev n)) e mod 10"
proof -
  let ?x = "map digit_val (rev (filter is_digit xs))"
  let ?y = "map digit_val (rev (filter is_digit ys))"
  let ?e = "if even (length ?y) then False else True"
  have m: "luhn_rec (?y @ map digit_val (rev m) @ ?x) False mod 10 = 0"
    using card_digits [OF a dm] by (simp add: filter_digits [OF dm])
  have n: "luhn_rec (?y @ map digit_val (rev n) @ ?x) False mod 10 = 0"
    using card_digits [OF b dn] by (simp add: filter_digits [OF dn])
  obtain k where "(luhn_rec ?y False + luhn_rec (map digit_val (rev m)) ?e + k) mod 10 =
      (luhn_rec ?y False + luhn_rec (map digit_val (rev n)) ?e + k) mod 10"
    using m n len unfolding luhn_rec_middle by (metis length_map length_rev)
  then show ?thesis unfolding cancel_mod ..
qed

text \<open>C39: A wrong digit in a card number is caught: changing one digit of an accepted text, separators
  or not, makes the check fail.\<close>

theorem wrong_digit_is_caught:
  assumes "card_ok (xs @ c # ys)" "is_digit c" "is_digit d" "c \<noteq> d"
  shows "\<not> card_ok (xs @ d # ys)"
proof
  assume "card_ok (xs @ d # ys)"
  then obtain e where "luhn_weight e (digit_val c) mod 10 = luhn_weight e (digit_val d) mod 10"
    using same_sum [of xs "[c]" ys "[d]"] assms by auto
  then have "luhn_weight e (digit_val c) = luhn_weight e (digit_val d)"
    using assms(2,3) by (simp add: digit_val_less weight_less)
  then show False
    using weight_inj [OF digit_val_less [OF assms(2)] digit_val_less [OF assms(3)]]
      digit_val_inj [OF assms(2,3)] assms(4) by blast
qed

theorem wrong_digit_is_caught_witness: "\<not> card_ok (''4111-1111-1111-11'' @ CHR ''2'' # ''1'')"
  by (rule wrong_digit_is_caught [of _ "CHR ''1''"]) code_simp+

text \<open>Two swapped neighbouring digits of a card number are caught, unless they are 0 and 9.\<close>

theorem swapped_digits_are_caught:
  assumes "card_ok (xs @ c # d # ys)" "is_digit c" "is_digit d" "c \<noteq> d"
    and "{c, d} \<noteq> {CHR ''0'', CHR ''9''}"
  shows "\<not> card_ok (xs @ d # c # ys)"
proof
  assume "card_ok (xs @ d # c # ys)"
  then obtain e where e: "(luhn_weight e (digit_val d) + luhn_weight (\<not> e) (digit_val c)) mod 10 =
      (luhn_weight e (digit_val c) + luhn_weight (\<not> e) (digit_val d)) mod 10"
    using same_sum [of xs "[c, d]" ys "[d, c]"] assms by auto
  have v: "digit_val CHR ''0'' = 0" "digit_val CHR ''9'' = 9" by code_simp+
  have z: "is_digit CHR ''0''" "is_digit CHR ''9''" by (simp_all add: is_digit_def digit_chars_def)
  have "{digit_val d, digit_val c} \<noteq> {0, 9}"
  proof
    assume "{digit_val d, digit_val c} = {0, 9}"
    then have "digit_val d = digit_val CHR ''0'' \<and> digit_val c = digit_val CHR ''9'' \<or>
        digit_val d = digit_val CHR ''9'' \<and> digit_val c = digit_val CHR ''0''"
      unfolding v by (simp only: doubleton_eq_iff)
    then have "d = CHR ''0'' \<and> c = CHR ''9'' \<or> d = CHR ''9'' \<and> c = CHR ''0''"
      using digit_val_inj [OF assms(3)] digit_val_inj [OF assms(2)] z by blast
    then show False using assms(5) unfolding doubleton_eq_iff by blast
  qed
  moreover have "digit_val d \<noteq> digit_val c" using assms(2,3,4) digit_val_inj by blast
  ultimately show False
    using weight_swap [OF digit_val_less [OF assms(3)] digit_val_less [OF assms(2)], of e] e by simp
qed

theorem swapped_digits_are_caught_witness: "\<not> card_ok (''4012 8888 8888 '' @ CHR ''8'' # CHR ''1'' # ''81'')"
  by (rule swapped_digits_are_caught [of _ "CHR ''1''" "CHR ''8''"]) code_simp+

subsection \<open>Message templates\<close>

text \<open>A template as text without braces and numbered holes.\<close>

datatype piece = Lit string | Hole nat

fun piece_text :: "piece \<Rightarrow> string" where
  "piece_text (Lit t) = t"
| "piece_text (Hole i) = placeholder i"

definition render :: "piece list \<Rightarrow> string" where
  "render ps = concat (map piece_text ps)"

definition lits_plain :: "piece list \<Rightarrow> bool" where
  "lits_plain ps \<longleftrightarrow> (\<forall>t. Lit t \<in> set ps \<longrightarrow> CHR 0x7B \<notin> set t)"

definition put_in :: "nat \<Rightarrow> string list \<Rightarrow> piece \<Rightarrow> piece" where
  "put_in k ns p = (case p of Lit t \<Rightarrow> Lit t
     | Hole i \<Rightarrow> if k \<le> i \<and> i < k + length ns then Lit (ns ! (i - k)) else Hole i)"

lemma render_Cons: "render (p # ps) = piece_text p @ render ps"
  by (simp add: render_def)

lemma lits_plain_Cons: "lits_plain (p # ps) \<longleftrightarrow> (\<forall>t. p = Lit t \<longrightarrow> CHR 0x7B \<notin> set t) \<and> lits_plain ps"
  by (auto simp: lits_plain_def)

lemma expand_plain: "CHR ''$'' \<notin> set repl \<Longrightarrow> expand repl before m behind = repl"
  by (induction repl before m behind rule: expand.induct) auto

lemma replace_from_seen:
  assumes "CHR ''$'' \<notin> set repl"
  shows "replace_from pat repl seen s = replace_from pat repl seen' s"
  using assms
proof (induction pat repl seen s arbitrary: seen' rule: replace_from.induct)
  case (2 pat repl seen c s)
  show ?case
  proof (cases "pat \<noteq> [] \<and> starts_with pat (c # s)")
    case True
    then show ?thesis using 2(1) [OF True] 2(3) by (simp add: expand_plain)
  next
    case False
    then show ?thesis using 2(2) [OF False] 2(3) by auto
  qed
qed simp

lemma replace_match:
  assumes "CHR ''$'' \<notin> set repl" "pat \<noteq> []"
  shows "replace_from pat repl seen (pat @ s) = repl @ replace_from pat repl seen s"
proof (cases pat)
  case (Cons c t)
  have "starts_with pat (c # t @ s)" using Cons by (metis append_Cons starts_with_append)
  then show ?thesis
    using Cons expand_plain [OF assms(1)] replace_from_seen [OF assms(1)] by simp
qed (simp add: assms)

lemma placeholder_hd: "placeholder i = CHR 0x7B # nat_str i @ [CHR 0x7D]"
  by (simp add: placeholder_def)

lemma not_brace: "CHR 0x7B \<notin> set (nat_str i)" "CHR 0x7D \<notin> set (nat_str i)"
proof -
  have "\<not> is_digit CHR 0x7B" "\<not> is_digit CHR 0x7D" by code_simp+
  then show "CHR 0x7B \<notin> set (nat_str i)" "CHR 0x7D \<notin> set (nat_str i)"
    using nat_str_digits [of i] by blast+
qed

lemma placeholder_prefix:
  assumes "starts_with (placeholder i) (placeholder j @ s)"
  shows "i = j"
proof -
  obtain t where "nat_str j @ CHR 0x7D # s = nat_str i @ CHR 0x7D # t"
    using assms unfolding starts_with_iff placeholder_hd by auto
  then have "takeWhile (\<lambda>c. c \<noteq> CHR 0x7D) (nat_str j @ CHR 0x7D # s) =
      takeWhile (\<lambda>c. c \<noteq> CHR 0x7D) (nat_str i @ CHR 0x7D # t)" by simp
  moreover have "takeWhile (\<lambda>c. c \<noteq> CHR 0x7D) (nat_str n @ CHR 0x7D # r) = nat_str n" for n r
  proof -
    have "\<And>c. c \<in> set (nat_str n) \<Longrightarrow> c \<noteq> CHR 0x7D" using not_brace(2) [of n] by blast
    then show ?thesis by (subst takeWhile_append2) simp_all
  qed
  ultimately have "nat_str j = nat_str i" by (simp only:)
  then show ?thesis by (simp only: nat_str_inject)
qed

lemma replace_lit:
  "CHR 0x7B \<notin> set t \<Longrightarrow> CHR ''$'' \<notin> set repl \<Longrightarrow>
     replace_from (placeholder i) repl seen (t @ s) = t @ replace_from (placeholder i) repl seen s"
proof (induction t arbitrary: seen)
  case (Cons c t)
  have "\<not> starts_with (placeholder i) (c # t @ s)"
    using Cons.prems(1) by (auto simp: starts_with_iff placeholder_hd)
  then have "replace_from (placeholder i) repl seen ((c # t) @ s) =
      c # t @ replace_from (placeholder i) repl (seen @ [c]) s"
    using Cons by simp
  then show ?case using replace_from_seen [OF Cons.prems(2)] by (metis append_Cons)
qed simp

lemma replace_hole:
  assumes "CHR ''$'' \<notin> set repl"
  shows "replace_from (placeholder i) repl seen (placeholder i @ s) = repl @ replace_from (placeholder i) repl seen s"
    and "j \<noteq> i \<Longrightarrow> replace_from (placeholder i) repl seen (placeholder j @ s) =
      placeholder j @ replace_from (placeholder i) repl seen s"
proof -
  show "replace_from (placeholder i) repl seen (placeholder i @ s) = repl @ replace_from (placeholder i) repl seen s"
    using assms by (rule replace_match) (simp add: placeholder_hd)
next
  assume "j \<noteq> i"
  then have "\<not> starts_with (placeholder i) (placeholder j @ s)"
    using placeholder_prefix by blast
  then have "replace_from (placeholder i) repl seen (placeholder j @ s) =
      CHR 0x7B # replace_from (placeholder i) repl (seen @ [CHR 0x7B]) ((nat_str j @ [CHR 0x7D]) @ s)"
    by (simp add: placeholder_hd)
  also have "\<dots> = placeholder j @ replace_from (placeholder i) repl seen s"
    using not_brace [of j] assms replace_from_seen [OF assms]
    by (subst replace_lit) (auto simp: placeholder_hd)
  finally show "replace_from (placeholder i) repl seen (placeholder j @ s) =
      placeholder j @ replace_from (placeholder i) repl seen s" .
qed

lemma replace_render:
  assumes "lits_plain ps" "CHR ''$'' \<notin> set repl"
  shows "replace_from (placeholder i) repl [] (render ps) =
    render (map (\<lambda>p. if p = Hole i then Lit repl else p) ps)"
  using assms(1)
proof (induction ps)
  case Nil
  then show ?case by (simp add: render_def)
next
  case (Cons p ps)
  then show ?case
    using assms(2) by (cases p) (auto simp: render_Cons lits_plain_Cons replace_lit replace_hole)
qed

lemma fill_from_render:
  "lits_plain ps \<Longrightarrow> \<forall>n \<in> set ns. CHR ''$'' \<notin> set n \<and> CHR 0x7B \<notin> set n \<Longrightarrow>
     fill_from k ns (render ps) = render (map (put_in k ns) ps)"
proof (induction ns arbitrary: k ps)
  case Nil
  have "put_in k [] p = p" for p by (cases p) (simp_all add: put_in_def)
  then show ?case by (simp add: map_idI)
next
  case (Cons n ns)
  let ?ps = "map (\<lambda>p. if p = Hole k then Lit n else p) ps"
  have "lits_plain ?ps" using Cons.prems by (fastforce simp: lits_plain_def)
  then have "fill_from (Suc k) ns (render ?ps) = render (map (put_in (Suc k) ns) ?ps)"
    using Cons by simp
  moreover have "put_in (Suc k) ns (if p = Hole k then Lit n else p) = put_in k (n # ns) p" for p
    by (cases p) (auto simp: put_in_def nth_Cons' Suc_le_eq)
  ultimately show ?case using Cons.prems by (simp add: replace_render o_def)
qed

text \<open>C40: A message template is filled as if all its holes were filled at once: every hole with a
  parameter becomes that parameter and the other holes stay, provided that no parameter has a brace or
  a dollar sign.\<close>

theorem format_fills_holes_at_once:
  assumes "lits_plain ps" and "\<forall>p \<in> set params. CHR ''$'' \<notin> set (param_text p) \<and> CHR 0x7B \<notin> set (param_text p)"
  shows "format (render ps) (PArr params) = Inr (render (map (put_in 0 (map param_text params)) ps))"
  using assms by (simp add: format_def fill_from_render)

theorem format_fills_holes_at_once_witness:
  "format ''Enter {0} to {1}.'' (PArr [PNum (whole 5), PNum (whole 10)]) = Inr ''Enter 5 to 10.''"
proof -
  have s: "''Enter {0} to {1}.'' = render [Lit ''Enter '', Hole 0, Lit '' to '', Hole 1, Lit ''.'']" by code_simp
  have p: "map param_text [PNum (whole 5), PNum (whole 10)] = [''5'', ''10'']" by code_simp
  have l: "lits_plain [Lit ''Enter '', Hole 0, Lit '' to '', Hole 1, Lit ''.'']"
    unfolding lits_plain_def by auto
  have m: "\<forall>p \<in> set [PNum (whole 5), PNum (whole 10)]. CHR ''$'' \<notin> set (param_text p) \<and> CHR 0x7B \<notin> set (param_text p)"
    by code_simp
  show ?thesis
    unfolding s format_fills_holes_at_once [OF l m] p by (simp add: render_def put_in_def)
qed

text \<open>A parameter that looks like a hole is filled by the next one, and a dollar sign is expanded.\<close>

lemma format_fills_parameters_too:
  "format ''Between {0} and {1}.'' (PArr [PText ''{1}'', PText ''b'']) = Inr ''Between b and b.''"
  "format ''At most {0}.'' (PText ''5$$'') = Inr ''At most 5$.''"
  by code_simp+

subsection \<open>Normalised rules\<close>

text \<open>What the methods expect: a number for a bound, a pair of numbers for a range.\<close>

definition well_typed :: "string \<Rightarrow> param \<Rightarrow> bool" where
  "well_typed k p \<longleftrightarrow>
     (k \<in> set number_names \<and> param_truthy p \<longrightarrow> (\<exists>n. p = PNum n)) \<and>
     (k \<in> set pair_names \<and> param_truthy p \<longrightarrow> (\<exists>a b. p = PArr [PNum a, PNum b]))"

definition typed_rules :: "rules \<Rightarrow> bool" where
  "typed_rules rs \<longleftrightarrow> distinct (map fst rs) \<and> (\<forall>(k, p) \<in> set rs. well_typed k p)"

lemma number_pair_names [simp]: "k \<in> set number_names \<Longrightarrow> k \<notin> set pair_names"
  by (auto simp: number_names_def pair_names_def)

lemma typed_rules_oget: "typed_rules rs \<Longrightarrow> oget rs k = Some p \<Longrightarrow> well_typed k p"
  by (auto simp: typed_rules_def dest: map_of_SomeD)

lemma typed_odel: "typed_rules rs \<Longrightarrow> typed_rules (odel k rs)"
proof -
  assume t: "typed_rules rs"
  have d: "distinct (map fst (odel k rs))" using t by (simp add: typed_rules_def distinct_delete)
  have "well_typed k' p" if "(k', p) \<in> set (odel k rs)" for k' p
  proof -
    have "oget (odel k rs) k' = Some p" using that d by (simp add: map_of_is_SomeI)
    then show ?thesis using typed_rules_oget [OF t] by (auto simp: oget_odel split: if_splits)
  qed
  then show ?thesis using d by (auto simp: typed_rules_def)
qed

lemma typed_oset: "typed_rules rs \<Longrightarrow> well_typed k p \<Longrightarrow> typed_rules (oset k p rs)"
proof -
  assume t: "typed_rules rs" and w: "well_typed k p"
  have "distinct (map fst (oset k p rs))" using t by (simp add: typed_rules_def distinct_update)
  moreover have "well_typed k' q" if "(k', q) \<in> set (oset k p rs)" for k' q
  proof -
    have "oget (oset k p rs) k' = Some q" using that calculation by (simp add: map_of_is_SomeI)
    then show ?thesis using w typed_rules_oget [OF t] by (auto simp: oget_oset split: if_splits)
  qed
  ultimately show ?thesis by (auto simp: typed_rules_def)
qed

lemma clean_number_typed: "clean_number (k, p) = Inr (k', q) \<Longrightarrow> k' = k \<and> well_typed k q"
  by (auto simp: clean_number_def well_typed_def rbind_Inr_iff split: if_splits)

lemma evaluate_key: "evaluate_parameter h el x = Inr y \<Longrightarrow> fst y = fst x"
  by (cases x) (auto simp: evaluate_parameter_def rbind_Inr_iff split: param.splits)

lemma rmap_keys: "rmap f xs = Inr ys \<Longrightarrow> (\<And>x y. f x = Inr y \<Longrightarrow> fst y = fst x) \<Longrightarrow> map fst ys = map fst xs"
  by (induction xs arbitrary: ys) (auto simp: rbind_Inr_iff)

lemma rmap_in: "rmap f xs = Inr ys \<Longrightarrow> y \<in> set ys \<Longrightarrow> \<exists>x \<in> set xs. f x = Inr y"
  by (induction xs arbitrary: ys) (auto simp: rbind_Inr_iff)

lemma rmap_out: "rmap f xs = Inr ys \<Longrightarrow> x \<in> set xs \<Longrightarrow> f x = Inr y \<Longrightarrow> y \<in> set ys"
  by (induction xs arbitrary: ys) (auto simp: rbind_Inr_iff)

lemma check_dependency_key: "check_dependency h el x = Inr r \<Longrightarrow> r = [] \<or> (\<exists>p. r = [(fst x, p)])"
  by (cases x) (auto simp: check_dependency_def rbind_Inr_iff split: if_splits)

lemma check_dependency_keys:
  "rmap (check_dependency h el) rs = Inr kept \<Longrightarrow> distinct (map fst rs) \<Longrightarrow>
     distinct (map fst (concat kept)) \<and> fst ` set (concat kept) \<subseteq> fst ` set rs"
proof (induction rs arbitrary: kept)
  case (Cons x rs)
  obtain r ks where k: "check_dependency h el x = Inr r" "rmap (check_dependency h el) rs = Inr ks" "kept = r # ks"
    using Cons.prems(1) by (auto simp: rbind_Inr_iff)
  have "distinct (map fst (concat ks)) \<and> fst ` set (concat ks) \<subseteq> fst ` set rs"
    using Cons.IH [OF k(2)] Cons.prems(2) by simp
  moreover have "fst x \<notin> fst ` set rs" using Cons.prems(2) by simp
  ultimately show ?case
    using check_dependency_key [OF k(1)] k(3) by (elim disjE exE) (auto simp del: set_concat)
qed simp

lemma clean_keys: "clean_number x = Inr y \<Longrightarrow> fst y = fst x"
  by (cases x; cases y) (auto dest: clean_number_typed)

lemma cleaned_typed:
  assumes "distinct (map fst rs)" "rmap (check_dependency h el) rs = Inr kept"
    "rmap (evaluate_parameter h el) (concat kept) = Inr vals" "rmap clean_number vals = Inr cleaned"
  shows "typed_rules cleaned"
proof -
  have "map fst vals = map fst (concat kept)"
    by (rule rmap_keys [OF assms(3)]) (rule evaluate_key)
  moreover have "map fst cleaned = map fst vals"
    by (rule rmap_keys [OF assms(4)]) (rule clean_keys)
  ultimately have "distinct (map fst cleaned)"
    using check_dependency_keys [OF assms(2,1)] by simp
  moreover have "well_typed k p" if "(k, p) \<in> set cleaned" for k p
  proof -
    obtain x where "clean_number x = Inr (k, p)" using rmap_in [OF assms(4) \<open>(k, p) \<in> set cleaned\<close>] by blast
    then show ?thesis by (cases x) (auto dest: clean_number_typed)
  qed
  ultimately show ?thesis by (auto simp: typed_rules_def)
qed

lemma rule_value_number:
  assumes "typed_rules rs" "k \<in> set number_names" "param_truthy (rule_value rs k)"
  shows "\<exists>n. rule_value rs k = PNum n"
proof (cases "oget rs k")
  case (Some p)
  then show ?thesis using typed_rules_oget [OF assms(1) Some] assms by (auto simp: rule_value_def well_typed_def)
qed (use assms in \<open>simp add: rule_value_def\<close>)

lemma join_range_typed:
  assumes "typed_rules rs" "lo \<in> set number_names" "hi \<in> set number_names" "both \<in> set pair_names"
  shows "typed_rules (join_range lo hi both rs)"
proof (cases "param_truthy (rule_value rs lo) \<and> param_truthy (rule_value rs hi)")
  case True
  obtain a b where ab: "rule_value rs lo = PNum a" "rule_value rs hi = PNum b"
    using rule_value_number [OF assms(1)] assms(2,3) True by blast
  have "well_typed both (PArr [PNum a, PNum b])"
    using assms(4) number_pair_names by (auto simp: well_typed_def)
  then show ?thesis using True assms(1) ab by (auto simp: join_range_def intro!: typed_odel typed_oset)
next
  case False
  then show ?thesis unfolding join_range_def by (simp only: if_False assms(1))
qed

lemma normalizeRules_typed:
  assumes "distinct (map fst rs)" "normalizeRules h auto el rs = Inr rs'"
  shows "typed_rules rs'"
proof -
  obtain kept vals cleaned where
    k: "rmap (check_dependency h el) rs = Inr kept" "rmap (evaluate_parameter h el) (concat kept) = Inr vals"
       "rmap clean_number vals = Inr cleaned"
    and rs': "rs' = (let ranged = (if auto then join_range ''minlength'' ''maxlength'' ''rangelength''
                    (join_range ''min'' ''max'' ''range'' cleaned) else cleaned)
       in if param_truthy (rule_value ranged ''messages'') then odel ''messages'' ranged else ranged)"
    using assms(2) by (auto simp: normalizeRules_def rbind_Inr_iff Let_def)
  have "typed_rules cleaned" by (rule cleaned_typed [OF assms(1) k])
  then show ?thesis
    unfolding rs' Let_def by (auto simp: number_names_def pair_names_def intro!: typed_odel join_range_typed)
qed

lemma distinct_extend_defined: "distinct (map fst t) \<Longrightarrow> distinct (map fst (extend_defined t s))"
  by (simp add: extend_defined_def distinct_oextend)

lemma distinct_merged: "distinct (map fst (merged_rules cls ms settings c))"
  unfolding merged_rules_def by (intro distinct_extend_defined) simp

lemma oget_extend_defined:
  assumes "distinct (map fst s)"
  shows "oget (extend_defined t s) k = (if oget s k = None \<or> oget s k = Some PUndefined then oget t k else oget s k)"
proof -
  let ?s = "filter (\<lambda>(k, v). v \<noteq> PUndefined) s"
  have d: "distinct (map fst ?s)" using assms by (rule distinct_map_filter)
  have "oget ?s k = (if oget s k = Some PUndefined then None else oget s k)"
    using assms
  proof (induction s)
    case (Cons x s)
    obtain a b where x: "x = (a, b)" by (cases x)
    have "oget s a = None" using Cons.prems x by (auto simp: map_of_eq_None_iff)
    then show ?case using Cons x by auto
  qed simp
  then show ?thesis by (simp add: extend_defined_def oget_oextend [OF d] split: option.split)
qed

lemma typed_required_first:
  assumes "typed_rules rs"
  shows "typed_rules (required_first rs)"
proof (cases "param_truthy (rule_value rs ''required'')")
  case True
  let ?d = "odel ''required'' rs"
  have d: "typed_rules ?d" by (rule typed_odel [OF assms])
  have n: "''required'' \<notin> set number_names" "''required'' \<notin> set pair_names"
    by (auto simp: number_names_def pair_names_def)
  have "distinct (map fst (required_first rs))"
    using True by (simp add: required_first_def distinct_extend_defined)
  moreover have "well_typed k p" if "(k, p) \<in> set (required_first rs)" for k p
  proof -
    have "oget (required_first rs) k = Some p" using that calculation by (simp add: map_of_is_SomeI)
    moreover have "distinct (map fst ?d)" using d by (simp add: typed_rules_def)
    ultimately show ?thesis
      using True n typed_rules_oget [OF d]
      by (auto simp: required_first_def oget_extend_defined well_typed_def split: if_splits)
  qed
  ultimately show ?thesis by (auto simp: typed_rules_def)
qed (use assms in \<open>simp add: required_first_def\<close>)

lemma extend_defined_hd: "extend_defined (x # t) s \<noteq> [] \<and> fst (hd (extend_defined (x # t) s)) = fst x"
proof -
  have "oextend (x # t) s \<noteq> [] \<and> fst (hd (oextend (x # t) s)) = fst x" for s
  proof (induction s arbitrary: x t)
    case (Cons y s)
    show ?case
      using Cons.IH [of "(fst x, snd y)" t] Cons.IH [of x "oset (fst y) (snd y) t"]
      by (cases x; cases y) auto
  qed simp
  then show ?thesis by (simp add: extend_defined_def)
qed

text \<open>C37: The rules of a control are ready for the methods: no rule twice, every bound that is set is a
  number, every range a pair of numbers, and a required rule that is set comes first.\<close>

theorem rules_are_normalised:
  assumes "rules_of h src settings el c = Inr rs"
  shows "typed_rules rs \<and> (\<forall>p. (''required'', p) \<in> set rs \<and> param_truthy p \<longrightarrow> fst (hd rs) = ''required'')"
proof -
  obtain data where d: "normalizeRules h (s_auto src) el (merged_rules (s_classes src) (s_methods src) settings c) = Inr data"
    and rs: "rs = required_first data"
    using assms by (auto simp: rules_of_def rbind_Inr_iff)
  have td: "typed_rules data" by (rule normalizeRules_typed [OF distinct_merged d])
  then have "typed_rules rs" unfolding rs by (rule typed_required_first)
  moreover have "fst (hd rs) = ''required''" if p: "(''required'', p) \<in> set rs" "param_truthy p" for p
  proof (cases "param_truthy (rule_value data ''required'')")
    case True
    then show ?thesis using extend_defined_hd by (simp add: rs required_first_def)
  next
    case False
    then have "(''required'', p) \<in> set data" using p(1) by (simp add: rs required_first_def)
    then have "oget data ''required'' = Some p" using td by (simp add: typed_rules_def)
    then show ?thesis using False p(2) by (simp add: rule_value_def)
  qed
  ultimately show ?thesis by blast
qed

text \<open>A page whose options have no selectors, functions or methods of their own.\<close>

definition plain_hooks :: hooks where
  "plain_hooks =
     \<lparr>h_finds = (\<lambda>_. []), h_page = (\<lambda>_. []), h_apply = (\<lambda>_ _. Inr PUndefined),
      h_method = (\<lambda>_ _ _ _. Inr Passed), h_date = (\<lambda>s. s)\<rparr>"

definition plain_sources :: rule_sources where
  "plain_sources = \<lparr>s_classes = classRuleSettings, s_methods = method_names, s_auto = False\<rparr>"

definition text_field :: "string \<Rightarrow> string list \<Rightarrow> string obj \<Rightarrow> string \<Rightarrow> control" where
  "text_field name classes attrs value =
     \<lparr>c_node = ''input'', c_type = ''text'', c_id = name, c_name = name, c_title = [], c_classes = classes,
      c_attrs = attrs, c_value = value, c_checked = False, c_options = [], c_in_form = True,
      c_disabled = False, c_hidden = False\<rparr>"

theorem rules_are_normalised_witness:
  "typed_rules [(''required'', PBool True), (''email'', PBool True), (''maxlength'', PNum (whole 20))]"
proof -
  have "rules_of plain_hooks plain_sources [(''mail'', [(''required'', PBool True)])] 0
      (text_field ''mail'' [''email''] [(''maxlength'', ''20'')] ''a'') =
      Inr [(''required'', PBool True), (''email'', PBool True), (''maxlength'', PNum (whole 20))]"
    by code_simp
  from rules_are_normalised [OF this] show ?thesis ..
qed

subsection \<open>Lengths from the page\<close>

definition attribute_value :: "control \<Rightarrow> string \<Rightarrow> param option" where
  "attribute_value c m = oget (attribute_rule c m []) m"

lemma attribute_rule_other: "k \<noteq> m \<Longrightarrow> oget (attribute_rule c m rs) k = oget rs k"
  by (cases "oget (c_attrs c) (to_lower m)")
    (auto simp: attribute_rule_def Let_def oget_oset split: option.split if_splits)

lemma attribute_rule_some:
  "attribute_value c m = Some v \<Longrightarrow> oget (attribute_rule c m rs) m = Some v"
  by (auto simp: attribute_value_def attribute_rule_def Let_def oget_oset split: option.splits if_splits)

lemma fold_attribute_rule:
  "attribute_value c k = Some v \<Longrightarrow> k \<in> set ms \<or> oget rs k = Some v \<Longrightarrow>
     oget (fold (attribute_rule c) ms rs) k = Some v"
proof (induction ms arbitrary: rs)
  case (Cons m ms)
  then show ?case
    using attribute_rule_some [of c k v rs] attribute_rule_other [of k m c rs] by (cases "m = k") auto
qed simp

lemma distinct_attribute_rules: "distinct (map fst rs) \<Longrightarrow> distinct (map fst (fold (attribute_rule c) ms rs))"
  by (induction ms arbitrary: rs)
    (simp_all add: attribute_rule_def Let_def distinct_update split: option.split)

lemma attribute_maxlength:
  assumes "oget (c_attrs c) ''maxlength'' = Some s" "s \<noteq> []" "\<not> browser_default_length (PText s)" "''maxlength'' \<in> set ms"
  shows "oget (attributeRules ms c) ''maxlength'' = Some (PText s)" and "distinct (map fst (attributeRules ms c))"
proof -
  have l: "to_lower ''maxlength'' = ''maxlength''" by code_simp
  have "attribute_value c ''maxlength'' = Some (PText s)"
    using assms(1,2) by (simp add: attribute_value_def attribute_rule_def l)
  then have "oget (fold (attribute_rule c) ms []) ''maxlength'' = Some (PText s)"
    using assms(4) by (intro fold_attribute_rule) auto
  then have a: "attributeRules ms c = fold (attribute_rule c) ms []"
    using assms(3) by (simp add: attributeRules_def Let_def)
  then show "oget (attributeRules ms c) ''maxlength'' = Some (PText s)"
    using \<open>oget (fold _ _ _) _ = _\<close> by simp
  show "distinct (map fst (attributeRules ms c))"
    unfolding a by (rule distinct_attribute_rules) simp
qed

text \<open>A rule whose parameter is a text that is not empty reaches the methods as \<open>clean_number\<close> leaves it.\<close>

lemma text_rule_reaches:
  assumes d: "distinct (map fst rs)" and "(k, PText s) \<in> set rs" "s \<noteq> []" "k \<in> set number_names"
    and n: "normalizeRules h False el rs = Inr rs'"
  shows "oget rs' k = Some (PNum (text_number s))"
proof -
  obtain kept vals cleaned where
    k: "rmap (check_dependency h el) rs = Inr kept" "rmap (evaluate_parameter h el) (concat kept) = Inr vals"
       "rmap clean_number vals = Inr cleaned"
    and rs': "rs' = (if param_truthy (rule_value cleaned ''messages'') then odel ''messages'' cleaned else cleaned)"
    using n by (auto simp: normalizeRules_def rbind_Inr_iff Let_def)
  have "[(k, PText s)] \<in> set kept"
    using rmap_out [OF k(1) assms(2)] by (simp add: check_dependency_def)
  then have "(k, PText s) \<in> set (concat kept)" by (auto intro: bexI [of _ "[(k, PText s)]"])
  then have "(k, PText s) \<in> set vals"
    using rmap_out [OF k(2)] by (simp add: evaluate_parameter_def)
  then have "(k, PNum (text_number s)) \<in> set cleaned"
    using rmap_out [OF k(3)] assms(3,4) by (simp add: clean_number_def)
  then have "oget cleaned k = Some (PNum (text_number s))"
    using cleaned_typed [OF d k] by (simp add: typed_rules_def)
  moreover have "k \<noteq> ''messages''" using assms(4) by (auto simp: number_names_def)
  ultimately show ?thesis by (simp add: rs' oget_odel)
qed

lemma oget_required_first:
  assumes "typed_rules rs" "k \<noteq> ''required''" "oget rs k = Some p" "p \<noteq> PUndefined"
  shows "oget (required_first rs) k = Some p"
proof -
  have "distinct (map fst (odel ''required'' rs))" using assms(1) by (simp add: typed_rules_def distinct_delete)
  then show ?thesis using assms by (simp add: required_first_def oget_extend_defined oget_odel)
qed

text \<open>C38: The \<open>maxlength\<close> attribute of a control is enforced: unless the options of the form override
  it, the rules of the control have a maximum that passes exactly the values that are not blank and
  whose length, without surrounding white space, is at most the number in the attribute.\<close>

theorem maxlength_attribute_enforced:
  assumes "oget (c_attrs c) ''maxlength'' = Some (nat_str n)" "\<not> browser_default_length (PText (nat_str n))"
    and "''maxlength'' \<in> set (s_methods src)" "\<not> s_auto src"
    and "distinct (map fst (staticRules settings c))" "oget (staticRules settings c) ''maxlength'' = None"
    and "rules_of h src settings el c = Inr rs"
  shows "\<exists>p. oget rs ''maxlength'' = Some p \<and>
    (\<forall>cs value i. maxlength cs value i p = Inr Passed \<longleftrightarrow> \<not> is_blank cs i \<and> value_length cs value i \<le> n)"
proof -
  let ?m = "merged_rules (s_classes src) (s_methods src) settings c"
  obtain data where d: "normalizeRules h False el ?m = Inr data" and rs: "rs = required_first data"
    using assms(4,7) by (auto simp: rules_of_def rbind_Inr_iff)
  note a = attribute_maxlength [OF assms(1) nat_str_nonempty assms(2,3)]
  have "oget ?m ''maxlength'' = Some (PText (nat_str n))"
    using a assms(5,6) by (simp add: merged_rules_def oget_extend_defined)
  then have "(''maxlength'', PText (nat_str n)) \<in> set ?m" by (rule map_of_SomeD)
  then have "oget data ''maxlength'' = Some (PNum (whole (int n)))"
    using text_rule_reaches [OF distinct_merged _ nat_str_nonempty _ d] text_number_nat
    by (simp add: number_names_def)
  then have "oget rs ''maxlength'' = Some (PNum (whole (int n)))"
    unfolding rs using normalizeRules_typed [OF distinct_merged d] by (intro oget_required_first) auto
  moreover have "\<forall>cs value i. maxlength cs value i (PNum (whole (int n))) = Inr Passed \<longleftrightarrow>
      \<not> is_blank cs i \<and> value_length cs value i \<le> n"
    by (simp add: maxlength_def unless_blank_def param_prim_def answer_def)
  ultimately show ?thesis by blast
qed

theorem maxlength_attribute_enforced_witness:
  "\<exists>p. oget [(''required'', PBool True), (''maxlength'', PNum (whole 5))] ''maxlength'' = Some p \<and>
    maxlength [text_field ''zip'' [] [] ''  12345 ''] (FText ''  12345 '') 0 p = Inr Passed"
proof -
  let ?c = "text_field ''zip'' [''required''] [(''maxlength'', ''5'')] ''''"
  have n: "nat_str 5 = ''5''" by code_simp
  have "oget (c_attrs ?c) ''maxlength'' = Some (nat_str 5)" unfolding n by code_simp
  moreover have "\<not> browser_default_length (PText (nat_str 5))" unfolding n by code_simp
  moreover have r: "rules_of plain_hooks plain_sources [] 0 ?c = Inr [(''required'', PBool True), (''maxlength'', PNum (whole 5))]"
    by code_simp
  ultimately obtain p where p: "oget [(''required'', PBool True), (''maxlength'', PNum (whole 5))] ''maxlength'' = Some p"
      "\<And>cs value i. maxlength cs value i p = Inr Passed \<longleftrightarrow> \<not> is_blank cs i \<and> value_length cs value i \<le> 5"
    using maxlength_attribute_enforced [of ?c 5 plain_sources "[]" plain_hooks 0, OF _ _ _ _ _ _ r]
    by (simp add: plain_sources_def method_names_def staticRules_def)
  have "\<not> is_blank [text_field ''zip'' [] [] ''  12345 ''] 0 \<and>
      value_length [text_field ''zip'' [] [] ''  12345 ''] (FText ''  12345 '') 0 \<le> 5" by code_simp
  then show ?thesis using p by blast
qed

text \<open>An \<open>input\<close> of type \<open>range\<close> gets a rule that no value passes, and a \<open>min\<close> that is a date does too.\<close>

lemma range_input_rejected:
  "rules_of plain_hooks plain_sources [] 0 (text_field ''volume'' [] [(''type'', ''range'')] ''5'') =
     Inr [(''range'', PArr [PNum NaN, PNum NaN])]"
  "range_value [text_field ''volume'' [] [(''type'', ''range'')] ''5''] (FText ''5'') 0 (PArr [PNum NaN, PNum NaN]) =
     Inr Failed"
  by code_simp+

lemma date_minimum_rejected:
  "rules_of plain_hooks plain_sources [] 0 (text_field ''day'' [] [(''min'', ''2012-01-01'')] ''2012-06-01'') =
     Inr [(''min'', PNum NaN)]"
  "min_value [text_field ''day'' [] [] ''2012-06-01''] (FText ''2012-06-01'') 0 (PNum NaN) = Inr Failed"
  by code_simp+

text \<open>The regular expression of numbers accepts a minus sign alone.\<close>

lemma number_accepts_sign: "re_test number_re ''-''" "\<not> re_test number_re ''1.''" "re_test number_re ''-1,234.5''"
  by code_simp+

text \<open>Two spaces between the words of a rule make a rule without a name, which no method has.\<close>

lemma doubled_space_makes_nameless_rule:
  "normalizeRule (PText ''required  email'') =
     PObj [(''required'', PBool True), ([], PBool True), (''email'', PBool True)]"
  by code_simp

end
