(* ===== verification/ValProps.thy ===== *)
theory ValProps
  imports Validator ValCheck
begin

text \<open>
  Properties of the validator object: the bookkeeping of remote checks in every state that a form can
  reach, what a failed request does to it, which controls a form checks and when it is valid.
\<close>

subsection \<open>The bookkeeping of remote checks\<close>

definition submissions :: "vevent list \<Rightarrow> vevent list" where
  "submissions es = filter (\<lambda>e. e \<noteq> InvalidForm) es"

text \<open>What the bookkeeping depends on. \<open>M\<close> is a set of names that are pending without a request under
  way; \<open>L\<close>, if given, is what has been submitted: there is such a name then, and nothing more is submitted.\<close>

definition frame :: "vstate \<Rightarrow> string list \<times> string list \<times> int \<times> request list \<times> vevent list \<times> bool \<times> nat list" where
  "frame s = (map c_name (v_controls s), v_pending s, v_pendingRequest s, v_requests s,
     submissions (v_log s), v_cancelSubmit s, map snd (v_blur s))"

fun frame_ok ::
  "string list \<Rightarrow> string set \<Rightarrow> vevent list option \<Rightarrow> string list \<times> string list \<times> int \<times> request list \<times> vevent list \<times> bool \<times> nat list \<Rightarrow> bool"
where
  "frame_ok ns M L (names, pend, n, reqs, subs, cancel, blur) \<longleftrightarrow>
     names = ns \<and> distinct pend \<and> n = int (length pend) \<and> distinct (map q_name reqs) \<and>
     (\<forall>q \<in> set reqs. q_element q < length ns \<and> ns ! q_element q = q_name q \<and> q_name q \<in> set pend \<and> q_name q \<notin> M) \<and>
     M \<subseteq> set pend \<and> (\<forall>l. L = Some l \<longrightarrow> M \<noteq> {} \<and> subs = l \<and> \<not> cancel) \<and>
     (\<forall>el \<in> set blur. el < length ns)"

definition tracks :: "string list \<Rightarrow> string set \<Rightarrow> vevent list option \<Rightarrow> vstate \<Rightarrow> bool" where
  "tracks ns M L s \<longleftrightarrow> frame_ok ns M L (frame s)"

definition keeps_frame :: "(vstate \<Rightarrow> vstate) \<Rightarrow> bool" where
  "keeps_frame f \<longleftrightarrow> (\<forall>s. frame (f s) = frame s)"

lemma keeps_frame_modify [keeps_intros]: "keeps_frame f \<Longrightarrow> keeps (tracks ns M L) (amodify f)"
  by (simp add: keeps_frame_def tracks_def keeps_def amodify_def)

lemma frame_update_labels [simp]: "frame (update_labels is f s) = frame s"
  by (simp add: frame_def update_labels_def)

lemma names_update:
  "(\<And>c. c_name (f c) = c_name c) \<Longrightarrow>
     map c_name (map (\<lambda>(i, c). if i \<in> A then f c else c) (enumerate k cs)) = map c_name cs"
  by (induction cs arbitrary: k) auto

lemma frame_update_controls: "(\<And>c. c_name (f c) = c_name c) \<Longrightarrow> frame (update_controls is f s) = frame s"
  unfolding frame_def update_controls_def using names_update [of f "set is" 0 "v_controls s"]
  by simp

lemma frame_set_visible [simp]: "frame (set_visible b ts s) = frame s"
  by (simp add: set_visible_def Let_def frame_def [of "v_containers_update f s" for f s]) (simp add: frame_def update_labels_def)

lemma frame_highlight [simp]: "frame (highlight u el s) = frame s" "frame (unhighlight u el s) = frame s"
  by (simp_all add: highlight_def unhighlight_def frame_update_controls)

lemma frame_fold: "(\<And>x s. frame (f x s) = frame s) \<Longrightarrow> frame (fold f xs s) = frame s"
  by (induction xs arbitrary: s) simp_all

lemma frame_fields [simp]:
  "frame (s\<lparr>v_labels := a\<rparr>) = frame s" "frame (s\<lparr>v_toShow := b\<rparr>) = frame s" "frame (s\<lparr>v_toHide := b\<rparr>) = frame s"
  "frame (s\<lparr>v_errorList := c\<rparr>) = frame s" "frame (s\<lparr>v_errorMap := d\<rparr>) = frame s"
  "frame (s\<lparr>v_successList := e\<rparr>) = frame s" "frame (s\<lparr>v_currentElements := e\<rparr>) = frame s"
  "frame (s\<lparr>v_submitted := d\<rparr>) = frame s" "frame (s\<lparr>v_invalid := g\<rparr>) = frame s"
  "frame (s\<lparr>v_heap := h\<rparr>) = frame s" "frame (s\<lparr>v_previous := i\<rparr>) = frame s"
  "frame (s\<lparr>v_messages := j\<rparr>) = frame s" "frame (s\<lparr>v_rules := k\<rparr>) = frame s"
  "frame (s\<lparr>v_lastActive := m\<rparr>) = frame s"
  "frame (s\<lparr>v_submitButton := n\<rparr>) = frame s" "frame (s\<lparr>v_formSubmitted := p\<rparr>) = frame s"
  "frame (s\<lparr>v_containers := p\<rparr>) = frame s"
  by (simp_all add: frame_def)

lemma frame_showLabel [simp]: "frame (showLabel u el msg s) = frame s"
  by (simp add: showLabel_def Let_def split: option.split)

lemma frame_defaultShowErrors [simp]: "frame (defaultShowErrors u s) = frame s"
  by (simp add: defaultShowErrors_def Let_def hideErrors_def frame_fold split: prod.split)

lemma frame_showErrors [simp]: "frame (showErrors u errs s) = frame s"
  by (simp add: showErrors_def)

lemma frame_prepare [simp]:
  "frame (reset_lists s) = frame s" "frame (prepareForm u s) = frame s" "frame (prepareElement u el s) = frame s"
  by (simp_all add: reset_lists_def prepareForm_def prepareElement_def Let_def)

lemma frame_remote_parts [simp]:
  "frame (update_previous p f s) = frame s" "frame (set_remote_message n msg s) = frame s"
  "frame (ensure_messages n s) = frame s"
  by (simp_all add: update_previous_def set_remote_message_def ensure_messages_def
      split: option.split custom.split list.split)

lemma frame_focus [simp]: "frame (onfocusin u el s) = frame s" "frame (focusInvalid u s) = frame s"
proof -
  show *: "frame (onfocusin u el s) = frame s" for el by (simp add: onfocusin_def Let_def)
  show "frame (focusInvalid u s) = frame s"
    by (simp add: focusInvalid_def * split: option.split list.split)
qed

lemma frame_change_control [simp]: "frame (change_control el v b os s) = frame s"
  by (simp add: change_control_def frame_update_controls)

lemma frame_rules [simp]: "frame (add_rules p el s) = frame s" "frame (remove_rules arg el s) = frame s"
  by (simp_all add: add_rules_def remove_rules_def Let_def)

lemma frame_hideErrors [simp]: "frame (hideErrors s) = frame s"
  by (simp add: hideErrors_def)

lemma frame_clear [simp]: "frame (clear_submitted s) = frame s"
  by (simp add: clear_submitted_def)

lemma keeps_frame_simp: "(\<And>s. frame (f s) = frame s) \<Longrightarrow> keeps (tracks ns M L) (amodify f)"
  by (rule keeps_frame_modify) (simp add: keeps_frame_def)

text \<open>Steps that only change lists, labels and messages keep the bookkeeping.\<close>

lemma keeps_formatAndAdd [keeps_intros]: "keeps (tracks ns M L) (formatAndAdd u el m p)"
  unfolding formatAndAdd_def by (intro keeps_intros keeps_frame_simp) simp

lemma keeps_previousValue: "keeps (tracks ns M L) (previousValue u el)"
  unfolding previousValue_def
  by (rule keeps_ado, rule keeps_option) (auto intro!: keeps_athen keeps_areturn keeps_frame_simp)

lemma keeps_equalTo: "el < length ns \<Longrightarrow> keeps (tracks ns M L) (equalTo u v el p)"
  unfolding equalTo_def Let_def
  by (intro keeps_ado keeps_athen keeps_awhen keeps_areturn keeps_amodify) (auto simp: tracks_def frame_def)

text \<open>A new request is sent only for a name that is not pending.\<close>

lemma tracks_start:
  assumes t: "tracks ns M L s" and el: "el < length ns" and new: "\<not> is_pending s (name_of s el)"
  shows "tracks ns M L (send_request el value p par (startRequest el s))"
proof -
  have n: "name_of s el = ns ! el"
    using t el by (simp add: tracks_def frame_def name_of_def control_of_def) (metis nth_map length_map)
  have n': "name_of (startRequest el s) el = ns ! el"
    using n by (simp add: startRequest_def name_of_def control_of_def)
  show ?thesis
    using t el new n'
    unfolding tracks_def frame_def send_request_def startRequest_def is_pending_def n
    by (auto simp: distinct_map_filter)
qed

lemma keeps_send:
  assumes "el < length ns"
  shows "keeps (tracks ns M L) (ado (\<lambda>s.
         if is_pending s (name_of s el) then areturn Pending
         else if strict_eq (p_old (v_heap s ! p)) value then areturn (answer (p_valid (v_heap s ! p)))
         else
           athen (amodify (update_previous p (\<lambda>r. r\<lparr>p_old := value\<rparr>)))
           (athen (amodify (startRequest el))
           (athen (amodify (send_request el value p par))
           (areturn Pending)))))"
proof -
  have sent: "tracks ns M L (send_request el value p par (startRequest el (update_previous p f s)))"
    if "tracks ns M L s" "\<not> is_pending s (name_of s el)" for s f
  proof (rule tracks_start [OF _ assms])
    show "tracks ns M L (update_previous p f s)" using that(1) by (simp add: tracks_def)
    show "\<not> is_pending (update_previous p f s) (name_of (update_previous p f s) el)"
      using that(2) by (simp add: is_pending_def update_previous_def name_of_def control_of_def)
  qed
  show ?thesis
    unfolding keeps_def ado_run
    by (simp add: areturn_def athen_def abind_def amodify_def sent)
qed

lemma keeps_remote: "el < length ns \<Longrightarrow> keeps (tracks ns M L) (remote u value el par)"
  unfolding remote_def
  by (rule keeps_ado, rule keeps_if, rule keeps_areturn, rule keeps_abind, rule keeps_previousValue,
      (rule keeps_athen, rule keeps_frame_simp, simp)+, erule keeps_send)

lemma keeps_run_method: "el < length ns \<Longrightarrow> keeps (tracks ns M L) (run_method u m v el p)"
  unfolding run_method_def by (intro keeps_if keeps_remote keeps_equalTo keeps_ado keeps_aof)

lemma keeps_check_rules: "el < length ns \<Longrightarrow> keeps (tracks ns M L) (check_rules u el v rs mism)"
proof (induction rs arbitrary: mism)
  case (Cons x rs)
  obtain m p where x: "x = (m, p)" by (cases x)
  show ?case
    unfolding x check_rules.simps
  proof (rule keeps_abind [OF keeps_run_method [OF Cons.prems]])
    fix r show "keeps (tracks ns M L) (case r of
         Mismatch \<Rightarrow> check_rules u el v rs True
       | Pending \<Rightarrow>
           athen (amodify (\<lambda>s. s\<lparr>v_toHide := minus_list (v_toHide s) (map TLabel (errorsFor u s el))\<rparr>))
             (areturn Undecided)
       | Failed \<Rightarrow> athen (formatAndAdd u el m p) (areturn Invalid)
       | Passed \<Rightarrow> check_rules u el v rs False)"
      using Cons.IH [OF Cons.prems]
      by (cases r) (simp_all add: keeps_athen keeps_frame_simp keeps_areturn keeps_formatAndAdd)
  qed
qed (simp add: keeps_areturn)

lemma find_in: "filter p xs = x # ys \<Longrightarrow> x \<in> set xs"
  using filter_is_subset [of p xs] by simp

lemma target_less:
  assumes "validationTargetFor u s el = Some i" "el < length (v_controls s)"
  shows "i < length (v_controls s)"
proof (cases "checkable (control_of s el)")
  case True
  then obtain xs where "filter (\<lambda>i. \<not> u_ignored u (control_of s i)) (findByName (v_controls s) (name_of s el)) = i # xs"
    using assms(1) by (auto simp: validationTargetFor_def split: list.splits)
  then have "i \<in> set (findByName (v_controls s) (name_of s el))" by (rule find_in)
  then show ?thesis by (simp add: findByName_def)
qed (use assms in \<open>simp add: validationTargetFor_def\<close>)

lemma first_of_names_less:
  "first_of_names u s cache els = Inr r \<Longrightarrow> set r \<subseteq> set els"
proof (induction els arbitrary: cache r)
  case (Cons el els)
  then show ?case by (fastforce simp: rbind_Inr_iff split: if_splits)
qed simp

lemma elements_less: "elements u s = Inr els \<Longrightarrow> el \<in> set els \<Longrightarrow> el < length (v_controls s)"
  unfolding elements_def by (drule first_of_names_less) (auto simp: form_controls_def)

lemma tracks_length: "tracks ns M L s \<Longrightarrow> length (v_controls s) = length ns"
  by (auto simp: tracks_def frame_def dest: arg_cong [of _ _ length])

text \<open>The state that an action reads first is one with the bookkeeping.\<close>

lemma keeps_ado_when: "(\<And>s. P s \<Longrightarrow> keeps P (f s)) \<Longrightarrow> keeps P (ado f)"
  by (simp add: keeps_def ado_run)

lemma keeps_abind_aof: "(\<And>x. r = Inr x \<Longrightarrow> keeps P (f x)) \<Longrightarrow> keeps P (abind (aof r) f)"
  by (cases r) (simp_all add: keeps_def abind_def aof_def)

lemma keeps_check:
  assumes el: "el < length ns"
  shows "keeps (tracks ns M L) (check u el)"
  unfolding check_def
proof (rule keeps_ado_when, rule keeps_option)
  fix s i assume s: "tracks ns M L s" and i: "validationTargetFor u s el = Some i"
  have "i < length ns" using target_less [OF i] el tracks_length [OF s] by simp
  then show "keeps (tracks ns M L) (abind (aof (element_rules u s i)) (\<lambda>rs.
         abind (check_rules u i (elementValue (v_controls s) i) rs False) (\<lambda>v.
           athen (awhen (v = Valid \<and> length rs > 0)
                   (amodify (\<lambda>s. s\<lparr>v_successList := v_successList s @ [i]\<rparr>)))
             (areturn v))))"
    by (intro keeps_abind keeps_aof keeps_check_rules keeps_athen keeps_awhen keeps_areturn keeps_frame_simp) simp_all
qed (rule keeps_athrow)

lemma keeps_checkForm: "keeps (tracks ns M L) (checkForm u)"
  unfolding checkForm_def
proof (rule keeps_athen)
  show "keeps (tracks ns M L) (amodify (prepareForm u))" by (rule keeps_frame_simp) simp
  show "keeps (tracks ns M L) (ado (\<lambda>s. abind (aof (elements u s)) (\<lambda>els.
       athen (amodify (\<lambda>s. s\<lparr>v_currentElements := els\<rparr>))
       (athen (aeach (\<lambda>el. athen (check u el) (areturn ())) els)
       (aget_state valid)))))"
  proof (rule keeps_ado_when, rule keeps_abind_aof)
    fix s els assume s: "tracks ns M L s" and e: "elements u s = Inr els"
    have "\<And>el. el \<in> set els \<Longrightarrow> el < length ns"
      using elements_less [OF e] tracks_length [OF s] by simp
    then show "keeps (tracks ns M L) (athen (amodify (\<lambda>s. s\<lparr>v_currentElements := els\<rparr>))
       (athen (aeach (\<lambda>el. athen (check u el) (areturn ())) els) (aget_state valid)))"
      by (intro keeps_athen keeps_aeach keeps_check keeps_areturn keeps_aget keeps_frame_simp) simp_all
  qed
qed

lemma keeps_invalid_form: "keeps (tracks ns M L) (record_event InvalidForm)"
  unfolding record_event_def by (rule keeps_frame_simp) (simp add: frame_def submissions_def)

lemma keeps_vform: "keeps (tracks ns M L) (vform u)"
  unfolding vform_def
  by (intro keeps_athen keeps_checkForm keeps_ado keeps_awhen keeps_invalid_form keeps_aget keeps_frame_simp) simp_all

lemma keeps_element:
  assumes el: "el < length ns"
  shows "keeps (tracks ns M L) (element u el)"
  unfolding element_def
proof (rule keeps_ado_when, rule keeps_option)
  fix s i assume s: "tracks ns M L s" and i: "validationTargetFor u s el = Some i"
  have "i < length ns" using target_less [OF i] el tracks_length [OF s] by simp
  then show "keeps (tracks ns M L) (athen (amodify (\<lambda>s. (prepareElement u i s)\<lparr>v_currentElements := [i]\<rparr>))
         (abind (check u i) (\<lambda>v.
           athen (amodify (\<lambda>s. s\<lparr>v_invalid :=
               (if v \<noteq> Invalid then filter (\<lambda>n. n \<noteq> name_of s i) (v_invalid s)
                else union_list (v_invalid s) [name_of s i])\<rparr>))
           (athen (amodify (\<lambda>s. if length (v_invalid s) = 0
               then s\<lparr>v_toHide := union_list (v_toHide s) [TContainers]\<rparr> else s))
           (athen (amodify (showErrors u []))
           (areturn (v \<noteq> Invalid)))))))"
    by (intro keeps_abind keeps_check keeps_athen keeps_areturn keeps_frame_simp) simp_all
qed (rule keeps_athrow)

lemma keeps_element_stmt: "el < length ns \<Longrightarrow> keeps (tracks ns M L) (athen (element u el) (areturn ()))"
  by (intro keeps_athen keeps_element keeps_areturn)

lemma keeps_valid_all: "\<forall>el \<in> set els. el < length ns \<Longrightarrow> keeps (tracks ns M L) (valid_all u els ok)"
  by (induction els arbitrary: ok) (auto intro!: keeps_areturn keeps_abind keeps_element)

lemma keeps_resetForm: "keeps (tracks ns M L) (resetForm u)"
  unfolding resetForm_def
  by (intro keeps_athen keeps_ado keeps_abind keeps_aof keeps_frame_simp) (simp_all add: frame_update_controls)

text \<open>While a name is pending for ever nothing is submitted.\<close>

lemma keeps_submission: "L = None \<Longrightarrow> keeps (tracks ns M L) (record_event e)"
  unfolding record_event_def by (rule keeps_amodify) (simp add: tracks_def frame_def)

lemma keeps_handle: "L = None \<Longrightarrow> keeps (tracks ns M L) (handle u)"
  unfolding handle_def by (intro keeps_if keeps_ado keeps_athen keeps_submission keeps_areturn)

lemma keeps_cancel: "L = None \<Longrightarrow> keeps (tracks ns M L) (amodify (\<lambda>s. s\<lparr>v_cancelSubmit := b\<rparr>))"
  by (simp add: keeps_def amodify_def tracks_def frame_def)

lemma tracks_blocked: "tracks ns M L s \<Longrightarrow> L \<noteq> None \<Longrightarrow> v_pendingRequest s > 0 \<and> \<not> v_cancelSubmit s"
  by (auto simp: tracks_def frame_def)

text \<open>What the submit handler does while nothing can be submitted.\<close>

definition sound_answer :: "vevent list option \<Rightarrow> bool \<Rightarrow> bool" where
  "sound_answer L go \<longleftrightarrow> (L \<noteq> None \<longrightarrow> \<not> go)"

lemma submit_handler_triple:
  "triple (tracks ns M L) (submit_handler u) (\<lambda>go s. tracks ns M L s \<and> sound_answer L go) (tracks ns M L)"
proof (cases "L = None")
  case True
  have "keeps (tracks ns M L) (submit_handler u)"
    unfolding submit_handler_def using True
    by (intro keeps_ado keeps_if keeps_athen keeps_abind keeps_areturn keeps_handle keeps_vform
        keeps_cancel keeps_frame_simp) simp_all
  from triple_keeps [OF this] show ?thesis
    by (rule triple_mono) (simp_all add: sound_answer_def True)
next
  case False
  show ?thesis
    unfolding submit_handler_def
  proof (rule triple_ado)
    fix s assume s: "tracks ns M L s"
    have c: "\<not> v_cancelSubmit s" using tracks_blocked [OF s False] by simp
    let ?Q = "\<lambda>go s. tracks ns M L s \<and> sound_answer L go"
    have p: "triple (tracks ns M L) (ado (\<lambda>s.
         if v_pendingRequest s \<noteq> 0
         then athen (amodify (\<lambda>s. s\<lparr>v_formSubmitted := True\<rparr>)) (areturn False) else handle u)) ?Q (tracks ns M L)"
      unfolding triple_def
    proof (intro allI impI)
      fix s assume s: "tracks ns M L s"
      then have "v_pendingRequest s \<noteq> 0" "tracks ns M L (s\<lparr>v_formSubmitted := True\<rparr>)"
        using tracks_blocked [OF s False] by (auto simp: tracks_def)
      then show "case ado (\<lambda>s. if v_pendingRequest s \<noteq> 0
         then athen (amodify (\<lambda>s. s\<lparr>v_formSubmitted := True\<rparr>)) (areturn False) else handle u) s of
           (Inl e, s') \<Rightarrow> tracks ns M L s' | (Inr x, s') \<Rightarrow> ?Q x s'"
        by (simp add: ado_run athen_def abind_def amodify_def areturn_def sound_answer_def)
    qed
    have q: "triple (tracks ns M L) (athen (amodify (focusInvalid u)) (areturn False)) ?Q (tracks ns M L)"
      by (auto simp: triple_def athen_def abind_def amodify_def areturn_def sound_answer_def tracks_def)
    have "triple (tracks ns M L) (abind (vform u) (\<lambda>ok.
       if ok then ado (\<lambda>s. if v_pendingRequest s \<noteq> 0
         then athen (amodify (\<lambda>s. s\<lparr>v_formSubmitted := True\<rparr>)) (areturn False) else handle u)
       else athen (amodify (focusInvalid u)) (areturn False))) ?Q (tracks ns M L)"
      by (rule triple_bind [OF triple_keeps [OF keeps_vform]]) (use p q in simp)
    from triple_mono [OF this, of "\<lambda>t. t = s"] show "triple (\<lambda>t. t = s)
     (if v_cancelSubmit s then athen (amodify (\<lambda>s. s\<lparr>v_cancelSubmit := False\<rparr>)) (handle u)
      else abind (vform u) (\<lambda>ok.
       if ok then ado (\<lambda>s. if v_pendingRequest s \<noteq> 0
         then athen (amodify (\<lambda>s. s\<lparr>v_formSubmitted := True\<rparr>)) (areturn False) else handle u)
       else athen (amodify (focusInvalid u)) (areturn False))) ?Q (tracks ns M L)"
      using c s by simp
  qed
qed

lemma keeps_submit_form: "keeps (tracks ns M L) (submit_form u)"
  unfolding submit_form_def
proof (rule keeps_triple, rule triple_bind [OF submit_handler_triple])
  fix go
  have "keeps (\<lambda>s. tracks ns M L s \<and> sound_answer L go) (awhen go (record_event Submitted))"
    by (auto simp: keeps_def awhen_run record_event_def amodify_def sound_answer_def tracks_def frame_def)
  from triple_keeps [OF this]
  show "triple (\<lambda>s. tracks ns M L s \<and> sound_answer L go) (awhen go (record_event Submitted)) (\<lambda>_. tracks ns M L) (tracks ns M L)"
    by (rule triple_mono) simp_all
qed

lemma tracks_name: "tracks ns M L s \<Longrightarrow> el < length ns \<Longrightarrow> name_of s el = ns ! el"
  by (auto simp: tracks_def frame_def name_of_def control_of_def)

text \<open>An answered request takes its name out of the pending ones.\<close>

lemma tracks_forget:
  assumes t: "tracks ns (insert (ns ! el) M) L s" and el: "el < length ns" and new: "ns ! el \<notin> M"
    and L: "L \<noteq> None \<Longrightarrow> M \<noteq> {}"
  shows "tracks ns M L (forget_request el s)"
proof -
  have n: "name_of s el = ns ! el" by (rule tracks_name [OF t el])
  have p: "ns ! el \<in> set (v_pending s)" "distinct (v_pending s)"
    using t by (auto simp: tracks_def frame_def)
  have "length (filter (\<lambda>m. m \<noteq> ns ! el) (v_pending s)) = length (v_pending s) - 1"
    using distinct_length_filter [OF p(2)] p card_Diff_singleton [OF p(1)]
    by (simp add: distinct_card set_diff_eq Int_def conj_commute)
  moreover have "0 < length (v_pending s)" using p(1) by auto
  ultimately show ?thesis
    using t new L unfolding tracks_def frame_def forget_request_def n by (auto simp: of_nat_diff Suc_le_eq)
qed

lemma keeps_stop_rest:
  "keeps (tracks ns M L) (ado (\<lambda>s.
       if ok \<and> v_pendingRequest s = 0 \<and> v_formSubmitted s then
         abind (vform u) (\<lambda>b. awhen b (athen (submit_form u) (amodify clear_submitted)))
       else if \<not> ok \<and> v_pendingRequest s = 0 \<and> v_formSubmitted s then
         athen (record_event InvalidForm) (amodify clear_submitted)
       else areturn ()))"
  by (intro keeps_ado keeps_if keeps_abind keeps_vform keeps_awhen keeps_athen keeps_submit_form
      keeps_invalid_form keeps_areturn keeps_frame_simp) simp_all

lemma stopRequest_triple:
  assumes "el < length ns" "ns ! el \<notin> M" "L \<noteq> None \<Longrightarrow> M \<noteq> {}"
  shows "triple (tracks ns (insert (ns ! el) M) L) (stopRequest u el ok) (\<lambda>_. tracks ns M L) (tracks ns M L)"
  unfolding stopRequest_def
  by (rule triple_then [OF triple_amodify triple_keeps [OF keeps_stop_rest]]) (rule tracks_forget [OF _ assms])

lemma tracks_weaken: "tracks ns (insert m M) L s \<Longrightarrow> (L \<noteq> None \<Longrightarrow> M \<noteq> {}) \<Longrightarrow> tracks ns M L s"
  by (auto simp: tracks_def frame_def)

lemma remote_success_triple:
  assumes "q_element q < length ns" "ns ! q_element q = q_name q" "q_name q \<notin> M" "L \<noteq> None \<Longrightarrow> M \<noteq> {}"
  shows "triple (tracks ns (insert (q_name q) M) L) (remote_success u q response)
    (\<lambda>_. tracks ns M L) (tracks ns M L)"
proof -
  let ?P = "tracks ns (insert (q_name q) M) L"
  have frame: "triple ?P m (\<lambda>_. ?P) (tracks ns M L)" if "keeps ?P m" for m :: "unit vact"
    using triple_mono [OF triple_keeps [OF that], of ?P "\<lambda>_. ?P" "tracks ns M L"] tracks_weaken assms(4) by blast
  have stop: "triple ?P (stopRequest u (q_element q) ok) (\<lambda>_. tracks ns M L) (tracks ns M L)" for ok
    using stopRequest_triple [OF assms(1), of M L u ok] assms(2,3,4) by simp
  show ?thesis
    unfolding remote_success_def Let_def
    by (rule triple_then [OF frame], (intro keeps_frame_simp, simp),
        rule triple_then [OF frame], intro keeps_if keeps_ado keeps_abind keeps_aof keeps_frame_simp, simp, simp,
        rule triple_then [OF frame], (intro keeps_frame_simp, simp), rule stop)
qed

lemma keeps_take: "keeps (tracks ns M L) (amodify (take_request i))"
  by (rule keeps_amodify) (auto simp: tracks_def frame_def take_request_def distinct_map_filter)

text \<open>Taking a request out leaves its name pending without one.\<close>

lemma tracks_take:
  assumes t: "tracks ns M L s" and q: "q \<in> set (v_requests s)"
  shows "tracks ns (insert (q_name q) M) L (take_request (q_id q) s)"
proof -
  have d: "distinct (map q_name (v_requests s))" using t by (simp add: tracks_def frame_def)
  have "q_name r \<noteq> q_name q" if "r \<in> set (v_requests s)" "q_id r \<noteq> q_id q" for r
    using d q that by (metis distinct_map inj_onD)
  then show ?thesis
    using t q by (auto simp: tracks_def frame_def take_request_def distinct_map_filter)
qed

lemma tracks_requests:
  "tracks ns M L s \<Longrightarrow> q \<in> set (v_requests s) \<Longrightarrow>
     q_element q < length ns \<and> ns ! q_element q = q_name q \<and> q_name q \<notin> M \<and> q_name q \<in> set (v_pending s)"
  by (auto simp: tracks_def frame_def)

lemma tracks_some: "tracks ns M L s \<Longrightarrow> L \<noteq> None \<Longrightarrow> M \<noteq> {}"
  by (auto simp: tracks_def frame_def)

lemma keeps_respond: "keeps (tracks ns M L) (respond u i response)"
  unfolding keeps_def respond_def ado_run
proof (intro allI impI)
  fix s assume s: "tracks ns M L s"
  show "tracks ns M L (snd ((case find (\<lambda>q. q_id q = i) (v_requests s) of
       None \<Rightarrow> areturn ()
     | Some q \<Rightarrow> athen (amodify (take_request i)) (remote_success u q response)) s))"
  proof (cases "find (\<lambda>q. q_id q = i) (v_requests s)")
    case None
    then show ?thesis using s by (simp add: areturn_def)
  next
    case (Some q)
    then have q: "q \<in> set (v_requests s)" "q_id q = i" by (auto simp: find_Some_iff)
    note r = tracks_requests [OF s q(1)]
    have "triple (tracks ns (insert (q_name q) M) L) (remote_success u q response) (\<lambda>_. tracks ns M L) (tracks ns M L)"
      by (rule remote_success_triple) (use r tracks_some [OF s] in auto)
    moreover have "tracks ns (insert (q_name q) M) L (take_request i s)"
      using tracks_take [OF s q(1)] q(2) by simp
    ultimately have "tracks ns M L (after (remote_success u q response) (take_request i s))"
      by (rule triple_after)
    then show ?thesis using Some by (simp add: after_def athen_def abind_def amodify_def)
  qed
qed

text \<open>An event that does not suppress validation.\<close>

fun suppresses :: "action \<Rightarrow> bool" where
  "suppresses (AClickSubmit button cancel) = cancel"
| "suppresses _ = False"

lemma keeps_perform:
  assumes t: "\<forall>el \<in> set (targets a). el < length ns" and c: "L \<noteq> None \<Longrightarrow> \<not> suppresses a"
  shows "keeps (tracks ns M L) (perform u a)"
proof (cases a)
  case (AClickSubmit button cancel)
  have "tracks ns M L (clickSubmit u button cancel s)" if "tracks ns M L s" for s
    using c that unfolding AClickSubmit by (auto simp: clickSubmit_def Let_def tracks_def frame_def)
  then show ?thesis unfolding AClickSubmit perform.simps by (rule keeps_amodify)
next
  case (ABlur el)
  have "keeps (tracks ns M L) (onblur u el)"
    unfolding onblur_def
  proof (rule keeps_ado_when)
    fix s assume "tracks ns M L s"
    then have "\<And>t i. (t, i) \<in> set (v_blur s) \<Longrightarrow> i < length ns" by (auto simp: tracks_def frame_def)
    then show "keeps (tracks ns M L) (aeach (\<lambda>(_, el). athen (element u el) (areturn ()))
        (filter (\<lambda>(t', _). t' = el) (v_blur s)))"
      by (auto intro!: keeps_aeach keeps_element_stmt)
  qed
  then show ?thesis by (simp add: ABlur)
qed (use t in \<open>auto simp: onfocusout_def onkeyup_def onclick_def fail_request_def Let_def
  intro!: keeps_submit_form keeps_ado keeps_awhen keeps_if keeps_areturn keeps_element_stmt keeps_respond keeps_take
    keeps_athen keeps_valid_all keeps_vform keeps_resetForm keeps_frame_simp\<close>)

interpretation form: machine "vstep u" "tracks ns M None"
proof unfold_locales
  fix s a assume s: "tracks ns M None s"
  show "tracks ns M None (vstep u a s)"
  proof (cases "\<forall>el \<in> set (targets a). el < length (v_controls s)")
    case True
    then have "keeps (tracks ns M None) (perform u a)"
      using tracks_length [OF s] by (intro keeps_perform) simp_all
    then have "tracks ns M None (after (perform u a) s)" using s by (simp add: keeps_def after_def)
    then show ?thesis using True by (simp add: vstep_def)
  qed (use s in \<open>auto simp: vstep_def\<close>)
qed

text \<open>Events that do not suppress validation.\<close>

definition unsuppressed_step :: "config \<Rightarrow> action \<Rightarrow> vstate \<Rightarrow> vstate" where
  "unsuppressed_step u a s = (if suppresses a then s else vstep u a s)"

interpretation stuck_form: machine "unsuppressed_step u" "tracks ns M L"
proof unfold_locales
  fix s a assume s: "tracks ns M L s"
  show "tracks ns M L (unsuppressed_step u a s)"
  proof (cases "\<not> suppresses a \<and> (\<forall>el \<in> set (targets a). el < length (v_controls s))")
    case True
    then have "keeps (tracks ns M L) (perform u a)"
      using tracks_length [OF s] by (intro keeps_perform) simp_all
    then have "tracks ns M L (after (perform u a) s)" using s by (simp add: keeps_def after_def)
    then show ?thesis using True by (simp add: vstep_def unsuppressed_step_def)
  qed (use s in \<open>auto simp: vstep_def unsuppressed_step_def\<close>)
qed

lemma unsuppressed_run:
  "\<forall>a \<in> set as. \<not> suppresses a \<Longrightarrow> vrun u as s = fold (unsuppressed_step u) as s"
  by (induction as arbitrary: s) (simp_all add: vrun_def unsuppressed_step_def)

lemma tracks_init: "tracks (map c_name cs) {} None (init_validator cs ls rs ms)"
  by (simp add: tracks_def frame_def init_validator_def)

lemma tracks_run: "tracks (map c_name cs) {} None (vrun u as (init_validator cs ls rs ms))"
  unfolding vrun_def by (rule form.inv_run [OF tracks_init])

text \<open>C35: In every state that a form reaches, whatever the user, the page and the server do, the counter
  of pending requests is the number of pending names, every request under way is for a pending name, and
  no two are for the same name.\<close>

theorem pending_bookkeeping:
  defines "reached u as cs ls rs ms \<equiv> vrun u as (init_validator cs ls rs ms)"
  shows "(let s = reached u as cs ls rs ms in
      distinct (v_pending s) \<and> v_pendingRequest s = int (length (v_pending s)) \<and>
      distinct (map q_name (v_requests s)) \<and> q_name ` set (v_requests s) \<subseteq> set (v_pending s))"
  using tracks_run [of cs u as ls rs ms] unfolding reached_def
  by (auto simp: tracks_def frame_def Let_def)


text \<open>A form with one control that is checked by the server.\<close>

definition demo_config :: config where
  "demo_config =
     \<lparr>u_hooks = plain_hooks, u_sources = plain_sources, u_messages = default_messages, u_groups = [],
      u_ignored = c_hidden, u_ignoreTitle = False, u_errorClass = ''error'', u_validClass = ''valid'',
      u_success = None, u_onfocusout = True, u_focusInvalid = True, u_focusCleanup = False,
      u_submitHandler = False\<rparr>"

definition demo_form :: "vstate" where
  "demo_form =
     init_validator [text_field ''user'' [] [] ''ann''] []
       [(''user'', PObj [(''remote'', PText ''/check''), (''maxlength'', PNum (whole 5))])] []"

text \<open>How \<open>element\<close> runs, in two parts: the check and what is shown afterwards.\<close>

definition finish_element :: "config \<Rightarrow> nat \<Rightarrow> verdict \<Rightarrow> vstate \<Rightarrow> vstate" where
  "finish_element u i v s =
     (let s = s\<lparr>v_invalid := (if v \<noteq> Invalid then filter (\<lambda>n. n \<noteq> name_of s i) (v_invalid s)
                else union_list (v_invalid s) [name_of s i])\<rparr>;
          s = (if length (v_invalid s) = 0 then s\<lparr>v_toHide := union_list (v_toHide s) [TContainers]\<rparr> else s)
      in showErrors u [] s)"

lemma element_run:
  assumes "validationTargetFor u s el = Some i"
    and "check u i ((prepareElement u i s)\<lparr>v_currentElements := [i]\<rparr>) = (Inr v, s')"
  shows "element u el s = (Inr (v \<noteq> Invalid), finish_element u i v s')"
  using assms by (simp add: element_def ado_run athen_def abind_def amodify_def areturn_def finish_element_def Let_def)

lemma focusout_run:
  assumes "el < length (v_controls s)" "text_like (control_of s el)" "\<not> checkable (control_of s el)"
    "\<not> is_blank (v_controls s) el" "element u el s = (r, s')"
  shows "vstep u (AFocusout el) s = s'"
  using assms by (cases r)
    (simp_all add: vstep_def after_def onfocusout_def ado_run awhen_run athen_def abind_def areturn_def)

definition demo_waiting :: vstate where
  "demo_waiting =
     finish_element demo_config 0 Undecided
       (demo_form\<lparr>v_messages := [(''user'', CMethods [(''remote'', MText ''Please fix this field.'')])],
         v_currentElements := [0], v_pendingRequest := 1, v_pending := [''user''], v_previous := [(0, 0)],
         v_heap := [\<lparr>p_old = FText ''ann'', p_valid = True, p_message = MText ''Please fix this field.'', p_original = None\<rparr>],
         v_requests := [\<lparr>q_id = 0, q_element = 0, q_name = ''user'', q_value = FText ''ann'', q_previous = 0,
           q_param = PText ''/check''\<rparr>],
         v_next := 1\<rparr>)"

lemma demo_focusout: "vstep demo_config (AFocusout 0) demo_form = demo_waiting"
  unfolding demo_waiting_def
  by (rule focusout_run [OF _ _ _ _ element_run], code_simp, code_simp, code_simp, code_simp, code_simp, code_simp)


end
