(* ===== verification/ValForm.thy ===== *)
theory ValForm
  imports ValProps
begin

text \<open>
  What \<open>form()\<close> and the methods beneath it report: which controls a form checks, that the error list is
  the list of the controls with a failing rule, and what remote checks and stopped submissions leave behind.
\<close>

subsection \<open>Which controls are checked\<close>

lemma element_rules_same:
  "v_controls s' = v_controls s \<Longrightarrow> v_rules s' = v_rules s \<Longrightarrow> element_rules u s' el = element_rules u s el"
  by (simp add: element_rules_def control_of_def)

lemma first_of_names_same:
  assumes "v_controls s' = v_controls s" "v_rules s' = v_rules s"
  shows "first_of_names u s' cache els = first_of_names u s cache els"
proof -
  have "name_of s' = name_of s" by (rule ext) (simp add: name_of_def control_of_def assms(1))
  then show ?thesis
    by (induction els arbitrary: cache) (simp_all add: element_rules_same [OF assms] cong: if_cong)
qed

lemma elements_same:
  assumes "v_controls s' = v_controls s" "v_rules s' = v_rules s"
  shows "elements u s' = elements u s"
  by (simp add: elements_def form_controls_def control_of_def first_of_names_same [OF assms] assms(1))

lemma prepareForm_same [simp]:
  "v_controls (prepareForm u s) = v_controls s" "v_rules (prepareForm u s) = v_rules s"
  by (simp_all add: prepareForm_def reset_lists_def Let_def)

definition has_rules :: "config \<Rightarrow> vstate \<Rightarrow> nat \<Rightarrow> bool" where
  "has_rules u s el \<longleftrightarrow> (\<exists>rs. element_rules u s el = Inr rs \<and> rs \<noteq> [])"

lemma first_of_names_spec:
  "first_of_names u s cache els = Inr r \<Longrightarrow>
     distinct (map (name_of s) r) \<and>
     (\<forall>el \<in> set r. el \<in> set els \<and> has_rules u s el \<and> name_of s el \<notin> set cache \<and> name_of s el \<notin> set prototype_names) \<and>
     (\<forall>el \<in> set els. has_rules u s el \<and> name_of s el \<notin> set prototype_names \<longrightarrow>
        name_of s el \<in> set cache \<union> name_of s ` set r)"
proof (induction els arbitrary: cache r)
  case (Cons el els)
  show ?case
  proof (cases "name_of s el \<in> set cache \<or> name_of s el \<in> set prototype_names")
    case True
    then have "first_of_names u s cache els = Inr r" using Cons.prems by simp
    from Cons.IH [OF this] show ?thesis using True by auto
  next
    case False
    then obtain rs where rs: "element_rules u s el = Inr rs" using Cons.prems by (auto simp: rbind_Inr_iff)
    show ?thesis
    proof (cases "rs = []")
      case True
      then have "first_of_names u s cache els = Inr r" using Cons.prems False rs by simp
      from Cons.IH [OF this] show ?thesis using True rs by (auto simp: has_rules_def)
    next
      case ne: False
      then obtain r' where r': "first_of_names u s (name_of s el # cache) els = Inr r'" "r = el # r'"
        using Cons.prems False rs by (auto simp: rbind_Inr_iff)
      from Cons.IH [OF r'(1)] show ?thesis using r'(2) False rs ne by (auto simp: has_rules_def)
    qed
  qed
qed simp

text \<open>C36: The controls that a form checks have different names and rules, and among the controls that are
  not hidden or disabled every name with a rule is checked, except that a control named like a property
  of every object, such as \<open>constructor\<close>, never is.\<close>

theorem checked_controls:
  assumes "elements u s = Inr els"
  shows "distinct (map (name_of s) els) \<and> set els \<subseteq> {el \<in> set (form_controls u s). has_rules u s el} \<and>
    name_of s ` set els =
      name_of s ` {el \<in> set (form_controls u s). has_rules u s el} - set prototype_names"
  using first_of_names_spec [OF assms [unfolded elements_def]] by auto

theorem checked_controls_witness:
  "name_of demo_form ` set [0] = name_of demo_form ` {el \<in> set (form_controls demo_config demo_form).
     has_rules demo_config demo_form el} - set prototype_names"
proof -
  have "elements demo_config demo_form = Inr [0]" by code_simp
  from checked_controls [OF this] show ?thesis by blast
qed

subsection \<open>When a form is valid\<close>

definition rules_pass :: "config \<Rightarrow> control list \<Rightarrow> nat \<Rightarrow> rules \<Rightarrow> bool" where
  "rules_pass u cs el rs \<longleftrightarrow>
     (\<forall>(m, p) \<in> set rs. plain_method u cs m (elementValue cs el) el p \<in> {Inr Passed, Inr Mismatch})"

definition control_passes :: "config \<Rightarrow> vstate \<Rightarrow> nat \<Rightarrow> bool" where
  "control_passes u s el = (case element_rules u s el of Inr rs \<Rightarrow> rules_pass u (v_controls s) el rs | Inl e \<Rightarrow> False)"

definition plain_rules :: "rules \<Rightarrow> bool" where
  "plain_rules rs \<longleftrightarrow> (\<forall>(m, p) \<in> set rs. m \<noteq> ''remote'' \<and> m \<noteq> ''equalTo'')"

definition never_pending :: "config \<Rightarrow> bool" where
  "never_pending u \<longleftrightarrow> (\<forall>m v el p. h_method (u_hooks u) m v el p \<noteq> Inr Pending)"

definition target_of :: "config \<Rightarrow> vstate \<Rightarrow> nat \<Rightarrow> nat" where
  "target_of u s el = (case validationTargetFor u s el of Some t \<Rightarrow> t | None \<Rightarrow> el)"

lemma unless_blank_pending: "unless_blank cs el r \<noteq> Inr Pending"
  by (cases r) (simp_all add: unless_blank_def answer_def)

lemma required_pending: "required h cs v el p \<noteq> Inr Pending"
  by (cases "depend h p el") (simp_all add: required_def answer_def)

lemma creditcard_pending: "creditcard cs v el \<noteq> Inr Pending"
  by (simp add: creditcard_def answer_def split: fvalue.split)

lemma plain_method_pending: "never_pending u \<Longrightarrow> plain_method u cs m v el p \<noteq> Inr Pending"
  by (simp add: plain_method_def never_pending_def required_pending creditcard_pending unless_blank_pending
      minlength_def maxlength_def rangelength_def min_value_def max_value_def range_value_def matches_def)

lemma formatAndAdd_run:
  "formatAndAdd u el m p s = (Inr x, s') \<Longrightarrow>
     v_controls s' = v_controls s \<and> v_rules s' = v_rules s \<and> map fst (v_errorList s') = map fst (v_errorList s) @ [el]"
  by (auto simp: formatAndAdd_def ado_run abind_def aof_def amodify_def split: sum.splits prod.splits)

lemma check_rules_plain:
  assumes np: "never_pending u"
  shows "plain_rules rs \<Longrightarrow> check_rules u el (elementValue cs el) rs mism s = (Inr v, s') \<Longrightarrow> v_controls s = cs \<Longrightarrow>
     v_controls s' = cs \<and> v_rules s' = v_rules s \<and> (v = Invalid \<longleftrightarrow> \<not> rules_pass u cs el rs) \<and>
     map fst (v_errorList s') = map fst (v_errorList s) @ (if v = Invalid then [el] else [])"
proof (induction rs arbitrary: mism s)
  case Nil
  then show ?case by (auto simp: areturn_def rules_pass_def split: if_splits)
next
  case (Cons x rs)
  obtain m p where x: "x = (m, p)" by (cases x)
  let ?val = "elementValue cs el"
  have run: "run_method u m ?val el p s = (plain_method u cs m ?val el p, s)"
    using Cons.prems by (simp add: x plain_rules_def run_method_def ado_run aof_def)
  obtain r where r: "plain_method u cs m ?val el p = Inr r"
    using Cons.prems(2) run by (cases "plain_method u cs m ?val el p") (auto simp: x abind_def)
  have pr: "plain_rules rs" using Cons.prems(1) by (simp add: plain_rules_def)
  have pass: "rules_pass u cs el (x # rs) \<longleftrightarrow> r \<in> {Passed, Mismatch} \<and> rules_pass u cs el rs"
    by (auto simp: rules_pass_def x r)
  show ?case
  proof (cases r)
    case Passed
    then show ?thesis using Cons.IH [OF pr, of False s] Cons.prems run r pass by (simp add: x abind_def)
  next
    case Mismatch
    then show ?thesis using Cons.IH [OF pr, of True s] Cons.prems run r pass by (simp add: x abind_def)
  next
    case Failed
    then have "athen (formatAndAdd u el m p) (areturn Invalid) s = (Inr v, s')"
      using Cons.prems(2) run r by (simp add: x abind_def)
    then obtain y where "formatAndAdd u el m p s = (Inr y, s')" "v = Invalid"
      by (auto simp: athen_def abind_def areturn_def split: prod.splits sum.splits)
    then show ?thesis using formatAndAdd_run Failed pass Cons.prems(3) by fastforce
  next
    case Pending
    then show ?thesis using plain_method_pending [OF np] r by simp
  qed
qed

lemma validationTargetFor_same:
  "v_controls s' = v_controls s \<Longrightarrow> validationTargetFor u s' el = validationTargetFor u s el"
  by (simp add: validationTargetFor_def control_of_def name_of_def)

definition plain_control :: "config \<Rightarrow> vstate \<Rightarrow> nat \<Rightarrow> bool" where
  "plain_control u s el \<longleftrightarrow> (\<forall>rs. element_rules u s (target_of u s el) = Inr rs \<longrightarrow> plain_rules rs)"

lemma check_plain:
  assumes np: "never_pending u" and pl: "plain_control u s el" and c: "check u el s = (Inr v, s')"
  shows "v_controls s' = v_controls s \<and> v_rules s' = v_rules s \<and>
     map fst (v_errorList s') =
       map fst (v_errorList s) @ (if control_passes u s (target_of u s el) then [] else [target_of u s el])"
proof -
  obtain t where t: "validationTargetFor u s el = Some t"
    using c by (cases "validationTargetFor u s el") (auto simp: check_def ado_run athrow_def)
  then have tt: "target_of u s el = t" by (simp add: target_of_def)
  obtain rs where rs: "element_rules u s t = Inr rs"
    using c t by (cases "element_rules u s t") (auto simp: check_def ado_run abind_def aof_def)
  obtain v' s1 where v': "check_rules u t (elementValue (v_controls s) t) rs False s = (Inr v', s1)"
    using c t rs by (cases "check_rules u t (elementValue (v_controls s) t) rs False s"; cases "fst (check_rules u t (elementValue (v_controls s) t) rs False s)")
      (auto simp: check_def ado_run abind_def aof_def)
  have s': "s' = (if v' = Valid \<and> length rs > 0 then s1\<lparr>v_successList := v_successList s1 @ [t]\<rparr> else s1)"
    using c t rs v' by (auto simp: check_def ado_run abind_def aof_def athen_def awhen_run amodify_def areturn_def split: if_splits)
  have "plain_rules rs" using pl rs tt by (simp add: plain_control_def)
  from check_rules_plain [OF np this v' refl] show ?thesis
    unfolding s' tt by (auto simp: control_passes_def rs)
qed

lemma check_all_plain:
  assumes np: "never_pending u"
  shows "\<forall>el \<in> set els. plain_control u s el \<Longrightarrow>
    aeach (\<lambda>el. athen (check u el) (areturn ())) els s1 = (Inr (), s2) \<Longrightarrow>
    v_controls s1 = v_controls s \<Longrightarrow> v_rules s1 = v_rules s \<Longrightarrow>
    map fst (v_errorList s2) =
      map fst (v_errorList s1) @ filter (\<lambda>t. \<not> control_passes u s t) (map (target_of u s) els)"
proof (induction els arbitrary: s1)
  case Nil
  then show ?case by (simp add: areturn_def)
next
  case (Cons el els)
  obtain v s3 where v: "check u el s1 = (Inr v, s3)"
    using Cons.prems(2) by (cases "check u el s1"; cases "fst (check u el s1)") (auto simp: athen_def abind_def)
  have "athen (check u el) (areturn ()) s1 = (Inr (), s3)"
    using v by (simp add: athen_def abind_def areturn_def)
  then have rest: "aeach (\<lambda>el. athen (check u el) (areturn ())) els s3 = (Inr (), s2)"
    using Cons.prems(2) by (simp add: athen_run(1))
  have same: "element_rules u s1 t = element_rules u s t" for t
    by (rule element_rules_same [OF Cons.prems(3,4)])
  have tgt: "target_of u s1 el = target_of u s el"
    by (simp add: target_of_def validationTargetFor_same [OF Cons.prems(3)])
  have passes: "control_passes u s1 t = control_passes u s t" for t
    by (simp only: control_passes_def same Cons.prems(3))
  have "plain_control u s1 el" using Cons.prems(1) by (simp add: plain_control_def same tgt)
  from check_plain [OF np this v] have c: "v_controls s3 = v_controls s" "v_rules s3 = v_rules s"
      "map fst (v_errorList s3) = map fst (v_errorList s1) @
        (if control_passes u s (target_of u s el) then [] else [target_of u s el])"
    using Cons.prems(3,4) by (simp_all add: passes tgt)
  show ?case
    using Cons.IH [OF _ rest c(1,2)] Cons.prems(1) c(3) by simp
qed

lemma errorList_labels [simp]:
  "v_errorList (update_labels is f s) = v_errorList s" "v_errorList (update_controls is g s) = v_errorList s"
  "v_errorList (set_visible b ts s) = v_errorList s" "v_errorList (highlight u el s) = v_errorList s"
  "v_errorList (unhighlight u el s) = v_errorList s" "v_errorList (showLabel u el msg s) = v_errorList s"
  by (simp_all add: update_labels_def update_controls_def set_visible_def highlight_def unhighlight_def
      showLabel_def Let_def split: option.split)

lemma errorList_fold: "(\<And>x s. v_errorList (f x s) = v_errorList s) \<Longrightarrow> v_errorList (fold f xs s) = v_errorList s"
  by (induction xs arbitrary: s) simp_all

lemma errorList_shown [simp]: "v_errorList (showErrors u [] s) = v_errorList s"
  by (simp add: showErrors_def defaultShowErrors_def Let_def hideErrors_def errorList_fold split: prod.split)

lemma athen_Inr: "athen m k s = (Inr x, s') \<Longrightarrow> \<exists>y s1. m s = (Inr y, s1) \<and> k s1 = (Inr x, s')"
  by (auto simp: athen_def abind_def split: prod.splits sum.splits)

lemma vform_parts:
  assumes "vform u s = (Inr b, s')" and els: "elements u s = Inr els"
  shows "\<exists>s2. aeach (\<lambda>el. athen (check u el) (areturn ())) els ((prepareForm u s)\<lparr>v_currentElements := els\<rparr>) = (Inr (), s2) \<and>
    v_errorList s' = v_errorList s2 \<and> b = valid s2"
proof -
  obtain c s1 where c: "checkForm u s = (Inr c, s1)"
      "athen (amodify (\<lambda>s. s\<lparr>v_submitted := oextend (v_submitted s) (v_errorMap s), v_invalid := map fst (v_errorMap s)\<rparr>))
     (athen (ado (\<lambda>s. awhen (\<not> valid s) (record_event InvalidForm)))
     (athen (amodify (showErrors u []))
     (aget_state valid))) s1 = (Inr b, s')"
    using athen_Inr [OF assms(1) [unfolded vform_def]] by blast
  have "elements u (prepareForm u s) = Inr els"
    using els elements_same [OF prepareForm_same] by simp
  then have "athen (aeach (\<lambda>el. athen (check u el) (areturn ())) els) (aget_state valid)
      ((prepareForm u s)\<lparr>v_currentElements := els\<rparr>) = (Inr c, s1)"
    using c(1) by (simp add: checkForm_def act_simps)
  from athen_Inr [OF this]
  have loop: "aeach (\<lambda>el. athen (check u el) (areturn ())) els ((prepareForm u s)\<lparr>v_currentElements := els\<rparr>) = (Inr (), s1)"
    by (auto simp: aget_state_def)
  let ?s2 = "s1\<lparr>v_submitted := oextend (v_submitted s1) (v_errorMap s1), v_invalid := map fst (v_errorMap s1)\<rparr>"
  have "v_errorList s' = v_errorList ?s2 \<and> b = valid ?s2"
    using c(2) by (cases "valid ?s2") (auto simp: act_simps record_event_def valid_def)
  then show ?thesis using loop by (auto simp: valid_def)
qed

text \<open>C34: \<open>form()\<close> reports exactly what fails: when it returns, the error list holds, in order, the
  controls with a rule that is neither passed nor inapplicable, and it returns true when there is none.
  Forms with remote checks or equal values are left out, as are methods of the page that answer "pending".\<close>

theorem form_reports_failing_controls:
  assumes "vform u s = (Inr b, s')" "elements u s = Inr els"
    and "never_pending u" "\<forall>el \<in> set els. plain_control u s el"
  shows "map fst (v_errorList s') = filter (\<lambda>t. \<not> control_passes u s t) (map (target_of u s) els) \<and>
    (b \<longleftrightarrow> (\<forall>el \<in> set els. control_passes u s (target_of u s el)))"
proof -
  obtain s2 where s2: "aeach (\<lambda>el. athen (check u el) (areturn ())) els ((prepareForm u s)\<lparr>v_currentElements := els\<rparr>) = (Inr (), s2)"
      "v_errorList s' = v_errorList s2" "b = valid s2"
    using vform_parts [OF assms(1,2)] by blast
  have "v_errorList (prepareForm u s) = []" by (simp add: prepareForm_def reset_lists_def Let_def)
  then have e: "map fst (v_errorList s2) = filter (\<lambda>t. \<not> control_passes u s t) (map (target_of u s) els)"
    using check_all_plain [OF assms(3,4) s2(1)] by simp
  have "b \<longleftrightarrow> map fst (v_errorList s2) = []" using s2(3) by (simp add: valid_def)
  then show ?thesis using e s2(2) by (auto simp: filter_empty_conv)
qed

text \<open>How \<open>form()\<close> runs, in two parts: the checks and what is shown afterwards.\<close>

definition finish_form :: "config \<Rightarrow> vstate \<Rightarrow> vstate" where
  "finish_form u s =
     (let s = s\<lparr>v_submitted := oextend (v_submitted s) (v_errorMap s), v_invalid := map fst (v_errorMap s)\<rparr>;
          s = (if valid s then s else s\<lparr>v_log := v_log s @ [InvalidForm]\<rparr>)
      in showErrors u [] s)"

lemma vform_run:
  assumes "elements u s = Inr els"
    and "aeach (\<lambda>el. athen (check u el) (areturn ())) els ((prepareForm u s)\<lparr>v_currentElements := els\<rparr>) = (Inr (), s2)"
  shows "vform u s = (Inr (valid s2), finish_form u s2)"
proof -
  have "elements u (prepareForm u s) = Inr els"
    using assms(1) elements_same [OF prepareForm_same] by simp
  then have "checkForm u s = (Inr (valid s2), s2)"
    using assms(2) by (simp add: checkForm_def act_simps)
  then show ?thesis
    by (cases "valid s2") (simp_all add: vform_def act_simps record_event_def finish_form_def Let_def valid_def)
qed

definition long_form :: vstate where
  "long_form =
     init_validator [text_field ''zip'' [''required''] [] '' 123456 ''] []
       [(''zip'', PObj [(''maxlength'', PNum (whole 5))])] []"

theorem form_reports_failing_controls_witness:
  "map fst (v_errorList (after (vform demo_config) long_form)) = [0]"
proof -
  have els: "elements demo_config long_form = Inr [0]" by code_simp
  let ?s = "(prepareForm demo_config long_form)\<lparr>v_currentElements := [0]\<rparr>"
  have "fst (check demo_config 0 ?s) = Inr Invalid" by code_simp
  then obtain s2 where "check demo_config 0 ?s = (Inr Invalid, s2)" by (metis prod.collapse)
  then have "aeach (\<lambda>el. athen (check demo_config el) (areturn ())) [0] ?s = (Inr (), s2)"
    by (simp add: act_simps athen_run(1))
  then have v: "vform demo_config long_form = (Inr (valid s2), finish_form demo_config s2)"
    by (rule vform_run [OF els])
  have r: "element_rules demo_config long_form (target_of demo_config long_form 0) =
      Inr [(''required'', PBool True), (''maxlength'', PNum (whole 5))]" by code_simp
  have np: "never_pending demo_config" by (simp add: never_pending_def demo_config_def plain_hooks_def)
  have "plain_control demo_config long_form 0"
    using r by (simp add: plain_control_def plain_rules_def)
  then have "map fst (v_errorList (finish_form demo_config s2)) =
      filter (\<lambda>t. \<not> control_passes demo_config long_form t) (map (target_of demo_config long_form) [0])"
    using form_reports_failing_controls [OF v els np] by (metis empty_iff empty_set set_ConsD)
  moreover have "target_of demo_config long_form 0 = 0" by code_simp
  moreover have "control_passes demo_config long_form 0 = False" by code_simp
  ultimately show ?thesis by (simp add: after_def v)
qed

subsection \<open>The message of a remote check\<close>

text \<open>While a check is under way, the message of the previous answer stands in for the message of the options,
  which is kept in the \<open>previousValue\<close> object.\<close>

lemma name_of_same: "v_controls s' = v_controls s \<Longrightarrow> name_of s' el = name_of s el"
  by (simp add: name_of_def control_of_def)

lemma remote_message_kept:
  assumes "\<not> is_blank (v_controls s) el" "map_of (v_previous s) el = Some p" "p < length (v_heap s)"
    and m: "oget (v_messages s) (name_of s el) = Some (CMethods ms)"
    and r: "remote u v el par s = (Inr r, s')"
  shows "v_controls s' = v_controls s" "v_previous s' = v_previous s" "length (v_heap s') = length (v_heap s)"
    "p_message (v_heap s' ! p) = p_message (v_heap s ! p)"
    "p_original (v_heap s' ! p) = oget ms ''remote''"
    "oget (v_messages s') (name_of s el) = Some (CMethods (oset ''remote'' (p_message (v_heap s ! p)) ms))"
proof -
  let ?s1 = "update_previous p (\<lambda>r. r\<lparr>p_original := remote_message s (name_of s el)\<rparr>) s"
  let ?s2 = "set_remote_message (name_of s el) (Some (p_message (v_heap ?s1 ! p))) ?s1"
  have pv: "previousValue u el s = (Inr p, s)"
    using assms(2) by (simp add: previousValue_def ado_run areturn_def)
  have en: "ensure_messages (name_of s el) s = s" using m by (simp add: ensure_messages_def)
  have n1: "v_messages ?s1 = v_messages s" "v_controls ?s1 = v_controls s" "v_previous ?s1 = v_previous s"
    by (simp_all add: update_previous_def)
  have n2: "v_controls ?s2 = v_controls s" "v_previous ?s2 = v_previous s" "v_heap ?s2 = v_heap ?s1"
      "v_messages ?s2 = oset (name_of s el) (CMethods (oset ''remote'' (p_message (v_heap ?s1 ! p)) ms)) (v_messages s)"
    using m by (simp_all add: set_remote_message_def n1)
  have n3: "name_of ?s1 el = name_of s el" "name_of ?s2 el = name_of s el"
    using name_of_same [OF n1(2)] name_of_same [OF n2(1)] by simp_all
  have h: "v_heap ?s1 = (v_heap s)[p := (v_heap s ! p)\<lparr>p_original := oget ms ''remote''\<rparr>]"
    using m by (simp add: update_previous_def remote_message_def)
  have hp: "v_heap ?s1 ! p = (v_heap s ! p)\<lparr>p_original := oget ms ''remote''\<rparr>"
    using assms(3) by (simp add: h)
  have run: "remote u v el par s =
      (if is_pending ?s2 (name_of ?s2 el) then (Inr Pending, ?s2)
       else if strict_eq (p_old (v_heap ?s2 ! p)) v then (Inr (answer (p_valid (v_heap ?s2 ! p))), ?s2)
       else (Inr Pending, send_request el v p par (startRequest el (update_previous p (\<lambda>r. r\<lparr>p_old := v\<rparr>) ?s2))))"
    using assms(1) by (simp add: remote_def act_simps pv en n3)
  have sr: "v_controls (send_request el v p par (startRequest el s)) = v_controls s"
      "v_previous (send_request el v p par (startRequest el s)) = v_previous s"
      "v_heap (send_request el v p par (startRequest el s)) = v_heap s"
      "v_messages (send_request el v p par (startRequest el s)) = v_messages s" for s
    by (simp_all add: send_request_def startRequest_def)
  define t where "t = ?s2"
  have t: "v_controls t = v_controls s" "v_previous t = v_previous s"
      "v_heap t = (v_heap s)[p := (v_heap s ! p)\<lparr>p_original := oget ms ''remote''\<rparr>]"
      "v_messages t = oset (name_of s el) (CMethods (oset ''remote'' (p_message (v_heap s ! p)) ms)) (v_messages s)"
    using n2 hp unfolding t_def h by simp_all
  have "s' = t \<or> s' = send_request el v p par (startRequest el (update_previous p (\<lambda>r. r\<lparr>p_old := v\<rparr>) t))"
    using r unfolding run t_def by (simp split: if_splits)
  then show "v_controls s' = v_controls s" "v_previous s' = v_previous s" "length (v_heap s') = length (v_heap s)"
    "p_message (v_heap s' ! p) = p_message (v_heap s ! p)"
    "p_original (v_heap s' ! p) = oget ms ''remote''"
    "oget (v_messages s') (name_of s el) = Some (CMethods (oset ''remote'' (p_message (v_heap s ! p)) ms))"
    using assms(3) by (auto simp: sr t oget_oset update_previous_def)
qed

text \<open>A second check before the next answer loses the message of the options: what is put back when the
  answer comes is the message of the answer before.\<close>

lemma second_check_loses_message:
  assumes "\<not> is_blank (v_controls s) el" "map_of (v_previous s) el = Some p" "p < length (v_heap s)"
    and "oget (v_messages s) (name_of s el) = Some (CMethods ms)"
    and "remote u v el par s = (Inr r, s1)" "remote u w el par s1 = (Inr r', s2)"
  shows "p_original (v_heap s2 ! p) = Some (p_message (v_heap s ! p))"
proof -
  note k = remote_message_kept [OF assms(1-5)]
  have n: "name_of s1 el = name_of s el" by (simp add: name_of_def control_of_def k(1))
  show ?thesis
    using remote_message_kept(5) [OF _ _ _ _ assms(6), of p "oset ''remote'' (p_message (v_heap s ! p)) ms"]
      assms(1,2,3) k by (simp add: n oget_oset)
qed

end

