(* ===== verification/KoMapping.thy ===== *)
theory KoMapping
  imports KoCompare KoUtils JsValue Action
begin

text \<open>
  \<open>knockout.mapping\<close>: \<open>fromJS\<close> turns plain data into a view model, into an existing one if it is given,
  and \<open>toJS\<close> reads the data back.

  Data and view models are trees here: no object occurs twice in them, so \<open>visitedObjects\<close> never
  finds one, but every look-up in it is kept, since it can throw. Numbers, texts and the like are
  compared by \<open>===\<close>; an object of the data is never \<open>===\<close> one of the view model. Options that
  are functions (\<open>create\<close>, \<open>update\<close>, \<open>key\<close>, \<open>arrayChanged\<close>) are not set. What the model leaves out
  gives the error \<open>outside\<close>: a target whose shape does not fit the data, such as an array where the data
  has an object, observables among the items of a target's array, DOM nodes, what is done to the
  prototype of an object through a property with the name of an inherited one, and the callbacks that
  the code takes from inherited properties of the options (\<open>outside_property\<close>). No property of a target
  mapped before is called \<open>hasOwnProperty\<close>.
\<close>

subsection \<open>View models\<close>

text \<open>A plain value, an observable and what it holds, an object, an array. Plain values are no objects.\<close>

datatype model =
    Plain jsval
  | Obs model
  | MObj "model obj"
  | MArr "model list"

fun unwrap :: "model \<Rightarrow> model" where
  "unwrap (Obs m) = m"
| "unwrap m = m"

text \<open>Data copied as it is.\<close>

fun embed :: "jsval \<Rightarrow> model" where
  "embed (VObject ps) = MObj (map (\<lambda>(k, v). (k, embed v)) ps)"
| "embed (VArray vs) = MArr (map embed vs)"
| "embed v = Plain v"

subsection \<open>Tables of visited objects\<close>

lemma rmap_cong [fundef_cong]:
  "xs = ys \<Longrightarrow> (\<And>x. x \<in> set ys \<Longrightarrow> f x = g x) \<Longrightarrow> rmap f xs = rmap g ys"
  by (induction xs arbitrary: ys) (auto simp: rbind_def split: sum.split)

text \<open>The text of a value as the name of a property: an object with an own \<open>toString\<close> that is no function
  has none.\<close>

fun key_text :: "jsval \<Rightarrow> string res" where
  "key_text (VArray vs) =
     rbind (rmap (\<lambda>v. if v = VUndefined \<or> v = VNull then Inr [] else key_text v) vs) (\<lambda>ts. Inr (js_join '','' ts))"
| "key_text (VObject ps) =
     (if oget ps ''toString'' = None then Inr ''[object Object]'' else Inl TypeError)"
| "key_text v = Inr (to_text v)"

definition not_found :: js_error where
  "not_found = Thrown ''When calling ko.update*, the key was not found!''"

definition outside :: js_error where
  "outside = Thrown ''outside the model''"

text \<open>\<open>findBucket\<close>: the buckets are properties of a plain object, so a key whose text is the name of an
  inherited property finds a function or the prototype, which have neither \<open>get\<close> nor \<open>save\<close>.\<close>

definition find_bucket :: "string res \<Rightarrow> unit res" where
  "find_bucket t = rbind t (\<lambda>k. if k \<in> set prototype_names \<or> k = ''__proto__'' then Inl TypeError else Inr ())"

text \<open>\<open>simpleObjectLookup\<close>\<close>

definition lookup_save :: "'k \<Rightarrow> 'v \<Rightarrow> ('k \<times> 'v) list \<Rightarrow> ('k \<times> 'v) list" where
  "lookup_save key value tab =
     (let i = arrayIndexOf (map fst tab) key
      in if i \<ge> 0 then tab[nat i := (key, value)] else tab @ [(key, value)])"

definition lookup_get :: "'k \<Rightarrow> ('k \<times> 'v) list \<Rightarrow> 'v option" where
  "lookup_get key tab =
     (let i = arrayIndexOf (map fst tab) key in if i \<ge> 0 then Some (snd (tab ! nat i)) else None)"

subsection \<open>Options\<close>

text \<open>The options of a mapping: lists of property names, and the names that were mapped and copied. An option
  that is not given is \<^const>\<open>None\<close>.\<close>

record raw_options =
  r_ignore :: "string list option"
  r_copy :: "string list option"
  r_observe :: "string list option"
  r_include :: "string list option"
  r_mapped :: "string list option"
  r_copied :: "string list option"

record mopts =
  o_ignore :: "string list"
  o_copy :: "string list"
  o_observe :: "string list"
  o_include :: "string list"
  o_mapped :: "string list"
  o_copied :: "string list"

text \<open>The names are taken from the ends of the arrays; no name is an array index.\<close>

definition unionArrays :: "string list \<Rightarrow> string list \<Rightarrow> string list" where
  "unionArrays x y = map fst (fold (\<lambda>k m. oset k () m) (rev x @ rev y) [])"

definition merge_names :: "string list option \<Rightarrow> string list option \<Rightarrow> string list option" where
  "merge_names a b =
     (case (a, b) of
        (Some x, Some y) \<Rightarrow> Some (unionArrays x y)
      | (None, b) \<Rightarrow> b
      | (a, None) \<Rightarrow> a)"

text \<open>The names in an object of flags; a name that every object has is not copied.\<close>

definition merge_flags :: "string list option \<Rightarrow> string list option \<Rightarrow> string list option" where
  "merge_flags a b =
     (case a of
        None \<Rightarrow> b
      | Some x \<Rightarrow>
          Some (x @ (case b of None \<Rightarrow> [] | Some y \<Rightarrow> filter (\<lambda>k. k \<notin> set x \<and> k \<notin> set prototype_names) y)))"

definition merge :: "raw_options \<Rightarrow> raw_options \<Rightarrow> raw_options" where
  "merge a b =
     \<lparr>r_ignore = merge_names (r_ignore a) (r_ignore b), r_copy = merge_names (r_copy a) (r_copy b),
      r_observe = merge_names (r_observe a) (r_observe b), r_include = merge_names (r_include a) (r_include b),
      r_mapped = merge_flags (r_mapped a) (r_mapped b), r_copied = merge_flags (r_copied a) (r_copied b)\<rparr>"

definition no_options :: raw_options where
  "no_options =
     \<lparr>r_ignore = None, r_copy = None, r_observe = None, r_include = None, r_mapped = None, r_copied = None\<rparr>"

definition mergeArrays :: "string list option \<Rightarrow> string list option \<Rightarrow> string list" where
  "mergeArrays a b =
     arrayGetDistinctValues ((case a of None \<Rightarrow> [] | Some x \<Rightarrow> x) @ (case b of None \<Rightarrow> [] | Some y \<Rightarrow> y))"

definition default_options :: raw_options where
  "default_options =
     no_options\<lparr>r_ignore := Some [], r_copy := Some [], r_observe := Some [], r_include := Some [''_destroy'']\<rparr>"

definition with_other ::
  "raw_options option \<Rightarrow> (raw_options \<Rightarrow> string list option) \<Rightarrow> raw_options \<Rightarrow> string list option"
where
  "with_other other f cfg =
     (case other of None \<Rightarrow> f cfg | Some p \<Rightarrow> Some (mergeArrays (f p) (f cfg)))"

definition fillOptions :: "raw_options \<Rightarrow> raw_options option \<Rightarrow> mopts" where
  "fillOptions raw other =
     (let opts = merge no_options raw
      in \<lparr>o_ignore = mergeArrays (with_other other r_ignore opts) (r_ignore default_options),
          o_copy = mergeArrays (with_other other r_copy opts) (r_copy default_options),
          o_observe = mergeArrays (with_other other r_observe opts) (r_observe default_options),
          o_include = mergeArrays (with_other other r_include opts) (r_include default_options),
          o_mapped = (case r_mapped opts of None \<Rightarrow> [] | Some ns \<Rightarrow> ns),
          o_copied = (case r_copied opts of None \<Rightarrow> [] | Some ns \<Rightarrow> ns)\<rparr>)"

definition as_raw :: "mopts \<Rightarrow> raw_options" where
  "as_raw cfg =
     \<lparr>r_ignore = Some (o_ignore cfg), r_copy = Some (o_copy cfg), r_observe = Some (o_observe cfg),
      r_include = Some (o_include cfg), r_mapped = Some (o_mapped cfg), r_copied = Some (o_copied cfg)\<rparr>"

subsection \<open>Keys of array items\<close>

text \<open>Items are compared by their keys: a plain value is its own key; an object of the data and one of the
  view model are only themselves. The latter have a text.\<close>

datatype akey = KVal jsval | KNew nat | KOld nat string

fun is_ref :: "jsval \<Rightarrow> bool" where
  "is_ref (VArray vs) = True"
| "is_ref (VObject ps) = True"
| "is_ref (VFunction n) = True"
| "is_ref (VNode n) = True"
| "is_ref (VNodes ns) = True"
| "is_ref v = False"

definition data_keys :: "jsval list \<Rightarrow> akey list" where
  "data_keys vs = map (\<lambda>(i, v). if is_ref v then KNew i else KVal v) (enumerate 0 vs)"

text \<open>The text of a part of a view model: an observable is a function, whose text is its source, the
  name of no property.\<close>

fun item_text :: "model \<Rightarrow> string res" where
  "item_text (Plain v) = (if v = VUndefined \<or> v = VNull then Inr [] else key_text v)"
| "item_text (Obs m) = Inr ''function''"
| "item_text (MObj ms) = (if oget ms ''toString'' = None then Inr ''[object Object]'' else Inl outside)"
| "item_text (MArr ms) = rbind (rmap item_text ms) (\<lambda>ts. Inr (js_join '','' ts))"

definition model_key :: "nat \<Rightarrow> model \<Rightarrow> akey res" where
  "model_key i m = (case m of Plain v \<Rightarrow> Inr (KVal v) | _ \<Rightarrow> rbind (item_text m) (\<lambda>t. Inr (KOld i t)))"

definition model_keys :: "model list \<Rightarrow> akey list res" where
  "model_keys ms = rmap (\<lambda>(i, m). model_key i m) (enumerate 0 ms)"

text \<open>\<open>sort()\<close> compares the texts of the keys and puts undefined last.\<close>

definition sort_text :: "akey \<Rightarrow> string" where
  "sort_text k = (case k of KVal v \<Rightarrow> to_text v | KOld i t \<Rightarrow> t | KNew i \<Rightarrow> [])"

definition key_le :: "akey \<Rightarrow> akey \<Rightarrow> bool" where
  "key_le k l \<longleftrightarrow> l = KVal VUndefined \<or> (k \<noteq> KVal VUndefined \<and> text_le (sort_text k) (sort_text l))"

fun insert_key :: "akey \<Rightarrow> akey list \<Rightarrow> akey list" where
  "insert_key k [] = [k]"
| "insert_key k (l # ls) = (if key_le k l then k # l # ls else l # insert_key k ls)"

definition sort_keys :: "akey list \<Rightarrow> akey list" where
  "sort_keys ks = foldr insert_key ks []"

text \<open>\<open>optimizedKeys\<close>: no key is undefined or an object, so that \<open>itemsByKey\<close> can hold the items by the text
  of their keys; of two items with one text the last stays.\<close>

definition optimized :: "jsval list \<Rightarrow> bool" where
  "optimized vs \<longleftrightarrow> (\<forall>v \<in> set vs. v \<noteq> VUndefined \<and> \<not> is_ref v)"

definition first_index :: "('x \<Rightarrow> bool) \<Rightarrow> 'x list \<Rightarrow> nat option" where
  "first_index p xs = map_option fst (find (\<lambda>(i, x). p x) (enumerate 0 xs))"

definition last_index_of :: "('x \<Rightarrow> bool) \<Rightarrow> 'x list \<Rightarrow> nat option" where
  "last_index_of p xs = map_option fst (find (\<lambda>(i, x). p x) (rev (enumerate 0 xs)))"

text \<open>The item of the data with a key: by \<open>itemsByKey\<close> or by \<open>getItemByKey\<close>.\<close>

definition item_by_key :: "jsval list \<Rightarrow> akey \<Rightarrow> nat option" where
  "item_by_key vs k =
     (if optimized vs then (case k of KVal w \<Rightarrow> last_index_of (\<lambda>v. to_text v = to_text w) vs | _ \<Rightarrow> None)
      else first_index (\<lambda>l. l = k) (data_keys vs))"

text \<open>\<open>ignorableIndexOf(array, item, ignoreIndexOf)\<close>\<close>

definition ignorableIndexOf :: "jsval list \<Rightarrow> nat \<Rightarrow> nat list \<Rightarrow> nat option" where
  "ignorableIndexOf vs i ignored =
     map_option fst (find (\<lambda>(j, k). j \<notin> set ignored \<and> k = data_keys vs ! i) (enumerate 0 (data_keys vs)))"

subsection \<open>Updating a view model\<close>

type_synonym 'a mact = "(mopts, 'a) act"

text \<open>The loop over the edit script. \<open>acts\<close> maps the items of the data, \<open>olds\<close> are the items of the target's array
  with their keys, which stay as they are, since they are no observables; \<open>newContents\<close> is sparse; an index
  that is not found is \<open>null\<close>, which counts as 0 in a subtraction and else names a property that is no item.\<close>

fun run_script ::
  "(nat \<Rightarrow> string \<Rightarrow> model option \<Rightarrow> model mact) \<Rightarrow> string \<Rightarrow> jsval list \<Rightarrow> (akey \<times> model) list \<Rightarrow>
     (nat \<times> akey edit_entry) list \<Rightarrow> (nat \<times> model) list \<Rightarrow> nat list \<Rightarrow> ((nat \<times> model) list) mact"
where
  "run_script acts path vs olds [] contents ignored = areturn contents"
| "run_script acts path vs olds ((i, e) # es) contents ignored =
     (let full = path @ ''['' @ nat_str i @ '']''
      in case ee_status e of
           EAdded \<Rightarrow>
             (case item_by_key vs (ee_value e) of
                None \<Rightarrow> athrow not_found
              | Some n \<Rightarrow>
                  abind (acts n full None) (\<lambda>m.
                    let index = ignorableIndexOf vs n ignored
                    in run_script acts path vs olds es
                         (AList.update (case index of Some j \<Rightarrow> j | None \<Rightarrow> 0) (unwrap m) contents)
                         (case index of Some j \<Rightarrow> j # ignored | None \<Rightarrow> ignored)))
         | ERetained \<Rightarrow>
             (case item_by_key vs (ee_value e) of
                None \<Rightarrow> athrow not_found
              | Some n \<Rightarrow>
                  (case map_of olds (ee_value e) of
                     None \<Rightarrow> athrow not_found
                   | Some m \<Rightarrow>
                       abind (acts n full (Some m)) (\<lambda>_.
                         case ignorableIndexOf vs n ignored of
                           Some j \<Rightarrow> run_script acts path vs olds es (AList.update j m contents) (j # ignored)
                         | None \<Rightarrow> run_script acts path vs olds es contents ignored)))
         | EDeleted \<Rightarrow>
             (case map_of olds (ee_value e) of
                None \<Rightarrow> athrow not_found
              | Some _ \<Rightarrow> run_script acts path vs olds es contents ignored))"

definition fill_contents :: "(nat \<times> model) list \<Rightarrow> model list" where
  "fill_contents contents =
     map (\<lambda>i. case map_of contents i of Some m \<Rightarrow> m | None \<Rightarrow> Plain VUndefined)
       [0..<fold (\<lambda>(i, _) n. max (Suc i) n) contents 0]"

definition update_array ::
  "(nat \<Rightarrow> string \<Rightarrow> model option \<Rightarrow> model mact) \<Rightarrow> string \<Rightarrow> jsval list \<Rightarrow> model list \<Rightarrow> model mact"
where
  "update_array acts path vs ms =
     abind (aof (model_keys ms)) (\<lambda>keys.
       case compareArrays (sort_keys keys) (data_keys vs) False of
         None \<Rightarrow> athrow outside
       | Some es \<Rightarrow>
           if optimized vs \<and> VString ''__proto__'' \<in> set vs then athrow outside
           else abind (run_script acts path vs (zip keys ms) (enumerate 0 es) [] []) (\<lambda>contents.
             areturn (Obs (MArr (fill_contents contents)))))"

text \<open>\<open>typeof v\<close> is \<open>"object"\<close>\<close>

definition typeof_object :: "jsval \<Rightarrow> bool" where
  "typeof_object v \<longleftrightarrow> v = VNull \<or> (is_ref v \<and> (case v of VFunction n \<Rightarrow> False | _ \<Rightarrow> True))"

text \<open>The object that the properties are written to: the target's, or a new one where that is falsy.\<close>

definition target_object :: "model option \<Rightarrow> model obj option" where
  "target_object mapped =
     (case mapped of
        None \<Rightarrow> Some []
      | Some m \<Rightarrow> (case unwrap m of
            MObj ms \<Rightarrow> Some ms
          | Plain v \<Rightarrow> if truthy v then None else Some []
          | _ \<Rightarrow> None))"

definition target_array :: "model option \<Rightarrow> model list option" where
  "target_array mapped =
     (case mapped of
        Some (Obs (MArr ms)) \<Rightarrow> (if list_all (\<lambda>m. unwrap m = m) ms then Some ms else None)
      | Some (Obs _) \<Rightarrow> None
      | _ \<Rightarrow> Some [])"

definition full_name :: "string \<Rightarrow> string \<Rightarrow> string" where
  "full_name path k = (if path = [] then k else path @ ''.'' @ k)"

definition note_mapped :: "string \<Rightarrow> unit mact" where
  "note_mapped n = amodify (\<lambda>cfg. cfg\<lparr>o_mapped := List.insert n (o_mapped cfg)\<rparr>)"

definition note_copied :: "string \<Rightarrow> unit mact" where
  "note_copied n = amodify (\<lambda>cfg. cfg\<lparr>o_copied := List.insert n (o_copied cfg)\<rparr>)"

text \<open>What becomes of a property: \<open>mapped\<close> is what the property held, \<open>r\<close> what was mapped for it.\<close>

definition store_property :: "string \<Rightarrow> string \<Rightarrow> model obj \<Rightarrow> model \<Rightarrow> (model obj) mact" where
  "store_property full k ms r = ado (\<lambda>cfg.
     if o_observe cfg \<noteq> [] \<and> full \<notin> set (o_observe cfg)
     then (case r of
             Obs x \<Rightarrow> athen (note_copied full) (areturn (oset k x ms))
           | _ \<Rightarrow> athrow TypeError)
     else athen (note_mapped full)
            (areturn (oset k (case oget ms k of Some (Obs _) \<Rightarrow> Obs (unwrap r) | _ \<Rightarrow> r) ms)))"

text \<open>\<open>updateViewModel\<close> reads the callbacks of a property from \<open>options[parentName]\<close>. That is the function
  \<open>Object\<close> for a property called \<open>constructor\<close>, whose \<open>create\<close> makes an object with a prototype; and an array
  called like an object of flags takes the flag of a property \<open>key\<close> for the callback.\<close>

definition outside_property :: "model obj \<Rightarrow> string \<Rightarrow> jsval \<Rightarrow> bool" where
  "outside_property ms k v \<longleftrightarrow>
     (oget ms k = None \<and> k \<in> set prototype_names \<and> typeof_object v \<and> v \<noteq> VNull) \<or>
     k = ''__proto__'' \<or> k = ''constructor'' \<or>
     (k \<in> {''mappedProperties'', ''copiedProperties''} \<and> (case v of VArray vs \<Rightarrow> True | _ \<Rightarrow> False))"

fun update_props ::
  "(string \<times> (string \<Rightarrow> model option \<Rightarrow> model mact) \<times> jsval) list \<Rightarrow> string \<Rightarrow> model obj \<Rightarrow> (model obj) mact"
where
  "update_props [] path ms = areturn ms"
| "update_props ((k, act, v) # ps) path ms = ado (\<lambda>cfg.
     let full = full_name path k
     in if full \<in> set (o_ignore cfg) then update_props ps path ms
        else if full \<in> set (o_copy cfg) then update_props ps path (oset k (embed v) ms)
        else if \<not> typeof_object v \<and> o_observe cfg \<noteq> [] \<and> full \<notin> set (o_observe cfg)
        then athen (note_copied full) (update_props ps path (oset k (embed v) ms))
        else if outside_property ms k v then athrow outside
        else abind (aof (find_bucket (key_text v))) (\<lambda>_.
             abind (act full (oget ms k)) (\<lambda>r.
             abind (store_property full k ms r) (\<lambda>ms'. update_props ps path ms'))))"

text \<open>\<open>updateViewModel\<close> on the data \<open>v\<close>: the value it returns.\<close>

fun updateViewModel :: "jsval \<Rightarrow> string \<Rightarrow> model option \<Rightarrow> model mact" where
  "updateViewModel (VArray vs) path mapped =
     abind (aof (find_bucket (key_text (VArray vs)))) (\<lambda>_.
       case target_array mapped of
         None \<Rightarrow> athrow outside
       | Some ms \<Rightarrow>
           (let acts = map updateViewModel vs in update_array (\<lambda>n. acts ! n) path vs ms))"
| "updateViewModel (VObject ps) path mapped =
     abind (aof (find_bucket (key_text (VObject ps)))) (\<lambda>_.
       case target_object mapped of
         None \<Rightarrow> athrow outside
       | Some ms \<Rightarrow>
           abind (update_props (map (\<lambda>(k, v). (k, updateViewModel v, v)) ps) path ms) (\<lambda>ms'. areturn (MObj ms')))"
| "updateViewModel v path mapped =
     abind (aof (find_bucket (key_text v))) (\<lambda>_.
       case v of
         VFunction n \<Rightarrow> areturn (Plain v)
       | VNode n \<Rightarrow> athrow outside
       | VNodes ns \<Rightarrow> athrow outside
       | _ \<Rightarrow> areturn (case mapped of Some (Obs _) \<Rightarrow> Plain v | _ \<Rightarrow> Obs (Plain v)))"

text \<open>The target after the call: a value that did not go into it is lost.\<close>

definition settled :: "model \<Rightarrow> model \<Rightarrow> model" where
  "settled m r =
     (case (m, r) of
        (Obs _, Plain v) \<Rightarrow> (case v of VFunction n \<Rightarrow> m | _ \<Rightarrow> Obs r)
      | (Obs _, Obs (MArr _)) \<Rightarrow> r
      | (Obs (MObj _), MObj _) \<Rightarrow> Obs r
      | (MObj _, MObj _) \<Rightarrow> r
      | _ \<Rightarrow> m)"

text \<open>\<open>fromJS\<close>: the view model and the options saved in it. The lists of an existing mapping are merged with
  the options, once for the call and once more in \<open>updateViewModel\<close>.\<close>

definition fromJS :: "raw_options \<Rightarrow> (model \<times> raw_options) option \<Rightarrow> jsval \<Rightarrow> (model \<times> raw_options) res" where
  "fromJS raw target data =
     (case target of
        None \<Rightarrow>
          (let options = fillOptions raw None
           in case updateViewModel data [] None options of
                (Inl e, _) \<Rightarrow> Inl e
              | (Inr r, cfg) \<Rightarrow> Inr (r, merge no_options (as_raw cfg)))
      | Some (m, saved) \<Rightarrow>
          (let options = fillOptions (merge raw saved) None
           in case updateViewModel data [] (Some m) (fillOptions (merge saved (as_raw options)) None) of
                (Inl e, _) \<Rightarrow> Inl e
              | (Inr r, cfg) \<Rightarrow> Inr (settled m r, merge saved (as_raw cfg))))"

subsection \<open>Reading a view model\<close>

text \<open>The text of a part of a view model as a key of \<open>visitedObjects\<close>.\<close>

definition model_text :: "model \<Rightarrow> string res" where
  "model_text m = (case m of Plain v \<Rightarrow> key_text v | _ \<Rightarrow> item_text m)"

text \<open>A property of an object that was not mapped is left out, if the object has a mapping; the names in
  \<open>mappedProperties\<close> and \<open>copiedProperties\<close> are found by name, inherited ones too.\<close>

definition left_out :: "mopts \<Rightarrow> raw_options option \<Rightarrow> string \<Rightarrow> bool" where
  "left_out cfg saved k \<longleftrightarrow>
     k \<notin> set (o_copy cfg) \<and> k \<notin> set (o_include cfg) \<and>
     (case saved of
        None \<Rightarrow> False
      | Some w \<Rightarrow>
          (case (r_mapped w, r_copied w) of
             (Some ms, Some cs) \<Rightarrow> k \<notin> set ms \<and> k \<notin> set cs \<and> k \<notin> set prototype_names
           | _ \<Rightarrow> False))"

definition kept_props :: "mopts \<Rightarrow> raw_options option \<Rightarrow> (string \<times> 'v) list \<Rightarrow> (string \<times> 'v) list" where
  "kept_props cfg saved ps =
     filter (\<lambda>(k, _). k \<notin> set (o_ignore cfg) \<and> \<not> left_out cfg saved k) ps"

definition leaf_value :: "model \<Rightarrow> jsval option" where
  "leaf_value m = (case unwrap m of Plain v \<Rightarrow> Some v | _ \<Rightarrow> None)"

text \<open>\<open>visitModel\<close> with the callback of \<open>toJS\<close>; \<open>saved\<close> is the mapping of the object, which only the outermost has,
  and not among its own properties. A value in an observable has none.
  A property that holds null or undefined is looked up like an object.\<close>

definition visit_property :: "model \<Rightarrow> jsval res \<Rightarrow> jsval res" where
  "visit_property m visited =
     (case leaf_value m of
        Some v \<Rightarrow> if v = VNull \<or> v = VUndefined
                  then rbind (find_bucket (model_text m)) (\<lambda>_. Inr v) else Inr v
      | None \<Rightarrow> rbind (find_bucket (model_text m)) (\<lambda>_. visited))"

definition rset :: "string \<Rightarrow> jsval res \<Rightarrow> (string \<times> jsval) res" where
  "rset k r = rbind r (\<lambda>v. Inr (k, v))"

fun visitModel :: "mopts \<Rightarrow> raw_options option \<Rightarrow> model \<Rightarrow> jsval res" where
  "visitModel cfg saved (Obs m) = visitModel cfg None m"
| "visitModel cfg saved (Plain v) = Inr v"
| "visitModel cfg saved (MObj ms) =
     rbind (rmap (\<lambda>(k, r). rset k r)
              (kept_props cfg saved (map (\<lambda>(k, m). (k, visit_property m (visitModel cfg None m))) ms)))
       (\<lambda>ps. Inr (VObject ps))"
| "visitModel cfg saved (MArr ms) =
     rbind (rmap (\<lambda>m. visit_property m (visitModel cfg None m)) ms) (\<lambda>vs. Inr (VArray vs))"

text \<open>\<open>toJS\<close>: the outermost object is saved in the table too.\<close>

definition toJS :: "raw_options \<Rightarrow> model \<times> raw_options \<Rightarrow> jsval res" where
  "toJS raw root =
     (case root of
        (m, saved) \<Rightarrow>
          (let cfg = fillOptions raw (Some saved)
           in case unwrap m of
                Plain v \<Rightarrow> Inr v
              | _ \<Rightarrow> rbind (find_bucket (model_text m)) (\<lambda>_. visitModel cfg (Some saved) m)))"

subsection \<open>Names and array helpers\<close>

definition getPropertyName :: "string \<Rightarrow> bool \<Rightarrow> string \<Rightarrow> string" where
  "getPropertyName parentName parent_is_array indexer =
     (if parent_is_array then (if parentName \<noteq> [] then parentName @ ''['' @ indexer @ '']'' else [])
      else (if parentName \<noteq> [] then parentName @ ''.'' @ indexer else indexer))"

text \<open>The functions of a mapped array; \<open>key\<close> is \<open>keyCallback\<close>.\<close>

definition mappedIndexOf :: "('x \<Rightarrow> 'k) \<Rightarrow> 'x list \<Rightarrow> 'x \<Rightarrow> int" where
  "mappedIndexOf key array item = arrayIndexOf (map key array) (key item)"

definition mappedRemove :: "('x \<Rightarrow> 'k) \<Rightarrow> 'x list \<Rightarrow> 'x \<Rightarrow> 'x list" where
  "mappedRemove key array item = filter (\<lambda>x. key x \<noteq> key item) array"

definition mappedRemoveAll :: "('x \<Rightarrow> 'k) \<Rightarrow> 'x list \<Rightarrow> 'x list \<Rightarrow> 'x list" where
  "mappedRemoveAll key array items = filter (\<lambda>x. arrayIndexOf (map key items) (key x) = -1) array"

definition mappedCreate :: "('x \<Rightarrow> 'k) \<Rightarrow> 'x list \<Rightarrow> 'x \<Rightarrow> 'x list res" where
  "mappedCreate key array item =
     (if mappedIndexOf key array item \<noteq> -1
      then Inl (Thrown ''There already is an object with the key that you specified.'')
      else Inr (array @ [item]))"

end
