(* ===== verification/KoMapProps.thy ===== *)
theory KoMapProps
  imports KoMapping
begin

text \<open>
  The round trip of \<open>knockout.mapping\<close>: what \<open>fromJS\<close> makes of plain data, when it throws, and that \<open>toJS\<close>
  gives the data back.
\<close>

subsection \<open>Data and its view model\<close>

fun fresh :: "jsval \<Rightarrow> model" where
  "fresh (VObject ps) = MObj (map (\<lambda>(k, v). (k, fresh v)) ps)"
| "fresh (VArray vs) = Obs (MArr (map (\<lambda>v. unwrap (fresh v)) vs))"
| "fresh v = Obs (Plain v)"

text \<open>Data as JSON has it: no functions or nodes, no name twice, no property with the name of the mapping
  or of the prototype, no \<open>constructor\<close>, no object or array under the name of an inherited property, and no
  array under the names the options use for their flags. Where an array holds only plain values, no two of
  them differ and have the same text.\<close>

definition usable_name :: "string \<Rightarrow> jsval \<Rightarrow> bool" where
  "usable_name k v \<longleftrightarrow>
     k \<noteq> ''__ko_mapping__'' \<and> k \<noteq> ''__proto__'' \<and> k \<noteq> ''constructor'' \<and>
     (k \<in> set prototype_names \<longrightarrow> \<not> is_ref v) \<and>
     (k \<in> {''mappedProperties'', ''copiedProperties''} \<longrightarrow> (case v of VArray vs \<Rightarrow> False | _ \<Rightarrow> True))"

lemma usable_inside: "usable_name k v \<Longrightarrow> \<not> outside_property ms k v"
  by (auto simp: usable_name_def outside_property_def typeof_object_def split: jsval.splits)

fun structured :: "jsval \<Rightarrow> bool" where
  "structured (VObject ps) \<longleftrightarrow>
     distinct (map fst ps) \<and> (\<forall>(k, v) \<in> set ps. structured v \<and> usable_name k v)"
| "structured (VArray vs) \<longleftrightarrow>
     (\<forall>v \<in> set vs. structured v) \<and>
     (optimized vs \<longrightarrow> VString ''__proto__'' \<notin> set vs \<and>
        (\<forall>v \<in> set vs. \<forall>w \<in> set vs. to_text v = to_text w \<longrightarrow> v = w))"
| "structured (VFunction n) = False"
| "structured (VNode n) = False"
| "structured (VNodes ns) = False"
| "structured v = True"

text \<open>Every value in the data has a text, and one that is no inherited name.\<close>

definition good_key :: "jsval \<Rightarrow> bool" where
  "good_key v \<longleftrightarrow> find_bucket (key_text v) = Inr ()"

fun named :: "jsval \<Rightarrow> bool" where
  "named (VObject ps) \<longleftrightarrow> good_key (VObject ps) \<and> (\<forall>(k, v) \<in> set ps. named v)"
| "named (VArray vs) \<longleftrightarrow> good_key (VArray vs) \<and> (\<forall>v \<in> set vs. named v)"
| "named v \<longleftrightarrow> good_key v"

lemma key_text_error: "key_text v = Inl e \<Longrightarrow> e = TypeError"
proof (induction v arbitrary: e rule: key_text.induct)
  case (1 vs)
  have "rmap f xs = Inl e \<Longrightarrow> \<exists>x \<in> set xs. f x = Inl e" for f :: "jsval \<Rightarrow> string res" and xs
    by (induction xs) (auto simp: rbind_def split: sum.splits)
  from this [of "\<lambda>v. if v = VUndefined \<or> v = VNull then Inr [] else key_text v" vs]
  show ?case using 1 by (auto simp: rbind_def split: sum.splits if_splits)
qed (auto split: if_splits)

lemma find_bucket_cases:
  "find_bucket (key_text v) = (if good_key v then Inr () else Inl TypeError)"
  by (cases "key_text v") (auto simp: good_key_def find_bucket_def dest: key_text_error)

lemma named_good: "named v \<Longrightarrow> good_key v"
  by (cases v) auto

subsection \<open>The edit script of a new array\<close>

lemma compareArrays_from_empty:
  obtains es where "compareArrays [] new lim = Some es" "map ee_value es = new"
    "\<And>e. e \<in> set es \<Longrightarrow> ee_status e = EAdded"
proof -
  obtain es where es: "compareArrays [] new lim = Some es" "values_not EAdded es = []" "values_not EDeleted es = new"
    using compareArrays_spec [of "[]" new lim] by auto
  have all: "ee_status e = EAdded" if "e \<in> set es" for e
    using es(2) that by (auto simp: values_not_def filter_empty_conv)
  then have "map ee_value es = new"
    using es(3) by (simp add: values_not_def filter_True)
  then show ?thesis using that es(1) all by blast
qed

lemma data_keys_nth: "i < length vs \<Longrightarrow> data_keys vs ! i = (if is_ref (vs ! i) then KNew i else KVal (vs ! i))"
  by (simp add: data_keys_def nth_enumerate_eq)

lemma length_data_keys [simp]: "length (data_keys vs) = length vs"
  by (simp add: data_keys_def)

text \<open>The item that an entry of the script finds has the key, and the value, of the entry.\<close>

lemma first_index_key:
  assumes "i < length ks"
  obtains n where "first_index (\<lambda>l. l = ks ! i) ks = Some n" "n < length ks" "ks ! n = ks ! i"
proof -
  obtain r where "find (\<lambda>(j, l). l = ks ! i) (enumerate 0 ks) = Some r"
    using assms by (cases "find (\<lambda>(j, l). l = ks ! i) (enumerate 0 ks)")
      (auto simp: find_None_iff in_set_enumerate_eq)
  moreover from this have "fst r < length ks \<and> ks ! fst r = ks ! i"
    by (auto simp: find_Some_iff nth_enumerate_eq)
  ultimately show ?thesis using that [of "fst r"] by (simp add: first_index_def)
qed

lemma last_index_text:
  assumes "i < length vs"
  obtains n where "last_index_of (\<lambda>v. to_text v = to_text (vs ! i)) vs = Some n" "n < length vs"
    "to_text (vs ! n) = to_text (vs ! i)"
proof -
  let ?p = "\<lambda>(j :: nat, v). to_text v = to_text (vs ! i)"
  obtain r where r: "find ?p (rev (enumerate 0 vs)) = Some r"
    using assms by (cases "find ?p (rev (enumerate 0 vs))") (auto simp: find_None_iff in_set_enumerate_eq)
  then have "r \<in> set (enumerate 0 vs) \<and> ?p r"
    by (metis (mono_tags, lifting) find_Some_iff nth_mem set_rev)
  then show ?thesis using that [of "fst r"] r by (auto simp: last_index_of_def in_set_enumerate_eq)
qed

lemma item_by_key_value:
  assumes "structured (VArray vs)" "i < length vs"
  obtains n where "item_by_key vs (data_keys vs ! i) = Some n" "n < length vs" "vs ! n = vs ! i"
    "data_keys vs ! n = data_keys vs ! i"
proof (cases "optimized vs")
  case True
  have noref: "\<not> is_ref (vs ! j)" if "j < length vs" for j
    using True that by (simp add: optimized_def)
  obtain n where n: "last_index_of (\<lambda>v. to_text v = to_text (vs ! i)) vs = Some n" "n < length vs"
    "to_text (vs ! n) = to_text (vs ! i)"
    using assms(2) by (rule last_index_text)
  moreover have "vs ! n = vs ! i"
    using assms n(2,3) True by simp
  ultimately show ?thesis
    using that [of n] noref [OF assms(2)] assms(2) True by (simp add: item_by_key_def data_keys_nth)
next
  case False
  obtain n where n: "first_index (\<lambda>l. l = data_keys vs ! i) (data_keys vs) = Some n" "n < length vs"
    "data_keys vs ! n = data_keys vs ! i"
    using first_index_key [of i "data_keys vs"] assms(2) by auto
  moreover have "vs ! n = vs ! i"
    using n assms(2) by (auto simp: data_keys_nth split: if_splits)
  ultimately show ?thesis using that [of n] False by (simp add: item_by_key_def)
qed

text \<open>The place of the \<open>i\<close>th item is the \<open>i\<close>th, if those before are taken.\<close>

lemma ignorableIndexOf_next:
  assumes "i < length vs" "data_keys vs ! n = data_keys vs ! i" "set ignored = {..<i}"
  shows "ignorableIndexOf vs n ignored = Some i"
proof -
  have "find (\<lambda>(j, k). j \<notin> set ignored \<and> k = data_keys vs ! n) (enumerate 0 (data_keys vs)) = Some (i, data_keys vs ! i)"
    unfolding find_Some_iff using assms by (intro exI [of _ i]) (auto simp: nth_enumerate_eq data_keys_nth)
  then show ?thesis by (simp add: ignorableIndexOf_def)
qed

subsection \<open>What the update does to new data\<close>

text \<open>Options without names to ignore, copy or observe, as a call without options has them.\<close>

definition plain_opts :: "mopts \<Rightarrow> bool" where
  "plain_opts cfg \<longleftrightarrow> o_ignore cfg = [] \<and> o_copy cfg = [] \<and> o_observe cfg = [] \<and> o_include cfg = [''_destroy'']"

definition grown :: "mopts \<Rightarrow> mopts \<Rightarrow> bool" where
  "grown cfg cfg' \<longleftrightarrow> plain_opts cfg' \<and> set (o_mapped cfg) \<subseteq> set (o_mapped cfg')"

lemma grown_refl: "plain_opts cfg \<Longrightarrow> grown cfg cfg"
  by (simp add: grown_def)

lemma grown_trans: "grown cfg cfg' \<Longrightarrow> grown cfg' cfg'' \<Longrightarrow> grown cfg cfg''"
  by (auto simp: grown_def)

text \<open>An action maps a value: it gives the view model of named data and throws on other data.\<close>

definition maps_to :: "jsval \<Rightarrow> (string \<Rightarrow> model option \<Rightarrow> model mact) \<Rightarrow> bool" where
  "maps_to v act \<longleftrightarrow>
     (\<forall>full cfg. plain_opts cfg \<longrightarrow>
        (\<exists>cfg'. grown cfg cfg' \<and> act full None cfg = (if named v then Inr (fresh v) else Inl TypeError, cfg')))"

lemma maps_toE:
  assumes "maps_to v act" "plain_opts cfg"
  obtains cfg' where "grown cfg cfg'" "act full None cfg = (if named v then Inr (fresh v) else Inl TypeError, cfg')"
  using assms unfolding maps_to_def by blast

lemma update_new_key:
  "k \<notin> fst ` set m \<Longrightarrow> AList.update k v m = m @ [(k, v)]"
  by (induction m) auto

lemma run_added:
  assumes vs: "structured (VArray vs)" and acts: "\<And>n. n < length vs \<Longrightarrow> maps_to (vs ! n) (acts n)"
  shows "plain_opts cfg \<Longrightarrow> map ee_value es = drop i (data_keys vs) \<Longrightarrow> (\<forall>e \<in> set es. ee_status e = EAdded) \<Longrightarrow>
    i \<le> length vs \<Longrightarrow> set ignored = {..<i} \<Longrightarrow>
    \<exists>cfg'. grown cfg cfg' \<and>
      run_script acts path vs olds (enumerate i es) (map (\<lambda>j. (j, unwrap (fresh (vs ! j)))) [0..<i]) ignored cfg =
        (if \<forall>v \<in> set (drop i vs). named v then Inr (map (\<lambda>j. (j, unwrap (fresh (vs ! j)))) [0..<length vs])
         else Inl TypeError, cfg')"
proof (induction es arbitrary: i ignored cfg)
  case Nil
  then have "i = length vs" by simp
  then show ?case using Nil.prems(1) by (auto simp: areturn_def intro: grown_refl)
next
  case (Cons e es)
  have i: "i < length vs" using Cons.prems(2) by (cases "i < length vs") auto
  then have e: "ee_value e = data_keys vs ! i" and es: "map ee_value es = drop (Suc i) (data_keys vs)"
    using Cons.prems(2) by (simp_all add: Cons_nth_drop_Suc [symmetric])
  obtain n where n: "item_by_key vs (data_keys vs ! i) = Some n" "n < length vs" "vs ! n = vs ! i"
    "data_keys vs ! n = data_keys vs ! i"
    using item_by_key_value [OF vs i] by blast
  let ?full = "path @ ''['' @ nat_str i @ '']''"
  obtain cfg1 where 1: "grown cfg cfg1"
    "acts n ?full None cfg = (if named (vs ! i) then Inr (fresh (vs ! i)) else Inl TypeError, cfg1)"
    using maps_toE [OF acts [OF n(2)] Cons.prems(1), of ?full] n(3) by metis
  have at: "ignorableIndexOf vs n ignored = Some i"
    using ignorableIndexOf_next i n(4) Cons.prems(5) by blast
  have d: "drop i vs = vs ! i # drop (Suc i) vs" using i by (simp add: Cons_nth_drop_Suc)
  show ?case
  proof (cases "named (vs ! i)")
    case False
    then show ?thesis
      using 1 e n(1) d Cons.prems(3) by (auto simp: act_simps)
  next
    case True
    have p1: "plain_opts cfg1" using 1(1) by (simp add: grown_def)
    have ig: "set (i # ignored) = {..<Suc i}" by (simp add: Cons.prems(5) lessThan_Suc)
    obtain cfg' where 2: "grown cfg1 cfg'"
      "run_script acts path vs olds (enumerate (Suc i) es) (map (\<lambda>j. (j, unwrap (fresh (vs ! j)))) [0..<Suc i]) (i # ignored) cfg1 =
        (if \<forall>v \<in> set (drop (Suc i) vs). named v then Inr (map (\<lambda>j. (j, unwrap (fresh (vs ! j)))) [0..<length vs])
         else Inl TypeError, cfg')"
      using Cons.IH [OF p1 es _ _ ig] Cons.prems(3) i by auto
    have c: "AList.update i (unwrap (fresh (vs ! i))) (map (\<lambda>j. (j, unwrap (fresh (vs ! j)))) [0..<i]) =
        map (\<lambda>j. (j, unwrap (fresh (vs ! j)))) [0..<Suc i]"
      by (subst update_new_key) auto
    have "run_script acts path vs olds (enumerate i (e # es)) (map (\<lambda>j. (j, unwrap (fresh (vs ! j)))) [0..<i]) ignored cfg =
        run_script acts path vs olds (enumerate (Suc i) es) (map (\<lambda>j. (j, unwrap (fresh (vs ! j)))) [0..<Suc i]) (i # ignored) cfg1"
      using 1(2) True e n(1) Cons.prems(3) by (simp add: act_simps at c Let_def del: upt_Suc)
    then show ?thesis using 2 True d grown_trans [OF 1(1) 2(1)] by auto
  qed
qed

lemma max_fold: "fold (\<lambda>(i, _) n. max (Suc i) n) (map (\<lambda>j. (j, f j)) [0..<n]) 0 = n"
  by (induction n) auto

lemma fill_contents_all: "fill_contents (map (\<lambda>j. (j, f j)) [0..<n]) = map f [0..<n]"
proof -
  have "map_of (map (\<lambda>j. (j, f j)) [0..<n]) i = Some (f i)" if "i < n" for i
    using that by (simp add: map_of_map_restrict)
  then show ?thesis by (simp add: fill_contents_def max_fold)
qed

lemma update_array_new:
  assumes vs: "structured (VArray vs)" and acts: "\<And>n. n < length vs \<Longrightarrow> maps_to (vs ! n) (acts n)"
    and p: "plain_opts cfg"
  shows "\<exists>cfg'. grown cfg cfg' \<and> update_array acts path vs [] cfg =
    (if \<forall>v \<in> set vs. named v then Inr (Obs (MArr (map (\<lambda>v. unwrap (fresh v)) vs))) else Inl TypeError, cfg')"
proof -
  obtain es where es: "compareArrays [] (data_keys vs) False = Some es" "map ee_value es = data_keys vs"
    "\<And>e. e \<in> set es \<Longrightarrow> ee_status e = EAdded"
    by (rule compareArrays_from_empty [of "data_keys vs" False]) blast
  have no_proto: "\<not> (optimized vs \<and> VString ''__proto__'' \<in> set vs)" using vs by auto
  have "map (\<lambda>j. unwrap (fresh (vs ! j))) [0..<length vs] = map (\<lambda>v. unwrap (fresh v)) vs"
    by (rule nth_equalityI) simp_all
  moreover obtain cfg' where "grown cfg cfg'"
    "run_script acts path vs [] (enumerate 0 es) [] [] cfg =
        (if \<forall>v \<in> set vs. named v then Inr (map (\<lambda>j. (j, unwrap (fresh (vs ! j)))) [0..<length vs]) else Inl TypeError, cfg')"
    using run_added [OF vs acts p, of es 0 "[]" path "[]"] es by auto
  ultimately show ?thesis
    using no_proto es(1)
    by (auto simp: update_array_def model_keys_def sort_keys_def act_simps fill_contents_all)
qed

lemma store_property_new:
  "plain_opts cfg \<Longrightarrow> k \<notin> fst ` set ms \<Longrightarrow>
   store_property full k ms r cfg = (Inr (ms @ [(k, r)]), cfg\<lparr>o_mapped := List.insert full (o_mapped cfg)\<rparr>)"
  by (simp add: store_property_def plain_opts_def act_simps note_mapped_def update_new_key map_of_eq_None_iff [symmetric])

text \<open>The properties of new data, after those in \<open>ms\<close>; their names count as mapped.\<close>

lemma update_props_new:
  assumes "\<And>k act v. (k, act, v) \<in> set ps \<Longrightarrow>
      maps_to v act \<and> structured v \<and> usable_name k v"
    and "distinct (map fst ps)" "fst ` set ps \<inter> fst ` set ms = {}" "plain_opts cfg"
  shows "\<exists>cfg'. grown cfg cfg' \<and> update_props ps path ms cfg =
    (if \<forall>(k, act, v) \<in> set ps. named v then Inr (ms @ map (\<lambda>(k, act, v). (k, fresh v)) ps) else Inl TypeError, cfg') \<and>
    ((\<forall>(k, act, v) \<in> set ps. named v) \<longrightarrow> (\<lambda>(k, _). full_name path k) ` set ps \<subseteq> set (o_mapped cfg'))"
  using assms
proof (induction ps arbitrary: ms cfg)
  case Nil
  then show ?case by (auto simp: areturn_def intro: grown_refl)
next
  case (Cons p ps)
  obtain k act v where p: "p = (k, act, v)" by (cases p)
  have v: "maps_to v act" "structured v" "\<not> outside_property ms k v"
    using Cons.prems(1) [of k act v] p usable_inside by auto
  have none: "oget ms k = None" and new: "k \<notin> fst ` set ms"
    using Cons.prems(3) p by (auto simp: map_of_eq_None_iff)
  have opts: "o_ignore cfg = []" "o_copy cfg = []" "o_observe cfg = []"
    using Cons.prems(4) by (auto simp: plain_opts_def)
  let ?full = "full_name path k"
  obtain cfg1 where 1: "grown cfg cfg1"
    "act ?full None cfg = (if named v then Inr (fresh v) else Inl TypeError, cfg1)"
    by (rule maps_toE [OF v(1) Cons.prems(4)])
  have head: "update_props (p # ps) path ms cfg =
      abind (aof (find_bucket (key_text v))) (\<lambda>_. abind (act ?full None) (\<lambda>r.
        abind (store_property ?full k ms r) (\<lambda>ms'. update_props ps path ms'))) cfg"
    using v(3) by (simp add: p opts none ado_run Let_def)
  show ?case
  proof (cases "named v")
    case False
    then have "\<exists>cfg'. grown cfg cfg' \<and> update_props (p # ps) path ms cfg = (Inl TypeError, cfg')"
      using 1 Cons.prems(4) grown_refl unfolding head by (cases "good_key v") (auto simp: act_simps find_bucket_cases)
    then show ?thesis using False p by auto
  next
    case True
    let ?cfg2 = "cfg1\<lparr>o_mapped := List.insert ?full (o_mapped cfg1)\<rparr>"
    have g2: "grown cfg1 ?cfg2" and p1: "plain_opts cfg1" and p2: "plain_opts ?cfg2"
      using 1(1) by (auto simp: grown_def plain_opts_def)
    have "update_props (p # ps) path ms cfg = update_props ps path (ms @ [(k, fresh v)]) ?cfg2"
      using 1(2) True named_good [OF True] store_property_new [OF p1 new]
      unfolding head by (simp add: act_simps find_bucket_cases)
    moreover have rest_ok: "maps_to w a \<and> structured w \<and> usable_name l w"
      if "(l, a, w) \<in> set ps" for l a w
      by (rule Cons.prems(1)) (simp add: that)
    moreover have rest_distinct: "distinct (map fst ps)"
      and rest_new: "fst ` set ps \<inter> fst ` set (ms @ [(k, fresh v)]) = {}"
      using Cons.prems(2,3) p by auto
    moreover obtain cfg' where 3: "grown ?cfg2 cfg'"
      "update_props ps path (ms @ [(k, fresh v)]) ?cfg2 =
        (if \<forall>(k, act, v) \<in> set ps. named v then Inr ((ms @ [(k, fresh v)]) @ map (\<lambda>(k, act, v). (k, fresh v)) ps)
         else Inl TypeError, cfg')"
      "(\<forall>(k, act, v) \<in> set ps. named v) \<longrightarrow> (\<lambda>(k, _). full_name path k) ` set ps \<subseteq> set (o_mapped cfg')"
      using Cons.IH [OF rest_ok rest_distinct rest_new p2] by blast
    moreover have "grown cfg cfg'"
      by (rule grown_trans [OF 1(1) grown_trans [OF g2 3(1)]])
    moreover have "?full \<in> set (o_mapped cfg')"
      using 3(1) by (auto simp: grown_def)
    ultimately show ?thesis using True by (intro exI [of _ cfg']) (simp add: p)
  qed
qed

lemma update_object_new:
  assumes ps: "structured (VObject ps)" and acts: "\<And>v. v \<in> snd ` set ps \<Longrightarrow> maps_to v (updateViewModel v)"
    and p: "plain_opts cfg"
  shows "\<exists>cfg'. grown cfg cfg' \<and> updateViewModel (VObject ps) full None cfg =
      (if named (VObject ps) then Inr (fresh (VObject ps)) else Inl TypeError, cfg') \<and>
      (named (VObject ps) \<longrightarrow> (\<lambda>(k, _). full_name full k) ` set ps \<subseteq> set (o_mapped cfg'))"
proof (cases "good_key (VObject ps)")
  case False
  then show ?thesis using p by (auto simp: act_simps find_bucket_cases intro: grown_refl simp del: key_text.simps)
next
  case True
  let ?ps = "map (\<lambda>(k, v). (k, updateViewModel v, v)) ps"
  have "\<exists>cfg'. grown cfg cfg' \<and> update_props ?ps full [] cfg =
    (if \<forall>(k, act, v) \<in> set ?ps. named v then Inr ([] @ map (\<lambda>(k, act, v). (k, fresh v)) ?ps) else Inl TypeError, cfg') \<and>
    ((\<forall>(k, act, v) \<in> set ?ps. named v) \<longrightarrow> (\<lambda>(k, _). full_name full k) ` set ?ps \<subseteq> set (o_mapped cfg'))"
  proof (rule update_props_new [OF _ _ _ p])
    show "distinct (map fst ?ps)" using ps by (simp add: o_def case_prod_unfold)
    show "fst ` set ?ps \<inter> fst ` set ([] :: model obj) = {}" by simp
    show "maps_to w a \<and> structured w \<and> usable_name l w"
      if "(l, a, w) \<in> set ?ps" for l a w
    proof -
      have w: "(l, w) \<in> set ps" and a: "a = updateViewModel w" using that by auto
      then have "structured w" "usable_name l w" using ps by auto
      moreover have "maps_to w a" unfolding a using w by (intro acts) force
      ultimately show ?thesis by blast
    qed
  qed
  then show ?thesis
    using True by (auto simp: act_simps find_bucket_cases target_object_def case_prod_unfold o_def image_image
        simp del: key_text.simps split: if_splits)
qed

lemma updateViewModel_maps: "structured v \<Longrightarrow> maps_to v (updateViewModel v)"
proof (induction v rule: structured.induct)
  case (1 ps)
  have acts: "maps_to v (updateViewModel v)" if "v \<in> snd ` set ps" for v
    using that 1 by fastforce
  have "\<exists>cfg'. grown cfg cfg' \<and> updateViewModel (VObject ps) full None cfg =
      (if named (VObject ps) then Inr (fresh (VObject ps)) else Inl TypeError, cfg')" if "plain_opts cfg" for full cfg
    using update_object_new [of ps cfg full, OF 1(2) acts that] by blast
  then show ?case by (simp add: maps_to_def)
next
  case (2 vs)
  have "\<exists>cfg'. grown cfg cfg' \<and> updateViewModel (VArray vs) full None cfg =
      (if named (VArray vs) then Inr (fresh (VArray vs)) else Inl TypeError, cfg')" if p: "plain_opts cfg" for full cfg
  proof (cases "good_key (VArray vs)")
    case False
    then show ?thesis using p by (auto simp: act_simps find_bucket_cases intro: grown_refl simp del: key_text.simps)
  next
    case True
    have "maps_to (vs ! n) ((!) (map updateViewModel vs) n)" if "n < length vs" for n
      using 2 that by simp
    from update_array_new [OF 2(2) this p, of full] show ?thesis
      using True by (auto simp: act_simps find_bucket_cases target_array_def Let_def simp del: key_text.simps)
  qed
  then show ?case by (simp add: maps_to_def)
qed (auto simp: maps_to_def act_simps find_bucket_cases intro: grown_refl simp del: key_text.simps)

subsection \<open>Reading new data back\<close>

lemma fromJS_options: "plain_opts (fillOptions no_options None)"
  by (simp add: plain_opts_def fillOptions_def with_other_def merge_def merge_names_def no_options_def mergeArrays_def
      default_options_def arrayGetDistinctValues_def arrayIndexOf_def Let_def)

lemma new_data_names:
  assumes "structured d"
  shows "\<exists>cfg'. grown (fillOptions no_options None) cfg' \<and>
    updateViewModel d [] None (fillOptions no_options None) = (if named d then Inr (fresh d) else Inl TypeError, cfg') \<and>
    (\<forall>ps. d = VObject ps \<longrightarrow> named d \<longrightarrow> fst ` set ps \<subseteq> set (o_mapped cfg'))"
proof (cases "\<exists>ps. d = VObject ps")
  case True
  then obtain ps where d: "d = VObject ps" by blast
  have acts: "maps_to v (updateViewModel v)" if "v \<in> snd ` set ps" for v
    using assms d that by (intro updateViewModel_maps) auto
  have "(\<lambda>(k, _). full_name [] k) ` set ps = fst ` set ps"
    by (simp add: full_name_def case_prod_unfold)
  with update_object_new [of ps _ "[]", OF assms [unfolded d] acts fromJS_options] show ?thesis
    unfolding d by (simp del: updateViewModel.simps named.simps fresh.simps)
next
  case False
  then show ?thesis
    using updateViewModel_maps [OF assms] fromJS_options unfolding maps_to_def by blast
qed

lemma rmap_map: "rmap f (map g xs) = rmap (\<lambda>x. f (g x)) xs"
  by (induction xs) simp_all

lemma oget_map_fresh: "oget (map (\<lambda>(k, v). (k, f v)) ps) k = map_option f (oget ps k)"
  by (induction ps) auto

lemma item_text_fresh:
  "structured v \<Longrightarrow> named v \<Longrightarrow>
   item_text (unwrap (fresh v)) = (if v = VUndefined \<or> v = VNull then Inr [] else key_text v)"
proof (induction v rule: structured.induct)
  case (1 ps)
  then have "oget ps ''toString'' = None"
    by (auto simp: good_key_def find_bucket_def split: if_splits)
  then show ?case by (simp add: oget_map_fresh)
next
  case (2 vs)
  have "rmap (\<lambda>v. item_text (unwrap (fresh v))) vs = rmap (\<lambda>v. if v = VUndefined \<or> v = VNull then Inr [] else key_text v) vs"
    using 2 by (intro rmap_cong) simp_all
  then show ?case by (simp add: rmap_map)
qed auto

lemma model_text_fresh:
  assumes "structured v" "named v"
  shows "find_bucket (model_text (fresh v)) = Inr ()" "find_bucket (model_text (unwrap (fresh v))) = Inr ()"
  using item_text_fresh [OF assms] named_good [OF assms(2)]
  by (cases v; auto simp: model_text_def find_bucket_def prototype_names_def good_key_def)+

text \<open>An action of \<open>toJS\<close> on a part of the view model.\<close>

lemma kept_nested: "o_ignore cfg = [] \<Longrightarrow> kept_props cfg None ps = ps"
  by (simp add: kept_props_def left_out_def case_prod_unfold)

lemma visit_property_fresh:
  assumes "structured v" "named v"
  shows "visit_property (fresh v) (Inr v) = Inr v" "visit_property (unwrap (fresh v)) (Inr v) = Inr v"
  using model_text_fresh [OF assms] assms(1)
  by (cases v; simp add: visit_property_def leaf_value_def)+

lemma visitModel_unwrap: "visitModel cfg None (unwrap m) = visitModel cfg None m"
  by (cases m) simp_all

lemma rmap_pairs:
  "(\<And>k v. (k, v) \<in> set ps \<Longrightarrow> f v = Inr v) \<Longrightarrow> rmap (\<lambda>(k, r). rset k r) (map (\<lambda>(k, v). (k, f v)) ps) = Inr ps"
proof (induction ps)
  case Nil
  then show ?case by simp
next
  case (Cons p ps)
  obtain k v where p: "p = (k, v)" by (cases p)
  have "f v = Inr v" using Cons.prems p by auto
  moreover have "rmap (\<lambda>(k, r). rset k r) (map (\<lambda>(k, v). (k, f v)) ps) = Inr ps"
    by (rule Cons.IH) (use Cons.prems in auto)
  ultimately show ?case by (simp add: p rset_def)
qed

lemma visitModel_fresh:
  "structured v \<Longrightarrow> named v \<Longrightarrow> o_ignore cfg = [] \<Longrightarrow> visitModel cfg None (fresh v) = Inr v"
proof (induction v rule: structured.induct)
  case (1 ps)
  have "visit_property (fresh v) (visitModel cfg None (fresh v)) = Inr v" if "(k, v) \<in> set ps" for k v
    using 1(1) [OF that refl] 1(2-4) that visit_property_fresh(1) [of v] by fastforce
  then show ?case
    using rmap_pairs [of ps "\<lambda>v. visit_property (fresh v) (visitModel cfg None (fresh v))"]
    by (simp add: kept_nested 1(4) o_def case_prod_unfold)
next
  case (2 vs)
  have "visit_property (unwrap (fresh v)) (visitModel cfg None (unwrap (fresh v))) = Inr v" if "v \<in> set vs" for v
    using 2 that visit_property_fresh(2) [of v] by (simp add: visitModel_unwrap)
  then have "rmap (\<lambda>v. visit_property (unwrap (fresh v)) (visitModel cfg None (unwrap (fresh v)))) vs = Inr vs"
    using rmap_total [of vs _ "\<lambda>v. v"] by simp
  then show ?case by (simp add: rmap_map)
qed auto

text \<open>The outermost object: its properties are those noted as mapped.\<close>

lemma visitModel_root:
  assumes "structured (VObject ps)" "named (VObject ps)" "o_ignore cfg = []"
    and "r_mapped saved = Some names" "r_copied saved = Some cs" "fst ` set ps \<subseteq> set names"
  shows "visitModel cfg (Some saved) (fresh (VObject ps)) = Inr (VObject ps)"
proof -
  have "kept_props cfg (Some saved) qs = qs" if "fst ` set qs = fst ` set ps" for qs :: "(string \<times> jsval res) list"
  proof -
    have "k \<in> set names" if "(k, r) \<in> set qs" for k r
      using assms(6) \<open>fst ` set qs = fst ` set ps\<close> that by force
    then show ?thesis
      using assms(3-5) by (auto simp: kept_props_def left_out_def filter_id_conv)
  qed
  then show ?thesis
    using visitModel_fresh [OF assms(1-3)] assms(3) by (simp add: kept_nested o_def case_prod_unfold image_image)
qed

lemma toJS_options:
  assumes "r_ignore saved = Some []"
  shows "o_ignore (fillOptions no_options (Some saved)) = []"
  using assms
  by (simp add: fillOptions_def with_other_def merge_def merge_names_def no_options_def mergeArrays_def
      default_options_def arrayGetDistinctValues_def Let_def)

lemma saved_options:
  assumes "plain_opts cfg"
  shows "r_ignore (merge no_options (as_raw cfg)) = Some []"
    "r_mapped (merge no_options (as_raw cfg)) = Some (o_mapped cfg)"
    "r_copied (merge no_options (as_raw cfg)) = Some (o_copied cfg)"
  using assms by (simp_all add: plain_opts_def merge_def no_options_def as_raw_def merge_names_def merge_flags_def)

text \<open>C32: \<open>fromJS\<close> and \<open>toJS\<close> are a round trip on data in which every value has a text that is no inherited name;
  on other data \<open>fromJS\<close> throws a TypeError.\<close>

theorem fromJS_toJS:
  assumes "structured d"
  shows "if named d then \<exists>m. fromJS no_options None d = Inr m \<and> toJS no_options m = Inr d
    else fromJS no_options None d = Inl TypeError"
proof -
  obtain cfg' where c: "grown (fillOptions no_options None) cfg'"
    "updateViewModel d [] None (fillOptions no_options None) = (if named d then Inr (fresh d) else Inl TypeError, cfg')"
    and names: "\<And>ps. d = VObject ps \<Longrightarrow> named d \<Longrightarrow> fst ` set ps \<subseteq> set (o_mapped cfg')"
    using new_data_names [OF assms] by blast
  show ?thesis
  proof (cases "named d")
    case False
    then show ?thesis using c(2) by (simp add: fromJS_def Let_def)
  next
    case True
    let ?saved = "merge no_options (as_raw cfg')"
    have o: "o_ignore (fillOptions no_options (Some ?saved)) = []"
      using c(1) by (simp add: toJS_options saved_options grown_def)
    have "visitModel (fillOptions no_options (Some ?saved)) (Some ?saved) (fresh d) = Inr d"
    proof (cases "\<exists>ps. d = VObject ps")
      case True
      then obtain ps where d: "d = VObject ps" by blast
      show ?thesis unfolding d
        by (rule visitModel_root [OF _ _ o]) (use assms \<open>named d\<close> d names [OF d] c(1) in \<open>simp_all add: saved_options grown_def\<close>)
    next
      case False
      then obtain m where "fresh d = Obs m" using assms by (cases d) auto
      then show ?thesis using visitModel_fresh [OF assms True o] by simp
    qed
    then have "toJS no_options (fresh d, ?saved) = Inr d"
      using model_text_fresh(1) [OF assms True] assms by (cases d) (simp_all add: toJS_def Let_def)
    then show ?thesis using True c(2) by (simp add: fromJS_def Let_def)
  qed
qed

text \<open>An order with a list of lines, and a document one of whose texts is an inherited name.\<close>

definition demo_order :: jsval where
  "demo_order =
     VObject [(''id'', VNum 7), (''tags'', VArray [VString ''new'', VNum 1]),
       (''lines'', VArray [VObject [(''name'', VString ''tea''), (''note'', VNull)], VNum 2]),
       (''owner'', VObject [(''valueOf'', VBool True)])]"

definition demo_clash :: jsval where
  "demo_clash = VObject [(''kind'', VString ''constructor'')]"

theorem fromJS_toJS_witness:
  "(\<exists>m. fromJS no_options None demo_order = Inr m \<and> toJS no_options m = Inr demo_order) \<and>
   fromJS no_options None demo_clash = Inl TypeError"
proof -
  have "structured demo_order" "named demo_order" "structured demo_clash" "\<not> named demo_clash"
    by (simp_all add: demo_order_def demo_clash_def optimized_def good_key_def find_bucket_def prototype_names_def
        usable_name_def int_text_def nat_str.simps digit_char_def)
  then show ?thesis using fromJS_toJS [of demo_order] fromJS_toJS [of demo_clash] by simp
qed

text \<open>Two items of an array with one text: the last stands for both.\<close>

lemma equal_texts_merged:
  "(case fromJS no_options None (VArray [VNum 1, VString ''1'']) of Inr m \<Rightarrow> toJS no_options m | Inl e \<Rightarrow> Inl e) =
     Inr (VArray [VString ''1'', VString ''1''])"
  by code_simp

text \<open>An object that is not among the names to observe is no observable, and is called as one.\<close>

lemma unobserved_object_throws:
  "fromJS (no_options\<lparr>r_observe := Some [''id'']\<rparr>) None (VObject [(''id'', VNum 7), (''owner'', VObject [])]) = Inl TypeError"
  by code_simp

end
