(* ===== verification/KoRender.thy ===== *)
theory KoRender
  imports KoCompare
begin

text \<open>
  \<open>ko.utils.setDomNodeChildrenFromArrayMapping\<close> of knockout-2.2.0.debug.js: the nodes that show an array
  are updated to show another, with the edit script of \<open>compareArrays\<close>. Nodes of items that stay are kept
  and moved, others are removed or made.

  The container is an element of the document or a pair of comments, and its children are a list. A node is its number and
  its contents. The mapping makes new nodes; the observables it may read are its index
  alone (\<open>t_reads_index\<close>). The callbacks of the options are recorded; they do not change the children.
  What would throw, and what the code calls an undefined scenario, gives \<^const>\<open>None\<close>.
\<close>

subsection \<open>State\<close>

type_synonym dnode = "nat \<times> string"

record 'a template =
  t_mapping :: "'a \<Rightarrow> nat \<Rightarrow> string list"
  t_reads_index :: bool
  t_callback :: bool
  t_beforeMove :: bool
  t_afterMove :: bool
  t_beforeRemove :: bool
  t_afterAdd :: bool

text \<open>\<open>mapData\<close>: \<open>it_live\<close> says that the computed around the mapping is active.\<close>

record 'a item =
  it_entry :: 'a
  it_index :: nat
  it_nodes :: "dnode list"
  it_live :: bool
  it_initialized :: bool

datatype 'a call =
    NodesAdded 'a "dnode list" nat
  | BeforeMove dnode nat 'a
  | AfterMove dnode nat 'a
  | BeforeRemove dnode nat 'a
  | AfterAdd dnode nat 'a
  | Disposed 'a

record 'a view =
  vw_kids :: "dnode list"
  vw_next :: nat
  vw_data :: "'a item list option"
  vw_log :: "'a call list"

definition empty_view :: "'a view" where
  "empty_view = \<lparr>vw_kids = [], vw_next = 0, vw_data = None, vw_log = []\<rparr>"

definition record_call :: "'a call \<Rightarrow> 'a view \<Rightarrow> 'a view" where
  "record_call c v = v\<lparr>vw_log := vw_log v @ [c]\<rparr>"

subsection \<open>Children\<close>

fun up_to :: "'x \<Rightarrow> 'x list \<Rightarrow> 'x list option" where
  "up_to l [] = None"
| "up_to l (k # ks) = (if k = l then Some [k] else map_option (Cons k) (up_to l ks))"

text \<open>\<open>fixUpNodesToBeMovedOrRemoved\<close>: the nodes after the call and what it returns.\<close>

definition fixUp :: "dnode list \<Rightarrow> dnode list \<Rightarrow> dnode list \<times> dnode list option" where
  "fixUp kids nodes =
     (let attached = dropWhile (\<lambda>n. n \<notin> set kids) nodes
      in if length attached > 1
         then (case up_to (last attached) (dropWhile (\<lambda>k. k \<noteq> hd attached) kids) of
                 None \<Rightarrow> (attached, None)
               | Some segment \<Rightarrow> (segment, Some segment))
         else (attached, Some attached))"

definition next_sibling :: "dnode \<Rightarrow> dnode list \<Rightarrow> dnode option" where
  "next_sibling n kids = (case dropWhile (\<lambda>k. k \<noteq> n) kids of _ # m # _ \<Rightarrow> Some m | _ \<Rightarrow> None)"

definition first_child :: "dnode list \<Rightarrow> dnode option" where
  "first_child kids = (case kids of [] \<Rightarrow> None | k # _ \<Rightarrow> Some k)"

text \<open>\<open>insertAfter(container, node, lastNode)\<close>; a node that is in the container is moved.\<close>

definition insertAfter :: "dnode option \<Rightarrow> dnode \<Rightarrow> dnode list \<Rightarrow> dnode list" where
  "insertAfter lastNode n kids =
     (let ks = filter (\<lambda>k. k \<noteq> n) kids
      in case lastNode of
           None \<Rightarrow> n # ks
         | Some l \<Rightarrow> takeWhile (\<lambda>k. k \<noteq> l) ks @ l # n # tl (dropWhile (\<lambda>k. k \<noteq> l) ks))"

definition remove_kids :: "dnode list \<Rightarrow> dnode list \<Rightarrow> dnode list" where
  "remove_kids ns kids = filter (\<lambda>k. k \<notin> set ns) kids"

text \<open>\<open>replaceDomNodes(old, new)\<close>: new nodes come before the first of the old ones, which are then removed.\<close>

definition replaceDomNodes :: "dnode list \<Rightarrow> dnode list \<Rightarrow> dnode list \<Rightarrow> dnode list" where
  "replaceDomNodes old new kids =
     (case old of
        [] \<Rightarrow> kids
      | p # _ \<Rightarrow> remove_kids old (takeWhile (\<lambda>k. k \<noteq> p) kids @ new @ dropWhile (\<lambda>k. k \<noteq> p) kids))"

subsection \<open>Mapping an item\<close>

definition make_nodes :: "string list \<Rightarrow> 'a view \<Rightarrow> dnode list \<times> 'a view" where
  "make_nodes contents v =
     (zip [vw_next v..<vw_next v + length contents] contents, v\<lparr>vw_next := vw_next v + length contents\<rparr>)"

text \<open>The computed around the mapping runs again: it is disposed of if the first node is not in the document.\<close>

definition remap :: "'a template \<Rightarrow> 'a item \<Rightarrow> 'a view \<Rightarrow> ('a item \<times> 'a view) option" where
  "remap t it v =
     (if it_nodes it = [] \<or> hd (it_nodes it) \<notin> set (vw_kids v)
      then Some (it\<lparr>it_live := False\<rparr>, record_call (Disposed (it_entry it)) v)
      else
        let (new, v1) = make_nodes (t_mapping t (it_entry it) (it_index it)) v
        in case fixUp (vw_kids v) (it_nodes it) of
             (_, None) \<Rightarrow> None
           | (_, Some old) \<Rightarrow>
               let v2 = v1\<lparr>vw_kids := replaceDomNodes old new (vw_kids v)\<rparr>
               in Some (it\<lparr>it_nodes := new\<rparr>,
                        if t_callback t then record_call (NodesAdded (it_entry it) new (it_index it)) v2 else v2))"

text \<open>\<open>indexObservable(i)\<close>: only a new value is announced.\<close>

definition set_index :: "'a template \<Rightarrow> nat \<Rightarrow> 'a item \<Rightarrow> 'a view \<Rightarrow> ('a item \<times> 'a view) option" where
  "set_index t i it v =
     (if it_index it = i then Some (it, v)
      else if it_live it then remap t (it\<lparr>it_index := i\<rparr>) v
      else Some (it\<lparr>it_index := i\<rparr>, v))"

text \<open>\<open>mapNodeAndRefreshWhenChanged\<close> for a new item.\<close>

definition map_new :: "'a template \<Rightarrow> 'a \<Rightarrow> nat \<Rightarrow> 'a view \<Rightarrow> 'a item \<times> 'a view" where
  "map_new t x i v =
     (let (new, v1) = make_nodes (t_mapping t x i) v
      in (\<lparr>it_entry = x, it_index = i, it_nodes = new, it_live = t_reads_index t, it_initialized = False\<rparr>, v1))"

subsection \<open>The edit script\<close>

text \<open>What is queued in \<open>itemsToProcess\<close>: an item of the last result, by its position there, with its new index;
  a new entry; an item that a callback will remove.\<close>

datatype 'a task = Keep nat nat | Create 'a nat | Remove nat

text \<open>The loop over the script. \<open>li\<close> and \<open>ni\<close> are \<open>lastMappingResultIndex\<close> and \<open>newMappingResultIndex\<close>. The
  result is the queue, with the places in the script, \<open>nodesToDelete\<close>, and the items of the last result.\<close>

fun walk ::
  "'a template \<Rightarrow> nat \<Rightarrow> 'a edit_entry list \<Rightarrow> 'a item list \<Rightarrow> nat \<Rightarrow> nat \<Rightarrow> 'a view \<Rightarrow>
     ((nat \<times> 'a task) list \<times> dnode list \<times> 'a item list \<times> 'a view) option"
where
  "walk t i [] items li ni v = Some ([], [], items, v)"
| "walk t i (e # es) items li ni v =
     (let keep = (\<lambda>m li'.
            case aget items m of
              None \<Rightarrow> None
            | Some it \<Rightarrow>
                (case set_index t ni it v of
                   None \<Rightarrow> None
                 | Some (it1, v1) \<Rightarrow>
                     (case walk t (Suc i) es (items[m := it1\<lparr>it_nodes := fst (fixUp (vw_kids v1) (it_nodes it1))\<rparr>])
                             li' (Suc ni) v1 of
                        None \<Rightarrow> None
                      | Some (tasks, doomed, items', v') \<Rightarrow> Some ((i, Keep m ni) # tasks, doomed, items', v'))))
      in case ee_status e of
           EDeleted \<Rightarrow>
             (if ee_moved e \<noteq> None then walk t (Suc i) es items (Suc li) ni v
              else
                case aget items li of
                  None \<Rightarrow> None
                | Some it \<Rightarrow>
                    let v1 = (if it_live it then record_call (Disposed (it_entry it)) v else v);
                        (nodes, returned) = fixUp (vw_kids v) (it_nodes it)
                    in case walk t (Suc i) es (items[li := it\<lparr>it_nodes := nodes, it_live := False\<rparr>]) (Suc li) ni v1 of
                         None \<Rightarrow> None
                       | Some (tasks, doomed, items', v') \<Rightarrow>
                           Some ((if t_beforeRemove t then [(i, Remove li)] else []) @ tasks,
                                 (case returned of None \<Rightarrow> [] | Some ns \<Rightarrow> ns) @ doomed, items', v'))
         | ERetained \<Rightarrow> keep li (Suc li)
         | EAdded \<Rightarrow>
             (case ee_moved e of
                Some m \<Rightarrow> keep m li
              | None \<Rightarrow>
                  (case walk t (Suc i) es items li (Suc ni) v of
                     None \<Rightarrow> None
                   | Some (tasks, doomed, items', v') \<Rightarrow>
                       Some ((i, Create (ee_value e) ni) # tasks, doomed, items', v'))))"

subsection \<open>Putting the nodes in order\<close>

fun place :: "dnode list \<Rightarrow> dnode option \<Rightarrow> dnode option \<Rightarrow> dnode list \<Rightarrow> dnode option \<times> dnode option \<times> dnode list" where
  "place [] nextNode lastNode kids = (nextNode, lastNode, kids)"
| "place (n # ns) nextNode lastNode kids =
     (let kids' = (if Some n \<noteq> nextNode then insertAfter lastNode n kids else kids)
      in place ns (next_sibling n kids') (Some n) kids')"

definition task_item :: "'a template \<Rightarrow> 'a item list \<Rightarrow> 'a task \<Rightarrow> 'a view \<Rightarrow> 'a item \<times> 'a view" where
  "task_item t items task v =
     (case task of Keep m i \<Rightarrow> (items ! m, v) | Create x i \<Rightarrow> map_new t x i v | Remove m \<Rightarrow> (items ! m, v))"

fun process ::
  "'a template \<Rightarrow> 'a item list \<Rightarrow> (nat \<times> 'a task) list \<Rightarrow> dnode option \<Rightarrow> dnode option \<Rightarrow> 'a view \<Rightarrow>
     'a item list \<times> 'a view"
where
  "process t items [] nextNode lastNode v = ([], v)"
| "process t items ((i, task) # tasks) nextNode lastNode v =
     (let (it, v1) = task_item t items task v;
          (nextNode', lastNode', kids) = place (it_nodes it) nextNode lastNode (vw_kids v1);
          v2 = v1\<lparr>vw_kids := kids\<rparr>;
          call = \<not> it_initialized it \<and> t_callback t;
          v3 = (if call then record_call (NodesAdded (it_entry it) (it_nodes it) (it_index it)) v2 else v2);
          (its, v') = process t items tasks nextNode' lastNode' v3
      in (it\<lparr>it_initialized := it_initialized it \<or> call\<rparr> # its, v'))"

text \<open>\<open>callCallback\<close>: once for each node of the items.\<close>

definition call_callback ::
  "bool \<Rightarrow> (dnode \<Rightarrow> nat \<Rightarrow> 'a \<Rightarrow> 'a call) \<Rightarrow> (nat \<times> 'a item) list \<Rightarrow> 'a view \<Rightarrow> 'a view"
where
  "call_callback given c items v =
     (if given
      then fold (\<lambda>(i, it). fold (\<lambda>n. record_call (c n i (it_entry it))) (it_nodes it)) items v
      else v)"

definition moved_task :: "'a task \<Rightarrow> bool" where
  "moved_task task = (case task of Keep m i \<Rightarrow> i \<noteq> m | _ \<Rightarrow> False)"

definition moving_item :: "'a item list \<Rightarrow> nat \<times> 'a task \<Rightarrow> (nat \<times> 'a item) option" where
  "moving_item items = (\<lambda>(i, task). case task of Keep m k \<Rightarrow> if k \<noteq> m then Some (i, items ! m) else None | _ \<Rightarrow> None)"

definition new_task :: "'a task \<Rightarrow> bool" where
  "new_task task = (case task of Create x i \<Rightarrow> True | _ \<Rightarrow> False)"

definition removed_task :: "'a task \<Rightarrow> bool" where
  "removed_task task = (case task of Remove m \<Rightarrow> True | _ \<Rightarrow> False)"

definition items_of :: "('a task \<Rightarrow> bool) \<Rightarrow> (nat \<times> 'a task) list \<Rightarrow> 'a item list \<Rightarrow> (nat \<times> 'a item) list" where
  "items_of p tasks its = map (\<lambda>((i, task), it). (i, it)) (filter (\<lambda>((i, task), it). p task) (zip tasks its))"

definition setDomNodeChildrenFromArrayMapping :: "'a template \<Rightarrow> 'a list \<Rightarrow> 'a view \<Rightarrow> 'a view option" where
  "setDomNodeChildrenFromArrayMapping t array v =
     (let isFirst = (vw_data v = None);
          lastResult = (case vw_data v of None \<Rightarrow> [] | Some its \<Rightarrow> its)
      in case compareArrays (map it_entry lastResult) array False of
           None \<Rightarrow> None
         | Some es \<Rightarrow>
             (case walk t 0 es lastResult 0 0 v of
                None \<Rightarrow> None
              | Some (tasks, doomed, items, v1) \<Rightarrow>
                  let moving = List.map_filter (moving_item items) tasks;
                      v2 = call_callback (t_beforeMove t) BeforeMove moving v1;
                      v3 = (if t_beforeRemove t then v2 else v2\<lparr>vw_kids := remove_kids doomed (vw_kids v2)\<rparr>);
                      (its, v4) = process t items tasks (first_child (vw_kids v3)) None v3;
                      v5 = call_callback (t_beforeRemove t) BeforeRemove (items_of removed_task tasks its) v4;
                      v6 = call_callback (t_afterMove t) AfterMove (items_of moved_task tasks its) v5;
                      v7 = call_callback (t_afterAdd t \<and> \<not> isFirst) AfterAdd (items_of new_task tasks its) v6
                  in Some (v7\<lparr>vw_data := Some (map snd (items_of (\<lambda>task. \<not> removed_task task) tasks its))\<rparr>)))"

end
