(* ===== verification/KoRenderProps.thy ===== *)
theory KoRenderProps
  imports KoRender
begin

text \<open>
  Updating the nodes of an array gives the nodes that the array has when it is rendered from scratch,
  and keeps those of the items that stay.
\<close>

subsection \<open>Lists of children\<close>

lemma cut_at [simp]:
  "n \<notin> set pre \<Longrightarrow> takeWhile (\<lambda>k. k \<noteq> n) (pre @ n # post) = pre"
  "n \<notin> set pre \<Longrightarrow> dropWhile (\<lambda>k. k \<noteq> n) (pre @ n # post) = n # post"
  by (induction pre) auto

lemma fixUp_segment:
  assumes "distinct (pre @ ns @ post)"
  shows "fixUp (pre @ ns @ post) ns = (ns, Some ns)"
proof (cases "length ns > 1")
  case True
  then obtain n ms where ns: "ns = n # ms" "ms \<noteq> []" by (cases ns) auto
  have up: "up_to (last xs) (xs @ ys) = Some xs" if "xs \<noteq> []" "distinct xs" for xs ys :: "dnode list"
    using that by (induction xs) auto
  have d: "dropWhile (\<lambda>k. k \<noteq> n) (pre @ ns @ post) = ns @ post"
    using assms ns by auto
  have a: "dropWhile (\<lambda>m. m \<notin> set (pre @ ns @ post)) ns = ns" using ns by simp
  show ?thesis
    using True up [of ns post] assms ns(1) unfolding fixUp_def Let_def a by (simp add: d [unfolded ns(1)])
next
  case False
  then show ?thesis by (cases ns) (auto simp: fixUp_def Let_def)
qed

lemma replace_segment:
  assumes "distinct (pre @ old @ post)" "set new \<inter> set (pre @ old @ post) = {}" "old \<noteq> []"
  shows "replaceDomNodes old new (pre @ old @ post) = pre @ new @ post"
proof -
  obtain p os where o: "old = p # os" using assms(3) by (cases old) auto
  have "takeWhile (\<lambda>k. k \<noteq> p) (pre @ old @ post) = pre" "dropWhile (\<lambda>k. k \<noteq> p) (pre @ old @ post) = old @ post"
    using assms(1) o by auto
  moreover have "filter (\<lambda>k. k \<notin> set old) pre = pre" "filter (\<lambda>k. k \<notin> set old) post = post"
    "filter (\<lambda>k. k \<notin> set old) new = new" "filter (\<lambda>k. k \<notin> set old) old = []"
    using assms(1,2) by (auto simp: filter_id_conv filter_empty_conv)
  ultimately show ?thesis by (simp add: replaceDomNodes_def remove_kids_def o)
qed

lemma insertAfter_next:
  assumes "distinct pre" "n \<notin> set pre" "distinct rest" "set pre \<inter> set rest = {}"
  shows "insertAfter (if pre = [] then None else Some (last pre)) n (pre @ rest) = pre @ n # filter (\<lambda>k. k \<noteq> n) rest"
proof -
  have f: "filter (\<lambda>k. k \<noteq> n) pre = pre" using assms(2) by (auto simp: filter_id_conv)
  show ?thesis
  proof (cases pre rule: rev_exhaust)
    case Nil
    then show ?thesis by (simp add: insertAfter_def)
  next
    case (snoc ds l)
    have "l \<notin> set ds" using assms(1) snoc by simp
    then have "\<And>ks. takeWhile (\<lambda>k. k \<noteq> l) (ds @ l # ks) = ds" "\<And>ks. dropWhile (\<lambda>k. k \<noteq> l) (ds @ l # ks) = l # ks"
      by simp_all
    moreover have "filter (\<lambda>k. k \<noteq> n) ds = ds" "l \<noteq> n" using assms(2) snoc by (auto simp: filter_id_conv)
    ultimately show ?thesis by (simp add: insertAfter_def Let_def snoc)
  qed
qed

lemma next_sibling_at: "n \<notin> set pre \<Longrightarrow> next_sibling n (pre @ n # post) = first_child post"
  by (simp add: next_sibling_def first_child_def split: list.split)

text \<open>The nodes put in order stand behind those before; the rest moves back.\<close>

lemma place_spec:
  assumes "distinct (pre @ ns)" "distinct rest" "set pre \<inter> set rest = {}"
  shows "place ns (first_child rest) (if pre = [] then None else Some (last pre)) (pre @ rest) =
    (first_child (remove_kids ns rest), if pre @ ns = [] then None else Some (last (pre @ ns)),
     pre @ ns @ remove_kids ns rest)"
  using assms
proof (induction ns arbitrary: pre rest)
  case Nil
  then show ?case by (simp add: remove_kids_def)
next
  case (Cons n ns)
  let ?rest = "filter (\<lambda>k. k \<noteq> n) rest"
  let ?last = "if pre = [] then None else Some (last pre)"
  have n: "n \<notin> set pre" using Cons.prems(1) by auto
  have kids: "(if Some n \<noteq> first_child rest then insertAfter ?last n (pre @ rest) else pre @ rest) = pre @ n # ?rest"
  proof (cases "Some n = first_child rest")
    case True
    then obtain ks where "rest = n # ks" by (auto simp: first_child_def split: list.splits)
    moreover from this have "filter (\<lambda>k. k \<noteq> n) ks = ks" using Cons.prems(2) by (auto simp: filter_id_conv)
    ultimately show ?thesis using True by simp
  next
    case False
    then show ?thesis using insertAfter_next [OF _ n Cons.prems(2,3)] Cons.prems(1) by auto
  qed
  have "place ns (first_child ?rest) (Some n) ((pre @ [n]) @ ?rest) =
    (first_child (remove_kids ns ?rest), Some (last (pre @ n # ns)), (pre @ [n]) @ ns @ remove_kids ns ?rest)"
  proof -
    have "distinct ((pre @ [n]) @ ns)" "distinct ?rest" "set (pre @ [n]) \<inter> set ?rest = {}"
      using Cons.prems by auto
    from Cons.IH [OF this] show ?thesis by simp
  qed
  moreover have "remove_kids ns ?rest = remove_kids (n # ns) rest"
    by (auto simp: remove_kids_def intro: filter_cong)
  moreover have "next_sibling n (pre @ n # ?rest) = first_child ?rest"
    by (rule next_sibling_at [OF n])
  ultimately show ?case unfolding place.simps Let_def kids by simp
qed

subsection \<open>The positions that a script uses\<close>

text \<open>The positions of the old array at which an item is kept (true) or deleted for good.\<close>

fun uses :: "nat \<Rightarrow> 'a edit_entry list \<Rightarrow> (bool \<times> nat) list" where
  "uses li [] = []"
| "uses li (e # es) =
     (case ee_status e of
        ERetained \<Rightarrow> (True, li) # uses (Suc li) es
      | EAdded \<Rightarrow> (case ee_moved e of Some m \<Rightarrow> (True, m) # uses li es | None \<Rightarrow> uses li es)
      | EDeleted \<Rightarrow> (if ee_moved e = None then (False, li) # uses (Suc li) es else uses (Suc li) es))"

text \<open>The entries kept are those of the items at their positions.\<close>

fun fits :: "'a list \<Rightarrow> nat \<Rightarrow> 'a edit_entry list \<Rightarrow> bool" where
  "fits old li [] \<longleftrightarrow> True"
| "fits old li (e # es) \<longleftrightarrow>
     (case ee_status e of
        ERetained \<Rightarrow> li < length old \<and> old ! li = ee_value e \<and> fits old (Suc li) es
      | EAdded \<Rightarrow> (case ee_moved e of Some m \<Rightarrow> m < length old \<and> old ! m = ee_value e | None \<Rightarrow> True) \<and> fits old li es
      | EDeleted \<Rightarrow> li < length old \<and> fits old (Suc li) es)"

lemma values_not_append: "values_not st (xs @ ys) = values_not st xs @ values_not st ys"
  by (simp add: values_not_def)

lemma values_not_nth:
  assumes "k < length es" "ee_status (es ! k) \<noteq> st"
  shows "length (values_not st (take k es)) < length (values_not st es)"
    and "values_not st es ! length (values_not st (take k es)) = ee_value (es ! k)"
proof -
  have "values_not st es = values_not st (take k es) @ ee_value (es ! k) # values_not st (drop (Suc k) es)"
    using assms(2) by (subst id_take_nth_drop [OF assms(1)]) (simp add: values_not_append)
  then show "length (values_not st (take k es)) < length (values_not st es)"
    "values_not st es ! length (values_not st (take k es)) = ee_value (es ! k)" by auto
qed

lemma values_not_less:
  assumes "j < k" "k \<le> length es" "ee_status (es ! j) \<noteq> st"
  shows "length (values_not st (take j es)) < length (values_not st (take k es))"
  using values_not_nth(1) [of j "take k es" st] assms by simp

text \<open>Where the position \<open>p\<close> of an old array is in the script.\<close>

lemma values_not_at:
  "p < length (values_not st es) \<Longrightarrow>
   \<exists>k < length es. ee_status (es ! k) \<noteq> st \<and> length (values_not st (take k es)) = p"
proof (induction es arbitrary: p)
  case (Cons e es)
  show ?case
  proof (cases "ee_status e \<noteq> st \<and> p = 0")
    case True
    then show ?thesis by (intro exI [of _ 0]) simp
  next
    case False
    let ?p = "if ee_status e \<noteq> st then p - 1 else p"
    have "?p < length (values_not st es)" using Cons.prems False by (auto split: if_splits)
    then obtain k where "k < length es" "ee_status (es ! k) \<noteq> st" "length (values_not st (take k es)) = ?p"
      using Cons.IH by blast
    then show ?thesis using False by (intro exI [of _ "Suc k"]) (auto split: if_splits)
  qed
qed simp

lemma uses_at:
  "k < length es \<Longrightarrow>
   (case ee_status (es ! k) of
      ERetained \<Rightarrow> (True, li + length (values_not EAdded (take k es))) \<in> set (uses li es)
    | EAdded \<Rightarrow> (case ee_moved (es ! k) of Some m \<Rightarrow> (True, m) \<in> set (uses li es) | None \<Rightarrow> True)
    | EDeleted \<Rightarrow> ee_moved (es ! k) = None \<longrightarrow> (False, li + length (values_not EAdded (take k es))) \<in> set (uses li es))"
proof (induction es arbitrary: k li)
  case (Cons e es)
  show ?case
  proof (cases k)
    case 0
    then show ?thesis by (auto split: edit_status.split option.split)
  next
    case (Suc j)
    let ?li = "if ee_status e = EAdded then li else Suc li"
    have sub: "set (uses ?li es) \<subseteq> set (uses li (e # es))"
      by (auto split: edit_status.split option.split)
    have len: "li + length (values_not EAdded (take k (e # es))) = ?li + length (values_not EAdded (take j es))"
      by (simp add: Suc)
    have j: "j < length es" "(e # es) ! k = es ! j" using Cons.prems Suc by simp_all
    show ?thesis
      using Cons.IH [OF j(1), of ?li] sub unfolding j(2) len
      by (auto split: edit_status.splits option.splits)
  qed
qed simp

text \<open>As many entries are moves in as out.\<close>

lemma moves_balanced:
  assumes "well_indexed es" "moves_paired es"
  shows "card {k. k < length es \<and> ee_status (es ! k) = EAdded \<and> ee_moved (es ! k) \<noteq> None} \<le>
    card {k. k < length es \<and> ee_status (es ! k) = EDeleted \<and> ee_moved (es ! k) \<noteq> None}" (is "card ?A \<le> card ?D")
proof -
  let ?f = "\<lambda>k. SOME q. links es k q"
  have link: "links es k (?f k)" if "k \<in> ?A" for k
  proof -
    have "\<exists>q. links es k q" using assms(2) that unfolding moves_paired_def by blast
    then show ?thesis by (rule someI_ex)
  qed
  have index: "ee_index (es ! k) = Some (length (values_not EDeleted (take k es)))" if "k \<in> ?A" for k
    using assms(1) that by (force simp: well_indexed_def)
  have less: "length (values_not EDeleted (take j es)) < length (values_not EDeleted (take k es))"
    if "j \<in> ?A" "k \<in> ?A" "j < k" for j k
    using values_not_less [of j k es EDeleted] that by simp
  have "inj_on ?f ?A"
  proof (rule inj_onI)
    fix j k assume jk: "j \<in> ?A" "k \<in> ?A" "?f j = ?f k"
    then have "ee_index (es ! j) = ee_index (es ! k)"
      using link [OF jk(1)] link [OF jk(2)] by (simp add: links_def)
    then have "length (values_not EDeleted (take j es)) = length (values_not EDeleted (take k es))"
      using index [OF jk(1)] index [OF jk(2)] by simp
    then show "j = k" using less [OF jk(1,2)] less [OF jk(2,1)] by (cases j k rule: linorder_cases) auto
  qed
  moreover have "?f ` ?A \<subseteq> ?D"
  proof
    fix q assume "q \<in> ?f ` ?A"
    then obtain k where k: "k \<in> ?A" "q = ?f k" by blast
    have l: "links es k q" using link [OF k(1)] k(2) by simp
    then have q: "q < length es" "ee_status (es ! q) \<noteq> EAdded" "ee_index (es ! q) \<noteq> None" "ee_moved (es ! q) \<noteq> None"
      using k(1) by (auto simp: links_def)
    then have "ee_status (es ! q) \<noteq> ERetained"
      using assms(1) by (auto simp: well_indexed_def split: edit_status.splits)
    then show "q \<in> ?D" using q by (cases "ee_status (es ! q)") auto
  qed
  ultimately show ?thesis by (rule card_inj_on_le) simp
qed

lemma count_positions: "card {k. k < length es \<and> P (es ! k)} = length (filter P es)"
  by (simp add: length_filter_conv_card)

lemma length_uses:
  "length (uses li es) + length (filter (\<lambda>e. ee_status e = EDeleted \<and> ee_moved e \<noteq> None) es) =
   length (values_not EAdded es) + length (filter (\<lambda>e. ee_status e = EAdded \<and> ee_moved e \<noteq> None) es)"
  by (induction es arbitrary: li) (auto split: edit_status.split option.split)

text \<open>A script uses every position of the old array once.\<close>

lemma uses_once:
  assumes "well_indexed es" "moves_paired es"
  shows "distinct (map snd (uses 0 es))" "snd ` set (uses 0 es) = {..<length (values_not EAdded es)}"
proof -
  let ?n = "length (values_not EAdded es)"
  have cover: "{..<?n} \<subseteq> snd ` set (uses 0 es)"
  proof
    fix p assume "p \<in> {..<?n}"
    then obtain k where k: "k < length es" "ee_status (es ! k) \<noteq> EAdded" "length (values_not EAdded (take k es)) = p"
      using values_not_at by blast
    show "p \<in> snd ` set (uses 0 es)"
    proof (cases "ee_status (es ! k) = EDeleted \<and> ee_moved (es ! k) \<noteq> None")
      case False
      then show ?thesis using uses_at [OF k(1), of 0] k(2,3)
        by (cases "ee_status (es ! k)") (auto intro: rev_image_eqI)
    next
      case True
      then obtain q where q: "links es k q" using assms(2) k(1) by (auto simp: moves_paired_def)
      have "ee_index (es ! k) = Some p" using assms(1) k True by (force simp: well_indexed_def)
      then have "ee_moved (es ! q) = Some p" "q < length es" "ee_status (es ! q) \<noteq> EDeleted"
        using q True by (auto simp: links_def)
      moreover from this have "ee_status (es ! q) = EAdded"
        using assms(1) by (cases "ee_status (es ! q)") (auto simp: well_indexed_def split: edit_status.splits)
      ultimately show ?thesis using uses_at [of q es 0] by (auto intro: rev_image_eqI)
    qed
  qed
  have len: "length (uses 0 es) \<le> ?n"
    using length_uses [of 0 es] moves_balanced [OF assms]
      count_positions [of es "\<lambda>e. ee_status e = EAdded \<and> ee_moved e \<noteq> None"]
      count_positions [of es "\<lambda>e. ee_status e = EDeleted \<and> ee_moved e \<noteq> None"] by linarith
  have "?n \<le> card (snd ` set (uses 0 es))" using card_mono [OF _ cover] by simp
  moreover have c: "card (set (map snd (uses 0 es))) \<le> length (uses 0 es)"
    using card_length [of "map snd (uses 0 es)"] by simp
  ultimately have eq: "card (set (map snd (uses 0 es))) = length (map snd (uses 0 es))" "length (uses 0 es) = ?n"
    using len by simp_all
  show "distinct (map snd (uses 0 es))" by (rule card_distinct [OF eq(1)])
  show "snd ` set (uses 0 es) = {..<?n}"
    using card_subset_eq [OF _ cover] eq by simp
qed

lemma fits_entries:
  "(\<And>k. k < length es \<Longrightarrow>
     (case ee_status (es ! k) of
        ERetained \<Rightarrow> li + length (values_not EAdded (take k es)) < length old \<and>
          old ! (li + length (values_not EAdded (take k es))) = ee_value (es ! k)
      | EAdded \<Rightarrow> (case ee_moved (es ! k) of Some m \<Rightarrow> m < length old \<and> old ! m = ee_value (es ! k) | None \<Rightarrow> True)
      | EDeleted \<Rightarrow> li + length (values_not EAdded (take k es)) < length old)) \<Longrightarrow>
   fits old li es"
proof (induction es arbitrary: li)
  case (Cons e es)
  let ?li = "if ee_status e = EAdded then li else Suc li"
  have "fits old ?li es"
  proof (rule Cons.IH)
    fix k assume "k < length es"
    then show "case ee_status (es ! k) of
        ERetained \<Rightarrow> ?li + length (values_not EAdded (take k es)) < length old \<and>
          old ! (?li + length (values_not EAdded (take k es))) = ee_value (es ! k)
      | EAdded \<Rightarrow> (case ee_moved (es ! k) of Some m \<Rightarrow> m < length old \<and> old ! m = ee_value (es ! k) | None \<Rightarrow> True)
      | EDeleted \<Rightarrow> ?li + length (values_not EAdded (take k es)) < length old"
      using Cons.prems [of "Suc k"] by (cases "ee_status e = EAdded") (simp_all split: edit_status.splits option.splits)
  qed
  then show ?case using Cons.prems [of 0] by (auto split: edit_status.splits option.splits)
qed simp

lemma script_fits:
  assumes "well_indexed es" "moves_paired es"
  shows "fits (values_not EAdded es) 0 es"
proof (rule fits_entries)
  fix k assume k: "k < length es"
  have at: "length (values_not EAdded (take q es)) < length (values_not EAdded es) \<and>
      values_not EAdded es ! length (values_not EAdded (take q es)) = ee_value (es ! q)"
    if "q < length es" "ee_status (es ! q) \<noteq> EAdded" for q
    using values_not_nth [of q es EAdded] that by blast
  have move: "m < length (values_not EAdded es) \<and> values_not EAdded es ! m = ee_value (es ! k)"
    if m: "ee_status (es ! k) = EAdded" "ee_moved (es ! k) = Some m" for m
  proof -
    obtain q where q: "links es k q" using assms(2) k m(2) by (auto simp: moves_paired_def)
    have d: "q < length es" "ee_status (es ! q) \<noteq> EAdded" "ee_index (es ! q) = Some m" "ee_value (es ! q) = ee_value (es ! k)"
      using q m by (auto simp: links_def)
    have "ee_index (es ! q) = Some (length (values_not EAdded (take q es)))"
      using assms(1) d by (cases "ee_status (es ! q)") (auto simp: well_indexed_def split: edit_status.splits)
    then show ?thesis using at [OF d(1,2)] d(3,4) by simp
  qed
  show "case ee_status (es ! k) of
      ERetained \<Rightarrow> 0 + length (values_not EAdded (take k es)) < length (values_not EAdded es) \<and>
        values_not EAdded es ! (0 + length (values_not EAdded (take k es))) = ee_value (es ! k)
    | EAdded \<Rightarrow> (case ee_moved (es ! k) of Some m \<Rightarrow> m < length (values_not EAdded es) \<and>
        values_not EAdded es ! m = ee_value (es ! k) | None \<Rightarrow> True)
    | EDeleted \<Rightarrow> 0 + length (values_not EAdded (take k es)) < length (values_not EAdded es)"
    using at [OF k] move by (auto split: edit_status.split option.split)
qed

subsection \<open>The queue of a script\<close>

fun tasks_of :: "nat \<Rightarrow> nat \<Rightarrow> nat \<Rightarrow> 'a edit_entry list \<Rightarrow> (nat \<times> 'a task) list" where
  "tasks_of i li ni [] = []"
| "tasks_of i li ni (e # es) =
     (case ee_status e of
        ERetained \<Rightarrow> (i, Keep li ni) # tasks_of (Suc i) (Suc li) (Suc ni) es
      | EAdded \<Rightarrow> (i, case ee_moved e of Some m \<Rightarrow> Keep m ni | None \<Rightarrow> Create (ee_value e) ni) # tasks_of (Suc i) li (Suc ni) es
      | EDeleted \<Rightarrow> tasks_of (Suc i) (Suc li) ni es)"

fun kept_at :: "'a task \<Rightarrow> nat list" where
  "kept_at (Keep m i) = [m]"
| "kept_at task = []"

fun task_index :: "'a task \<Rightarrow> nat" where
  "task_index (Keep m i) = i"
| "task_index (Create x i) = i"
| "task_index (Remove m) = 0"

fun task_entry :: "'a list \<Rightarrow> 'a task \<Rightarrow> 'a" where
  "task_entry old (Keep m i) = old ! m"
| "task_entry old (Create x i) = x"
| "task_entry old (Remove m) = old ! m"

lemma tasks_kept: "concat (map (kept_at \<circ> snd) (tasks_of i li ni es)) = map snd (filter fst (uses li es))"
  by (induction es arbitrary: i li ni) (auto split: edit_status.split option.split)

lemma tasks_indexes: "map (task_index \<circ> snd) (tasks_of i li ni es) = [ni..<ni + length (values_not EDeleted es)]"
  by (induction es arbitrary: i li ni) (auto simp: upt_conv_Cons simp del: upt_Suc split: edit_status.split option.split)

lemma tasks_entries: "fits old li es \<Longrightarrow> map (task_entry old \<circ> snd) (tasks_of i li ni es) = values_not EDeleted es"
  by (induction es arbitrary: i li ni) (auto split: edit_status.splits option.splits)

lemma tasks_no_remove: "(j, Remove m) \<notin> set (tasks_of i li ni es)"
  by (induction es arbitrary: i li ni) (auto split: edit_status.splits option.splits)

subsection \<open>What the update keeps\<close>

text \<open>The mapping is steady: if it does not read the index it does not depend on it, and if it does it
  never comes out empty.\<close>

definition steady :: "'a template \<Rightarrow> bool" where
  "steady t \<longleftrightarrow> (if t_reads_index t then \<forall>x i. t_mapping t x i \<noteq> [] else \<forall>x i. t_mapping t x i = t_mapping t x 0)"

definition laid :: "'a item list \<Rightarrow> 'a view \<Rightarrow> bool" where
  "laid items v \<longleftrightarrow> vw_kids v = concat (map it_nodes items) \<and> distinct (map fst (vw_kids v)) \<and>
     (\<forall>n \<in> set (vw_kids v). fst n < vw_next v)"

definition labelled :: "'a template \<Rightarrow> 'a item \<Rightarrow> bool" where
  "labelled t it \<longleftrightarrow> map snd (it_nodes it) = t_mapping t (it_entry it) (it_index it) \<and> it_live it = t_reads_index t"

lemma record_call_sel [simp]:
  "vw_kids (record_call c v) = vw_kids v" "vw_next (record_call c v) = vw_next v" "vw_data (record_call c v) = vw_data v"
  by (simp_all add: record_call_def)

lemma nodes_split:
  "m < length items \<Longrightarrow> concat (map it_nodes (items[m := it])) =
     concat (map it_nodes (take m items)) @ it_nodes it @ concat (map it_nodes (drop (Suc m) items))"
  by (simp add: upd_conv_take_nth_drop)

lemma laid_parts:
  assumes "laid items v" "m < length items"
  obtains pre post where "vw_kids v = pre @ it_nodes (items ! m) @ post" "distinct (vw_kids v)"
    "\<And>it. concat (map it_nodes (items[m := it])) = pre @ it_nodes it @ post"
proof
  show "vw_kids v = concat (map it_nodes (take m items)) @ it_nodes (items ! m) @ concat (map it_nodes (drop (Suc m) items))"
    using nodes_split [OF assms(2), of "items ! m"] assms(1) by (simp add: laid_def)
  show "distinct (vw_kids v)" using assms(1) unfolding laid_def distinct_map by blast
qed (rule nodes_split [OF assms(2)])

lemma fixUp_item:
  "laid items v \<Longrightarrow> m < length items \<Longrightarrow>
   fixUp (vw_kids v) (it_nodes (items ! m)) = (it_nodes (items ! m), Some (it_nodes (items ! m)))"
  by (metis laid_parts fixUp_segment)

lemma laid_cong: "laid items v \<Longrightarrow> map it_nodes items' = map it_nodes items \<Longrightarrow> vw_kids v' = vw_kids v \<Longrightarrow>
  vw_next v \<le> vw_next v' \<Longrightarrow> laid items' v'"
  unfolding laid_def by (metis less_le_trans)

lemma make_nodes_spec:
  assumes "make_nodes cs v = (new, v')"
  shows "map snd new = cs" "v' = v\<lparr>vw_next := vw_next v + length cs\<rparr>" "map fst new = [vw_next v..<vw_next v + length cs]"
  using assms by (auto simp: make_nodes_def)

lemma remap_spec:
  assumes laid: "laid items v" and m: "m < length items" and nodes: "it_nodes (items ! m) \<noteq> []"
  obtains new v' where "remap t ((items ! m)\<lparr>it_index := i\<rparr>) v = Some ((items ! m)\<lparr>it_index := i, it_nodes := new\<rparr>, v')"
    "map snd new = t_mapping t (it_entry (items ! m)) i" "laid (items[m := (items ! m)\<lparr>it_index := i, it_nodes := new\<rparr>]) v'"
    "vw_data v' = vw_data v"
proof -
  obtain pre post where p: "vw_kids v = pre @ it_nodes (items ! m) @ post" "distinct (vw_kids v)"
    "\<And>it. concat (map it_nodes (items[m := it])) = pre @ it_nodes it @ post"
    using laid_parts [OF laid m] by blast
  let ?cs = "t_mapping t (it_entry (items ! m)) i"
  obtain new v1 where new: "make_nodes ?cs v = (new, v1)" by (cases "make_nodes ?cs v")
  note n = make_nodes_spec [OF new]
  have fresh: "vw_next v \<le> fst k \<and> fst k < vw_next v + length ?cs" if "k \<in> set new" for k
  proof -
    have "fst k \<in> set (map fst new)" using that by simp
    then show ?thesis unfolding n(3) by simp
  qed
  have old: "fst k < vw_next v" if "k \<in> set (vw_kids v)" for k using laid that by (simp add: laid_def)
  have disj: "set new \<inter> set (vw_kids v) = {}" using fresh old by fastforce
  let ?v' = "v1\<lparr>vw_kids := pre @ new @ post\<rparr>"
  have fx: "fixUp (vw_kids v) (it_nodes (items ! m)) = (it_nodes (items ! m), Some (it_nodes (items ! m)))"
    by (rule fixUp_item [OF laid m])
  have rp: "replaceDomNodes (it_nodes (items ! m)) new (vw_kids v) = pre @ new @ post"
    using replace_segment [of pre "it_nodes (items ! m)" post new] p(1,2) disj nodes by simp
  have hd: "hd (it_nodes (items ! m)) \<in> set (vw_kids v)" using p(1) nodes by simp
  have ids: "distinct (map fst (pre @ new @ post))"
  proof -
    have "distinct (map fst (pre @ post))" using laid p(1) by (auto simp: laid_def)
    moreover have "distinct (map fst new)" using n(3) by simp
    moreover have "fst ` set new \<inter> fst ` set (pre @ post) = {}"
      using fresh old p(1) by fastforce
    ultimately show ?thesis by auto
  qed
  have bound: "\<forall>k \<in> set (pre @ new @ post). fst k < vw_next v + length ?cs"
  proof
    fix k assume "k \<in> set (pre @ new @ post)"
    then have "k \<in> set new \<or> k \<in> set (vw_kids v)" using p(1) by auto
    then show "fst k < vw_next v + length ?cs" using fresh [of k] old [of k] by linarith
  qed
  have "laid (items[m := (items ! m)\<lparr>it_index := i, it_nodes := new\<rparr>]) (record_call c ?v')" "laid (items[m := (items ! m)\<lparr>it_index := i, it_nodes := new\<rparr>]) ?v'" for c
    using ids bound by (simp_all add: laid_def p(3) n(2))
  then show ?thesis
    using nodes hd new fx rp n(1)
    by (intro that [of new "if t_callback t then record_call (NodesAdded (it_entry (items ! m)) new i) ?v' else ?v'"])
      (auto simp: remap_def n(2))
qed

lemma set_index_spec:
  assumes laid: "laid items v" and m: "m < length items" and lab: "labelled t (items ! m)" and st: "steady t"
  obtains it' v' where "set_index t i (items ! m) v = Some (it', v')" "laid (items[m := it']) v'" "labelled t it'"
    "it_entry it' = it_entry (items ! m)" "it_index it' = i" "vw_data v' = vw_data v"
    "\<not> t_reads_index t \<Longrightarrow> it_nodes it' = it_nodes (items ! m) \<and> vw_next v' = vw_next v"
proof (cases "it_index (items ! m) = i")
  case True
  then show ?thesis using that [of "items ! m" v] assms by (simp add: set_index_def)
next
  case False
  show ?thesis
  proof (cases "t_reads_index t")
    case True
    then have "it_nodes (items ! m) \<noteq> []" using lab st unfolding labelled_def steady_def by (metis list.simps(8))
    then obtain new v' where "remap t ((items ! m)\<lparr>it_index := i\<rparr>) v = Some ((items ! m)\<lparr>it_index := i, it_nodes := new\<rparr>, v')"
      "map snd new = t_mapping t (it_entry (items ! m)) i" "laid (items[m := (items ! m)\<lparr>it_index := i, it_nodes := new\<rparr>]) v'"
      "vw_data v' = vw_data v"
      using remap_spec [OF laid m] by metis
    then show ?thesis
      using that [of "(items ! m)\<lparr>it_index := i, it_nodes := new\<rparr>" v'] False True lab
      by (simp add: set_index_def labelled_def)
  next
    case no: False
    have "map it_nodes (items[m := (items ! m)\<lparr>it_index := i\<rparr>]) = map it_nodes items"
      using m by (simp add: map_update list_update_same_conv)
    then have "laid (items[m := (items ! m)\<lparr>it_index := i\<rparr>]) v" by (rule laid_cong [OF laid]) simp_all
    moreover have "t_mapping t (it_entry (items ! m)) (it_index (items ! m)) = t_mapping t (it_entry (items ! m)) i"
      using st no unfolding steady_def by (metis (full_types))
    ultimately show ?thesis
      using that [of "(items ! m)\<lparr>it_index := i\<rparr>" v] False no lab
      by (simp add: set_index_def labelled_def)
  qed
qed

text \<open>The walk over a script whose positions are each used once: the queue, the nodes to delete, and the
  items, of which those kept have their new index.\<close>

definition walked ::
  "'a template \<Rightarrow> nat \<Rightarrow> nat \<Rightarrow> nat \<Rightarrow> 'a edit_entry list \<Rightarrow> 'a item list \<Rightarrow> 'a view \<Rightarrow>
     (nat \<times> 'a task) list \<times> dnode list \<times> 'a item list \<times> 'a view \<Rightarrow> bool"
where
  "walked t i li ni es items v = (\<lambda>(tasks, doomed, items', v').
     tasks = tasks_of i li ni es \<and> laid items' v' \<and> length items' = length items \<and>
     map it_entry items' = map it_entry items \<and> vw_data v' = vw_data v \<and>
     (\<forall>p. p \<notin> snd ` set (uses li es) \<longrightarrow> items' ! p = items ! p) \<and>
     set doomed = (\<Union>p \<in> {p. (False, p) \<in> set (uses li es)}. set (it_nodes (items' ! p))) \<and>
     (\<forall>j m n. (j, Keep m n) \<in> set tasks \<longrightarrow> labelled t (items' ! m) \<and> it_index (items' ! m) = n) \<and>
     (\<not> t_reads_index t \<longrightarrow> map it_nodes items' = map it_nodes items \<and> vw_next v' = vw_next v))"

lemma walked_keep:
  assumes rest: "walked t (Suc i) li' (Suc ni) es (items[m := it']) v1 (tasks, doomed, items', v')"
    and m: "m < length items" "m \<notin> snd ` set (uses li' es)"
    and it': "labelled t it'" "it_entry it' = it_entry (items ! m)" "it_index it' = ni" "vw_data v1 = vw_data v"
      "\<not> t_reads_index t \<Longrightarrow> it_nodes it' = it_nodes (items ! m) \<and> vw_next v1 = vw_next v"
    and e: "uses li (e # es) = (True, m) # uses li' es" "tasks_of i li ni (e # es) = (i, Keep m ni) # tasks_of (Suc i) li' (Suc ni) es"
  shows "walked t i li ni (e # es) items v ((i, Keep m ni) # tasks, doomed, items', v')"
proof -
  note w = rest [unfolded walked_def prod.case]
  have entries: "map it_entry (items[m := it']) = map it_entry items"
    using m(1) it'(2) by (simp add: map_update list_update_same_conv)
  have at: "items' ! m = it'" using w m by auto
  have other: "items' ! p = items ! p" if "p \<notin> insert m (snd ` set (uses li' es))" for p
    using w that by auto
  have nodes: "map it_nodes items' = map it_nodes items" if "\<not> t_reads_index t"
    using w it'(5) [OF that] m(1) that by (simp add: map_update list_update_same_conv)
  have doomed: "set doomed = (\<Union>p \<in> {p. (False, p) \<in> set (uses li (e # es))}. set (it_nodes (items' ! p)))"
    using w by (simp add: e(1) del: uses.simps)
  have kept: "labelled t (items' ! q) \<and> it_index (items' ! q) = n" if "(j, Keep q n) \<in> set ((i, Keep m ni) # tasks)" for j q n
    using that w at it'(1,3) by auto
  show ?thesis
    unfolding walked_def prod.case using w entries other nodes doomed kept it'(4,5) by (simp add: e del: uses.simps tasks_of.simps)
qed

lemma walked_delete:
  assumes rest: "walked t (Suc i) (Suc li) ni es (items[li := it']) v1 (tasks, doomed, items', v')"
    and m: "li < length items" "li \<notin> snd ` set (uses (Suc li) es)"
    and it': "it_nodes it' = it_nodes (items ! li)" "it_entry it' = it_entry (items ! li)"
      "vw_data v1 = vw_data v" "vw_next v1 = vw_next v"
    and e: "uses li (e # es) = (False, li) # uses (Suc li) es" "tasks_of i li ni (e # es) = tasks_of (Suc i) (Suc li) ni es"
  shows "walked t i li ni (e # es) items v (tasks, it_nodes (items ! li) @ doomed, items', v')"
proof -
  note w = rest [unfolded walked_def prod.case]
  have entries: "map it_entry (items[li := it']) = map it_entry items" "map it_nodes (items[li := it']) = map it_nodes items"
    using m(1) it'(1,2) by (simp_all add: map_update list_update_same_conv)
  have at: "items' ! li = it'" using w m by auto
  have other: "items' ! p = items ! p" if "p \<notin> insert li (snd ` set (uses (Suc li) es))" for p
    using w that by auto
  have doomed: "set (it_nodes (items ! li) @ doomed) = (\<Union>p \<in> {p. (False, p) \<in> set (uses li (e # es))}. set (it_nodes (items' ! p)))"
    using w at it'(1) by (auto simp: e(1) simp del: uses.simps)
  show ?thesis
    unfolding walked_def prod.case using w entries other doomed it'(3,4) by (simp add: e del: uses.simps tasks_of.simps)
qed

lemma walk_spec:
  assumes st: "steady t" and nb: "\<not> t_beforeRemove t"
  shows "laid items v \<Longrightarrow> fits (map it_entry items) li es \<Longrightarrow> distinct (map snd (uses li es)) \<Longrightarrow>
    (\<forall>m. (True, m) \<in> set (uses li es) \<longrightarrow> labelled t (items ! m)) \<Longrightarrow>
    \<exists>r. walk t i es items li ni v = Some r \<and> walked t i li ni es items v r"
proof (induction es arbitrary: i items li ni v)
  case Nil
  then show ?case by (simp add: walked_def)
next
  case (Cons e es)
  have keep: "\<exists>it1 v1 tasks doomed items' v'. set_index t ni (items ! m) v = Some (it1, v1) \<and>
      walk t (Suc i) es (items[m := it1\<lparr>it_nodes := fst (fixUp (vw_kids v1) (it_nodes it1))\<rparr>]) li' (Suc ni) v1 =
        Some (tasks, doomed, items', v') \<and>
      walked t i li ni (e # es) items v ((i, Keep m ni) # tasks, doomed, items', v')"
    if u: "uses li (e # es) = (True, m) # uses li' es" "tasks_of i li ni (e # es) = (i, Keep m ni) # tasks_of (Suc i) li' (Suc ni) es"
      and m: "m < length items" and f: "fits (map it_entry items) li' es" for m li'
  proof -
    have lab: "labelled t (items ! m)" using Cons.prems(4) u(1) by simp
    obtain it1 v1 where s: "set_index t ni (items ! m) v = Some (it1, v1)" "laid (items[m := it1]) v1" "labelled t it1"
      "it_entry it1 = it_entry (items ! m)" "it_index it1 = ni" "vw_data v1 = vw_data v"
      "\<not> t_reads_index t \<Longrightarrow> it_nodes it1 = it_nodes (items ! m) \<and> vw_next v1 = vw_next v"
      using set_index_spec [OF Cons.prems(1) m lab st, of ni] by blast
    have fx: "it1\<lparr>it_nodes := fst (fixUp (vw_kids v1) (it_nodes it1))\<rparr> = it1"
      using fixUp_item [OF s(2), of m] m by simp
    have d: "distinct (map snd (uses li' es))" "m \<notin> snd ` set (uses li' es)" using Cons.prems(3) u(1) by auto
    have e: "map it_entry (items[m := it1]) = map it_entry items"
      using m s(4) by (simp add: map_update list_update_same_conv)
    have "\<forall>p. (True, p) \<in> set (uses li' es) \<longrightarrow> labelled t (items[m := it1] ! p)"
      using Cons.prems(4) d(2) u(1) m s(3) by (auto simp: nth_list_update)
    then obtain r where r: "walk t (Suc i) es (items[m := it1]) li' (Suc ni) v1 = Some r"
      "walked t (Suc i) li' (Suc ni) es (items[m := it1]) v1 r"
      using Cons.IH [OF s(2) _ d(1), of "Suc i" "Suc ni"] f e by metis
    obtain tasks doomed items' v' where r': "r = (tasks, doomed, items', v')" by (cases r)
    have "walked t i li ni (e # es) items v ((i, Keep m ni) # tasks, doomed, items', v')"
      by (rule walked_keep [OF r(2) [unfolded r'] m d(2) s(3-6) _ u]) (use s(7) in blast)
    then show ?thesis using s(1) r(1) r' by (auto simp: fx)
  qed
  show ?case
  proof (cases "ee_status e")
    case ERetained
    then show ?thesis using keep [of li "Suc li"] Cons.prems(2) by (auto simp: aget_def)
  next
    case EAdded
    show ?thesis
    proof (cases "ee_moved e")
      case (Some m)
      then show ?thesis using keep [of m li] EAdded Cons.prems(2) by (auto simp: aget_def)
    next
      case None
      have u: "uses li (e # es) = uses li es" using EAdded None by simp
      obtain r where r: "walk t (Suc i) es items li (Suc ni) v = Some r" "walked t (Suc i) li (Suc ni) es items v r"
        using Cons.IH [of items v li "Suc i" "Suc ni"] Cons.prems u EAdded by auto
      obtain tasks doomed items' v' where r': "r = (tasks, doomed, items', v')" by (cases r)
      have "walked t i li ni (e # es) items v ((i, Create (ee_value e) ni) # tasks, doomed, items', v')"
        using r(2) EAdded None unfolding r' walked_def by auto
      then show ?thesis using r(1) r' EAdded None by auto
    qed
  next
    case EDeleted
    show ?thesis
    proof (cases "ee_moved e")
      case (Some m)
      have "\<exists>r. walk t (Suc i) es items (Suc li) ni v = Some r \<and> walked t (Suc i) (Suc li) ni es items v r"
        using Cons.IH [of items v "Suc li" "Suc i" ni] Cons.prems EDeleted Some by auto
      then show ?thesis using EDeleted Some by (auto simp: walked_def)
    next
      case None
      let ?it = "(items ! li)\<lparr>it_live := False\<rparr>"
      let ?v = "if it_live (items ! li) then record_call (Disposed (it_entry (items ! li))) v else v"
      have u: "uses li (e # es) = (False, li) # uses (Suc li) es" and li: "li < length items"
        and f: "fits (map it_entry items) (Suc li) es"
        using EDeleted None Cons.prems(2) by auto
      have d: "distinct (map snd (uses (Suc li) es))" "li \<notin> snd ` set (uses (Suc li) es)" using Cons.prems(3) u by auto
      have same: "map it_nodes (items[li := ?it]) = map it_nodes items" "map it_entry (items[li := ?it]) = map it_entry items"
        using li by (simp_all add: map_update list_update_same_conv)
      have l: "laid (items[li := ?it]) ?v" by (rule laid_cong [OF Cons.prems(1) same(1)]) auto
      have "\<forall>p. (True, p) \<in> set (uses (Suc li) es) \<longrightarrow> labelled t (items[li := ?it] ! p)"
      proof (intro allI impI)
        fix p assume p: "(True, p) \<in> set (uses (Suc li) es)"
        then have "p \<noteq> li" using d(2) by force
        moreover have "labelled t (items ! p)" using Cons.prems(4) p unfolding u by simp
        ultimately show "labelled t (items[li := ?it] ! p)" by simp
      qed
      then obtain r where r: "walk t (Suc i) es (items[li := ?it]) (Suc li) ni ?v = Some r"
        "walked t (Suc i) (Suc li) ni es (items[li := ?it]) ?v r"
        using Cons.IH [OF l _ d(1), of "Suc i" ni] f same(2) by metis
      obtain tasks doomed items' v' where r': "r = (tasks, doomed, items', v')" by (cases r)
      have "walked t i li ni (e # es) items v (tasks, it_nodes (items ! li) @ doomed, items', v')"
        by (rule walked_delete [OF r(2) [unfolded r'] li d(2) _ _ _ _ u]) (simp_all add: EDeleted)
      then show ?thesis
        using r(1) r' EDeleted None li nb fixUp_item [OF Cons.prems(1) li] by (auto simp: aget_def)
    qed
  qed
qed

subsection \<open>Putting the queue in order\<close>

lemma distinct_concat_nth:
  assumes "distinct (concat xss)" "i < length xss"
  shows "distinct (xss ! i)" and "\<And>j. j < length xss \<Longrightarrow> i \<noteq> j \<Longrightarrow> set (xss ! i) \<inter> set (xss ! j) = {}"
proof -
  have c: "concat xss = concat (take i xss) @ xss ! i @ concat (drop (Suc i) xss)"
    by (subst id_take_nth_drop [OF assms(2)]) simp
  then show "distinct (xss ! i)" using assms(1) by simp
  fix j assume j: "j < length xss" "i \<noteq> j"
  have "xss ! j \<in> set (take i xss) \<or> xss ! j \<in> set (drop (Suc i) xss)"
  proof (cases "j < i")
    case True
    then show ?thesis using j(1) by (auto simp: in_set_conv_nth intro!: exI [of _ j])
  next
    case False
    then show ?thesis using j by (auto simp: in_set_conv_nth intro!: exI [of _ "j - Suc i"])
  qed
  then show "set (xss ! i) \<inter> set (xss ! j) = {}" using assms(1) c by auto
qed

lemma distinct_concat_nths:
  assumes "distinct (concat xss)"
  shows "distinct ms \<Longrightarrow> (\<forall>m \<in> set ms. m < length xss) \<Longrightarrow> distinct (concat (map ((!) xss) ms))"
proof (induction ms)
  case (Cons m ms)
  have "set (xss ! m) \<inter> set (xss ! k) = {}" if "k \<in> set ms" for k
    using distinct_concat_nth(2) [OF assms, of m k] Cons.prems that by auto
  then show ?case using Cons distinct_concat_nth(1) [OF assms, of m] by auto
qed simp

text \<open>The nodes of the items kept, in the order of the queue.\<close>

definition kept_nodes :: "'a item list \<Rightarrow> (nat \<times> 'a task) list \<Rightarrow> dnode list" where
  "kept_nodes items tasks = concat (map (\<lambda>m. it_nodes (items ! m)) (concat (map (kept_at \<circ> snd) tasks)))"

definition tidy :: "'a view \<Rightarrow> bool" where
  "tidy v \<longleftrightarrow> distinct (map fst (vw_kids v)) \<and> (\<forall>n \<in> set (vw_kids v). fst n < vw_next v)"

text \<open>What becomes of a task: the item kept, or a new one.\<close>

definition fulfils :: "'a template \<Rightarrow> 'a item list \<Rightarrow> nat \<Rightarrow> 'a task \<Rightarrow> 'a item \<Rightarrow> bool" where
  "fulfils t items next task it \<longleftrightarrow>
     it_entry it = task_entry (map it_entry items) task \<and> it_index it = task_index task \<and> labelled t it \<and>
     (case task of Keep m i \<Rightarrow> it_nodes it = it_nodes (items ! m) | _ \<Rightarrow> \<forall>n \<in> set (it_nodes it). next \<le> fst n)"

lemma fulfils_later: "fulfils t items k task it \<Longrightarrow> next \<le> k \<Longrightarrow> fulfils t items next task it"
  by (auto simp: fulfils_def split: task.splits)

lemma remove_kids_append: "remove_kids (ms @ ns) ks = remove_kids ns (remove_kids ms ks)"
  by (auto simp: remove_kids_def intro: filter_cong)

lemma tidy_permuted: "tidy v \<Longrightarrow> set ks = set (vw_kids v) \<Longrightarrow> distinct ks \<Longrightarrow> tidy (v\<lparr>vw_kids := ks\<rparr>)"
  by (auto simp: tidy_def distinct_map)

lemma tidy_cong: "vw_kids v' = vw_kids v \<Longrightarrow> vw_next v' = vw_next v \<Longrightarrow> tidy v' = tidy v"
  by (simp add: tidy_def)

lemma process_spec:
  assumes "\<forall>(j, task) \<in> set tasks. case task of Keep m n \<Rightarrow> m < length items \<and> labelled t (items ! m) \<and> it_index (items ! m) = n
        | Create x n \<Rightarrow> True | Remove m \<Rightarrow> False"
    and "tidy v" "vw_kids v = pre @ rest" "distinct (kept_nodes items tasks)" "set (kept_nodes items tasks) \<subseteq> set rest"
  shows "\<exists>its v'. process t items tasks (first_child rest) (if pre = [] then None else Some (last pre)) v = (its, v') \<and>
    tidy v' \<and> vw_kids v' = pre @ concat (map it_nodes its) @ remove_kids (kept_nodes items tasks) rest \<and>
    vw_data v' = vw_data v \<and> list_all2 (\<lambda>task. fulfils t items (vw_next v) (snd task)) tasks its"
  using assms
proof (induction tasks arbitrary: v pre rest)
  case Nil
  then show ?case by (simp add: kept_nodes_def remove_kids_def)
next
  case (Cons head tasks)
  obtain i task where h: "head = (i, task)" by (cases head)
  obtain it v1 where it: "task_item t items task v = (it, v1)" by (cases "task_item t items task v")
  let ?ns = "it_nodes it" and ?keep = "concat (map (\<lambda>m. it_nodes (items ! m)) (kept_at task))"
  have K: "kept_nodes items (head # tasks) = ?keep @ kept_nodes items tasks"
    by (simp add: kept_nodes_def h)
  have step: "vw_kids v1 = pre @ rest \<and> vw_data v1 = vw_data v \<and> vw_next v \<le> vw_next v1 \<and>
      fulfils t items (vw_next v) task it \<and> distinct (pre @ ?ns) \<and> remove_kids ?ns rest = remove_kids ?keep rest \<and>
      tidy (v1\<lparr>vw_kids := pre @ ?ns @ remove_kids ?ns rest\<rparr>)"
  proof (cases task)
    case (Keep m n)
    have ns: "?ns = it_nodes (items ! m)" "v1 = v" "?keep = ?ns" "it = items ! m" using it Keep by (simp_all add: task_item_def)
    have sub: "set ?ns \<subseteq> set rest" "distinct ?ns" using Cons.prems(4,5) K ns(3) by auto
    have d: "distinct (pre @ rest)"
      using Cons.prems(2) unfolding tidy_def distinct_map Cons.prems(3) by blast
    have "distinct (pre @ ?ns @ remove_kids ?ns rest)" "set (pre @ ?ns @ remove_kids ?ns rest) = set (vw_kids v)"
      using sub d Cons.prems(3) by (auto simp: remove_kids_def)
    then show ?thesis
      using Cons.prems(1-3) ns Keep h d sub tidy_permuted [of v] by (auto simp: fulfils_def)
  next
    case (Create x n)
    obtain new v2 where new: "make_nodes (t_mapping t x n) v = (new, v2)" by (cases "make_nodes (t_mapping t x n) v")
    note mk = make_nodes_spec [OF new]
    have ns: "?ns = new" "v1 = v2" "it_entry it = x" "it_index it = n" "it_live it = t_reads_index t" "?keep = []"
      using it Create new by (auto simp: task_item_def map_new_def)
    have fresh: "vw_next v \<le> fst k \<and> fst k < vw_next v + length (t_mapping t x n)" if "k \<in> set new" for k
    proof -
      have "fst k \<in> set (map fst new)" using that by simp
      then show ?thesis unfolding mk(3) by simp
    qed
    have old: "fst k < vw_next v" if "k \<in> set (pre @ rest)" for k using Cons.prems(2,3) that by (simp add: tidy_def)
    have disj: "fst ` set new \<inter> fst ` set (pre @ rest) = {}" using fresh old by fastforce
    then have "set new \<inter> set (pre @ rest) = {}" by auto
    then have r: "remove_kids new rest = rest" by (auto simp: remove_kids_def filter_id_conv)
    have dn: "distinct (map fst new)" using mk(3) by simp
    have bound: "\<forall>k \<in> set (pre @ new @ rest). fst k < vw_next v + length (t_mapping t x n)"
    proof
      fix k assume "k \<in> set (pre @ new @ rest)"
      then have "k \<in> set new \<or> k \<in> set (pre @ rest)" by auto
      then show "fst k < vw_next v + length (t_mapping t x n)" using fresh [of k] old [of k] by linarith
    qed
    have "distinct (map fst (pre @ new @ rest))" using dn disj Cons.prems(2,3) by (auto simp: tidy_def)
    moreover from this have "distinct (pre @ new)" by (auto simp: distinct_map)
    ultimately show ?thesis
      using Cons.prems(3) ns r bound fresh mk(1,2) Create
      by (simp add: tidy_def fulfils_def labelled_def remove_kids_def)
  next
    case (Remove m)
    then show ?thesis using Cons.prems(1) h by simp
  qed
  let ?rest = "remove_kids ?keep rest" and ?v2 = "v1\<lparr>vw_kids := pre @ ?ns @ remove_kids ?ns rest\<rparr>"
  define v3 where "v3 = (if \<not> it_initialized it \<and> t_callback t
      then record_call (NodesAdded (it_entry it) ?ns (it_index it)) ?v2 else ?v2)"
  have v3: "tidy v3" "vw_kids v3 = (pre @ ?ns) @ ?rest" "vw_data v3 = vw_data v" "vw_next v \<le> vw_next v3"
  proof -
    have same: "vw_kids v3 = vw_kids ?v2" "vw_next v3 = vw_next ?v2" "vw_data v3 = vw_data ?v2" by (simp_all add: v3_def)
    have "tidy ?v2" using step by blast
    then show "tidy v3" using tidy_cong [OF same(1,2)] by blast
  qed (use step in \<open>simp_all add: v3_def\<close>)
  have "distinct (vw_kids v)" using Cons.prems(2) unfolding tidy_def distinct_map by blast
  then have d: "distinct rest" "set pre \<inter> set rest = {}" using Cons.prems(3) by simp_all
  have place: "place ?ns (first_child rest) (if pre = [] then None else Some (last pre)) (vw_kids v1) =
      (first_child ?rest, if pre @ ?ns = [] then None else Some (last (pre @ ?ns)), pre @ ?ns @ remove_kids ?ns rest)"
    using place_spec [of pre ?ns rest] d step by simp
  have sub: "set (kept_nodes items tasks) \<subseteq> set ?rest"
    using Cons.prems(4,5) unfolding K by (auto simp: remove_kids_def)
  have dk: "distinct (kept_nodes items tasks)" using Cons.prems(4) K by simp
  obtain its v' where ih: "process t items tasks (first_child ?rest) (if pre @ ?ns = [] then None else Some (last (pre @ ?ns))) v3 = (its, v')"
    "tidy v'" "vw_kids v' = (pre @ ?ns) @ concat (map it_nodes its) @ remove_kids (kept_nodes items tasks) ?rest"
    "vw_data v' = vw_data v3" "list_all2 (\<lambda>task. fulfils t items (vw_next v3) (snd task)) tasks its"
    using Cons.IH [OF _ v3(1,2) dk sub] Cons.prems(1) by auto
  have later: "list_all2 (\<lambda>task. fulfils t items (vw_next v) (snd task)) tasks its"
    by (rule list_all2_mono [OF ih(5)]) (rule fulfils_later [OF _ v3(4)])
  let ?it = "it\<lparr>it_initialized := it_initialized it \<or> (\<not> it_initialized it \<and> t_callback t)\<rparr>"
  have "process t items (head # tasks) (first_child rest) (if pre = [] then None else Some (last pre)) v = (?it # its, v')"
    unfolding h process.simps it Let_def prod.case place using ih(1) by (simp add: v3_def)
  moreover have "fulfils t items (vw_next v) task ?it"
    using step by (simp add: fulfils_def labelled_def split: task.splits)
  ultimately show ?case
    using ih(2-4) v3(3) later K h by (intro exI [of _ "?it # its"] exI [of _ v']) (simp add: remove_kids_append)
qed

subsection \<open>Updates follow the array\<close>

definition from_scratch :: "'a template \<Rightarrow> 'a list \<Rightarrow> string list" where
  "from_scratch t xs = concat (map (\<lambda>(i, x). t_mapping t x i) (enumerate 0 xs))"

text \<open>The view shows an array: its items are those of the array, at their indexes, and the children are
  their nodes in order.\<close>

definition view_shows :: "'a template \<Rightarrow> 'a list \<Rightarrow> 'a view \<Rightarrow> bool" where
  "view_shows t xs v \<longleftrightarrow>
     (case vw_data v of
        None \<Rightarrow> xs = [] \<and> vw_kids v = []
      | Some items \<Rightarrow> map it_entry items = xs \<and> laid items v \<and>
          (\<forall>i < length items. labelled t (items ! i) \<and> it_index (items ! i) = i))"

lemma laid_tidy: "laid items v \<Longrightarrow> tidy v"
  unfolding laid_def tidy_def by blast

lemma call_callback_sel [simp]:
  "vw_kids (call_callback b c its v) = vw_kids v" "vw_data (call_callback b c its v) = vw_data v"
  "vw_next (call_callback b c its v) = vw_next v"
proof -
  have inner: "vw_kids (fold (\<lambda>n. record_call (c n i x)) ns v) = vw_kids v \<and>
      vw_data (fold (\<lambda>n. record_call (c n i x)) ns v) = vw_data v \<and>
      vw_next (fold (\<lambda>n. record_call (c n i x)) ns v) = vw_next v" for i x ns and v :: "'a view"
    by (induction ns arbitrary: v) simp_all
  have "vw_kids (fold (\<lambda>(i, it). fold (\<lambda>n. record_call (c n i (it_entry it))) (it_nodes it)) its v) = vw_kids v \<and>
      vw_data (fold (\<lambda>(i, it). fold (\<lambda>n. record_call (c n i (it_entry it))) (it_nodes it)) its v) = vw_data v \<and>
      vw_next (fold (\<lambda>(i, it). fold (\<lambda>n. record_call (c n i (it_entry it))) (it_nodes it)) its v) = vw_next v"
    by (induction its arbitrary: v) (auto simp: inner)
  then show "vw_kids (call_callback b c its v) = vw_kids v" "vw_data (call_callback b c its v) = vw_data v"
    "vw_next (call_callback b c its v) = vw_next v"
    by (simp_all add: call_callback_def)
qed

lemma tidy_filter: "tidy v \<Longrightarrow> tidy (v\<lparr>vw_kids := filter p (vw_kids v)\<rparr>)"
  by (auto simp: tidy_def distinct_map intro: inj_on_subset)

lemma kept_items:
  assumes len: "length tasks = length its" and no: "\<And>j m. (j, Remove m) \<notin> set tasks"
  shows "map snd (items_of (\<lambda>task. \<not> removed_task task) tasks its) = its"
proof -
  have "filter (\<lambda>((i, task), it). \<not> removed_task task) (zip tasks its) = zip tasks its"
    using no by (auto simp: filter_id_conv removed_task_def dest!: set_zip_leftD split: task.splits)
  then show ?thesis using len by (simp add: items_of_def o_def case_prod_unfold map_snd_zip)
qed

text \<open>After the walk the children are the nodes kept and the nodes to delete.\<close>

lemma walked_queue:
  assumes w: "walked t 0 0 0 es olds v (tasks, doomed, items, v1)" and es: "well_indexed es" "moves_paired es"
    and len: "length olds = length (values_not EAdded es)"
  shows "\<forall>(j, task) \<in> set tasks. case task of Keep m n \<Rightarrow> m < length items \<and> labelled t (items ! m) \<and> it_index (items ! m) = n
        | Create x n \<Rightarrow> True | Remove m \<Rightarrow> False"
    and "distinct (kept_nodes items tasks)"
    and "set (remove_kids doomed (vw_kids v1)) = set (kept_nodes items tasks)"
proof -
  note w' = w [unfolded walked_def prod.case]
  note once = uses_once [OF es]
  let ?kept = "map snd (filter fst (uses 0 es))"
  have ks: "concat (map (kept_at \<circ> snd) tasks) = ?kept"
    using tasks_kept [of 0 0 0 es] w' by simp
  have pos: "p < length items \<longleftrightarrow> p \<in> snd ` set (uses 0 es)" for p using once(2) len w' by simp
  have kept: "m < length items \<and> labelled t (items ! m) \<and> it_index (items ! m) = n" if "(j, Keep m n) \<in> set tasks" for j m n
  proof -
    have "m \<in> set ?kept" unfolding ks [symmetric] using that by force
    then show ?thesis using w' that pos by auto
  qed
  show "\<forall>(j, task) \<in> set tasks. case task of Keep m n \<Rightarrow> m < length items \<and> labelled t (items ! m) \<and> it_index (items ! m) = n
        | Create x n \<Rightarrow> True | Remove m \<Rightarrow> False"
  proof
    fix e assume e: "e \<in> set tasks"
    obtain j task where j: "e = (j, task)" by (cases e)
    show "case e of (j, task) \<Rightarrow> case task of Keep m n \<Rightarrow> m < length items \<and> labelled t (items ! m) \<and> it_index (items ! m) = n
        | Create x n \<Rightarrow> True | Remove m \<Rightarrow> False"
    proof (cases task)
      case (Keep m n)
      then show ?thesis using kept [of j m n] e j by simp
    next
      case (Remove m)
      then show ?thesis using e j w' tasks_no_remove by metis
    qed (simp add: j)
  qed
  have kn: "kept_nodes items tasks = concat (map ((!) (map it_nodes items)) ?kept)"
  proof -
    have "m < length items" if "m \<in> set ?kept" for m using that pos by force
    then show ?thesis unfolding kept_nodes_def ks by (intro arg_cong [where f = concat] map_cong) simp_all
  qed
  have dl: "distinct (concat (map it_nodes items))" using w' unfolding laid_def distinct_map by metis
  show "distinct (kept_nodes items tasks)"
    unfolding kn
  proof (rule distinct_concat_nths [OF dl])
    show "distinct ?kept" using once(1) by (simp add: distinct_map_filter)
  qed (use pos in auto)
  have kids: "set (vw_kids v1) = (\<Union>p \<in> {..<length items}. set (it_nodes (items ! p)))"
  proof -
    have "vw_kids v1 = concat (map it_nodes items)" using w' unfolding laid_def by blast
    moreover have "set items = (!) items ` {..<length items}" by (auto simp: set_conv_nth)
    ultimately show ?thesis by simp
  qed
  have kept_set: "set (kept_nodes items tasks) = (\<Union>p \<in> {p. (True, p) \<in> set (uses 0 es)}. set (it_nodes (items ! p)))"
    unfolding kept_nodes_def ks by force
  have all: "{..<length items} = {p. (True, p) \<in> set (uses 0 es)} \<union> {p. (False, p) \<in> set (uses 0 es)}"
  proof -
    have "p \<in> snd ` set (uses 0 es) \<longleftrightarrow> (True, p) \<in> set (uses 0 es) \<or> (False, p) \<in> set (uses 0 es)" for p
    proof
      assume "p \<in> snd ` set (uses 0 es)"
      then obtain b where "(b, p) \<in> set (uses 0 es)" by force
      then show "(True, p) \<in> set (uses 0 es) \<or> (False, p) \<in> set (uses 0 es)" by (cases b) simp_all
    qed force
    then show ?thesis using pos by auto
  qed
  have apart: "set (it_nodes (items ! p)) \<inter> set (it_nodes (items ! q)) = {}"
    if "(True, p) \<in> set (uses 0 es)" "(False, q) \<in> set (uses 0 es)" for p q
  proof -
    have "inj_on snd (set (uses 0 es))" using once(1) by (simp add: distinct_map)
    then have "p \<noteq> q" using that inj_onD [of snd "set (uses 0 es)" "(True, p)" "(False, q)"] by auto
    moreover have "p < length items" "q < length items" using that all by auto
    ultimately show ?thesis using distinct_concat_nth(2) [OF dl, of p q] by simp
  qed
  have "set doomed = (\<Union>p \<in> {p. (False, p) \<in> set (uses 0 es)}. set (it_nodes (items ! p)))" using w' by blast
  then show "set (remove_kids doomed (vw_kids v1)) = set (kept_nodes items tasks)"
    using apart unfolding remove_kids_def set_filter kids kept_set all by blast
qed

lemma kept_or_new:
  assumes "fulfils t items k task it" "\<And>m. task \<noteq> Remove m" "\<And>m n. task = Keep m n \<Longrightarrow> m < length items"
    and "map it_entry items = map it_entry olds" "map it_nodes items = map it_nodes olds"
  shows "(\<exists>w \<in> set olds. it_entry it = it_entry w \<and> it_nodes it = it_nodes w) \<or> (\<forall>n \<in> set (it_nodes it). k \<le> fst n)"
proof (cases task)
  case (Keep m n)
  have len: "length items = length olds" using assms(4) by (metis length_map)
  have m: "m < length items" by (rule assms(3) [OF Keep])
  have "it_entry it = it_entry (olds ! m)" "it_nodes it = it_nodes (olds ! m)"
    using assms(1) Keep m len nth_map [OF m, of it_entry] nth_map [OF m, of it_nodes]
    by (simp_all add: fulfils_def assms(4,5))
  then show ?thesis using m len nth_mem by metis
qed (use assms(1,2) in \<open>auto simp: fulfils_def\<close>)

text \<open>One update, from a view that shows one array to a view that shows the next.\<close>

lemma update_shows:
  assumes st: "steady t" and nb: "\<not> t_beforeRemove t" and v: "view_shows t xs v"
  shows "\<exists>v' its. setDomNodeChildrenFromArrayMapping t ys v = Some v' \<and> view_shows t ys v' \<and> vw_data v' = Some its \<and>
    (\<not> t_reads_index t \<longrightarrow> (\<forall>it \<in> set its.
       (\<exists>old. vw_data v = Some old \<and> (\<exists>w \<in> set old. it_entry it = it_entry w \<and> it_nodes it = it_nodes w)) \<or>
       (\<forall>n \<in> set (it_nodes it). vw_next v \<le> fst n)))"
proof -
  define olds where "olds = (case vw_data v of None \<Rightarrow> [] | Some its \<Rightarrow> its)"
  have olds: "map it_entry olds = xs" "laid olds v" "\<And>i. i < length olds \<Longrightarrow> labelled t (olds ! i) \<and> it_index (olds ! i) = i"
    using v by (auto simp: view_shows_def olds_def laid_def split: option.splits)
  obtain es where es: "compareArrays xs ys False = Some es" "values_not EAdded es = xs" "values_not EDeleted es = ys"
    "well_indexed es" "moves_paired es"
    by (rule compareArrays_script)
  have len: "length olds = length (values_not EAdded es)" using olds(1) es(2) by (metis length_map)
  note once = uses_once [OF es(4,5)]
  have "\<forall>m. (True, m) \<in> set (uses 0 es) \<longrightarrow> labelled t (olds ! m)"
  proof (intro allI impI)
    fix m assume "(True, m) \<in> set (uses 0 es)"
    then have "m \<in> snd ` set (uses 0 es)" by force
    then show "labelled t (olds ! m)" using once(2) olds(3) len by simp
  qed
  moreover have fits: "fits (map it_entry olds) 0 es" using script_fits [OF es(4,5)] es(2) olds(1) by simp
  ultimately obtain tasks doomed items v1 where w: "walk t 0 es olds 0 0 v = Some (tasks, doomed, items, v1)"
    "walked t 0 0 0 es olds v (tasks, doomed, items, v1)"
    using walk_spec [OF st nb olds(2), of 0 es 0 0] once(1) by (metis prod_cases4)
  note w' = w(2) [unfolded walked_def prod.case]
  note q = walked_queue [OF w(2) es(4,5) len]
  define v3 where "v3 = (call_callback (t_beforeMove t) BeforeMove (List.map_filter (moving_item items) tasks) v1)
      \<lparr>vw_kids := remove_kids doomed (vw_kids v1)\<rparr>"
  have "tidy v1" using w' laid_tidy by blast
  then have tidy: "tidy v3" unfolding v3_def remove_kids_def
    by (auto simp: tidy_def distinct_map intro: inj_on_subset)
  have kids3: "vw_kids v3 = remove_kids doomed (vw_kids v1)" and next3: "vw_next v3 = vw_next v1" by (simp_all add: v3_def)
  obtain its v4 where p: "process t items tasks (first_child (vw_kids v3)) None v3 = (its, v4)" "tidy v4"
    "vw_kids v4 = concat (map it_nodes its) @ remove_kids (kept_nodes items tasks) (vw_kids v3)"
    "list_all2 (\<lambda>task. fulfils t items (vw_next v3) (snd task)) tasks its"
    using process_spec [OF q(1) tidy, of "[]" "vw_kids v3"] q(2,3) kids3 by auto
  have kids4: "vw_kids v4 = concat (map it_nodes its)"
    using p(3) q(3) kids3 by (auto simp: remove_kids_def filter_empty_conv)
  have each: "fulfils t items (vw_next v3) (snd (tasks ! i)) (its ! i)" if "i < length its" for i
    using p(4) that by (simp add: list_all2_conv_all_nth)
  have ln: "length tasks = length its" using p(4) by (rule list_all2_lengthD)
  have entries: "map it_entry its = ys"
  proof -
    have "map it_entry its = map (task_entry (map it_entry items) \<circ> snd) tasks"
      using each ln by (intro nth_equalityI) (auto simp: fulfils_def)
    also have "\<dots> = ys" using tasks_entries [OF fits, of 0 0] w' es(3) by simp
    finally show ?thesis .
  qed
  have index: "it_index (its ! i) = i \<and> labelled t (its ! i)" if "i < length its" for i
  proof -
    have "map (task_index \<circ> snd) tasks = [0..<length its]"
      using tasks_indexes [of 0 0 0 es] w' es(3) entries by (metis length_map add_0)
    then have "task_index (snd (tasks ! i)) = i" using that ln by (metis comp_apply nth_map nth_upt add_0)
    then show ?thesis using each [OF that] by (simp add: fulfils_def)
  qed
  define v7 where "v7 = call_callback (t_afterAdd t \<and> vw_data v \<noteq> None) AfterAdd (items_of new_task tasks its)
     (call_callback (t_afterMove t) AfterMove (items_of moved_task tasks its) v4)"
  have no_remove: "(j, Remove m) \<notin> set tasks" for j m using w' tasks_no_remove by metis
  have run: "setDomNodeChildrenFromArrayMapping t ys v = Some (v7\<lparr>vw_data := Some its\<rparr>)"
    using es(1) olds(1) w(1) p(1) nb kept_items [OF ln no_remove]
    by (simp add: setDomNodeChildrenFromArrayMapping_def olds_def [symmetric] Let_def v3_def v7_def call_callback_def [of False])
  have "laid its (v7\<lparr>vw_data := Some its\<rparr>)"
    using p(2) kids4 by (simp add: laid_def tidy_def v7_def)
  then have "view_shows t ys (v7\<lparr>vw_data := Some its\<rparr>)"
    using entries index by (simp add: view_shows_def)
  moreover have "(\<exists>old. vw_data v = Some old \<and> (\<exists>w \<in> set old. it_entry it = it_entry w \<and> it_nodes it = it_nodes w)) \<or>
       (\<forall>n \<in> set (it_nodes it). vw_next v \<le> fst n)" if nr: "\<not> t_reads_index t" and it: "it \<in> set its" for it
  proof -
    obtain i where i: "i < length its" "it = its ! i" using it by (auto simp: in_set_conv_nth)
    obtain j task where task: "tasks ! i = (j, task)" by (cases "tasks ! i")
    have t: "(j, task) \<in> set tasks" using task i(1) ln by (metis nth_mem)
    have same: "map it_entry items = map it_entry olds" "map it_nodes items = map it_nodes olds" "vw_next v1 = vw_next v"
      using w' nr by auto
    have "(\<exists>w \<in> set olds. it_entry it = it_entry w \<and> it_nodes it = it_nodes w) \<or> (\<forall>n \<in> set (it_nodes it). vw_next v3 \<le> fst n)"
    proof (rule kept_or_new [OF _ _ _ same(1,2)])
      show "fulfils t items (vw_next v3) task it" using each [OF i(1)] task i(2) by simp
      show "task \<noteq> Remove m" for m using t no_remove by blast
      show "m < length items" if "task = Keep m n" for m n using q(1) t that by fastforce
    qed
    then show ?thesis using next3 same(3) by (cases "vw_data v") (simp_all add: olds_def)
  qed
  ultimately show ?thesis using run by (intro exI [of _ "v7\<lparr>vw_data := Some its\<rparr>"] exI [of _ its]) simp
qed

text \<open>The contents of the children are those of an array rendered from scratch.\<close>

lemma map_concat: "map f (concat xss) = concat (map (map f) xss)"
  by (induction xss) simp_all

lemma shown_contents:
  assumes "view_shows t xs v" "vw_data v \<noteq> None"
  shows "map snd (vw_kids v) = from_scratch t xs"
proof -
  obtain items where i: "vw_data v = Some items" "map it_entry items = xs" "vw_kids v = concat (map it_nodes items)"
    "\<And>i. i < length items \<Longrightarrow> labelled t (items ! i) \<and> it_index (items ! i) = i"
    using assms by (auto simp: view_shows_def laid_def)
  have "map (\<lambda>it. map snd (it_nodes it)) items = map (\<lambda>(i, x). t_mapping t x i) (enumerate 0 xs)"
    using i(2,4) by (intro nth_equalityI) (auto simp: labelled_def nth_enumerate_eq)
  then show ?thesis by (simp add: from_scratch_def i(3) map_concat o_def)
qed

fun render_all :: "'a template \<Rightarrow> 'a list list \<Rightarrow> 'a view \<Rightarrow> 'a view option" where
  "render_all t [] v = Some v"
| "render_all t (xs # xss) v =
     (case setDomNodeChildrenFromArrayMapping t xs v of None \<Rightarrow> None | Some v' \<Rightarrow> render_all t xss v')"

lemma render_all_shows:
  assumes "steady t" "\<not> t_beforeRemove t"
  shows "view_shows t ys v \<Longrightarrow>
    \<exists>v'. render_all t xss v = Some v' \<and> view_shows t (last (ys # xss)) v' \<and> (xss \<noteq> [] \<longrightarrow> vw_data v' \<noteq> None)"
proof (induction xss arbitrary: ys v)
  case (Cons xs xss)
  obtain v1 where v1: "setDomNodeChildrenFromArrayMapping t xs v = Some v1" "view_shows t xs v1" "vw_data v1 \<noteq> None"
    using update_shows [OF assms Cons.prems, of xs] by blast
  obtain v' where v': "render_all t xss v1 = Some v'" "view_shows t (last (xs # xss)) v'" "xss \<noteq> [] \<longrightarrow> vw_data v' \<noteq> None"
    using Cons.IH [OF v1(2)] by blast
  then show ?case using v1 by (cases xss) auto
qed simp

lemma empty_view_shows: "view_shows t [] empty_view"
  by (simp add: view_shows_def empty_view_def)

text \<open>C5: However an array changes, the children of its container are, after every update, those that the
  array has when it is rendered from scratch, if the mapping is steady and no callback delays the removal
  of nodes.\<close>

theorem children_follow_array:
  assumes "steady t" and "\<not> t_beforeRemove t"
  shows "\<exists>v. render_all t (xss @ [xs]) empty_view = Some v \<and> map snd (vw_kids v) = from_scratch t xs"
  using render_all_shows [OF assms empty_view_shows, of "xss @ [xs]"] shown_contents by fastforce

text \<open>A list of entries, each a heading and a text.\<close>

definition plain_template :: "string template" where
  "plain_template =
     \<lparr>t_mapping = (\<lambda>x i. [''# '' @ x, x]), t_reads_index = False, t_callback = True, t_beforeMove = False,
      t_afterMove = False, t_beforeRemove = False, t_afterAdd = False\<rparr>"

theorem children_follow_array_witness:
  "\<exists>v. render_all plain_template [[''a'', ''b''], [''b'', ''c'', ''a'']] empty_view = Some v \<and>
     map snd (vw_kids v) = [''# b'', ''b'', ''# c'', ''c'', ''# a'', ''a'']"
proof -
  have "steady plain_template" "\<not> t_beforeRemove plain_template" by (simp_all add: steady_def plain_template_def)
  from children_follow_array [OF this, of "[[''a'', ''b'']]" "[''b'', ''c'', ''a'']"] show ?thesis
    by (simp add: from_scratch_def plain_template_def)
qed

text \<open>C6: An update makes nodes only for new items: with a mapping that does not read its index, every item
  afterwards has the nodes that an item of the same entry had before, or nodes that did not exist.\<close>

theorem nodes_are_reused:
  assumes "steady t" and "\<not> t_beforeRemove t" and "\<not> t_reads_index t"
    and "render_all t (xss @ [xs]) empty_view = Some v" and "vw_data v = Some olds"
    and "setDomNodeChildrenFromArrayMapping t ys v = Some v'" and "vw_data v' = Some items" and "it \<in> set items"
  shows "(\<exists>w \<in> set olds. it_entry w = it_entry it \<and> it_nodes w = it_nodes it) \<or>
    (\<forall>n \<in> set (it_nodes it). \<forall>k \<in> set (vw_kids v). fst n \<noteq> fst k)"
proof -
  have v: "view_shows t xs v"
    using render_all_shows [OF assms(1,2) empty_view_shows, of "xss @ [xs]"] assms(4) by auto
  then have "\<forall>k \<in> set (vw_kids v). fst k < vw_next v" using assms(5) by (auto simp: view_shows_def laid_def)
  moreover have "(\<exists>w \<in> set olds. it_entry it = it_entry w \<and> it_nodes it = it_nodes w) \<or>
      (\<forall>n \<in> set (it_nodes it). vw_next v \<le> fst n)"
    using update_shows [OF assms(1,2) v, of ys] assms(3,5-8) by auto
  ultimately show ?thesis by fastforce
qed

theorem nodes_are_reused_witness:
  "\<exists>v olds v' items it. render_all plain_template [[''a'']] empty_view = Some v \<and> vw_data v = Some olds \<and>
     setDomNodeChildrenFromArrayMapping plain_template [''b'', ''a''] v = Some v' \<and> vw_data v' = Some items \<and>
     items ! 1 = it \<and> ((\<exists>w \<in> set olds. it_entry w = it_entry it \<and> it_nodes w = it_nodes it) \<or>
       (\<forall>n \<in> set (it_nodes it). \<forall>k \<in> set (vw_kids v). fst n \<noteq> fst k))"
proof -
  have t: "steady plain_template" "\<not> t_beforeRemove plain_template" "\<not> t_reads_index plain_template"
    by (simp_all add: steady_def plain_template_def)
  obtain v where v: "render_all plain_template ([] @ [[''a'']]) empty_view = Some v" "view_shows plain_template [''a''] v" "vw_data v \<noteq> None"
    using render_all_shows [OF t(1,2) empty_view_shows, of "[[''a'']]"] by auto
  then obtain olds where olds: "vw_data v = Some olds" by blast
  obtain v' items where v': "setDomNodeChildrenFromArrayMapping plain_template [''b'', ''a''] v = Some v'" "vw_data v' = Some items"
    "view_shows plain_template [''b'', ''a''] v'"
    using update_shows [OF t(1,2) v(2), of "[''b'', ''a'']"] by blast
  have "map it_entry items = [''b'', ''a'']" using v'(2,3) by (simp add: view_shows_def)
  then have "length items = 2" by (metis length_map length_Cons list.size(3) numeral_2_eq_2)
  then have "items ! 1 \<in> set items" by simp
  from nodes_are_reused [OF t v(1) olds v'(1,2) this] show ?thesis
    using v(1) olds v' by auto
qed

text \<open>An item without nodes is never mapped again: its computed is disposed of at the next change of the index.\<close>

definition numbered_template :: "string template" where
  "numbered_template = plain_template\<lparr>t_mapping := (\<lambda>x i. if i = 0 then [] else [x]), t_reads_index := True\<rparr>"

lemma empty_item_goes_stale:
  "map_option (\<lambda>v. map snd (vw_kids v)) (render_all numbered_template [[''a''], [''b'', ''a'']] empty_view) = Some [] \<and>
   from_scratch numbered_template [''b'', ''a''] = [''a'']"
  by code_simp

end
