(* ===== verification/KoToJS.thy ===== *)
theory KoToJS
  imports Prelude
begin

text \<open>
  \<open>ko.toJS\<close> of knockout-2.2.0.debug.js: a copy of a graph of objects in which observables are replaced by
  their values. Objects and observables are known by number, so the graph may share objects and have cycles; the copy is
  built in a heap of its own, in which an object has the number of its turn.
\<close>

subsection \<open>Graphs\<close>

datatype gvalue =
    GUndefined
  | GNull
  | GBool bool
  | GNum int
  | GText string
  | GFun nat
  | GDate nat
  | GObs nat
  | GRef nat

text \<open>An array may have a property \<open>toJSON\<close>.\<close>

datatype gobject = GArray "gvalue list" "gvalue option" | GObject "gvalue obj"

record graph =
  g_objects :: "gobject list"
  g_values :: "gvalue list"

text \<open>The loop of the callback: at most \<open>maxNestedObservableDepth\<close> observables are read.\<close>

fun read_nested :: "nat \<Rightarrow> graph \<Rightarrow> gvalue \<Rightarrow> gvalue" where
  "read_nested (Suc n) g (GObs x) = read_nested n g (g_values g ! x)"
| "read_nested n g v = v"

definition mapInput :: "graph \<Rightarrow> gvalue \<Rightarrow> gvalue" where
  "mapInput g v = read_nested 10 g v"

definition typeof_function :: "gvalue \<Rightarrow> bool" where
  "typeof_function v = (case v of GFun f \<Rightarrow> True | GObs x \<Rightarrow> True | _ \<Rightarrow> False)"

text \<open>\<open>typeof v\<close> is \<open>"object"\<close> or \<open>"undefined"\<close>.\<close>

definition object_like :: "gvalue \<Rightarrow> bool" where
  "object_like v = (case v of GUndefined \<Rightarrow> True | GNull \<Rightarrow> True | GDate d \<Rightarrow> True | GRef r \<Rightarrow> True | _ \<Rightarrow> False)"

datatype gkey = KIndex nat | KName string

text \<open>\<open>visitPropertiesOrArrayEntries\<close>\<close>

definition properties :: "gobject \<Rightarrow> (gkey \<times> gvalue) list" where
  "properties ob =
     (case ob of
        GArray vs tj \<Rightarrow> map (\<lambda>(i, v). (KIndex i, v)) (enumerate 0 vs) @
          (case tj of Some v \<Rightarrow> (if typeof_function v then [(KName ''toJSON'', v)] else []) | None \<Rightarrow> [])
      | GObject ps \<Rightarrow> map (\<lambda>(k, v). (KName k, v)) ps)"

subsection \<open>The copy\<close>

record copy =
  cp_seen :: "(nat \<times> nat) list"
  cp_out :: "gobject list"

definition set_property :: "gkey \<Rightarrow> gvalue \<Rightarrow> gobject \<Rightarrow> gobject" where
  "set_property k v ob =
     (case (ob, k) of
        (GArray vs tj, KIndex i) \<Rightarrow>
          GArray (if i < length vs then vs[i := v] else vs @ replicate (i - length vs) GUndefined @ [v]) tj
      | (GArray vs tj, KName n) \<Rightarrow> GArray vs (Some v)
      | (GObject ps, KName n) \<Rightarrow> GObject (oset n v ps)
      | (GObject ps, KIndex i) \<Rightarrow> GObject ps)"

definition put :: "nat \<Rightarrow> gkey \<Rightarrow> gvalue \<Rightarrow> copy \<Rightarrow> copy" where
  "put out k v st = st\<lparr>cp_out := (cp_out st)[out := set_property k v (cp_out st ! out)]\<rparr>"

text \<open>\<open>objectLookup\<close>: only objects are saved.\<close>

definition seen_at :: "gvalue \<Rightarrow> copy \<Rightarrow> nat option" where
  "seen_at v st = (case v of GRef r \<Rightarrow> map_of (cp_seen st) r | _ \<Rightarrow> None)"

definition new_output :: "gobject \<Rightarrow> gobject" where
  "new_output ob = (case ob of GArray vs tj \<Rightarrow> GArray [] None | GObject ps \<Rightarrow> GObject [])"

definition save_new :: "nat \<Rightarrow> gobject \<Rightarrow> copy \<Rightarrow> copy" where
  "save_new r ob st =
     \<lparr>cp_seen = AList.update r (length (cp_out st)) (cp_seen st), cp_out = cp_out st @ [new_output ob]\<rparr>"

text \<open>The fuel is the depth of the calls.\<close>

fun mapJsObjectGraph :: "nat \<Rightarrow> graph \<Rightarrow> gvalue \<Rightarrow> copy \<Rightarrow> (gvalue \<times> copy) option"
  and map_properties :: "nat \<Rightarrow> graph \<Rightarrow> nat \<Rightarrow> (gkey \<times> gvalue) list \<Rightarrow> copy \<Rightarrow> copy option"
where
  "mapJsObjectGraph 0 g v st = None"
| "mapJsObjectGraph (Suc n) g v st =
     (case mapInput g v of
        GRef r \<Rightarrow>
          (let ob = g_objects g ! r; out = length (cp_out st)
           in case map_properties n g out (properties ob) (save_new r ob st) of
                None \<Rightarrow> None
              | Some st' \<Rightarrow> Some (GRef out, st'))
      | u \<Rightarrow> Some (u, st))"
| "map_properties n g out [] st = Some st"
| "map_properties n g out ((k, v) # ps) st =
     (let value = mapInput g v
      in if object_like value then
           (case seen_at value st of
              Some o' \<Rightarrow> map_properties n g out ps (put out k (GRef o') st)
            | None \<Rightarrow>
                (case mapJsObjectGraph n g value st of
                   None \<Rightarrow> None
                 | Some (u, st') \<Rightarrow> map_properties n g out ps (put out k u st')))
         else map_properties n g out ps (put out k value st))"

definition ko_toJS :: "graph \<Rightarrow> gvalue \<Rightarrow> (gvalue \<times> copy) option" where
  "ko_toJS g v = mapJsObjectGraph (Suc (Suc (length (g_objects g)))) g v \<lparr>cp_seen = [], cp_out = []\<rparr>"

subsection \<open>What the copy is\<close>

text \<open>The value that stands for a value of the graph, by the table of visited objects.\<close>

definition copy_value :: "copy \<Rightarrow> gvalue \<Rightarrow> gvalue" where
  "copy_value st v = (case v of GRef r \<Rightarrow> (case map_of (cp_seen st) r of Some o' \<Rightarrow> GRef o' | None \<Rightarrow> v) | _ \<Rightarrow> v)"

text \<open>A property of an array, \<open>toJSON\<close>, is copied if it is a function.\<close>

definition copy_object :: "graph \<Rightarrow> copy \<Rightarrow> gobject \<Rightarrow> gobject" where
  "copy_object g st ob =
     (case ob of
        GArray vs tj \<Rightarrow>
          GArray (map (\<lambda>v. copy_value st (mapInput g v)) vs)
            (case tj of Some v \<Rightarrow> if typeof_function v then Some (copy_value st (mapInput g v)) else None | None \<Rightarrow> None)
      | GObject ps \<Rightarrow> GObject (map (\<lambda>(k, v). (k, copy_value st (mapInput g v))) ps))"

definition known :: "copy \<Rightarrow> gvalue \<Rightarrow> bool" where
  "known st v \<longleftrightarrow> (case v of GRef r \<Rightarrow> r \<in> fst ` set (cp_seen st) | _ \<Rightarrow> True)"

text \<open>An object has its copy: all it refers to is in the table.\<close>

definition copied :: "graph \<Rightarrow> copy \<Rightarrow> nat \<Rightarrow> bool" where
  "copied g st r \<longleftrightarrow>
     (\<forall>(k, v) \<in> set (properties (g_objects g ! r)). known st (mapInput g v)) \<and>
     (\<exists>o'. map_of (cp_seen st) r = Some o' \<and> o' < length (cp_out st) \<and>
        cp_out st ! o' = copy_object g st (g_objects g ! r))"

text \<open>The graph has no loose references, and no object has a property twice.\<close>

definition value_ok :: "graph \<Rightarrow> gvalue \<Rightarrow> bool" where
  "value_ok g v \<longleftrightarrow>
     (case v of GRef r \<Rightarrow> r < length (g_objects g) | GObs x \<Rightarrow> x < length (g_values g) | _ \<Rightarrow> True)"

definition graph_ok :: "graph \<Rightarrow> bool" where
  "graph_ok g \<longleftrightarrow> (\<forall>v \<in> set (g_values g). value_ok g v) \<and>
     (\<forall>ob \<in> set (g_objects g). (\<forall>(k, v) \<in> set (properties ob). value_ok g v) \<and>
        (case ob of GObject ps \<Rightarrow> distinct (map fst ps) | GArray vs tj \<Rightarrow> True))"

text \<open>The table numbers the objects in the order of their visits.\<close>

definition table_ok :: "graph \<Rightarrow> copy \<Rightarrow> bool" where
  "table_ok g st \<longleftrightarrow> distinct (map fst (cp_seen st)) \<and> map snd (cp_seen st) = [0..<length (cp_out st)] \<and>
     fst ` set (cp_seen st) \<subseteq> {..<length (g_objects g)}"

definition grows_to :: "copy \<Rightarrow> copy \<Rightarrow> bool" where
  "grows_to st st' \<longleftrightarrow> (\<exists>new. cp_seen st' = cp_seen st @ new) \<and> length (cp_out st) \<le> length (cp_out st')"

lemma read_nested_ok: "graph_ok g \<Longrightarrow> value_ok g v \<Longrightarrow> value_ok g (read_nested n g v)"
proof (induction n g v rule: read_nested.induct)
  case (1 n g x)
  then have "g_values g ! x \<in> set (g_values g)" by (simp add: value_ok_def)
  then show ?case using 1 by (simp add: graph_ok_def)
qed simp_all

lemma mapInput_ok: "graph_ok g \<Longrightarrow> value_ok g v \<Longrightarrow> value_ok g (mapInput g v)"
  by (simp add: mapInput_def read_nested_ok)

lemma mapInput_object_like [simp]: "object_like v \<Longrightarrow> mapInput g v = v"
  by (cases v) (simp_all add: mapInput_def object_like_def eval_nat_numeral)

lemma grows_refl: "grows_to st st"
  by (simp add: grows_to_def)

lemma grows_trans: "grows_to st st' \<Longrightarrow> grows_to st' st'' \<Longrightarrow> grows_to st st''"
  by (auto simp: grows_to_def)

lemma grows_lookup: "grows_to st st' \<Longrightarrow> map_of (cp_seen st) r = Some o' \<Longrightarrow> map_of (cp_seen st') r = Some o'"
  by (auto simp: grows_to_def map_add_def split: option.splits)

lemma known_grows: "known st v \<Longrightarrow> grows_to st st' \<Longrightarrow> known st' v"
  by (auto simp: known_def grows_to_def split: gvalue.splits)

lemma copy_value_grows: "known st v \<Longrightarrow> grows_to st st' \<Longrightarrow> copy_value st' v = copy_value st v"
proof (cases v)
  case (GRef r)
  assume "known st v" "grows_to st st'"
  moreover from this obtain o' where "map_of (cp_seen st) r = Some o'"
    using GRef by (auto simp: known_def dest: weak_map_of_SomeI)
  ultimately show ?thesis using GRef grows_lookup by (fastforce simp: copy_value_def)
qed (simp_all add: copy_value_def)

lemma copy_object_cong:
  assumes "\<And>k v. (k, v) \<in> set (properties ob) \<Longrightarrow> copy_value st' (mapInput g v) = copy_value st (mapInput g v)"
  shows "copy_object g st' ob = copy_object g st ob"
proof (cases ob)
  case (GArray vs tj)
  have "copy_value st' (mapInput g v) = copy_value st (mapInput g v)" if "v \<in> set vs" for v
  proof -
    obtain i where "i < length vs" "vs ! i = v" using \<open>v \<in> set vs\<close> by (auto simp: in_set_conv_nth)
    then have "(i, v) \<in> set (enumerate 0 vs)" by (auto simp: in_set_enumerate_eq)
    then show ?thesis by (intro assms [of "KIndex i"]) (auto simp: GArray properties_def)
  qed
  moreover have "copy_value st' (mapInput g v) = copy_value st (mapInput g v)" if "tj = Some v" "typeof_function v" for v
    using that by (intro assms [of "KName ''toJSON''"]) (simp add: GArray properties_def)
  ultimately show ?thesis by (simp add: GArray copy_object_def split: option.split)
next
  case (GObject ps)
  have "copy_value st' (mapInput g v) = copy_value st (mapInput g v)" if "(k, v) \<in> set ps" for k v
    using that by (intro assms [of "KName k"]) (force simp: GObject properties_def)
  then show ?thesis by (auto simp: GObject copy_object_def)
qed

lemma copied_grows:
  assumes c: "copied g st r" and st: "grows_to st st'" and out: "\<And>o'. map_of (cp_seen st) r = Some o' \<Longrightarrow> cp_out st' ! o' = cp_out st ! o'"
  shows "copied g st' r"
proof -
  obtain o' where o: "map_of (cp_seen st) r = Some o'" "o' < length (cp_out st)"
    "cp_out st ! o' = copy_object g st (g_objects g ! r)"
    and k: "\<And>k v. (k, v) \<in> set (properties (g_objects g ! r)) \<Longrightarrow> known st (mapInput g v)"
    using c by (auto simp: copied_def)
  have "copy_object g st' (g_objects g ! r) = copy_object g st (g_objects g ! r)"
    by (rule copy_object_cong) (rule copy_value_grows [OF k st])
  then show ?thesis
    using o out grows_lookup [OF st o(1)] known_grows [OF k st] st by (auto simp: copied_def grows_to_def)
qed

subsection \<open>Writing the properties\<close>

definition fill :: "(gvalue \<Rightarrow> gvalue) \<Rightarrow> (gkey \<times> gvalue) list \<Rightarrow> gobject \<Rightarrow> gobject" where
  "fill h ps ob = fold (\<lambda>(k, v). set_property k (h v)) ps ob"

lemma fill_Cons [simp]: "fill h ((k, v) # ps) ob = fill h ps (set_property k (h v) ob)" "fill h [] ob = ob"
  by (simp_all add: fill_def)

lemma fill_append: "fill h (ps @ qs) ob = fill h qs (fill h ps ob)"
  by (simp add: fill_def)

lemma fill_array: "fill h (map (\<lambda>(i, v). (KIndex i, v)) (enumerate (length us) vs)) (GArray us tj) = GArray (us @ map h vs) tj"
proof (induction vs arbitrary: us)
  case (Cons v vs)
  have "fill h (map (\<lambda>(i, v). (KIndex i, v)) (enumerate (length (us @ [h v])) vs)) (GArray (us @ [h v]) tj) =
      GArray ((us @ [h v]) @ map h vs) tj"
    by (rule Cons.IH)
  then show ?case by (simp add: set_property_def)
qed simp

lemma fill_object:
  "distinct (map fst ps) \<Longrightarrow> fst ` set ps \<inter> fst ` set qs = {} \<Longrightarrow>
   fill h (map (\<lambda>(k, v). (KName k, v)) ps) (GObject qs) = GObject (qs @ map (\<lambda>(k, v). (k, h v)) ps)"
proof (induction ps arbitrary: qs)
  case (Cons p ps)
  obtain k v where p: "p = (k, v)" by (cases p)
  have "k \<notin> fst ` set qs" using Cons.prems(2) p by auto
  then have "oset k (h v) qs = qs @ [(k, h v)]" by (induction qs) auto
  moreover have "fst ` set ps \<inter> fst ` set (qs @ [(k, h v)]) = {}" using Cons.prems p by auto
  ultimately show ?case using Cons.IH [of "qs @ [(k, h v)]"] Cons.prems(1) p by (simp add: set_property_def)
qed simp

text \<open>Writing all properties of an object into an empty one copies it.\<close>

lemma fill_new:
  assumes "case ob of GObject ps \<Rightarrow> distinct (map fst ps) | GArray vs tj \<Rightarrow> True"
  shows "fill (\<lambda>v. copy_value st (mapInput g v)) (properties ob) (new_output ob) = copy_object g st ob"
proof (cases ob)
  case (GArray vs tj)
  then show ?thesis
    using fill_array [of "\<lambda>v. copy_value st (mapInput g v)" "[]" vs None]
    by (auto simp: properties_def new_output_def copy_object_def fill_append set_property_def split: option.split)
next
  case (GObject ps)
  then show ?thesis using fill_object [of ps "[]"] assms by (simp add: properties_def new_output_def copy_object_def)
qed

lemma fill_cong: "(\<And>k v. (k, v) \<in> set ps \<Longrightarrow> h v = h' v) \<Longrightarrow> fill h ps ob = fill h' ps ob"
  unfolding fill_def by (rule fold_cong) auto

subsection \<open>The visit\<close>

definition seen_set :: "copy \<Rightarrow> nat set" where
  "seen_set st = fst ` set (cp_seen st)"

definition unseen :: "graph \<Rightarrow> copy \<Rightarrow> nat" where
  "unseen g st = card ({..<length (g_objects g)} - seen_set st)"

lemma put_sel [simp]:
  "cp_seen (put o' k v st) = cp_seen st" "length (cp_out (put o' k v st)) = length (cp_out st)"
  "i \<noteq> o' \<Longrightarrow> cp_out (put o' k v st) ! i = cp_out st ! i"
  "o' < length (cp_out st) \<Longrightarrow> cp_out (put o' k v st) ! o' = set_property k v (cp_out st ! o')"
  by (simp_all add: put_def)

lemma put_same [simp]:
  "table_ok g (put o' k v st) = table_ok g st" "grows_to st' (put o' k v st) = grows_to st' st"
  "seen_set (put o' k v st) = seen_set st" "unseen g (put o' k v st) = unseen g st"
  by (simp_all add: table_ok_def grows_to_def seen_set_def unseen_def)

lemma unseen_grows: "grows_to st st' \<Longrightarrow> unseen g st' \<le> unseen g st"
  unfolding unseen_def by (intro card_mono) (auto simp: grows_to_def seen_set_def)

text \<open>Objects seen later have later numbers.\<close>

lemma later_number:
  assumes "table_ok g st" "table_ok g st'" "grows_to st st'" "r \<notin> seen_set st" "map_of (cp_seen st') r = Some o'"
  shows "length (cp_out st) \<le> o'" "o' < length (cp_out st')"
proof -
  obtain new where new: "cp_seen st' = cp_seen st @ new" using assms(3) by (auto simp: grows_to_def)
  have "map_of (cp_seen st) r = None" using assms(4) by (simp add: seen_set_def map_of_eq_None_iff)
  then have "map_of new r = Some o'" using assms(5) new by (simp add: map_add_def split: option.splits)
  then have o': "o' \<in> set (map snd new)" by (force dest: map_of_SomeD)
  have "length (cp_seen st) = length (cp_out st)" "map snd (cp_seen st') = [0..<length (cp_out st')]"
    using assms(1,2) by (auto simp: table_ok_def dest: arg_cong [of _ _ length])
  then have "map snd new = drop (length (cp_out st)) [0..<length (cp_out st')]"
    using new by (metis append_eq_conv_conj length_map map_append)
  then have "map snd new = [length (cp_out st)..<length (cp_out st')]" by (simp add: drop_upt)
  then show "length (cp_out st) \<le> o'" "o' < length (cp_out st')" using o' by auto
qed

definition visited :: "graph \<Rightarrow> copy \<Rightarrow> copy \<Rightarrow> bool" where
  "visited g st st' \<longleftrightarrow> table_ok g st' \<and> grows_to st st' \<and> (\<forall>r \<in> seen_set st' - seen_set st. copied g st' r)"

text \<open>What was copied stays so while only the object in progress and later ones change.\<close>

lemma visited_trans:
  assumes st: "table_ok g st" and a: "visited g st st1" and b: "visited g st1 st2"
    and same: "\<And>i. length (cp_out st) \<le> i \<Longrightarrow> i < length (cp_out st1) \<Longrightarrow> cp_out st2 ! i = cp_out st1 ! i"
  shows "visited g st st2"
proof -
  have "copied g st2 r" if r: "r \<in> seen_set st2" "r \<notin> seen_set st" for r
  proof (cases "r \<in> seen_set st1")
    case True
    have "copied g st1 r" using a True r(2) by (simp add: visited_def)
    moreover have "cp_out st2 ! o' = cp_out st1 ! o'" if "map_of (cp_seen st1) r = Some o'" for o'
      using later_number [OF st _ _ r(2) that] a same by (simp add: visited_def)
    ultimately show ?thesis using copied_grows b by (auto simp: visited_def)
  next
    case False
    then show ?thesis using b r(1) by (simp add: visited_def)
  qed
  moreover have "grows_to st st2" using a b grows_trans by (auto simp: visited_def)
  ultimately show ?thesis using b by (simp add: visited_def)
qed

lemma visited_put:
  assumes st: "table_ok g st" and a: "visited g st st1" and o': "o' < length (cp_out st)"
  shows "visited g st (put o' k v st1)"
proof -
  have "copied g (put o' k v st1) r" if r: "r \<in> seen_set st1" "r \<notin> seen_set st" for r
  proof (rule copied_grows)
    show "copied g st1 r" using a r by (simp add: visited_def)
    show "cp_out (put o' k v st1) ! i = cp_out st1 ! i" if "map_of (cp_seen st1) r = Some i" for i
      using later_number [OF st _ _ r(2) that] a o' by (simp add: visited_def)
  qed (simp add: grows_refl)
  then show ?thesis using a by (simp add: visited_def)
qed

lemma visited_refl: "table_ok g st \<Longrightarrow> visited g st st"
  by (simp add: visited_def grows_refl)

text \<open>The result of a call for a value, and of the loop over the properties of the object with the number \<open>out\<close>.\<close>

definition mapped_value :: "graph \<Rightarrow> gvalue \<Rightarrow> copy \<Rightarrow> gvalue \<times> copy \<Rightarrow> bool" where
  "mapped_value g v st = (\<lambda>(w, st').
     visited g st st' \<and> w = copy_value st' (mapInput g v) \<and> known st' (mapInput g v) \<and>
     (\<forall>i < length (cp_out st). cp_out st' ! i = cp_out st ! i))"

definition mapped_properties :: "graph \<Rightarrow> nat \<Rightarrow> (gkey \<times> gvalue) list \<Rightarrow> copy \<Rightarrow> copy \<Rightarrow> bool" where
  "mapped_properties g out ps st st' \<longleftrightarrow>
     visited g st st' \<and> (\<forall>(k, v) \<in> set ps. known st' (mapInput g v)) \<and>
     (\<forall>i < length (cp_out st). i \<noteq> out \<longrightarrow> cp_out st' ! i = cp_out st ! i) \<and>
     cp_out st' ! out = fill (\<lambda>v. copy_value st' (mapInput g v)) ps (cp_out st ! out)"

text \<open>One property after the other: \<open>w\<close> has been put.\<close>

lemma mapped_Cons:
  assumes st: "table_ok g st" and out: "out < length (cp_out st)" and first: "mapped_value g v st (w, st1)"
    and rest: "mapped_properties g out ps (put out k w st1) st'"
  shows "mapped_properties g out ((k, v) # ps) st st'"
proof -
  have f: "visited g st st1" "w = copy_value st1 (mapInput g v)" "known st1 (mapInput g v)"
    "\<forall>i < length (cp_out st). cp_out st1 ! i = cp_out st ! i"
    using first by (simp_all add: mapped_value_def)
  have r: "visited g (put out k w st1) st'" "\<forall>(k, v) \<in> set ps. known st' (mapInput g v)"
    "\<forall>i < length (cp_out st1). i \<noteq> out \<longrightarrow> cp_out st' ! i = cp_out (put out k w st1) ! i"
    "cp_out st' ! out = fill (\<lambda>v. copy_value st' (mapInput g v)) ps (cp_out (put out k w st1) ! out)"
    using rest by (simp_all add: mapped_properties_def)
  have len: "length (cp_out st) \<le> length (cp_out st1)" using f(1) by (simp add: visited_def grows_to_def)
  have grow: "grows_to st1 st'" using r(1) by (simp add: visited_def grows_to_def)
  have "visited g st st'"
  proof (rule visited_trans [OF st visited_put [OF st f(1) out, of k w] r(1)])
    show "cp_out st' ! i = cp_out (put out k w st1) ! i" if "length (cp_out st) \<le> i" "i < length (cp_out (put out k w st1))" for i
      using r(3) that out by simp
  qed
  moreover have "known st' (mapInput g v)" by (rule known_grows [OF f(3) grow])
  moreover have "copy_value st' (mapInput g v) = w" using copy_value_grows [OF f(3) grow] f(2) by simp
  ultimately show ?thesis
    using f(4) r(2-4) out len by (simp add: mapped_properties_def)
qed

lemma table_save:
  "table_ok g st \<Longrightarrow> r \<notin> seen_set st \<Longrightarrow> r < length (g_objects g) \<Longrightarrow>
   table_ok g (save_new r ob st) \<and> cp_seen (save_new r ob st) = cp_seen st @ [(r, length (cp_out st))] \<and>
   Suc (unseen g (save_new r ob st)) = unseen g st"
proof -
  assume a: "table_ok g st" "r \<notin> seen_set st" "r < length (g_objects g)"
  have u: "AList.update r i xs = xs @ [(r, i)]" if "r \<notin> fst ` set xs" for xs :: "(nat \<times> nat) list" and i
    using that by (induction xs) auto
  have seen: "cp_seen (save_new r ob st) = cp_seen st @ [(r, length (cp_out st))]"
    using a(2) by (simp add: save_new_def u seen_set_def)
  have "{..<length (g_objects g)} - seen_set st = insert r ({..<length (g_objects g)} - seen_set (save_new r ob st))"
    using a(2,3) seen by (auto simp: seen_set_def)
  moreover have "r \<notin> {..<length (g_objects g)} - seen_set (save_new r ob st)" using seen by (simp add: seen_set_def)
  ultimately have "Suc (unseen g (save_new r ob st)) = unseen g st" by (simp add: unseen_def)
  moreover have "length (cp_out (save_new r ob st)) = Suc (length (cp_out st))" by (simp add: save_new_def)
  ultimately show ?thesis using a seen by (auto simp: table_ok_def seen_set_def)
qed

lemma graph_properties:
  "graph_ok g \<Longrightarrow> r < length (g_objects g) \<Longrightarrow> (k, v) \<in> set (properties (g_objects g ! r)) \<Longrightarrow> value_ok g v"
  "graph_ok g \<Longrightarrow> r < length (g_objects g) \<Longrightarrow>
     case g_objects g ! r of GObject ps \<Rightarrow> distinct (map fst ps) | GArray vs tj \<Rightarrow> True"
  using nth_mem [of r "g_objects g"] by (auto simp: graph_ok_def)

lemma mapped_reference:
  assumes g: "graph_ok g" and r: "mapInput g v = GRef r" "r < length (g_objects g)" "r \<notin> seen_set st"
    and st: "table_ok g st"
    and ps: "mapped_properties g (length (cp_out st)) (properties (g_objects g ! r)) (save_new r (g_objects g ! r) st) st'"
  shows "mapped_value g v st (GRef (length (cp_out st)), st')"
proof -
  let ?ob = "g_objects g ! r" and ?out = "length (cp_out st)"
  let ?st1 = "save_new r ?ob st"
  note save = table_save [OF st r(3,2), of ?ob]
  have out1: "cp_out ?st1 = cp_out st @ [new_output ?ob]" by (simp add: save_new_def)
  have p: "visited g ?st1 st'" "\<forall>(k, v) \<in> set (properties ?ob). known st' (mapInput g v)"
    "\<And>i. i < ?out \<Longrightarrow> cp_out st' ! i = cp_out st ! i"
    "cp_out st' ! ?out = fill (\<lambda>v. copy_value st' (mapInput g v)) (properties ?ob) (new_output ?ob)"
    using ps by (auto simp: mapped_properties_def out1 nth_append)
  have grow: "grows_to st ?st1" "grows_to ?st1 st'" using save p(1) out1 by (auto simp: grows_to_def visited_def)
  have at: "map_of (cp_seen st') r = Some ?out"
  proof (rule grows_lookup [OF grow(2)])
    have "map_of (cp_seen st) r = None" using r(3) by (simp add: seen_set_def map_of_eq_None_iff)
    then show "map_of (cp_seen ?st1) r = Some ?out" using save by (simp add: map_add_def)
  qed
  have len: "?out < length (cp_out st')" using grow(2) out1 by (simp add: grows_to_def)
  have "copied g st' r"
    using p(2,4) at len fill_new [OF graph_properties(2) [OF g r(2)]] by (simp add: copied_def)
  moreover have "seen_set ?st1 = insert r (seen_set st)" using save by (simp add: seen_set_def)
  ultimately have "visited g st st'"
    using p(1) grows_trans [OF grow] by (auto simp: visited_def)
  moreover have "known st' (GRef r)" using at by (force simp: known_def dest: map_of_SomeD)
  ultimately show ?thesis using r(1) at p(3) by (simp add: mapped_value_def copy_value_def)
qed

lemma map_graph_spec:
  shows "graph_ok g \<Longrightarrow> value_ok g v \<Longrightarrow> table_ok g st \<Longrightarrow> unseen g st < n \<Longrightarrow> seen_at (mapInput g v) st = None \<Longrightarrow>
      \<exists>r. mapJsObjectGraph n g v st = Some r \<and> mapped_value g v st r"
    and "graph_ok g \<Longrightarrow> (\<forall>(k, v) \<in> set ps. value_ok g v) \<Longrightarrow> table_ok g st \<Longrightarrow> out < length (cp_out st) \<Longrightarrow> unseen g st < n \<Longrightarrow>
      \<exists>st'. map_properties n g out ps st = Some st' \<and> mapped_properties g out ps st st'"
proof (induction n g v st and n g out ps st rule: mapJsObjectGraph_map_properties.induct)
  case (1 g v st)
  then show ?case by simp
next
  case (2 n g v st)
  show ?case
  proof (cases "\<exists>r. mapInput g v = GRef r")
    case False
    then have "mapJsObjectGraph (Suc n) g v st = Some (mapInput g v, st)" by (cases "mapInput g v") auto
    moreover have "mapped_value g v st (mapInput g v, st)"
      using False visited_refl [OF 2(4)] by (cases "mapInput g v") (auto simp: mapped_value_def copy_value_def known_def)
    ultimately show ?thesis by blast
  next
    case True
    then obtain r where r: "mapInput g v = GRef r" by blast
    let ?ob = "g_objects g ! r" and ?out = "length (cp_out st)"
    have rl: "r < length (g_objects g)" using mapInput_ok [OF 2(2,3)] r by (simp add: value_ok_def)
    have new: "r \<notin> seen_set st" using 2(6) r by (simp add: seen_at_def seen_set_def map_of_eq_None_iff)
    note save = table_save [OF 2(4) new rl, of ?ob]
    have "\<exists>st'. map_properties n g ?out (properties ?ob) (save_new r ?ob st) = Some st' \<and>
        mapped_properties g ?out (properties ?ob) (save_new r ?ob st) st'"
    proof (rule 2(1) [OF r refl refl 2(2)])
      show "\<forall>(k, v) \<in> set (properties ?ob). value_ok g v" using graph_properties(1) [OF 2(2) rl] by blast
      show "?out < length (cp_out (save_new r ?ob st))" by (simp add: save_new_def)
    qed (use save 2(5) in auto)
    then obtain st' where st': "map_properties n g ?out (properties ?ob) (save_new r ?ob st) = Some st'"
      "mapped_properties g ?out (properties ?ob) (save_new r ?ob st) st'" by blast
    have "mapped_value g v st (GRef ?out, st')"
      by (rule mapped_reference [OF 2(2) r rl new 2(4) st'(2)])
    then show ?thesis using r st'(1) by (simp add: Let_def)
  qed
next
  case (3 n g out st)
  then show ?case by (simp add: mapped_properties_def visited_refl)
next
  case (4 n g out k v ps st)
  let ?copied = "mapInput g v"
  have ok: "value_ok g ?copied" using mapInput_ok [OF 4(5)] 4(6) by simp
  have rest_ok: "\<forall>(k, v) \<in> set ps. value_ok g v" using 4(6) by simp
  have step: ?case
    if run: "map_properties n g out ((k, v) # ps) st = map_properties n g out ps (put out k w st1)"
      and first: "mapped_value g v st (w, st1)"
      and ih: "graph_ok g \<Longrightarrow> \<forall>(k, v) \<in> set ps. value_ok g v \<Longrightarrow> table_ok g (put out k w st1) \<Longrightarrow>
        out < length (cp_out (put out k w st1)) \<Longrightarrow> unseen g (put out k w st1) < n \<Longrightarrow>
        \<exists>st'. map_properties n g out ps (put out k w st1) = Some st' \<and> mapped_properties g out ps (put out k w st1) st'"
    for w st1
  proof -
    have v1: "visited g st st1" using first by (simp add: mapped_value_def)
    then have "table_ok g st1" "out < length (cp_out st1)" "unseen g st1 < n"
      using 4(8,9) unseen_grows [of st st1 g] by (auto simp: visited_def grows_to_def)
    then obtain st' where "map_properties n g out ps (put out k w st1) = Some st'"
      "mapped_properties g out ps (put out k w st1) st'"
      using ih [OF 4(5) rest_ok] by auto
    then show ?thesis using run mapped_Cons [OF 4(7,8) first] by auto
  qed
  show ?case
  proof (cases "object_like ?copied")
    case False
    have "mapped_value g v st (?copied, st)"
      using False visited_refl [OF 4(7)] by (cases ?copied) (auto simp: mapped_value_def copy_value_def known_def object_like_def)
    note first = this
    have run: "map_properties n g out ((k, v) # ps) st = map_properties n g out ps (put out k ?copied st)"
      using False by (simp add: Let_def)
    show ?thesis by (rule step [OF run first 4(4) [OF refl False]])
  next
    case True
    show ?thesis
    proof (cases "seen_at ?copied st")
      case (Some o')
      then obtain r where r: "?copied = GRef r" "map_of (cp_seen st) r = Some o'"
        by (auto simp: seen_at_def split: gvalue.splits)
      have "mapped_value g v st (GRef o', st)"
        using r visited_refl [OF 4(7)] by (force simp: mapped_value_def copy_value_def known_def dest: map_of_SomeD)
      note first = this
      have run: "map_properties n g out ((k, v) # ps) st = map_properties n g out ps (put out k (GRef o') st)"
        using True Some by (simp add: Let_def)
      show ?thesis by (rule step [OF run first 4(3) [OF refl True Some]])
    next
      case None
      have "\<exists>r. mapJsObjectGraph n g ?copied st = Some r \<and> mapped_value g ?copied st r"
        by (rule 4(1) [OF refl True None 4(5) ok 4(7,9)]) (simp add: True None)
      then obtain w st1 where w: "mapJsObjectGraph n g ?copied st = Some (w, st1)" "mapped_value g ?copied st (w, st1)" by auto
      have "mapped_value g v st (w, st1)" using w(2) True by (simp add: mapped_value_def)
      note first = this
      have run: "map_properties n g out ((k, v) # ps) st = map_properties n g out ps (put out k w st1)"
        using True None w(1) by (simp add: Let_def)
      show ?thesis by (rule step [OF run first 4(2) [OF refl True None w(1) refl]])
    qed
  qed
qed

text \<open>The copy of a value: a number is given to each object that can be reached, each has its copy, and
  the value refers to the copy of what it referred to.\<close>

definition graph_copy :: "graph \<Rightarrow> gvalue \<Rightarrow> gvalue \<Rightarrow> copy \<Rightarrow> bool" where
  "graph_copy g v w st \<longleftrightarrow>
     w = copy_value st (mapInput g v) \<and> known st (mapInput g v) \<and>
     (\<forall>r \<in> fst ` set (cp_seen st). copied g st r) \<and>
     distinct (map fst (cp_seen st)) \<and> map snd (cp_seen st) = [0..<length (cp_out st)]"

text \<open>C7: \<open>ko.toJS\<close> returns for every graph of objects, with cycles or without, and what it returns is a copy in which
  every object has one copy, so sharing and cycles are kept, and observables have been replaced by their values.\<close>

theorem toJS_copies_graph:
  assumes "graph_ok g" and "value_ok g v"
  shows "\<exists>w st. ko_toJS g v = Some (w, st) \<and> graph_copy g v w st"
proof -
  let ?st = "\<lparr>cp_seen = [], cp_out = []\<rparr> :: copy"
  have "table_ok g ?st" by (simp add: table_ok_def)
  moreover have "unseen g ?st < Suc (Suc (length (g_objects g)))" by (simp add: unseen_def seen_set_def)
  moreover have "seen_at (mapInput g v) ?st = None" by (simp add: seen_at_def split: gvalue.split)
  ultimately obtain w st where r: "ko_toJS g v = Some (w, st)" "mapped_value g v ?st (w, st)"
    using map_graph_spec(1) [OF assms, of ?st] unfolding ko_toJS_def by (metis surj_pair)
  then have "graph_copy g v w st"
    by (auto simp: mapped_value_def visited_def graph_copy_def table_ok_def seen_set_def)
  then show ?thesis using r(1) by blast
qed

text \<open>Two people, who know each other, in an observable array and a property.\<close>

definition friends :: graph where
  "friends =
     \<lparr>g_objects = [GObject [(''people'', GObs 0), (''first'', GRef 2)], GArray [GRef 2, GRef 3] None,
        GObject [(''name'', GObs 1), (''friend'', GRef 3)], GObject [(''name'', GText ''Bo''), (''friend'', GObs 2)]],
      g_values = [GRef 1, GText ''Al'', GRef 2]\<rparr>"

theorem toJS_copies_graph_witness:
  "\<exists>st. ko_toJS friends (GRef 0) = Some (GRef 0, st) \<and> graph_copy friends (GRef 0) (GRef 0) st \<and>
     cp_out st = [GObject [(''people'', GRef 1), (''first'', GRef 2)], GArray [GRef 2, GRef 3] None,
       GObject [(''name'', GText ''Al''), (''friend'', GRef 3)], GObject [(''name'', GText ''Bo''), (''friend'', GRef 2)]]"
proof -
  have ok: "graph_ok friends" "value_ok friends (GRef 0)"
    by (auto simp: graph_ok_def friends_def value_ok_def properties_def)
  have run: "ko_toJS friends (GRef 0) = Some (GRef 0,
     \<lparr>cp_seen = [(0, 0), (1, 1), (2, 2), (3, 3)],
      cp_out = [GObject [(''people'', GRef 1), (''first'', GRef 2)], GArray [GRef 2, GRef 3] None,
       GObject [(''name'', GText ''Al''), (''friend'', GRef 3)], GObject [(''name'', GText ''Bo''), (''friend'', GRef 2)]]\<rparr>)"
    by code_simp
  then show ?thesis using toJS_copies_graph [OF ok] by auto
qed

end
