(* ===== verification/Spec2Isabelle.thy ===== *)
theory Spec2Isabelle
  imports KoArray KoCompare KoExpr KoReads KoUtils SitePage DashboardProps SammyApp SammyRender JqDeferred ValForm KoMapProps KoRenderProps KoToJS
begin

text \<open>
  A verification library for the scripts of the web interface, src/web.ui/TU.Web/Scripts. The page
  shows a dashboard of widgets and a list of requests. Its own code is \<open>SiteScripts.js\<close>, with the click
  handlers and the view models of the page, and \<open>jquery.dashboard.js\<close>, the dashboard plug-in; under them
  lie the libraries the repository carries in source: knockout binds view models to the page,
  \<open>knockout.mapping\<close> builds them from data of the server, sammy maps locations and forms to handlers,
  \<open>jquery.validate.js\<close> checks forms before they are sent, and jQuery gives all of them collections,
  callback lists and deferreds.

  \<^bold>\<open>Conventions.\<close> A call that may throw gives \<open>js_error + 'a\<close>, or, where it changes state, is an action
  \<open>'s \<Rightarrow> (js_error + 'a) \<times> 's\<close>, so that what was done before an exception stays done. Objects used as
  dictionaries are association lists in insertion order. Strings are lists of code units below 256.
  Functions that an application supplies are arguments: as programs over the component's state where
  they may call back into it, as functions of the state where the code only reads their result. The
  document is a tree of elements. A time-out, a request or an animation is recorded when it
  is started, and its end is a separate event of the machine, in any order the caller chooses.

  \<^bold>\<open>Shared theories.\<close>
    \<^item> \<open>Prelude\<close>: results, objects, lists by index, and the locale \<open>machine\<close>: a step function with a predicate
      every step keeps, so that every run keeps it. It is interpreted on the observable arrays, the DOM
      data, the view models of the page, the dashboard, the sammy application, the deferreds and the form.
    \<^item> \<open>Action\<close>: actions, the collections \<open>act_simps\<close> (run one) and \<open>keeps_intros\<close> (it keeps a predicate), and
      triples with a postcondition for a value and one for an exception.
    \<^item> \<open>JsString\<close>, \<open>JsNumber\<close>, \<open>JsValue\<close>, \<open>JsRegex\<close>: what the scripts use of the language: string methods,
      \<open>Number(text)\<close> and comparison with NaN (\<open>jsnum\<close> is an instance of \<open>ord\<close>, not of \<open>linorder\<close>, which NaN
      forbids), values and their texts, and regular expressions matched by backtracking, best match first.
    \<^item> \<open>Dom\<close>: the tree of elements and the jQuery operations on it that the page scripts call.

  \<^bold>\<open>Components.\<close>
    \<^item> \<open>KoCompare\<close> is \<open>ko.utils.compareArrays\<close>: \<open>editDistanceMatrix\<close> with its band, the walk back
      \<open>edit_walk_loop\<close>, the pairing of moves \<open>find_moves\<close>. The script turns the old array into the new one,
      and its indices and move links are right. The walk is shown never to leave the band.
    \<^item> \<open>KoUtils\<close> has the helpers of \<open>ko.utils\<close> and \<open>ko.utils.domData\<close>.
    \<^item> \<open>KoExpr\<close> is \<open>ko.expressionRewriting\<close>. \<open>restoreTokens\<close> loops until nothing changes, which need not
      happen: it is a \<open>partial_function (option)\<close>, its normal behaviour is proved total, and what token names in
      a literal do to it is a property.
    \<^item> \<open>KoObservable\<close> is \<open>ko.subscribable\<close>, \<open>ko.observable\<close>, \<open>ko.dependencyDetection\<close> and
      \<open>ko.dependentObservable\<close>. The heap record holds the subscribables with their subscriptions, the stack of
      dependency frames and the computeds; read functions and callbacks are programs; \<open>exec\<close> runs with
      fuel for the depth of nested evaluations, and gives no result when that is used up.
      Two locales state what each primitive operation must satisfy for a relation between heaps to hold
      over every run (\<open>ko_laws\<close>, and \<open>ko_run_laws\<close> for the evaluation of computeds); they are interpreted on four
      relations: balanced frames, computeds that are being evaluated, stuck computeds, and sound links.
      \<open>KoReads\<close> has the observables that a run of a program reads (\<open>reads_of\<close>) and proves that the frame notes
      exactly these, and that a computed ends up subscribed to them.
    \<^item> \<open>KoArray\<close> is \<open>ko.observableArray\<close>: mutators, with what they throw, and the notifications from which a
      subscriber can follow.
    \<^item> \<open>KoRender\<close> is \<open>ko.utils.setDomNodeChildrenFromArrayMapping\<close>: the children of a container are updated from
      one array to the next by the script of \<open>compareArrays\<close>. \<open>walk\<close> is the loop over the script, which queues
      what is kept, new or removed; \<open>process\<close> and \<open>place\<close> put the nodes in order; \<open>remap\<close> is the computed around
      the mapping of an item. \<open>KoRenderProps\<close>: a script uses every position of the old array once
      (\<open>uses_once\<close>, from the move links), so the children always are those of the array
      rendered from scratch, and nodes are reused for the same entry only.
    \<^item> \<open>KoToJS\<close> is \<open>ko.toJS\<close>: a depth-first copy of an object graph with a table of visited objects, on a
      heap, so that sharing and cycles are in the model. The fuel is the depth of the calls; the number of
      objects plus two is enough, as the property shows.
    \<^item> \<open>KoMapping\<close> is \<open>ko.mapping\<close>: \<open>fillOptions\<close>, \<open>updateViewModel\<close> with its loops over properties
      (\<open>update_props\<close>) and over the edit script of an array (\<open>run_script\<close>, on \<open>compareArrays\<close>), \<open>fromJS\<close>,
      \<open>visitModel\<close> and \<open>toJS\<close>, on trees. \<open>KoMapProps\<close> proves the round trip, and when \<open>fromJS\<close> throws instead.
    \<^item> \<open>SitePage\<close> is \<open>SiteScripts.js\<close>: the layout handlers on the document, the request list and its selection.
    \<^item> \<open>Dashboard\<close> is \<open>jquery.dashboard.js\<close>: \<open>dash_state\<close> is the document, the registry of widgets, a store of
      widget objects and of metadata objects (the code shares one by reference) and what was sent to the
      server; \<open>dash_event\<close> are the calls of the page, the clicks and the answers to requests. \<open>DashboardProps\<close>
      has the invariant of the registry, saved layouts and faults. The locale \<open>dash_stable\<close> lists what a
      predicate needs to survive every event; it is interpreted on the invariant and on a widget's existence.
    \<^item> \<open>SammyParams\<close>, \<open>SammyRoutes\<close>: URI components, query strings and forms; \<open>Sammy.Object\<close>, routes as
      regular expressions, filter options. \<open>SammyApp\<close>: \<open>Sammy.Application\<close>, with events, filters, \<open>runRoute\<close>,
      forms, locations, \<open>run\<close> and \<open>unload\<close>, with the handlers they leave on the window; the locale \<open>app_predicate\<close> carries a predicate through route
      bodies and listeners. \<open>SammyRender\<close>: \<open>Sammy.RenderContext\<close>, a queue of functions run by timers and
      requests; it refines an abstract queue. Its locale \<open>kept_by_queueing\<close> is interpreted on queued
      and on stalled contexts.
    \<^item> \<open>JqCallbacks\<close> is \<open>jQuery.Callbacks\<close>, \<open>jQuery.Deferred\<close> and \<open>jQuery.when\<close>, as a machine that keeps the calls
      in progress on an explicit stack, since a callback may fire, add or remove while the list is fired.
      \<open>JqProps\<close> and \<open>JqDeferred\<close>: each function is called once and in order, removal during firing is right,
      a deferred settles once, an exception ends a list.
    \<^item> \<open>ValRules\<close>, \<open>ValMethods\<close>, \<open>Validator\<close> are \<open>jquery.validate.js\<close>: the rules of a control and their
      normalisation; the validation methods and \<open>$.validator.format\<close>; the validator object on one form, with error
      lists, labels, submission and remote checks, whose answers are events (\<open>vevent\<close>). \<open>ValCheck\<close> has the
      properties of rules and methods, \<open>ValProps\<close> those of remote checks in every reachable state (\<open>machine\<close> is
      interpreted twice: on the count of pending requests, and on a request that failed), \<open>ValForm\<close> that
      \<open>form()\<close> reports exactly the controls with a failing rule.

  \<^bold>\<open>Bounds and fuel.\<close> Loops whose end the code does not make plain are either proved to end
  (\<open>edit_walk_loop\<close>, the loops of \<open>Callbacks\<close>, the Luhn loop), or return \<open>option\<close> with their result proved to
  be \<open>Some\<close> where they return (\<open>restoreTokens\<close>, \<open>engineFor\<close>). Fuel occurs where supplied programs
  may nest without end; properties either hold for every fuel or name enough of it.

  \<^bold>\<open>Not modelled.\<close>
    \<^item> jQuery UI, jQuery Mobile, Modernizr, and jQuery outside callback lists and deferreds: the page only calls
      them; their selectors, style, animation, ajax and event code works on browser objects whose
      behaviour is not in the repository. What the scripts rely on is in \<open>Dom\<close> and in the events.
    \<^item> knockout's bindings and templates (they act on the live document through the browser), and the
      disposal of computeds when a node is removed.
    \<^item> \<open>knockout.mapping\<close> with callbacks as options, the function \<open>Object.create\<close> that it takes for one when a
      property is called \<open>constructor\<close>, and data with shared or cyclic objects.
    \<^item> \<open>jquery.validate.unobtrusive.js\<close> and \<open>jquery.unobtrusive-ajax.js\<close>, which turn attributes of the page into
      options of the validator and of \<open>$.ajax\<close>.
    \<^item> Files for the editor only (\<open>-vsdoc\<close>, \<open>intellisense\<close>, \<open>_references\<close>) and minified copies.
    \<^item> The server side: C#, Scala and Java, other languages than the scripts verified here.
    \<^item> In the modelled files: logging, plug-ins of sammy (\<open>use\<close>), options of the validator that are functions,
      the setting-up of jQuery UI dialogs, and text outside Latin-1.
\<close>

end
